(* ===== verification/Prelude.thy ===== *)
theory Prelude
  imports Main "HOL-Library.Word" "HOL-Library.Signed_Division"
begin

unbundle bit_operations_syntax

text \<open>
  Shared vocabulary of the development: the machine types of the C code (LP64), the ways a
  kernel function can fail to return, the error-propagating sequencing operator that every
  operation is written with, and the arithmetic facts on 32-bit and 64-bit words that the
  components share.

  A C \<open>int\<close> is a 32-bit word read as two's complement (\<open>sint\<close>, \<open><s\<close>, \<open>\<le>s\<close>), a
  \<open>long int\<close> and a pointer are 64-bit words, and the null pointer is 0.
\<close>

type_synonym cint = "32 word"
type_synonym clong = "64 word"
type_synonym ptr = "64 word"

abbreviation NULL :: ptr where
  "NULL \<equiv> 0"

text \<open>
  What stops a kernel function: a dereferenced null pointer, an array access outside the
  array, a division by zero, a failed \<open>assert\<close>, or a loop that never ends.
\<close>

datatype fault = NullDeref | OutOfBounds | DivByZero | AssertFailed | Hang

type_synonym 'a result = "fault + 'a"

text \<open>
  Collections of the development: \<open>result_simps\<close> evaluates the sequencing of operations,
  \<open>word_bounds\<close> converts words of known size to numbers.
\<close>

named_theorems result_simps "sequencing of operations that can fault"
named_theorems word_bounds "words of known size read as numbers"

subsection \<open>Sequencing\<close>

definition bindE :: "'a result \<Rightarrow> ('a \<Rightarrow> 'b result) \<Rightarrow> 'b result" where
  "bindE m f = (case m of Inl e \<Rightarrow> Inl e | Inr x \<Rightarrow> f x)"

definition check :: "bool \<Rightarrow> fault \<Rightarrow> 'a result \<Rightarrow> 'a result" where
  "check b e m = (if b then m else Inl e)"

text \<open>The result of a loop of the source: not returning is the fault \<open>Hang\<close>.\<close>

definition run_loop :: "'a option \<Rightarrow> 'a result" where
  "run_loop r = (case r of None \<Rightarrow> Inl Hang | Some x \<Rightarrow> Inr x)"

definition run_loopE :: "'a result option \<Rightarrow> 'a result" where
  "run_loopE r = (case r of None \<Rightarrow> Inl Hang | Some x \<Rightarrow> x)"

lemma bindE_simps [simp, result_simps]:
  "bindE (Inl e) f = Inl e"
  "bindE (Inr x) f = f x"
  by (simp_all add: bindE_def)

lemma check_simps [simp, result_simps]:
  "check True e m = m"
  "check False e m = Inl e"
  by (simp_all add: check_def)

lemma run_loop_simps [simp, result_simps]:
  "run_loop None = Inl Hang"
  "run_loop (Some x) = Inr x"
  "run_loopE None = Inl Hang"
  "run_loopE (Some y) = y"
  by (simp_all add: run_loop_def run_loopE_def)

lemma bindE_Inr_iff [result_simps]:
  "bindE m f = Inr y \<longleftrightarrow> (\<exists>x. m = Inr x \<and> f x = Inr y)"
  by (cases m) simp_all

lemma bindE_InrE [elim]:
  assumes "bindE m f = Inr y"
  obtains x where "m = Inr x" and "f x = Inr y"
  using assms by (cases m) simp_all

lemma check_Inr_iff [result_simps]:
  "check b e m = Inr y \<longleftrightarrow> b \<and> m = Inr y"
  by (simp add: check_def)

lemma bindE_assoc: "bindE (bindE m f) g = bindE m (\<lambda>x. bindE (f x) g)"
  by (cases m) simp_all

lemma bindE_cong [fundef_cong]:
  "m = m' \<Longrightarrow> (\<And>x. m' = Inr x \<Longrightarrow> f x = f' x) \<Longrightarrow> bindE m f = bindE m' f'"
  by (cases m') simp_all

lemma if_intro: "(b \<Longrightarrow> P) \<Longrightarrow> (\<not> b \<Longrightarrow> Q) \<Longrightarrow> if b then P else Q"
  by simp

lemma remove1_split:
  assumes "x \<in> set xs"
  obtains as bs where "xs = as @ x # bs" and "remove1 x xs = as @ bs"
  using assms split_list_first [of x xs] by (auto simp: remove1_append)

subsection \<open>Arrays and signed division\<close>

text \<open>
  An array of \<open>int\<close>s indexed by an \<open>int\<close>: an index outside the array is a fault. Division
  and remainder of C truncate towards zero.
\<close>

definition arr_get :: "'a list \<Rightarrow> cint \<Rightarrow> 'a result" where
  "arr_get xs i =
     check (0 \<le> sint i \<and> sint i < int (length xs)) OutOfBounds (Inr (xs ! nat (sint i)))"

definition arr_set :: "'a list \<Rightarrow> cint \<Rightarrow> 'a \<Rightarrow> 'a list result" where
  "arr_set xs i v =
     check (0 \<le> sint i \<and> sint i < int (length xs)) OutOfBounds (Inr (xs[nat (sint i) := v]))"

definition c_div :: "cint \<Rightarrow> cint \<Rightarrow> cint result" where
  "c_div a b = check (b \<noteq> 0) DivByZero (Inr (word_of_int (sint a sdiv sint b)))"

definition c_mod :: "cint \<Rightarrow> cint \<Rightarrow> cint result" where
  "c_mod a b = check (b \<noteq> 0) DivByZero (Inr (word_of_int (sint a smod sint b)))"

subsection \<open>Words of known size\<close>

lemma cint_of_nat_inj [word_bounds]:
  assumes "n < 2 ^ 32" and "k < 2 ^ 32"
  shows "(of_nat n :: cint) = of_nat k \<longleftrightarrow> n = k"
  using assms by (simp add: word_of_nat_eq_iff take_bit_eq_mod)

lemma cint_of_nat_zero_iff [word_bounds]:
  assumes "n < 2 ^ 32"
  shows "(of_nat n :: cint) = 0 \<longleftrightarrow> n = 0"
  using cint_of_nat_inj [OF assms, of 0] by simp

lemma sint_cint_of_nat [word_bounds]:
  assumes "n < 2 ^ 31"
  shows "sint (of_nat n :: cint) = int n"
  using assms by (simp add: signed_of_nat signed_take_bit_int_eq_self)

lemma sint_cint_of_int [word_bounds]:
  assumes "- (2 ^ 31) \<le> k" and "k < 2 ^ 31"
  shows "sint (word_of_int k :: cint) = k"
  using assms by (simp add: signed_of_int signed_take_bit_int_eq_self)

lemma cint_of_nat_neq_minus:
  assumes "n < 2 ^ 31"
  shows "(of_nat n :: cint) \<noteq> - 1" and "(of_nat n :: cint) \<noteq> - 2"
proof -
  have "sint (of_nat n :: cint) = int n" using assms by (rule sint_cint_of_nat)
  moreover have "sint (- 1 :: cint) = - 1" and "sint (- 2 :: cint) = - 2" by simp_all
  ultimately show "(of_nat n :: cint) \<noteq> - 1" and "(of_nat n :: cint) \<noteq> - 2" by force+
qed

lemma sint_range32: "- (2 ^ 31) \<le> sint (w :: cint)" "sint (w :: cint) < 2 ^ 31"
  using sint_greater_eq [of w] sint_less [of w] by simp_all

text \<open>Addresses inside a buffer that does not wrap around the end of the address space.\<close>

lemma uint_ptr_add [word_bounds]:
  fixes p :: ptr
  assumes "0 \<le> k" and "uint p + k < 2 ^ 64"
  shows "uint (p + word_of_int k) = uint p + k"
proof -
  have "p + word_of_int k = word_of_int (uint p + k)" by simp
  then have "uint (p + word_of_int k) = uint (word_of_int (uint p + k) :: ptr)" by (rule arg_cong)
  also have "\<dots> = (uint p + k) mod 2 ^ 64" by (simp only: uint_word_of_int) simp
  also have "\<dots> = uint p + k" using assms by (intro mod_pos_pos_trivial) auto
  finally show ?thesis .
qed

lemma sint_ptr_diff [word_bounds]:
  fixes p :: ptr
  assumes "0 \<le> k" and "k < 2 ^ 31"
  shows "sint (ucast (p + word_of_int k - p) :: cint) = k"
proof -
  have "(ucast (p + word_of_int k - p) :: cint) = word_of_int (take_bit 64 k)"
    by (simp add: unsigned_of_int)
  also have "take_bit 64 k = k" using assms by (simp add: take_bit_int_eq_self)
  finally show ?thesis using assms by (simp add: sint_cint_of_int)
qed

lemma cint_of_nat_mult: "of_nat j * w = (word_of_int (int j * sint w) :: cint)"
  by simp

end
