(* ===== verification/Linked_List.thy ===== *)
theory Linked_List
  imports Prelude
begin

text \<open>
  \<open>linked_list.c\<close> and \<open>linked_list.h\<close>: the intrusive doubly linked lists that every
  queue and table of the kernel is made of. A \<open>ListItem\<close> is the first member of the struct
  that is linked, so an item is named by the address of its struct, and the links of all
  structs of one type form a memory from addresses to items. The second half relates the
  pointer structure to the list of addresses it represents (\<open>dlist\<close>) and shows that insertion
  and removal refine insertion and removal on lists.
\<close>

subsection \<open>The data\<close>

record ListItem =
  li_prev :: ptr
  li_next :: ptr

record ListHead =
  lh_first :: ptr
  lh_last :: ptr
  lh_size :: cint

type_synonym list_mem = "ptr \<Rightarrow> ListItem"

definition set_prev :: "ptr \<Rightarrow> ptr \<Rightarrow> list_mem \<Rightarrow> list_mem" where
  "set_prev p q m = m(p := (m p)\<lparr>li_prev := q\<rparr>)"

definition set_next :: "ptr \<Rightarrow> ptr \<Rightarrow> list_mem \<Rightarrow> list_mem" where
  "set_next p q m = m(p := (m p)\<lparr>li_next := q\<rparr>)"

subsection \<open>The operations\<close>

definition List_init :: "ListHead" where
  "List_init = \<lparr>lh_first = NULL, lh_last = NULL, lh_size = 0\<rparr>"

partial_function (option) List_find_loop :: "list_mem \<Rightarrow> ptr \<Rightarrow> ptr \<Rightarrow> ptr option" where
  "List_find_loop m item aux =
     (if aux = NULL then Some NULL
      else if aux = item then Some item
      else List_find_loop m item (li_next (m aux)))"

definition List_find :: "list_mem \<Rightarrow> ListHead \<Rightarrow> ptr \<Rightarrow> ptr result" where
  "List_find m h item = run_loop (List_find_loop m item (lh_first h))"

definition List_insert ::
    "list_mem \<Rightarrow> ListHead \<Rightarrow> ptr \<Rightarrow> ptr \<Rightarrow> (ptr \<times> list_mem \<times> ListHead) result" where
  "List_insert m h prv item =
     check (item \<noteq> NULL) NullDeref
     (if li_next (m item) \<noteq> NULL \<or> li_prev (m item) \<noteq> NULL then Inr (NULL, m, h)
      else
        let nxt = (if prv \<noteq> NULL then li_next (m prv) else lh_first h);
            m1 = (if prv \<noteq> NULL then set_next prv item (set_prev item prv m) else m);
            m2 = (if nxt \<noteq> NULL then set_prev nxt item (set_next item nxt m1) else m1);
            h1 = (if prv = NULL then h\<lparr>lh_first := item\<rparr> else h);
            h2 = (if nxt = NULL then h1\<lparr>lh_last := item\<rparr> else h1)
        in Inr (item, m2, h2\<lparr>lh_size := lh_size h2 + 1\<rparr>))"

definition List_detach ::
    "list_mem \<Rightarrow> ListHead \<Rightarrow> ptr \<Rightarrow> (ptr \<times> list_mem \<times> ListHead) result" where
  "List_detach m h item =
     check (item \<noteq> NULL) NullDeref
     (let prv = li_prev (m item);
          nxt = li_next (m item);
          m1 = (if prv \<noteq> NULL then set_next prv nxt m else m);
          m2 = (if nxt \<noteq> NULL then set_prev nxt prv m1 else m1);
          h1 = (if item = lh_first h then h\<lparr>lh_first := nxt\<rparr> else h);
          h2 = (if item = lh_last h1 then h1\<lparr>lh_last := prv\<rparr> else h1);
          h3 = h2\<lparr>lh_size := lh_size h2 - 1\<rparr>
      in Inr (item, set_prev item NULL (set_next item NULL m2), h3))"

text \<open>
  The table lookups of the kernel (by id, by descriptor number, by pid) are one loop,
  \<open>while (aux) { if (hit(aux)) return aux; aux = aux->next; } return 0;\<close>, whose test reads the
  struct that \<open>aux\<close> heads and can fault.
\<close>

partial_function (option) list_scan :: "(ptr \<Rightarrow> bool result) \<Rightarrow> list_mem \<Rightarrow> ptr \<Rightarrow> ptr result option" where
  "list_scan hit m aux =
     (if aux = NULL then Some (Inr NULL)
      else case hit aux of
        Inl e \<Rightarrow> Some (Inl e)
      | Inr b \<Rightarrow> if b then Some (Inr aux) else list_scan hit m (li_next (m aux)))"

subsection \<open>The list a pointer structure represents\<close>

text \<open>
  \<open>first_of xs q\<close> is the address the pointer into \<open>xs\<close> holds when \<open>q\<close> follows the
  segment, \<open>last_of p xs\<close> the address of its last item when \<open>p\<close> precedes it.
\<close>

fun first_of :: "ptr list \<Rightarrow> ptr \<Rightarrow> ptr" where
  "first_of [] q = q"
| "first_of (x # xs) q = x"

fun last_of :: "ptr \<Rightarrow> ptr list \<Rightarrow> ptr" where
  "last_of p [] = p"
| "last_of p (x # xs) = last_of x xs"

fun dseg :: "list_mem \<Rightarrow> ptr \<Rightarrow> ptr list \<Rightarrow> ptr \<Rightarrow> bool" where
  "dseg m p [] q = True"
| "dseg m p (x # xs) q =
     (x \<noteq> NULL \<and> li_prev (m x) = p \<and> li_next (m x) = first_of xs q \<and> dseg m x xs q)"

definition dlist :: "list_mem \<Rightarrow> ListHead \<Rightarrow> ptr list \<Rightarrow> bool" where
  "dlist m h xs \<longleftrightarrow>
     lh_first h = first_of xs NULL \<and> lh_last h = last_of NULL xs \<and>
     lh_size h = of_nat (length xs) \<and> distinct xs \<and> dseg m NULL xs NULL"

definition unlinked :: "list_mem \<Rightarrow> ptr \<Rightarrow> bool" where
  "unlinked m x \<longleftrightarrow> li_prev (m x) = NULL \<and> li_next (m x) = NULL"

lemma last_of_mem: "last_of p xs \<in> insert p (set xs)"
  by (induction xs arbitrary: p) auto

lemma first_of_mem: "first_of xs q \<in> insert q (set xs)"
  by (cases xs) auto

lemma first_of_append [simp]: "first_of (xs @ ys) q = first_of xs (first_of ys q)"
  by (cases xs) auto

lemma last_of_append [simp]: "last_of p (xs @ ys) = last_of (last_of p xs) ys"
  by (induction xs arbitrary: p) auto

lemma dseg_append [simp]:
  "dseg m p (xs @ ys) q \<longleftrightarrow> dseg m p xs (first_of ys q) \<and> dseg m (last_of p xs) ys q"
  by (induction xs arbitrary: p) auto

lemma dseg_nonnull: "dseg m p xs q \<Longrightarrow> x \<in> set xs \<Longrightarrow> x \<noteq> NULL"
  by (induction xs arbitrary: p) auto

lemma dseg_cong:
  "(\<And>x. x \<in> set xs \<Longrightarrow> m x = m' x) \<Longrightarrow> dseg m p xs q \<longleftrightarrow> dseg m' p xs q"
  by (induction xs arbitrary: p) auto

lemma dlist_cong:
  "(\<And>x. x \<in> set xs \<Longrightarrow> m x = m' x) \<Longrightarrow> dlist m h xs \<longleftrightarrow> dlist m' h xs"
  using dseg_cong [of xs m m'] by (auto simp: dlist_def)

lemma set_prev_apply [simp]:
  "set_prev p q m x = (if x = p then (m p)\<lparr>li_prev := q\<rparr> else m x)"
  by (simp add: set_prev_def)

lemma set_next_apply [simp]:
  "set_next p q m x = (if x = p then (m p)\<lparr>li_next := q\<rparr> else m x)"
  by (simp add: set_next_def)

lemma dseg_set_other [simp]:
  "y \<notin> set xs \<Longrightarrow> dseg (set_prev y v m) p xs q \<longleftrightarrow> dseg m p xs q"
  "y \<notin> set xs \<Longrightarrow> dseg (set_next y v m) p xs q \<longleftrightarrow> dseg m p xs q"
  by (rule dseg_cong; auto)+

lemma dlist_empty_iff:
  "dlist m h [] \<longleftrightarrow> lh_first h = NULL \<and> lh_last h = NULL \<and> lh_size h = 0"
  by (simp add: dlist_def)

lemma dlist_init [simp, intro]: "dlist m List_init []"
  by (simp add: dlist_empty_iff List_init_def)

lemma dlist_nonnull: "dlist m h xs \<Longrightarrow> x \<in> set xs \<Longrightarrow> x \<noteq> NULL"
  by (auto simp: dlist_def dest: dseg_nonnull)

lemma dlist_distinct: "dlist m h xs \<Longrightarrow> distinct xs"
  by (simp add: dlist_def)

lemma first_of_null_iff: "NULL \<notin> set xs \<Longrightarrow> first_of xs NULL = NULL \<longleftrightarrow> xs = []"
  by (cases xs) auto

lemma last_of_null_iff: "NULL \<notin> set xs \<Longrightarrow> last_of NULL xs = NULL \<longleftrightarrow> xs = []"
  by (cases xs rule: rev_cases) auto

lemma dlist_first_null: "dlist m h xs \<Longrightarrow> lh_first h = NULL \<longleftrightarrow> xs = []"
  using dlist_nonnull [of m h xs NULL] first_of_null_iff [of xs] by (auto simp: dlist_def)

lemma dlist_first: "dlist m h (x # xs) \<Longrightarrow> lh_first h = x"
  by (simp add: dlist_def)

lemma dlist_last: "dlist m h xs \<Longrightarrow> lh_last h = last_of NULL xs"
  by (simp add: dlist_def)

lemma dlist_size: "dlist m h xs \<Longrightarrow> lh_size h = of_nat (length xs)"
  by (simp add: dlist_def)

lemma dlist_size_zero:
  "dlist m h xs \<Longrightarrow> length xs < 2 ^ 32 \<Longrightarrow> lh_size h = 0 \<longleftrightarrow> xs = []"
  using cint_of_nat_zero_iff [of "length xs"] by (simp add: dlist_size)

text \<open>The list is determined by the memory and the head.\<close>

lemma dseg_unique:
  "dseg m p xs NULL \<Longrightarrow> dseg m p' ys NULL \<Longrightarrow> first_of xs NULL = first_of ys NULL \<Longrightarrow> xs = ys"
proof (induction xs arbitrary: p p' ys)
  case Nil
  then show ?case by (cases ys) auto
next
  case (Cons x xs)
  then obtain ys' where ys: "ys = x # ys'" by (cases ys) auto
  with Cons.prems have "first_of xs NULL = first_of ys' NULL" by simp
  with Cons ys show ?case by auto
qed

lemma dlist_unique: "dlist m h xs \<Longrightarrow> dlist m h ys \<Longrightarrow> xs = ys"
  by (auto simp: dlist_def intro: dseg_unique)

subsection \<open>Searching\<close>

lemma List_find_loop_dseg:
  "dseg m p xs NULL \<Longrightarrow>
   List_find_loop m item (first_of xs NULL) = Some (if item \<in> set xs then item else NULL)"
proof (induction xs arbitrary: p)
  case Nil
  then show ?case by (simp add: List_find_loop.simps [of m item NULL])
next
  case (Cons x xs)
  then show ?case by (auto simp: List_find_loop.simps [of m item x])
qed

lemma List_find_dlist:
  "dlist m h xs \<Longrightarrow> List_find m h item = Inr (if item \<in> set xs then item else NULL)"
  by (auto simp: List_find_def dlist_def List_find_loop_dseg)

definition scan_result :: "(ptr \<Rightarrow> bool) \<Rightarrow> ptr list \<Rightarrow> ptr" where
  "scan_result P xs = (case List.find P xs of None \<Rightarrow> NULL | Some x \<Rightarrow> x)"

lemma scan_result_simps [simp]:
  "scan_result P [] = NULL"
  "scan_result P (x # xs) = (if P x then x else scan_result P xs)"
  by (simp_all add: scan_result_def)

lemma scan_result_hit:
  assumes "x \<in> set xs" and "P x" and "NULL \<notin> set xs"
  shows "scan_result P xs \<noteq> NULL"
  using assms
proof (induction xs)
  case (Cons y ys)
  show ?case
  proof (cases "P y")
    case True
    with Cons.prems(3) show ?thesis by simp
  next
    case False
    with Cons.prems(1,2) have "x \<in> set ys" by auto
    with Cons.IH Cons.prems(2,3) have "scan_result P ys \<noteq> NULL" by simp
    with False show ?thesis by simp
  qed
qed simp

lemma scan_result_mem: "scan_result P xs \<noteq> NULL \<Longrightarrow> scan_result P xs \<in> set xs \<and> P (scan_result P xs)"
  by (induction xs) (auto split: if_splits)

lemma scan_result_unique:
  assumes "x \<in> set xs" and "P x" and "NULL \<notin> set xs" and "\<And>y. y \<in> set xs \<Longrightarrow> P y \<Longrightarrow> y = x"
  shows "scan_result P xs = x"
  using scan_result_hit [of x xs P] scan_result_mem [of P xs] assms by blast

lemma scan_result_none: "(\<And>x. x \<in> set xs \<Longrightarrow> \<not> P x) \<Longrightarrow> scan_result P xs = NULL"
  by (induction xs) auto

lemma scan_result_cong:
  "(\<And>x. x \<in> set xs \<Longrightarrow> P x = Q x) \<Longrightarrow> scan_result P xs = scan_result Q xs"
  by (induction xs) auto

lemma list_scan_dseg:
  "dseg m p xs NULL \<Longrightarrow> (\<And>x. x \<in> set xs \<Longrightarrow> hit x = Inr (P x)) \<Longrightarrow>
   list_scan hit m (first_of xs NULL) = Some (Inr (scan_result P xs))"
proof (induction xs arbitrary: p)
  case Nil
  then show ?case by (simp add: list_scan.simps [of hit m NULL])
next
  case (Cons x xs)
  then show ?case by (auto simp: list_scan.simps [of hit m x])
qed

lemma list_scan_dlist:
  "dlist m h xs \<Longrightarrow> (\<And>x. x \<in> set xs \<Longrightarrow> hit x = Inr (P x)) \<Longrightarrow>
   list_scan hit m (lh_first h) = Some (Inr (scan_result P xs))"
  by (auto simp: dlist_def intro: list_scan_dseg)

subsection \<open>Insertion and removal on the represented list\<close>

lemma List_insert_dlist:
  assumes "dlist m h (as @ bs)" and "x \<noteq> NULL" and "x \<notin> set (as @ bs)" and "unlinked m x"
  shows "\<exists>m' h'. List_insert m h (last_of NULL as) x = Inr (x, m', h') \<and>
    dlist m' h' (as @ x # bs) \<and> (\<forall>y. y \<notin> insert x (set (as @ bs)) \<longrightarrow> m' y = m y)"
proof (cases as rule: rev_cases)
  case Nil
  with assms show ?thesis
    by (cases bs) (auto simp: List_insert_def dlist_def unlinked_def Let_def)
next
  case (snoc as' a)
  with assms show ?thesis
    by (cases bs) (auto simp: List_insert_def dlist_def unlinked_def Let_def)
qed

lemma List_detach_dlist:
  assumes "dlist m h (as @ x # bs)"
  shows "\<exists>m' h'. List_detach m h x = Inr (x, m', h') \<and>
    dlist m' h' (as @ bs) \<and> unlinked m' x \<and> (\<forall>y. y \<notin> set (as @ x # bs) \<longrightarrow> m' y = m y)"
proof (cases as rule: rev_cases)
  case Nil
  with assms last_of_mem [of "first_of bs NULL" "tl bs"] show ?thesis
    by (cases bs) (auto simp: List_detach_def dlist_def unlinked_def Let_def)
next
  case (snoc as' a)
  with assms last_of_mem [of "first_of bs NULL" "tl bs"] first_of_mem [of as' a] show ?thesis
    by (cases bs) (auto simp: List_detach_def dlist_def unlinked_def Let_def)
qed

subsection \<open>The contract of a family of lists\<close>

text \<open>
  The kernel keeps many lists whose items share link fields: a process is in at most one of the
  ready, waiting and zombie queues because it has one \<open>ListItem\<close>. A \<open>layout\<close> gives the content
  of every list of a set \<open>D\<close> of list heads and says that two lists over the same kind of item
  share none; an item is \<open>loose\<close> when it is in none of them.
\<close>

definition layout ::
    "('s \<Rightarrow> 'l \<Rightarrow> ptr list \<Rightarrow> bool) \<Rightarrow> ('l \<Rightarrow> 'k) \<Rightarrow> 's \<Rightarrow> 'l set \<Rightarrow> ('l \<Rightarrow> ptr list) \<Rightarrow> bool" where
  "layout repr kind s D L \<longleftrightarrow>
     (\<forall>l\<in>D. repr s l (L l)) \<and>
     (\<forall>l\<in>D. \<forall>k\<in>D. l \<noteq> k \<longrightarrow> kind l = kind k \<longrightarrow> set (L l) \<inter> set (L k) = {})"

definition loose :: "('l \<Rightarrow> 'k) \<Rightarrow> 'l set \<Rightarrow> ('l \<Rightarrow> ptr list) \<Rightarrow> 'k \<Rightarrow> ptr \<Rightarrow> bool" where
  "loose kind D L k x \<longleftrightarrow> (\<forall>l\<in>D. kind l = k \<longrightarrow> x \<notin> set (L l))"

lemma looseD: "loose kind D L k x \<Longrightarrow> l \<in> D \<Longrightarrow> kind l = k \<Longrightarrow> x \<notin> set (L l)"
  by (auto simp: loose_def)

lemma layout_repr: "layout repr kind s D L \<Longrightarrow> l \<in> D \<Longrightarrow> repr s l (L l)"
  by (simp add: layout_def)

lemma layout_apart:
  "layout repr kind s D L \<Longrightarrow> l \<in> D \<Longrightarrow> k \<in> D \<Longrightarrow> l \<noteq> k \<Longrightarrow> kind l = kind k \<Longrightarrow>
   x \<in> set (L l) \<Longrightarrow> x \<notin> set (L k)"
  by (auto simp: layout_def)

lemma layout_upd:
  assumes "layout repr kind s D L" and "repr s' l zs"
    and "\<And>k. k \<in> D \<Longrightarrow> k \<noteq> l \<Longrightarrow> repr s' k (L k)"
    and "\<And>k. k \<in> D \<Longrightarrow> k \<noteq> l \<Longrightarrow> kind k = kind l \<Longrightarrow> set (L k) \<inter> set zs = {}"
  shows "layout repr kind s' D (L(l := zs))"
  unfolding layout_def
proof (intro conjI ballI impI)
  fix k
  assume "k \<in> D"
  with assms(2,3) show "repr s' k ((L(l := zs)) k)" by auto
  fix k'
  assume "k' \<in> D" and "k \<noteq> k'" and "kind k = kind k'"
  moreover have "set (L k) \<inter> set (L k') = {}"
    using assms(1) calculation \<open>k \<in> D\<close> by (simp add: layout_def)
  ultimately show "set ((L(l := zs)) k) \<inter> set ((L(l := zs)) k') = {}"
    using assms(4) [of k] assms(4) [of k'] \<open>k \<in> D\<close> by auto
qed

locale list_store =
  fixes repr :: "'s \<Rightarrow> 'l \<Rightarrow> ptr list \<Rightarrow> bool"
    and spare :: "'s \<Rightarrow> 'k \<Rightarrow> ptr \<Rightarrow> bool"
    and kind :: "'l \<Rightarrow> 'k"
    and edit :: "'l \<Rightarrow> 'c \<Rightarrow> 's \<Rightarrow> 's"
    and ins :: "'s \<Rightarrow> 'l \<Rightarrow> ptr \<Rightarrow> ptr \<Rightarrow> (ptr \<times> 's) result"
    and det :: "'s \<Rightarrow> 'l \<Rightarrow> ptr \<Rightarrow> (ptr \<times> 's) result"
    and first_ptr :: "'s \<Rightarrow> 'l \<Rightarrow> ptr"
    and last_ptr :: "'s \<Rightarrow> 'l \<Rightarrow> ptr"
  assumes ins_law: "repr s l (as @ bs) \<Longrightarrow> x \<noteq> NULL \<Longrightarrow> x \<notin> set (as @ bs) \<Longrightarrow> spare s (kind l) x \<Longrightarrow>
      \<exists>c. ins s l (last_of NULL as) x = Inr (x, edit l c s) \<and> repr (edit l c s) l (as @ x # bs) \<and>
        (\<forall>k ys. k \<noteq> l \<longrightarrow> repr s k ys \<longrightarrow> (kind k = kind l \<longrightarrow> set ys \<inter> insert x (set (as @ bs)) = {}) \<longrightarrow>
          repr (edit l c s) k ys) \<and>
        (\<forall>k y. spare s k y \<longrightarrow> (k = kind l \<longrightarrow> y \<notin> insert x (set (as @ bs))) \<longrightarrow> spare (edit l c s) k y)"
    and det_law: "repr s l (as @ x # bs) \<Longrightarrow>
      \<exists>c. det s l x = Inr (x, edit l c s) \<and> repr (edit l c s) l (as @ bs) \<and> spare (edit l c s) (kind l) x \<and>
        (\<forall>k ys. k \<noteq> l \<longrightarrow> repr s k ys \<longrightarrow> (kind k = kind l \<longrightarrow> set ys \<inter> set (as @ x # bs) = {}) \<longrightarrow>
          repr (edit l c s) k ys) \<and>
        (\<forall>k y. spare s k y \<longrightarrow> (k = kind l \<longrightarrow> y \<notin> set (as @ x # bs)) \<longrightarrow> spare (edit l c s) k y)"
    and first_law: "repr s l xs \<Longrightarrow> first_ptr s l = first_of xs NULL"
    and last_law: "repr s l xs \<Longrightarrow> last_ptr s l = last_of NULL xs"
    and items: "repr s l xs \<Longrightarrow> distinct xs \<and> NULL \<notin> set xs"
begin

lemma layout_insert:
  assumes L: "layout repr kind s D L" "l \<in> D" "L l = as @ bs"
    and x: "x \<noteq> NULL" "loose kind D L (kind l) x" "spare s (kind l) x"
  shows "\<exists>c. ins s l (last_of NULL as) x = Inr (x, edit l c s) \<and>
    layout repr kind (edit l c s) D (L(l := as @ x # bs)) \<and>
    (\<forall>k y. spare s k y \<longrightarrow> loose kind D L k y \<longrightarrow> (k = kind l \<longrightarrow> y \<noteq> x) \<longrightarrow> spare (edit l c s) k y)"
proof -
  have r: "repr s l (as @ bs)" and n: "x \<notin> set (as @ bs)"
    using L x looseD [OF x(2), of l] by (auto dest: layout_repr)
  from ins_law [OF r x(1) n x(3)] obtain c where c:
      "ins s l (last_of NULL as) x = Inr (x, edit l c s)" "repr (edit l c s) l (as @ x # bs)"
      "\<And>k ys. k \<noteq> l \<Longrightarrow> repr s k ys \<Longrightarrow> (kind k = kind l \<Longrightarrow> set ys \<inter> insert x (set (as @ bs)) = {}) \<Longrightarrow>
         repr (edit l c s) k ys"
      "\<And>k y. spare s k y \<Longrightarrow> (k = kind l \<Longrightarrow> y \<notin> insert x (set (as @ bs))) \<Longrightarrow> spare (edit l c s) k y"
    by blast
  have "repr (edit l c s) k (L k)" if "k \<in> D" "k \<noteq> l" for k
    using that L(1) x(2) layout_apart [OF L(1) that(1) L(2) that(2)] L(3)
    by (intro c(3)) (auto dest: layout_repr looseD)
  moreover have "set (L k) \<inter> insert x (set (L l)) = {}" if "k \<in> D" "k \<noteq> l" "kind k = kind l" for k
    using that L x(2) looseD [OF x(2) that(1,3)] by (auto dest: layout_apart)
  ultimately have "layout repr kind (edit l c s) D (L(l := as @ x # bs))"
    using L(3) c(2) by (intro layout_upd [OF L(1)]) auto
  moreover have "spare (edit l c s) k y"
    if "spare s k y" "loose kind D L k y" "k = kind l \<longrightarrow> y \<noteq> x" for k y
    using that L looseD [OF that(2) L(2)] by (intro c(4)) auto
  ultimately show ?thesis using c(1) by blast
qed

lemma layout_append:
  assumes "layout repr kind s D L" and "l \<in> D" and "x \<noteq> NULL" and "loose kind D L (kind l) x"
    and "spare s (kind l) x"
  shows "\<exists>c. ins s l (last_ptr s l) x = Inr (x, edit l c s) \<and>
    layout repr kind (edit l c s) D (L(l := L l @ [x])) \<and>
    (\<forall>k y. spare s k y \<longrightarrow> loose kind D L k y \<longrightarrow> (k = kind l \<longrightarrow> y \<noteq> x) \<longrightarrow> spare (edit l c s) k y)"
  using layout_insert [OF assms(1,2) _ assms(3-5), of "L l" "[]"]
    last_law [OF layout_repr [OF assms(1,2)]] by simp

lemma layout_detach:
  assumes L: "layout repr kind s D L" "l \<in> D" "L l = as @ x # bs"
  shows "\<exists>c. det s l x = Inr (x, edit l c s) \<and>
    layout repr kind (edit l c s) D (L(l := as @ bs)) \<and> spare (edit l c s) (kind l) x \<and>
    loose kind D (L(l := as @ bs)) (kind l) x \<and>
    (\<forall>k y. spare s k y \<longrightarrow> loose kind D L k y \<longrightarrow> spare (edit l c s) k y)"
proof -
  have r: "repr s l (as @ x # bs)" using L by (auto dest: layout_repr)
  from det_law [OF r] obtain c where c:
      "det s l x = Inr (x, edit l c s)" "repr (edit l c s) l (as @ bs)" "spare (edit l c s) (kind l) x"
      "\<And>k ys. k \<noteq> l \<Longrightarrow> repr s k ys \<Longrightarrow> (kind k = kind l \<Longrightarrow> set ys \<inter> set (as @ x # bs) = {}) \<Longrightarrow>
         repr (edit l c s) k ys"
      "\<And>k y. spare s k y \<Longrightarrow> (k = kind l \<Longrightarrow> y \<notin> set (as @ x # bs)) \<Longrightarrow> spare (edit l c s) k y"
    by blast
  have apart: "set (L k) \<inter> set (as @ x # bs) = {}" if "k \<in> D" "k \<noteq> l" "kind k = kind l" for k
    using that L layout_apart [OF L(1) that(1) L(2) that(2)] by auto
  have "repr (edit l c s) k (L k)" if "k \<in> D" "k \<noteq> l" for k
    using that L(1) apart by (intro c(4)) (auto dest: layout_repr)
  then have "layout repr kind (edit l c s) D (L(l := as @ bs))"
    using c(2) apart by (intro layout_upd [OF L(1)]) auto
  moreover have "loose kind D (L(l := as @ bs)) (kind l) x"
    using items [OF r] apart by (auto simp: loose_def)
  moreover have "spare (edit l c s) k y" if "spare s k y" "loose kind D L k y" for k y
    using that L looseD [OF that(2) L(2)] by (intro c(5)) auto
  ultimately show ?thesis using c(1,3) by blast
qed

lemma layout_pop:
  assumes "layout repr kind s D L" and "l \<in> D" and "L l = x # xs"
  shows "\<exists>c. det s l (first_ptr s l) = Inr (x, edit l c s) \<and>
    layout repr kind (edit l c s) D (L(l := xs)) \<and> spare (edit l c s) (kind l) x \<and>
    loose kind D (L(l := xs)) (kind l) x \<and>
    (\<forall>k y. spare s k y \<longrightarrow> loose kind D L k y \<longrightarrow> spare (edit l c s) k y)"
  using layout_detach [OF assms(1,2), of "[]" x xs] first_law [OF layout_repr [OF assms(1,2)]] assms(3)
  by simp

lemma layout_first_null:
  "layout repr kind s D L \<Longrightarrow> l \<in> D \<Longrightarrow> first_ptr s l = NULL \<longleftrightarrow> L l = []"
  using first_law [of s l "L l"] items [of s l "L l"] first_of_null_iff [of "L l"]
  by (auto dest: layout_repr)

lemma layout_nonnull: "layout repr kind s D L \<Longrightarrow> l \<in> D \<Longrightarrow> x \<in> set (L l) \<Longrightarrow> x \<noteq> NULL"
  using items [of s l "L l"] by (auto dest: layout_repr)

lemma layout_distinct: "layout repr kind s D L \<Longrightarrow> l \<in> D \<Longrightarrow> distinct (L l)"
  using items [of s l "L l"] by (auto dest: layout_repr)

end

subsection \<open>Sequences of calls on one list\<close>

datatype list_op = InsertAfter ptr ptr | Detach ptr

fun list_step :: "list_mem \<times> ListHead \<Rightarrow> list_op \<Rightarrow> (list_mem \<times> ListHead) result" where
  "list_step (m, h) (InsertAfter p x) = bindE (List_insert m h p x) (\<lambda>(_, m', h'). Inr (m', h'))"
| "list_step (m, h) (Detach x) = bindE (List_detach m h x) (\<lambda>(_, m', h'). Inr (m', h'))"

fun list_run :: "list_mem \<times> ListHead \<Rightarrow> list_op list \<Rightarrow> (list_mem \<times> ListHead) result" where
  "list_run c [] = Inr c"
| "list_run c (q # qs) = bindE (list_step c q) (\<lambda>c'. list_run c' qs)"

text \<open>What a call means for the list itself, and when the code may make it.\<close>

fun spec_step :: "ptr list \<Rightarrow> list_op \<Rightarrow> ptr list" where
  "spec_step xs (InsertAfter p x) =
     (if p = NULL then x # xs
      else takeWhile (\<lambda>y. y \<noteq> p) xs @ p # x # tl (dropWhile (\<lambda>y. y \<noteq> p) xs))"
| "spec_step xs (Detach x) = remove1 x xs"

fun op_ok :: "ptr list \<Rightarrow> list_op \<Rightarrow> bool" where
  "op_ok xs (InsertAfter p x) \<longleftrightarrow> x \<noteq> NULL \<and> x \<notin> set xs \<and> (p = NULL \<or> p \<in> set xs)"
| "op_ok xs (Detach x) \<longleftrightarrow> x \<in> set xs"

fun ops_ok :: "ptr list \<Rightarrow> list_op list \<Rightarrow> bool" where
  "ops_ok xs [] \<longleftrightarrow> True"
| "ops_ok xs (q # qs) \<longleftrightarrow> op_ok xs q \<and> ops_ok (spec_step xs q) qs"

lemma split_at:
  assumes "p \<in> set xs"
  obtains as bs where "xs = as @ p # bs" and "p \<notin> set as"
    and "takeWhile (\<lambda>y. y \<noteq> p) xs = as" and "dropWhile (\<lambda>y. y \<noteq> p) xs = p # bs"
proof -
  from assms obtain as bs where "xs = as @ p # bs" "p \<notin> set as" by (meson split_list_first)
  moreover from this have "\<And>y. y \<in> set as \<Longrightarrow> y \<noteq> p" by auto
  with calculation have "takeWhile (\<lambda>y. y \<noteq> p) xs = as" "dropWhile (\<lambda>y. y \<noteq> p) xs = p # bs"
    by (simp_all add: takeWhile_append2 dropWhile_append2)
  ultimately show thesis by (rule that)
qed

lemma insert_position:
  assumes "op_ok xs (InsertAfter p x)"
  obtains as bs where "xs = as @ bs" and "last_of NULL as = p"
    and "spec_step xs (InsertAfter p x) = as @ x # bs"
proof (cases "p = NULL")
  case True
  then show ?thesis using that [of "[]" xs] by simp
next
  case False
  with assms have "p \<in> set xs" by simp
  then show ?thesis
  proof (cases rule: split_at)
    case (1 as bs)
    with False show ?thesis using that [of "as @ [p]" bs] by simp
  qed
qed

lemma list_step_refines:
  assumes l: "dlist m h xs" and u: "\<And>y. y \<notin> set xs \<Longrightarrow> unlinked m y" and ok: "op_ok xs q"
  shows "\<exists>m' h'. list_step (m, h) q = Inr (m', h') \<and> dlist m' h' (spec_step xs q) \<and>
    (\<forall>y. y \<notin> set (spec_step xs q) \<longrightarrow> unlinked m' y)"
proof (cases q)
  case (InsertAfter p x)
  obtain as bs where ab: "xs = as @ bs" "last_of NULL as = p" "spec_step xs q = as @ x # bs"
    using insert_position [of xs p x] ok unfolding InsertAfter by metis
  with List_insert_dlist [of m h as bs x] l u ok InsertAfter show ?thesis
    by (fastforce simp: unlinked_def)
next
  case (Detach x)
  with ok obtain as bs where ab: "xs = as @ x # bs" "x \<notin> set as" by (auto dest: split_list_first)
  then have "spec_step xs q = as @ bs" by (simp add: Detach remove1_append)
  moreover from l ab have "dlist m h (as @ x # bs)" by simp
  from List_detach_dlist [OF this] obtain m' h' where
    "List_detach m h x = Inr (x, m', h')" "dlist m' h' (as @ bs)" "unlinked m' x"
    "\<And>y. y \<notin> set (as @ x # bs) \<Longrightarrow> m' y = m y" by blast
  moreover from this have "unlinked m' y" if "y \<notin> set (as @ bs)" for y
    using that u [of y] ab by (cases "y = x") (auto simp: unlinked_def)
  ultimately show ?thesis by (simp add: Detach)
qed

definition demo_mem :: list_mem where
  "demo_mem = (\<lambda>_. \<lparr>li_prev = NULL, li_next = NULL\<rparr>)
     (8 := \<lparr>li_prev = NULL, li_next = 16\<rparr>, 16 := \<lparr>li_prev = 8, li_next = NULL\<rparr>)"

definition demo_head :: ListHead where
  "demo_head = \<lparr>lh_first = 8, lh_last = 16, lh_size = 2\<rparr>"

lemma demo_dlist: "dlist demo_mem demo_head [8, 16]"
  by (simp add: dlist_def demo_mem_def demo_head_def)

text \<open>
  C36: any sequence of insertions (after a member, or at the front) and removals that the list
  allows runs without a fault, and the pointer structure it leaves represents the list that the
  same insertions and removals produce on an abstract list.
\<close>

theorem list_run_refines:
  assumes "dlist m h xs" and "\<forall>y. y \<notin> set xs \<longrightarrow> unlinked m y" and "ops_ok xs qs"
  shows "\<exists>m' h'. list_run (m, h) qs = Inr (m', h') \<and> dlist m' h' (foldl spec_step xs qs)"
  using assms
proof (induction qs arbitrary: m h xs)
  case (Cons q qs)
  then obtain m' h' where "list_step (m, h) q = Inr (m', h')" "dlist m' h' (spec_step xs q)"
      "\<forall>y. y \<notin> set (spec_step xs q) \<longrightarrow> unlinked m' y"
    using list_step_refines [of m h xs q] by auto
  with Cons.IH [of m' h' "spec_step xs q"] Cons.prems(3) show ?case by simp
qed auto

theorem list_run_refines_witness:
  "\<exists>m' h'. list_run (demo_mem, demo_head) [InsertAfter 8 24, Detach 8, InsertAfter 0 32] = Inr (m', h') \<and>
    dlist m' h' [32, 24, 16]"
proof -
  have "\<forall>y. y \<notin> set [8, 16] \<longrightarrow> unlinked demo_mem y"
    by (simp add: demo_mem_def unlinked_def)
  from list_run_refines [OF demo_dlist this, of "[InsertAfter 8 24, Detach 8, InsertAfter 0 32]"]
  show ?thesis by simp
qed

text \<open>
  Detaching the item that was just inserted restores the memory of links and the list head
  exactly, wherever in the list it was inserted.
\<close>

theorem insert_detach_roundtrip:
  assumes "dlist m h (as @ bs)" and "x \<noteq> NULL" and "x \<notin> set (as @ bs)" and "unlinked m x"
  shows "bindE (List_insert m h (last_of NULL as) x) (\<lambda>(r, m', h'). List_detach m' h' r) = Inr (x, m, h)"
proof (cases as rule: rev_cases)
  case Nil
  with assms last_of_mem [of "first_of bs NULL" "tl bs"] show ?thesis
    by (cases h; cases bs) (auto simp: List_insert_def List_detach_def dlist_def unlinked_def Let_def fun_eq_iff)
next
  case (snoc as' a)
  with assms first_of_mem [of as' a] last_of_mem [of "first_of bs NULL" "tl bs"] show ?thesis
    by (cases h; cases bs) (auto simp: List_insert_def List_detach_def dlist_def unlinked_def Let_def fun_eq_iff)
qed

theorem insert_detach_roundtrip_witness:
  "bindE (List_insert demo_mem demo_head (last_of NULL [8]) 24) (\<lambda>(r, m', h'). List_detach m' h' r) =
    Inr (24, demo_mem, demo_head)"
  by (rule insert_detach_roundtrip [where bs = "[16]"])
    (simp_all add: demo_dlist, simp add: demo_mem_def unlinked_def)

lemma dlist_linked:
  assumes "dlist m h xs" and "x \<in> set xs" and "2 \<le> length xs"
  shows "\<not> unlinked m x"
proof -
  from assms(2) obtain as bs where xs: "xs = as @ x # bs" by (auto dest: split_list)
  show ?thesis
    using assms(1,3) xs last_of_mem [of "hd as" "tl as"]
    by (cases as; cases bs) (auto simp: dlist_def unlinked_def dest: dseg_nonnull)
qed

text \<open>
  C37: the guard of \<open>List_insert\<close> against an item that is already linked works only for lists of at
  least two items. There it refuses and changes nothing; the single item of a list passes it, and
  is then the single member of two lists at once.
\<close>

theorem insert_guard_incomplete:
  assumes "dlist m h xs" and "x \<in> set xs"
  shows "(2 \<le> length xs \<longrightarrow> List_insert m k p x = Inr (NULL, m, k)) \<and>
    (length xs = 1 \<longrightarrow> dlist m k [] \<longrightarrow>
      (\<exists>k'. List_insert m k (lh_last k) x = Inr (x, m, k') \<and> dlist m h [x] \<and> dlist m k' [x]))"
proof (intro conjI impI)
  assume two: "2 \<le> length xs"
  have "\<not> unlinked m x" using dlist_linked [OF assms two] .
  moreover have "x \<noteq> NULL" using assms by (rule dlist_nonnull)
  ultimately show "List_insert m k p x = Inr (NULL, m, k)"
    by (auto simp: List_insert_def unlinked_def)
next
  assume one: "length xs = 1" and k: "dlist m k []"
  with assms(2) have "xs = [x]" by (cases xs) auto
  with assms(1) k
  show "\<exists>k'. List_insert m k (lh_last k) x = Inr (x, m, k') \<and> dlist m h [x] \<and> dlist m k' [x]"
    by (simp add: List_insert_def dlist_def Let_def)
qed

theorem insert_guard_incomplete_witness:
  "List_insert demo_mem List_init 0 16 = Inr (NULL, demo_mem, List_init)"
  using insert_guard_incomplete [OF demo_dlist, of 16 List_init 0] by simp

end
