(* ===== verification/Pool_Allocator.thy ===== *)
theory Pool_Allocator
  imports Prelude
begin

text \<open>
  \<open>pool_allocator.c\<close> and \<open>pool_allocator.h\<close>: the fixed-size block allocator from which
  every kernel object comes. A pool manages one static buffer: the upper part holds the
  blocks, the lower part an array of \<open>int\<close>s (\<open>pa_free_list\<close>) that chains the free blocks
  and marks the detached ones. Blocks are named by their addresses.
\<close>

subsection \<open>The data\<close>

datatype PoolAllocatorResult = Success | NotEnoughMemory | UnalignedFree | OutOfRange | DoubleFree

record PoolAllocator =
  pa_buffer :: ptr
  pa_free_list :: "cint list"
  pa_buffer_size :: cint
  pa_size :: cint
  pa_size_max :: cint
  pa_item_size :: cint
  pa_first_idx :: cint
  pa_bucket_size :: cint

definition NullIdx :: cint where
  "NullIdx = - 1"

definition DetachedIdx :: cint where
  "DetachedIdx = - 2"

primrec result_code :: "PoolAllocatorResult \<Rightarrow> cint" where
  "result_code Success = 0"
| "result_code NotEnoughMemory = - 1"
| "result_code UnalignedFree = - 2"
| "result_code OutOfRange = - 3"
| "result_code DoubleFree = - 4"

definition PoolAllocator_strerrors :: "string option list" where
  "PoolAllocator_strerrors =
     [Some ''Success'', Some ''NotEnoughMemory'', Some ''UnalignedFree'', Some ''OutOfRange'',
      Some ''DoubleFree'', None]"

definition PoolAllocator_strerror :: "PoolAllocatorResult \<Rightarrow> string option result" where
  "PoolAllocator_strerror r = arr_get PoolAllocator_strerrors (- result_code r)"

subsection \<open>The operations\<close>

text \<open>
  The loop of \<open>PoolAllocator_init\<close> that chains the blocks. \<open>n\<close> is \<open>a->size\<close> and \<open>fl\<close> the
  array behind the blocks.
\<close>

function init_free_list :: "cint \<Rightarrow> cint \<Rightarrow> cint list \<Rightarrow> cint list result" where
  "init_free_list n i fl =
     (if i <s n - 1 then bindE (arr_set fl i (i + 1)) (init_free_list n (i + 1)) else Inr fl)"
  by pat_completeness auto
termination
proof (relation "measure (\<lambda>(n, i, fl). nat (sint (n - 1) - sint i))")
  fix n i :: cint and fl x :: "cint list"
  assume "i <s n - 1"
  then have "sint i < sint (n - 1)" by (simp add: word_sless_alt)
  moreover from this have "sint (i + 1) = sint i + 1"
    using sint_range32 [of i] sint_range32 [of "n - 1"]
    by (simp add: signed_take_bit_int_eq_self sint_word_ariths)
  ultimately show "((n, i + 1, x), n, i, fl) \<in> measure (\<lambda>(n, i, fl). nat (sint (n - 1) - sint i))"
    by simp
qed simp

declare init_free_list.simps [simp del]

text \<open>
  \<open>cells\<close> is the content of the \<open>int\<close> array that follows the blocks in \<open>memory_block\<close>. The
  size in bytes is computed in \<open>size_t\<close> and truncated to \<open>int\<close>.
\<close>

definition PoolAllocator_init ::
    "PoolAllocator \<Rightarrow> cint \<Rightarrow> cint \<Rightarrow> ptr \<Rightarrow> cint list \<Rightarrow> cint \<Rightarrow>
     (PoolAllocatorResult \<times> PoolAllocator) result" where
  "PoolAllocator_init a item_size num_items memory_block cells memory_size =
     (let requested_size = (ucast ((scast num_items :: clong) * (scast item_size + 4)) :: cint) in
      if memory_size <s requested_size then Inr (NotEnoughMemory, a)
      else
        bindE (init_free_list num_items 0 cells) (\<lambda>fl.
        bindE (arr_set fl (num_items - 1) NullIdx) (\<lambda>fl'.
        Inr (Success, a\<lparr>pa_item_size := item_size, pa_size := num_items,
          pa_buffer_size := item_size * num_items, pa_size_max := num_items,
          pa_buffer := memory_block, pa_free_list := fl', pa_first_idx := 0\<rparr>))))"

definition PoolAllocator_getBlock :: "PoolAllocator \<Rightarrow> (ptr \<times> PoolAllocator) result" where
  "PoolAllocator_getBlock a =
     (if pa_first_idx a = - 1 then Inr (NULL, a)
      else
        let detached_idx = pa_first_idx a in
        bindE (arr_get (pa_free_list a) (pa_first_idx a)) (\<lambda>nxt.
        bindE (arr_set (pa_free_list a) detached_idx DetachedIdx) (\<lambda>fl.
        Inr (pa_buffer a + scast (detached_idx * pa_item_size a),
          a\<lparr>pa_first_idx := nxt, pa_size := pa_size a - 1, pa_free_list := fl\<rparr>))))"

definition PoolAllocator_releaseBlock ::
    "PoolAllocator \<Rightarrow> ptr \<Rightarrow> (PoolAllocatorResult \<times> PoolAllocator) result" where
  "PoolAllocator_releaseBlock a block =
     (let offset = (ucast (block - pa_buffer a) :: cint) in
      bindE (c_mod offset (pa_item_size a)) (\<lambda>r.
      if r \<noteq> 0 then Inr (UnalignedFree, a)
      else
        bindE (c_div offset (pa_item_size a)) (\<lambda>idx.
        if idx <s 0 \<or> pa_size_max a \<le>s idx then Inr (OutOfRange, a)
        else
          bindE (arr_get (pa_free_list a) idx) (\<lambda>cell.
          if cell \<noteq> DetachedIdx then Inr (DoubleFree, a)
          else
            bindE (arr_set (pa_free_list a) idx (pa_first_idx a)) (\<lambda>fl.
            Inr (Success, a\<lparr>pa_free_list := fl, pa_first_idx := idx, pa_size := pa_size a + 1\<rparr>))))))"

subsection \<open>Well-formed pools\<close>

text \<open>
  \<open>block_at a j\<close> is the address of block \<open>j\<close>. \<open>free_chain fl i xs\<close> says that the chain in the
  array \<open>fl\<close> that starts at index \<open>i\<close> visits the blocks \<open>xs\<close> and ends in \<open>NullIdx\<close>.
\<close>

definition block_at :: "PoolAllocator \<Rightarrow> nat \<Rightarrow> ptr" where
  "block_at a j = pa_buffer a + word_of_int (int j * sint (pa_item_size a))"

fun free_chain :: "cint list \<Rightarrow> cint \<Rightarrow> nat list \<Rightarrow> bool" where
  "free_chain fl i [] \<longleftrightarrow> i = NullIdx"
| "free_chain fl i (x # xs) \<longleftrightarrow> i = of_nat x \<and> x < length fl \<and> free_chain fl (fl ! x) xs"

definition pool_geometry :: "PoolAllocator \<Rightarrow> bool" where
  "pool_geometry a \<longleftrightarrow>
     sint (pa_size_max a) = int (length (pa_free_list a)) \<and> 0 < sint (pa_item_size a) \<and>
     int (length (pa_free_list a)) * sint (pa_item_size a) < 2 ^ 31 \<and>
     0 < uint (pa_buffer a) \<and> uint (pa_buffer a) + 2 ^ 31 \<le> 2 ^ 64"

definition pool_inv :: "PoolAllocator \<Rightarrow> nat list \<Rightarrow> bool" where
  "pool_inv a xs \<longleftrightarrow>
     pool_geometry a \<and> distinct xs \<and> pa_size a = of_nat (length xs) \<and>
     free_chain (pa_free_list a) (pa_first_idx a) xs \<and>
     (\<forall>j < length (pa_free_list a). j \<notin> set xs \<longleftrightarrow> pa_free_list a ! j = DetachedIdx)"

lemma free_chain_bound: "free_chain fl i xs \<Longrightarrow> x \<in> set xs \<Longrightarrow> x < length fl"
  by (induction xs arbitrary: i) auto

lemma free_chain_upd:
  "j \<notin> set xs \<Longrightarrow> free_chain (fl[j := v]) i xs \<longleftrightarrow> free_chain fl i xs"
  by (induction xs arbitrary: i) auto

lemma geometry_length: "pool_geometry a \<Longrightarrow> length (pa_free_list a) < 2 ^ 31"
proof -
  assume g: "pool_geometry a"
  then have "int (length (pa_free_list a)) * 1 \<le> int (length (pa_free_list a)) * sint (pa_item_size a)"
    by (intro mult_left_mono) (auto simp: pool_geometry_def)
  with g have "int (length (pa_free_list a)) < 2 ^ 31" by (simp add: pool_geometry_def)
  then show ?thesis by simp
qed

lemma geometry_offset:
  assumes "pool_geometry a" and "j < length (pa_free_list a)"
  shows "0 \<le> int j * sint (pa_item_size a)"
    and "int j * sint (pa_item_size a) + sint (pa_item_size a) < 2 ^ 31"
proof -
  from assms have "int (Suc j) * sint (pa_item_size a)
      \<le> int (length (pa_free_list a)) * sint (pa_item_size a)"
    by (intro mult_right_mono) (auto simp: pool_geometry_def)
  with assms show "int j * sint (pa_item_size a) + sint (pa_item_size a) < 2 ^ 31"
    by (simp add: pool_geometry_def algebra_simps)
  from assms show "0 \<le> int j * sint (pa_item_size a)" by (simp add: pool_geometry_def)
qed

lemma uint_block_at:
  assumes "pool_geometry a" and "j < length (pa_free_list a)"
  shows "uint (block_at a j) = uint (pa_buffer a) + int j * sint (pa_item_size a)"
proof -
  have "0 < sint (pa_item_size a)" "uint (pa_buffer a) + 2 ^ 31 \<le> 2 ^ 64"
    using assms by (simp_all add: pool_geometry_def)
  with geometry_offset [OF assms] show ?thesis
    unfolding block_at_def by (intro uint_ptr_add) linarith+
qed

lemma block_at_nonnull:
  assumes "pool_geometry a" and "j < length (pa_free_list a)"
  shows "block_at a j \<noteq> NULL"
proof
  assume "block_at a j = NULL"
  then have "uint (block_at a j) = 0" by simp
  with uint_block_at [OF assms] geometry_offset [OF assms] assms(1) show False
    by (simp add: pool_geometry_def)
qed

lemma block_at_inj:
  assumes "pool_geometry a" and "i < length (pa_free_list a)" and "j < length (pa_free_list a)"
    and "block_at a i = block_at a j"
  shows "i = j"
proof -
  from assms(4) have "uint (block_at a i) = uint (block_at a j)" by simp
  then have "int i * sint (pa_item_size a) = int j * sint (pa_item_size a)"
    unfolding uint_block_at [OF assms(1,2)] uint_block_at [OF assms(1,3)] by linarith
  moreover have "sint (pa_item_size a) \<noteq> 0" using assms(1) by (simp add: pool_geometry_def)
  ultimately show ?thesis by simp
qed

lemma getBlock_address:
  assumes "pool_geometry a" and "j < length (pa_free_list a)"
  shows "pa_buffer a + scast (of_nat j * pa_item_size a) = block_at a j"
proof -
  have "0 < sint (pa_item_size a)" using assms by (simp add: pool_geometry_def)
  with geometry_offset [OF assms]
  have "sint (word_of_int (int j * sint (pa_item_size a)) :: cint) = int j * sint (pa_item_size a)"
    by (intro sint_cint_of_int) linarith+
  then show ?thesis
    unfolding block_at_def cint_of_nat_mult scast_eq by (simp only:)
qed

lemma releaseBlock_offset:
  assumes "pool_geometry a" and "j < length (pa_free_list a)"
  shows "sint (ucast (block_at a j - pa_buffer a) :: cint) = int j * sint (pa_item_size a)"
proof -
  have "0 < sint (pa_item_size a)" using assms by (simp add: pool_geometry_def)
  with geometry_offset [OF assms] show ?thesis
    unfolding block_at_def by (intro sint_ptr_diff) linarith+
qed

subsection \<open>What the operations do to a well-formed pool\<close>

lemma getBlock_empty: "pool_inv a [] \<Longrightarrow> PoolAllocator_getBlock a = Inr (NULL, a)"
  by (simp add: PoolAllocator_getBlock_def pool_inv_def NullIdx_def)

lemma getBlock_pool:
  assumes i: "pool_inv a (x # xs)"
  shows "\<exists>a'. PoolAllocator_getBlock a = Inr (block_at a x, a') \<and> pool_inv a' xs \<and>
    pa_free_list a' = (pa_free_list a)[x := DetachedIdx] \<and> block_at a' = block_at a"
proof -
  let ?fl = "pa_free_list a"
  have g: "pool_geometry a" and x: "pa_first_idx a = of_nat x" "x < length ?fl" "x \<notin> set xs"
    and c: "free_chain ?fl (?fl ! x) xs" "distinct xs" and sz: "pa_size a = of_nat (Suc (length xs))"
    using i by (auto simp: pool_inv_def)
  have b: "x < 2 ^ 31" using geometry_length [OF g] x(2) by linarith
  let ?a = "a\<lparr>pa_first_idx := ?fl ! x, pa_size := pa_size a - 1, pa_free_list := ?fl[x := DetachedIdx]\<rparr>"
  have "PoolAllocator_getBlock a = Inr (block_at a x, ?a)"
    using x cint_of_nat_neq_minus [OF b] sint_cint_of_nat [OF b] getBlock_address [OF g x(2)]
    by (simp add: PoolAllocator_getBlock_def arr_get_def arr_set_def)
  moreover have "pool_inv ?a xs"
    using i c x(3) sz free_chain_upd [OF x(3)]
    by (auto simp: pool_inv_def pool_geometry_def nth_list_update)
  moreover have "block_at ?a = block_at a" by (simp add: block_at_def fun_eq_iff)
  ultimately show ?thesis by auto
qed

lemma c_div_mod_block:
  assumes "sint o' = int j * s" and "sint i = s" and "0 < s" and "int j * s < 2 ^ 31"
    and "j < 2 ^ 31"
  shows "c_mod o' i = Inr 0" and "c_div o' i = Inr (of_nat j)"
proof -
  have "i \<noteq> 0" using assms by auto
  moreover have "int j * s smod s = 0" and "int j * s sdiv s = int j"
    using assms(3) by (auto simp: signed_modulo_int_def signed_divide_int_def abs_mult sgn_mult)
  ultimately show "c_mod o' i = Inr 0" and "c_div o' i = Inr (of_nat j)"
    using assms by (simp_all add: c_mod_def c_div_def)
qed

text \<open>The checks of \<open>releaseBlock\<close> for the address of a block.\<close>

lemma releaseBlock_block:
  assumes g: "pool_geometry a" and j: "j < length (pa_free_list a)"
  shows "PoolAllocator_releaseBlock a (block_at a j) =
    (if pa_free_list a ! j \<noteq> DetachedIdx then Inr (DoubleFree, a)
     else Inr (Success, a\<lparr>pa_free_list := (pa_free_list a)[j := pa_first_idx a],
       pa_first_idx := of_nat j, pa_size := pa_size a + 1\<rparr>))"
proof -
  let ?o = "ucast (block_at a j - pa_buffer a) :: cint"
  have b: "j < 2 ^ 31" using geometry_length [OF g] j by linarith
  have s: "0 < sint (pa_item_size a)" and m: "sint (pa_size_max a) = int (length (pa_free_list a))"
    using g by (simp_all add: pool_geometry_def)
  have o: "sint ?o = int j * sint (pa_item_size a)" using g j by (rule releaseBlock_offset)
  have lt: "int j * sint (pa_item_size a) < 2 ^ 31"
    using geometry_offset [OF g j] s by linarith
  note dm = c_div_mod_block [OF o refl s lt b]
  have idx: "sint (of_nat j :: cint) = int j" using b by (rule sint_cint_of_nat)
  show ?thesis
    using j m idx dm
    by (simp add: PoolAllocator_releaseBlock_def Let_def arr_get_def arr_set_def word_sless_alt
        word_sle_eq)
qed

lemma releaseBlock_pool:
  assumes i: "pool_inv a xs" and j: "j < length (pa_free_list a)" and d: "j \<notin> set xs"
  shows "\<exists>a'. PoolAllocator_releaseBlock a (block_at a j) = Inr (Success, a') \<and>
    pool_inv a' (j # xs) \<and> pa_free_list a' = (pa_free_list a)[j := pa_first_idx a] \<and>
    block_at a' = block_at a"
proof -
  let ?a = "a\<lparr>pa_free_list := (pa_free_list a)[j := pa_first_idx a],
       pa_first_idx := of_nat j, pa_size := pa_size a + 1\<rparr>"
  have g: "pool_geometry a" and c: "pa_free_list a ! j = DetachedIdx"
    and ch: "free_chain (pa_free_list a) (pa_first_idx a) xs"
    using i j d by (auto simp: pool_inv_def)
  have "pa_first_idx a \<noteq> DetachedIdx"
  proof (cases xs)
    case (Cons y ys)
    with ch geometry_length [OF g] have "pa_first_idx a = of_nat y" "y < 2 ^ 31" by auto
    then show ?thesis using cint_of_nat_neq_minus [of y] by (simp add: DetachedIdx_def)
  qed (use ch in \<open>simp add: NullIdx_def DetachedIdx_def\<close>)
  then have "pool_inv ?a (j # xs)"
    using i j d ch free_chain_upd [OF d]
    by (auto simp: pool_inv_def pool_geometry_def nth_list_update)
  moreover have "block_at ?a = block_at a" by (simp add: block_at_def fun_eq_iff)
  ultimately show ?thesis using releaseBlock_block [OF g j] c by auto
qed

lemma releaseBlock_double:
  "pool_inv a xs \<Longrightarrow> j < length (pa_free_list a) \<Longrightarrow> j \<in> set xs \<Longrightarrow>
   PoolAllocator_releaseBlock a (block_at a j) = Inr (DoubleFree, a)"
  using releaseBlock_block [of a j] by (auto simp: pool_inv_def)

subsection \<open>Initialisation\<close>

definition chained :: "nat \<Rightarrow> nat \<Rightarrow> cint list \<Rightarrow> cint list" where
  "chained n i fl = map (\<lambda>j. if i \<le> j \<and> j < n - 1 then of_nat (Suc j) else fl ! j) [0..<n]"

lemma chained_simps [simp]:
  "length (chained n i fl) = n"
  "j < n \<Longrightarrow> chained n i fl ! j = (if i \<le> j \<and> j < n - 1 then of_nat (Suc j) else fl ! j)"
  by (simp_all add: chained_def)

lemma init_free_list_chained:
  assumes "n < 2 ^ 31" and "length fl = n" and "i \<le> n - 1"
  shows "init_free_list (of_nat n) (of_nat i) fl = Inr (chained n i fl)"
  using assms
proof (induction "n - 1 - i" arbitrary: i fl)
  case 0
  then have "\<not> (of_nat i :: cint) <s of_nat n - 1"
  proof (cases n)
    case (Suc k)
    with 0 show ?thesis by (simp add: word_sless_alt)
  qed (simp add: word_sless_alt)
  moreover have "chained n i fl = fl"
    using 0 by (auto simp: chained_def intro!: nth_equalityI)
  ultimately show ?case by (simp add: init_free_list.simps [of "of_nat n"])
next
  case (Suc d)
  then obtain k where n: "n = Suc k" and ik: "i < k" by (cases n) auto
  let ?fl = "fl[i := of_nat (Suc i)]"
  have s: "sint (of_nat i :: cint) = int i" "sint (of_nat k :: cint) = int k"
    using Suc.prems n ik by (auto intro!: sint_cint_of_nat)
  have "(of_nat i :: cint) <s of_nat n - 1" and "of_nat i + 1 = (of_nat (Suc i) :: cint)"
    and "arr_set fl (of_nat i) (of_nat (Suc i)) = Inr ?fl"
    using s ik n Suc.prems by (simp_all add: word_sless_alt arr_set_def)
  then have "init_free_list (of_nat n) (of_nat i) fl = init_free_list (of_nat n) (of_nat (Suc i)) ?fl"
    by (subst init_free_list.simps) (simp del: of_nat_Suc)
  also have "\<dots> = Inr (chained n (Suc i) ?fl)"
    using Suc.hyps(2) Suc.prems ik n by (intro Suc.hyps(1)) auto
  also have "chained n (Suc i) ?fl = chained n i fl"
  proof (rule nth_equalityI)
    fix x
    assume "x < length (chained n (Suc i) ?fl)"
    then show "chained n (Suc i) ?fl ! x = chained n i fl ! x"
      using ik n Suc.prems(2) by (auto simp: nth_list_update)
  qed simp
  finally show ?case .
qed

lemma free_chain_upt:
  assumes "\<And>j. j < n \<Longrightarrow> fl ! j = (if j < n - 1 then of_nat (Suc j) else NullIdx)"
    and "length fl = n" and "k < n"
  shows "free_chain fl (of_nat k) [k..<n]"
  using assms(3)
proof (induction "n - k" arbitrary: k)
  case (Suc d)
  then have "[k..<n] = k # [Suc k..<n]" by (simp add: upt_conv_Cons)
  moreover have "free_chain fl (fl ! k) [Suc k..<n]"
    using Suc.hyps(2) Suc.hyps(1) [of "Suc k"] assms(1) [of k] by (cases "Suc k < n") auto
  ultimately show ?case using Suc.prems assms(2) by simp
qed simp

lemma requested_size:
  assumes "0 \<le> n * (i + 4)" and "n * (i + 4) < 2 ^ 31" and "- (2 ^ 31) \<le> n" and "n < 2 ^ 31"
    and "- (2 ^ 31) \<le> i" and "i < 2 ^ 31"
  shows "sint (ucast ((scast (word_of_int n :: cint) :: clong) * (scast (word_of_int i :: cint) + 4)) :: cint)
    = n * (i + 4)"
proof -
  have "scast (word_of_int n :: cint) = (word_of_int n :: clong)"
    and "scast (word_of_int i :: cint) = (word_of_int i :: clong)"
    using assms by (simp_all add: scast_eq sint_cint_of_int del: of_int_of_nat_eq)
  then have "(scast (word_of_int n :: cint) :: clong) * (scast (word_of_int i :: cint) + 4)
      = 0 + word_of_int (n * (i + 4))"
    by simp
  then show ?thesis using sint_ptr_diff [OF assms(1,2), of 0] by (metis diff_zero)
qed

lemma PoolAllocator_init_pool:
  assumes n: "0 < n" "length cells = n" and i: "0 < sint item"
    and sz: "int n * (sint item + 4) < 2 ^ 31" "int n * (sint item + 4) \<le> sint mem"
    and b: "0 < uint blk" "uint blk + 2 ^ 31 \<le> 2 ^ 64"
  shows "\<exists>a'. PoolAllocator_init a item (of_nat n) blk cells mem = Inr (Success, a') \<and>
    pool_inv a' [0..<n] \<and> pa_buffer a' = blk \<and> pa_item_size a' = item \<and>
    length (pa_free_list a') = n"
proof -
  have n31: "n < 2 ^ 31"
  proof -
    have "int n * 1 \<le> int n * (sint item + 4)" using i by (intro mult_left_mono) auto
    with sz(1) have "int n < 2 ^ 31" by linarith
    then show ?thesis by simp
  qed
  have rq: "sint (ucast ((scast (of_nat n :: cint) :: clong) * (scast item + 4)) :: cint)
      = int n * (sint item + 4)"
    using requested_size [of "int n" "sint item"] sz i n31 sint_range32 [of item] by simp
  let ?fl = "(chained n 0 cells)[n - 1 := NullIdx]"
  have len: "length ?fl = n" by (simp add: chained_def)
  have fl: "?fl ! j = (if j < n - 1 then of_nat (Suc j) else NullIdx)" if "j < n" for j
    using that by (auto simp: chained_def nth_list_update)
  have "sint (of_nat n - 1 :: cint) = int (n - 1)"
    using n n31 sint_cint_of_nat [of "n - 1"] by (cases n) auto
  then have as: "arr_set (chained n 0 cells) (of_nat n - 1) NullIdx = Inr ?fl"
    using n by (simp add: arr_set_def chained_def del: of_nat_diff)
  let ?a = "a\<lparr>pa_item_size := item, pa_size := of_nat n,
      pa_buffer_size := item * of_nat n, pa_size_max := of_nat n,
      pa_buffer := blk, pa_free_list := ?fl, pa_first_idx := 0\<rparr>"
  have "PoolAllocator_init a item (of_nat n) blk cells mem = Inr (Success, ?a)"
    using rq sz as init_free_list_chained [OF n31 n(2), of 0]
    by (simp add: PoolAllocator_init_def word_sless_alt)
  moreover have "int n * sint item < 2 ^ 31"
    using sz i by (simp add: algebra_simps)
  then have "pool_geometry ?a"
    using len i b n31 by (simp add: pool_geometry_def sint_cint_of_nat)
  then have "pool_inv ?a [0..<n]"
    using free_chain_upt [OF fl len n(1)] fl len cint_of_nat_neq_minus [of "Suc j" for j] n31
    by (auto simp: pool_inv_def NullIdx_def DetachedIdx_def)
  ultimately show ?thesis using len by auto
qed

subsection \<open>The contract of a block pool\<close>

text \<open>
  What the kernel relies on: a pool hands out addresses that no one holds, reports
  exhaustion with the null pointer, takes back what it handed out and refuses what it did
  not.
\<close>

locale block_pool =
  fixes get :: "'a \<Rightarrow> (ptr \<times> 'a) result"
    and put :: "'a \<Rightarrow> ptr \<Rightarrow> (PoolAllocatorResult \<times> 'a) result"
    and good :: "'a \<Rightarrow> bool"
    and live :: "'a \<Rightarrow> ptr set"
    and spare :: "'a \<Rightarrow> ptr set"
  assumes get_some: "good a \<Longrightarrow> spare a \<noteq> {} \<Longrightarrow>
      \<exists>p a'. get a = Inr (p, a') \<and> good a' \<and> p \<in> spare a \<and>
        live a' = insert p (live a) \<and> spare a' = spare a - {p}"
    and get_none: "good a \<Longrightarrow> spare a = {} \<Longrightarrow> get a = Inr (NULL, a)"
    and put_live: "good a \<Longrightarrow> p \<in> live a \<Longrightarrow>
      \<exists>a'. put a p = Inr (Success, a') \<and> good a' \<and>
        live a' = live a - {p} \<and> spare a' = insert p (spare a)"
    and put_spare: "good a \<Longrightarrow> p \<in> spare a \<Longrightarrow> put a p = Inr (DoubleFree, a)"
    and apart: "good a \<Longrightarrow> live a \<inter> spare a = {}"
    and not_null: "good a \<Longrightarrow> NULL \<notin> live a \<union> spare a"
    and finite_blocks: "good a \<Longrightarrow> finite (live a \<union> spare a)"
begin

lemma get_cases:
  assumes "good a"
  obtains (exhausted) "spare a = {}" "get a = Inr (NULL, a)"
  | (block) p a' where "get a = Inr (p, a')" "good a'" "p \<noteq> NULL" "p \<notin> live a" "p \<in> spare a"
      "live a' = insert p (live a)" "spare a' = spare a - {p}"
proof (cases "spare a = {}")
  case True
  with get_none [OF assms] exhausted show ?thesis by blast
next
  case False
  with get_some [OF assms] obtain p a' where "get a = Inr (p, a')" "good a'" "p \<in> spare a"
      "live a' = insert p (live a)" "spare a' = spare a - {p}" by blast
  moreover have "p \<noteq> NULL" "p \<notin> live a"
    using \<open>p \<in> spare a\<close> apart [OF assms] not_null [OF assms] by auto
  ultimately show ?thesis by (intro block [of p a'])
qed

lemma get_keeps_good: "good a \<Longrightarrow> get a = Inr (p, a') \<Longrightarrow> good a'"
  by (rule get_cases [of a]) auto

lemma get_put:
  assumes "good a" and "get a = Inr (p, a')" and "p \<noteq> NULL"
  shows "\<exists>a''. put a' p = Inr (Success, a'') \<and> good a'' \<and> live a'' = live a \<and> spare a'' = spare a"
proof -
  from assms(1) show ?thesis
  proof (cases rule: get_cases)
    case (block q b)
    with assms put_live [of a' p] show ?thesis by auto
  qed (use assms in simp)
qed

lemma put_put:
  assumes "good a" and "p \<in> live a" and "put a p = Inr (r, a')"
  shows "r = Success \<and> put a' p = Inr (DoubleFree, a')"
  using put_live [OF assms(1,2)] assms(3) put_spare [of a' p] by auto

lemma capacity_get:
  assumes "good a" and "get a = Inr (p, a')"
  shows "live a' \<union> spare a' = live a \<union> spare a"
  using assms(1)
proof (cases rule: get_cases)
  case exhausted
  with assms(2) show ?thesis by simp
next
  case (block q b)
  with assms(2) show ?thesis by auto
qed

lemma capacity_put:
  assumes "good a" and "p \<in> live a" and "put a p = Inr (r, a')"
  shows "live a' \<union> spare a' = live a \<union> spare a"
  using put_live [OF assms(1,2)] assms by auto

end

definition pool_good :: "PoolAllocator \<Rightarrow> bool" where
  "pool_good a \<longleftrightarrow> (\<exists>xs. pool_inv a xs)"

definition pool_live :: "PoolAllocator \<Rightarrow> ptr set" where
  "pool_live a = block_at a ` {j. j < length (pa_free_list a) \<and> pa_free_list a ! j = DetachedIdx}"

definition pool_spare :: "PoolAllocator \<Rightarrow> ptr set" where
  "pool_spare a = block_at a ` {j. j < length (pa_free_list a) \<and> pa_free_list a ! j \<noteq> DetachedIdx}"

lemma pool_spare_inv: "pool_inv a xs \<Longrightarrow> pool_spare a = block_at a ` set xs"
  by (auto simp: pool_spare_def pool_inv_def dest: free_chain_bound)

lemma pool_live_inv:
  "pool_inv a xs \<Longrightarrow> pool_live a = block_at a ` ({j. j < length (pa_free_list a)} - set xs)"
  by (auto simp: pool_live_def pool_inv_def)

lemma block_image_remove:
  assumes "pool_geometry a" and "x < length (pa_free_list a)"
    and "S \<subseteq> {j. j < length (pa_free_list a)}"
  shows "block_at a ` (S - {x}) = block_at a ` S - {block_at a x}"
  using assms block_at_inj [of a] by blast

lemma pool_get_some:
  assumes "pool_good a" and "pool_spare a \<noteq> {}"
  shows "\<exists>p a'. PoolAllocator_getBlock a = Inr (p, a') \<and> pool_good a' \<and> p \<in> pool_spare a \<and>
        pool_live a' = insert p (pool_live a) \<and> pool_spare a' = pool_spare a - {p}"
proof -
  from assms(1) obtain xs where i: "pool_inv a xs" by (auto simp: pool_good_def)
  with assms(2) obtain y ys where xs: "xs = y # ys" by (cases xs) (auto simp: pool_spare_inv)
  from getBlock_pool [OF i [unfolded xs]] obtain a' where
    a': "PoolAllocator_getBlock a = Inr (block_at a y, a')" "pool_inv a' ys"
      "pa_free_list a' = (pa_free_list a)[y := DetachedIdx]" "block_at a' = block_at a" by blast
  have g: "pool_geometry a" and y: "y < length (pa_free_list a)" "y \<notin> set ys"
    and ys: "set ys \<subseteq> {j. j < length (pa_free_list a)}"
    using i xs by (auto simp: pool_inv_def dest: free_chain_bound)
  have "pool_spare a' = pool_spare a - {block_at a y}"
    unfolding pool_spare_inv [OF i] pool_spare_inv [OF a'(2)] a'(4) xs
    using block_image_remove [OF g y(1), of "set (y # ys)"] y ys by simp
  moreover have "pool_live a' = insert (block_at a y) (pool_live a)"
    using y by (auto simp: pool_live_def a'(3,4) nth_list_update)
  moreover have "pool_good a'" using a'(2) by (auto simp: pool_good_def)
  moreover have "block_at a y \<in> pool_spare a" using pool_spare_inv [OF i] xs by simp
  ultimately show ?thesis using a'(1) by blast
qed

lemma pool_put_live:
  assumes "pool_good a" and "p \<in> pool_live a"
  shows "\<exists>a'. PoolAllocator_releaseBlock a p = Inr (Success, a') \<and> pool_good a' \<and>
        pool_live a' = pool_live a - {p} \<and> pool_spare a' = insert p (pool_spare a)"
proof -
  from assms(1) obtain xs where i: "pool_inv a xs" by (auto simp: pool_good_def)
  with assms(2) obtain j where j: "p = block_at a j" "j < length (pa_free_list a)" "j \<notin> set xs"
    by (auto simp: pool_live_inv)
  from releaseBlock_pool [OF i j(2,3)] obtain a' where
    a': "PoolAllocator_releaseBlock a p = Inr (Success, a')" "pool_inv a' (j # xs)"
      "length (pa_free_list a') = length (pa_free_list a)" "block_at a' = block_at a"
    using j(1) by auto
  have g: "pool_geometry a" using i by (simp add: pool_inv_def)
  let ?used = "{j. j < length (pa_free_list a)} - set xs"
  have "{j. j < length (pa_free_list a)} - set (j # xs) = ?used - {j}" by auto
  moreover have "block_at a ` (?used - {j}) = block_at a ` ?used - {block_at a j}"
    by (rule block_image_remove [OF g j(2)]) auto
  ultimately have "pool_live a' = pool_live a - {p}"
    unfolding pool_live_inv [OF i] pool_live_inv [OF a'(2)] a'(3,4) j(1) by (simp only:)
  moreover have "pool_spare a' = insert p (pool_spare a)"
    unfolding pool_spare_inv [OF i] pool_spare_inv [OF a'(2)] a'(4) j(1) by simp
  moreover have "pool_good a'" using a'(2) by (auto simp: pool_good_def)
  ultimately show ?thesis using a'(1) by blast
qed

interpretation pool: block_pool PoolAllocator_getBlock PoolAllocator_releaseBlock
    pool_good pool_live pool_spare
proof
  show "PoolAllocator_getBlock a = Inr (NULL, a)" if "pool_good a" "pool_spare a = {}" for a
    using that getBlock_empty by (auto simp: pool_good_def pool_spare_inv)
  show "PoolAllocator_releaseBlock a p = Inr (DoubleFree, a)"
    if "pool_good a" "p \<in> pool_spare a" for a p
  proof -
    from that obtain xs j where "pool_inv a xs" "p = block_at a j" "j \<in> set xs"
      by (auto simp: pool_good_def pool_spare_inv)
    then show ?thesis
      using releaseBlock_double [of a xs j] free_chain_bound [of _ _ xs j] by (auto simp: pool_inv_def)
  qed
  show "pool_live a \<inter> pool_spare a = {}" if "pool_good a" for a
    using that by (auto simp: pool_good_def pool_live_def pool_spare_def pool_inv_def
        dest: block_at_inj [rotated 3])
  show "NULL \<notin> pool_live a \<union> pool_spare a" if "pool_good a" for a
    using that block_at_nonnull [of a] by (auto simp: pool_good_def pool_live_def pool_spare_def pool_inv_def)
  show "finite (pool_live a \<union> pool_spare a)" for a
    by (simp add: pool_live_def pool_spare_def)
qed (rule pool_get_some pool_put_live; assumption)+

subsection \<open>Releasing an arbitrary address\<close>

definition byte_offset :: "PoolAllocator \<Rightarrow> ptr \<Rightarrow> int" where
  "byte_offset a p = sint (ucast (p - pa_buffer a) :: cint)"

lemma smod_eq_0_iff: "(k :: int) smod l = 0 \<longleftrightarrow> l dvd k"
  by (auto simp: signed_modulo_int_def dvd_eq_mod_eq_0 [symmetric] sgn_0_0)

lemma word_smod_zero:
  fixes o' i :: cint
  assumes "0 < sint i"
  shows "(word_of_int (sint o' smod sint i) :: cint) = 0 \<longleftrightarrow> sint i dvd sint o'"
proof -
  have "\<bar>sint o' smod sint i\<bar> < sint i"
    using assms by (simp add: signed_modulo_int_def abs_mult sgn_if)
  then have "sint (word_of_int (sint o' smod sint i) :: cint) = sint o' smod sint i"
    using sint_range32 [of i] by (intro sint_cint_of_int) linarith+
  moreover have "sint (word_of_int (sint o' smod sint i) :: cint) = 0
      \<longleftrightarrow> (word_of_int (sint o' smod sint i) :: cint) = 0"
    by (metis signed_0 signed_word_eqI)
  ultimately show ?thesis by (simp add: smod_eq_0_iff)
qed

lemma word_sdiv_exact:
  fixes o' i :: cint
  assumes "0 < sint i" and "sint o' = k * sint i"
  shows "sint (word_of_int (sint o' sdiv sint i) :: cint) = k"
proof -
  have "k * sint i sdiv sint i = k"
    using assms(1) by (auto simp: signed_divide_int_def abs_mult sgn_mult mult_sgn_abs)
  moreover have "\<bar>k\<bar> \<le> \<bar>sint o'\<bar>"
    using assms by (simp add: abs_mult mult_le_cancel_left1)
  then have "- (2 ^ 31) \<le> k" and "k < 2 ^ 31"
    using sint_range32 [of o'] assms mult_nonneg_nonneg [of k "sint i"] by linarith+
  ultimately show ?thesis using assms(2) by (simp add: sint_cint_of_int)
qed

lemma releaseBlock_unaligned:
  assumes "pool_geometry a" and "\<not> sint (pa_item_size a) dvd byte_offset a p"
  shows "PoolAllocator_releaseBlock a p = Inr (UnalignedFree, a)"
proof -
  have s: "0 < sint (pa_item_size a)" using assms by (simp add: pool_geometry_def)
  then have "pa_item_size a \<noteq> 0" by auto
  with s assms(2) show ?thesis
    by (simp add: PoolAllocator_releaseBlock_def Let_def c_mod_def word_smod_zero byte_offset_def)
qed

lemma releaseBlock_outside:
  assumes g: "pool_geometry a" and k: "byte_offset a p = k * sint (pa_item_size a)"
    and out: "k < 0 \<or> int (length (pa_free_list a)) \<le> k"
  shows "PoolAllocator_releaseBlock a p = Inr (OutOfRange, a)"
proof -
  let ?o = "ucast (p - pa_buffer a) :: cint"
  have s: "0 < sint (pa_item_size a)" and m: "sint (pa_size_max a) = int (length (pa_free_list a))"
    using g by (simp_all add: pool_geometry_def)
  have o: "sint ?o = k * sint (pa_item_size a)" using k by (simp add: byte_offset_def)
  have "pa_item_size a \<noteq> 0" using s by auto
  moreover have "(word_of_int (sint ?o smod sint (pa_item_size a)) :: cint) = 0"
    using word_smod_zero [OF s, of ?o] o by simp
  ultimately show ?thesis
    using word_sdiv_exact [OF s o] m out
    by (auto simp: PoolAllocator_releaseBlock_def Let_def c_mod_def c_div_def word_sless_alt
        word_sle_eq)
qed

lemma releaseBlock_alias:
  assumes g: "pool_geometry a" and j: "j < length (pa_free_list a)"
    and k: "byte_offset a p = int j * sint (pa_item_size a)"
  shows "PoolAllocator_releaseBlock a p = PoolAllocator_releaseBlock a (block_at a j)"
proof -
  have "sint (ucast (p - pa_buffer a) :: cint) = sint (ucast (block_at a j - pa_buffer a) :: cint)"
    using k releaseBlock_offset [OF g j] by (simp add: byte_offset_def)
  then have "(ucast (p - pa_buffer a) :: cint) = ucast (block_at a j - pa_buffer a)"
    by (rule signed_word_eqI)
  then show ?thesis by (simp add: PoolAllocator_releaseBlock_def)
qed

lemma releaseBlock_cases:
  assumes g: "pool_geometry a"
  obtains (unaligned) "\<not> sint (pa_item_size a) dvd byte_offset a p"
      "PoolAllocator_releaseBlock a p = Inr (UnalignedFree, a)"
  | (outside) k where "byte_offset a p = k * sint (pa_item_size a)"
      "k < 0 \<or> int (length (pa_free_list a)) \<le> k"
      "PoolAllocator_releaseBlock a p = Inr (OutOfRange, a)"
  | (block) j where "j < length (pa_free_list a)" "byte_offset a p = int j * sint (pa_item_size a)"
      "PoolAllocator_releaseBlock a p = PoolAllocator_releaseBlock a (block_at a j)"
proof (cases "sint (pa_item_size a) dvd byte_offset a p")
  case False
  with releaseBlock_unaligned [OF g] unaligned show ?thesis by blast
next
  case True
  then obtain k where k: "byte_offset a p = k * sint (pa_item_size a)"
    by (auto simp: dvd_def mult.commute)
  show ?thesis
  proof (cases "k < 0 \<or> int (length (pa_free_list a)) \<le> k")
    case True
    with releaseBlock_outside [OF g k] outside [OF k] show ?thesis by blast
  next
    case False
    then have "nat k < length (pa_free_list a)" "byte_offset a p = int (nat k) * sint (pa_item_size a)"
      using k by auto
    with releaseBlock_alias [OF g] block show ?thesis by blast
  qed
qed

subsection \<open>Sequences of calls\<close>

datatype pool_op = GetBlock | ReleaseBlock ptr

fun pool_step :: "PoolAllocator \<Rightarrow> pool_op \<Rightarrow> PoolAllocator result" where
  "pool_step a GetBlock = bindE (PoolAllocator_getBlock a) (\<lambda>(_, a'). Inr a')"
| "pool_step a (ReleaseBlock p) = bindE (PoolAllocator_releaseBlock a p) (\<lambda>(_, a'). Inr a')"

fun pool_run :: "PoolAllocator \<Rightarrow> pool_op list \<Rightarrow> PoolAllocator result" where
  "pool_run a [] = Inr a"
| "pool_run a (q # qs) = bindE (pool_step a q) (\<lambda>a'. pool_run a' qs)"

abbreviation pool_blocks :: "PoolAllocator \<Rightarrow> ptr set" where
  "pool_blocks a \<equiv> pool_live a \<union> pool_spare a"

lemma block_in_pool:
  "j < length (pa_free_list a) \<Longrightarrow>
   block_at a j \<in> (if pa_free_list a ! j = DetachedIdx then pool_live a else pool_spare a)"
  by (auto simp: pool_live_def pool_spare_def)

lemma pool_step_good:
  assumes "pool_good a"
  shows "\<exists>a'. pool_step a q = Inr a' \<and> pool_good a' \<and> pool_blocks a' = pool_blocks a"
proof (cases q)
  case GetBlock
  from assms show ?thesis
    by (cases rule: pool.get_cases) (use assms in \<open>auto simp: GetBlock\<close>)
next
  case (ReleaseBlock p)
  from assms have g: "pool_geometry a" by (auto simp: pool_good_def pool_inv_def)
  then show ?thesis
  proof (cases rule: releaseBlock_cases [where p = p])
    case (block j)
    show ?thesis
    proof (cases "pa_free_list a ! j = DetachedIdx")
      case True
      with block_in_pool [OF block(1)] have "block_at a j \<in> pool_live a" by simp
      with pool.put_live [OF assms this] block(3) show ?thesis by (auto simp: ReleaseBlock)
    next
      case False
      with releaseBlock_block [OF g block(1)] block(3) assms show ?thesis by (simp add: ReleaseBlock)
    qed
  qed (use assms in \<open>simp_all add: ReleaseBlock\<close>)
qed

definition demo_pool :: PoolAllocator where
  "demo_pool = \<lparr>pa_buffer = 4096, pa_free_list = [1, -1, -2], pa_buffer_size = 48, pa_size = 2,
     pa_size_max = 3, pa_item_size = 16, pa_first_idx = 0, pa_bucket_size = 0\<rparr>"

lemma all_below_three: "(\<forall>j < Suc (Suc (Suc 0)). P j) \<longleftrightarrow> P 0 \<and> P (Suc 0) \<and> P (Suc (Suc 0))"
  by (auto simp: less_Suc_eq)

lemma demo_pool_inv: "pool_inv demo_pool [0, 1]"
  by (simp add: pool_inv_def pool_geometry_def demo_pool_def NullIdx_def DetachedIdx_def
      all_below_three)

lemma demo_pool_good: "pool_good demo_pool"
  using demo_pool_inv by (auto simp: pool_good_def)

lemma PoolAllocator_init_done:
  assumes "0 < n" and "length cells = n" and "0 < sint item"
    and "int n * (sint item + 4) < 2 ^ 31" and "int n * (sint item + 4) \<le> sint mem"
    and "0 < uint blk" and "uint blk + 2 ^ 31 \<le> 2 ^ 64"
  shows "\<exists>a'. PoolAllocator_init a item (of_nat n) blk cells mem = Inr (Success, a') \<and>
    pool_good a' \<and> pool_live a' = {} \<and>
    pool_spare a' = (\<lambda>j. blk + word_of_int (int j * sint item)) ` {..<n} \<and> card (pool_spare a') = n"
proof -
  from PoolAllocator_init_pool [OF assms, of a] obtain a' where
    a': "PoolAllocator_init a item (of_nat n) blk cells mem = Inr (Success, a')"
      "pool_inv a' [0..<n]" "pa_buffer a' = blk" "pa_item_size a' = item"
      "length (pa_free_list a') = n" by blast
  have sp: "pool_spare a' = block_at a' ` {..<n}"
    using pool_spare_inv [OF a'(2)] by (simp add: lessThan_atLeast0)
  have "inj_on (block_at a') {..<n}"
    using a'(2,5) block_at_inj [of a'] by (auto simp: inj_on_def pool_inv_def)
  then have "card (pool_spare a') = n" by (simp add: sp card_image)
  moreover have "pool_live a' = {}" using pool_live_inv [OF a'(2)] a'(5) by auto
  moreover have "block_at a' = (\<lambda>j. blk + word_of_int (int j * sint item))"
    by (rule ext) (simp only: block_at_def a'(3,4))
  ultimately show ?thesis using a'(1,2) sp by (auto simp: pool_good_def)
qed

text \<open>
  C38: whatever sequence of allocations and releases a client performs on a well-formed pool, with
  whatever addresses it releases, the allocator never faults, the pool stays well formed and the
  set of blocks it manages stays the same.
\<close>

theorem pool_run_safe:
  assumes "pool_good a"
  shows "\<exists>a'. pool_run a qs = Inr a' \<and> pool_good a' \<and> pool_blocks a' = pool_blocks a"
  using assms
proof (induction qs arbitrary: a)
  case (Cons q qs)
  from pool_step_good [OF Cons.prems] obtain b where
    b: "pool_step a q = Inr b" "pool_good b" "pool_blocks b = pool_blocks a" by blast
  from Cons.IH [OF b(2)] b show ?case by auto
qed simp

theorem pool_run_safe_witness:
  "\<exists>a'. pool_run demo_pool [GetBlock, ReleaseBlock 4097, GetBlock, GetBlock, ReleaseBlock 4096] = Inr a' \<and>
    pool_good a' \<and> pool_blocks a' = pool_blocks demo_pool"
  by (rule pool_run_safe [OF demo_pool_good])

text \<open>
  C39: \<open>getBlock\<close> on a well-formed pool either reports exhaustion, exactly when no block is spare,
  and changes nothing, or returns a block that nobody holds, whose bytes lie inside the buffer and
  overlap no block that is handed out.
\<close>

theorem getBlock_fresh:
  assumes "pool_good a"
  shows "\<exists>p a'. PoolAllocator_getBlock a = Inr (p, a') \<and> pool_good a' \<and>
    (if p = NULL then pool_spare a = {} \<and> a' = a
     else p \<in> pool_spare a \<and> pool_live a' = insert p (pool_live a) \<and>
       pool_spare a' = pool_spare a - {p} \<and> uint (pa_buffer a) \<le> uint p \<and>
       uint p + sint (pa_item_size a)
         \<le> uint (pa_buffer a) + int (length (pa_free_list a)) * sint (pa_item_size a) \<and>
       (\<forall>q\<in>pool_live a. uint q + sint (pa_item_size a) \<le> uint p \<or>
         uint p + sint (pa_item_size a) \<le> uint q))"
  using assms
proof (cases rule: pool.get_cases)
  case (block p a')
  let ?s = "sint (pa_item_size a)"
  have g: "pool_geometry a" using assms by (auto simp: pool_good_def pool_inv_def)
  then have s: "0 < ?s" by (simp add: pool_geometry_def)
  from block(5) obtain i where i: "p = block_at a i" "i < length (pa_free_list a)"
    by (auto simp: pool_spare_def)
  have step: "int k * ?s + ?s \<le> int l * ?s" if "k < l" for k l :: nat
  proof -
    from that have "int (Suc k) * ?s \<le> int l * ?s" using s by (intro mult_right_mono) auto
    then show ?thesis by (simp add: algebra_simps)
  qed
  have "uint q + ?s \<le> uint p \<or> uint p + ?s \<le> uint q" if q: "q \<in> pool_live a" for q
  proof -
    from q obtain j where j: "q = block_at a j" "j < length (pa_free_list a)"
      by (auto simp: pool_live_def)
    with i block(4) q have "j < i \<or> i < j" by (metis linorder_neqE_nat)
    with step [of j i] step [of i j] show ?thesis
      using uint_block_at [OF g i(2)] uint_block_at [OF g j(2)] i(1) j(1) by auto
  qed
  moreover have "uint (pa_buffer a) \<le> uint p"
    and "uint p + ?s \<le> uint (pa_buffer a) + int (length (pa_free_list a)) * ?s"
    using uint_block_at [OF g i(2)] step [OF i(2)] s i(1) by auto
  ultimately show ?thesis using block by auto
qed (use assms in auto)

theorem getBlock_fresh_witness:
  "\<exists>p a'. PoolAllocator_getBlock demo_pool = Inr (p, a') \<and> pool_good a' \<and>
    (if p = NULL then pool_spare demo_pool = {} \<and> a' = demo_pool
     else p \<in> pool_spare demo_pool \<and> pool_live a' = insert p (pool_live demo_pool) \<and>
       pool_spare a' = pool_spare demo_pool - {p} \<and>
       uint (pa_buffer demo_pool) \<le> uint p \<and>
       uint p + sint (pa_item_size demo_pool) \<le> uint (pa_buffer demo_pool) +
         int (length (pa_free_list demo_pool)) * sint (pa_item_size demo_pool) \<and>
       (\<forall>q\<in>pool_live demo_pool. uint q + sint (pa_item_size demo_pool) \<le> uint p \<or>
         uint p + sint (pa_item_size demo_pool) \<le> uint q))"
  by (rule getBlock_fresh [OF demo_pool_good])

text \<open>
  C40: releasing a block that is handed out succeeds, the next allocation returns that very block
  and brings the pool back to exactly the state before the release, and releasing it a second time
  instead is reported as \<open>DoubleFree\<close> and changes nothing.
\<close>

theorem release_get_roundtrip:
  assumes "pool_good a" and "p \<in> pool_live a"
  shows "\<exists>a'. PoolAllocator_releaseBlock a p = Inr (Success, a') \<and>
    PoolAllocator_getBlock a' = Inr (p, a) \<and>
    PoolAllocator_releaseBlock a' p = Inr (DoubleFree, a')"
proof -
  from assms obtain j where j: "p = block_at a j" "j < length (pa_free_list a)"
      "pa_free_list a ! j = DetachedIdx" by (auto simp: pool_live_def)
  have g: "pool_geometry a" using assms by (auto simp: pool_good_def pool_inv_def)
  have b: "j < 2 ^ 31" using geometry_length [OF g] j by linarith
  let ?a = "a\<lparr>pa_free_list := (pa_free_list a)[j := pa_first_idx a],
       pa_first_idx := of_nat j, pa_size := pa_size a + 1\<rparr>"
  have rel: "PoolAllocator_releaseBlock a p = Inr (Success, ?a)"
    using releaseBlock_block [OF g j(2)] j by simp
  moreover have "(pa_free_list a)[j := DetachedIdx] = pa_free_list a"
    using j by (metis list_update_id)
  then have "PoolAllocator_getBlock ?a = Inr (p, a)"
    using j cint_of_nat_neq_minus [OF b] sint_cint_of_nat [OF b] getBlock_address [OF g j(2)]
    by (simp add: PoolAllocator_getBlock_def arr_get_def arr_set_def)
  ultimately show ?thesis using pool.put_put [OF assms rel] by blast
qed

theorem release_get_roundtrip_witness:
  "\<exists>a'. PoolAllocator_releaseBlock demo_pool 4128 = Inr (Success, a') \<and>
    PoolAllocator_getBlock a' = Inr (4128, demo_pool) \<and>
    PoolAllocator_releaseBlock a' 4128 = Inr (DoubleFree, a')"
proof (rule release_get_roundtrip [OF demo_pool_good])
  have "block_at demo_pool 2 \<in> pool_live demo_pool"
    by (simp add: pool_live_def demo_pool_def DetachedIdx_def)
  then show "4128 \<in> pool_live demo_pool" by (simp add: block_at_def demo_pool_def)
qed

text \<open>
  The four answers of \<open>releaseBlock\<close> for an arbitrary address, decided by the byte offset of
  the address in the buffer and by the bookkeeping cell of the block it falls on; only the
  successful release changes the pool.
\<close>

theorem releaseBlock_answers:
  assumes "pool_good a"
  shows "\<exists>r a'. PoolAllocator_releaseBlock a p = Inr (r, a') \<and> pool_good a' \<and>
    (r = UnalignedFree \<longleftrightarrow> \<not> sint (pa_item_size a) dvd byte_offset a p) \<and>
    (r = OutOfRange \<longleftrightarrow> sint (pa_item_size a) dvd byte_offset a p \<and>
       (byte_offset a p < 0 \<or>
        int (length (pa_free_list a)) * sint (pa_item_size a) \<le> byte_offset a p)) \<and>
    (r = Success \<longleftrightarrow> (\<exists>q\<in>pool_live a. byte_offset a p = byte_offset a q)) \<and>
    r \<noteq> NotEnoughMemory \<and> (r \<noteq> Success \<longrightarrow> a' = a)"
proof -
  let ?s = "sint (pa_item_size a)" and ?n = "length (pa_free_list a)"
  have g: "pool_geometry a" using assms by (auto simp: pool_good_def pool_inv_def)
  then have s: "0 < ?s" by (simp add: pool_geometry_def)
  have off: "byte_offset a (block_at a j) = int j * ?s" if "j < ?n" for j
    using releaseBlock_offset [OF g that] by (simp add: byte_offset_def)
  have live: "(\<exists>q\<in>pool_live a. byte_offset a p = byte_offset a q) \<longleftrightarrow>
      (\<exists>j < ?n. pa_free_list a ! j = DetachedIdx \<and> byte_offset a p = int j * ?s)"
    by (auto simp: pool_live_def off)
  from g show ?thesis
  proof (cases rule: releaseBlock_cases [where p = p])
    case unaligned
    with assms live show ?thesis by auto
  next
    case (outside k)
    then have "byte_offset a p < 0 \<or> int ?n * ?s \<le> byte_offset a p"
      using s by (auto simp: mult_neg_pos intro: mult_right_mono)
    moreover have "\<not> (\<exists>j < ?n. byte_offset a p = int j * ?s)"
      using outside s by auto
    ultimately show ?thesis using outside assms live by auto
  next
    case (block j)
    have "\<not> byte_offset a p < 0" "\<not> int ?n * ?s \<le> byte_offset a p" "?s dvd byte_offset a p"
      using block s by (simp_all add: mult_less_0_iff not_le)
    moreover have "(\<exists>i < ?n. pa_free_list a ! i = DetachedIdx \<and> byte_offset a p = int i * ?s)
        \<longleftrightarrow> pa_free_list a ! j = DetachedIdx"
      using block s by auto
    ultimately show ?thesis
      using releaseBlock_block [OF g block(1)] block(3) live assms
        pool.put_live [OF assms, of "block_at a j"] block_in_pool [OF block(1)]
      by (auto split: if_splits)
  qed
qed

theorem releaseBlock_answers_witness:
  "\<exists>r a'. PoolAllocator_releaseBlock demo_pool 4100 = Inr (r, a') \<and> r = UnalignedFree \<and> a' = demo_pool"
proof -
  have "\<not> sint (pa_item_size demo_pool) dvd byte_offset demo_pool 4100"
    by (simp add: demo_pool_def byte_offset_def)
  with releaseBlock_answers [OF demo_pool_good, of 4100] show ?thesis by auto
qed

end
