(* ===== verification/Kernel_State.thy ===== *)
theory Kernel_State
  imports Linked_List Pool_Allocator
begin

text \<open>
  The kernel's constants and data: \<open>disastrOS_constants.h\<close>, the structs of
  \<open>disastrOS_pcb.h\<close>, \<open>disastrOS_timer.h\<close>, \<open>disastrOS_resource.h\<close>,
  \<open>disastrOS_descriptor.h\<close>, \<open>disastrOS_semaphore.h\<close> and \<open>disastrOS_semdescriptor.h\<close>, and
  the globals of \<open>disastrOS_globals.h\<close> and \<open>disastrOS.h\<close>.

  Every struct type lives in its own static buffer with its own pool allocator, so its objects
  form an \<open>arena\<close>: the fields by address, the \<open>ListItem\<close> that is the struct's first member by
  address, and the allocator. A list head is named by where it is stored (\<open>list_loc\<close>, the C
  expressions \<open>&ready_list\<close>, \<open>&running->children\<close>, ...), and \<open>k_insert\<close>, \<open>k_detach\<close> are
  \<open>List_insert\<close>, \<open>List_detach\<close> on the head at that place.
\<close>

subsection \<open>Constants\<close>

definition MAX_NUM_PROCESSES :: cint where "MAX_NUM_PROCESSES = 1024"
definition MAX_NUM_RESOURCES :: cint where "MAX_NUM_RESOURCES = 1024"
definition MAX_NUM_SEMAPHORES :: cint where "MAX_NUM_SEMAPHORES = 1024"
definition MAX_NUM_DESCRIPTORS_PER_PROCESS :: cint where "MAX_NUM_DESCRIPTORS_PER_PROCESS = 32"
definition MAX_NUM_SEMDESCRIPTORS_PER_PROCESS :: cint where "MAX_NUM_SEMDESCRIPTORS_PER_PROCESS = 32"

definition DSOS_SIGCHLD :: cint where "DSOS_SIGCHLD = 0x1"
definition DSOS_SIGHUP :: cint where "DSOS_SIGHUP = 0x2"

definition DSOS_ESYSCALL_NOT_IMPLEMENTED :: cint where "DSOS_ESYSCALL_NOT_IMPLEMENTED = - 2"
definition DSOS_ESYSCALL_OUT_OF_RANGE :: cint where "DSOS_ESYSCALL_OUT_OF_RANGE = - 3"
definition DSOS_EWAIT :: cint where "DSOS_EWAIT = - 5"
definition DSOS_ESPAWN :: cint where "DSOS_ESPAWN = - 6"
definition DSOS_ESLEEP :: cint where "DSOS_ESLEEP = - 7"
definition DSOS_ERESOURCECREATE :: cint where "DSOS_ERESOURCECREATE = - 8"
definition DSOS_ERESOURCEOPEN :: cint where "DSOS_ERESOURCEOPEN = - 9"
definition DSOS_ERESOURCENOEXCL :: cint where "DSOS_ERESOURCENOEXCL = - 10"
definition DSOS_ERESOURCENOFD :: cint where "DSOS_ERESOURCENOFD = - 11"
definition DSOS_ERESOURCECLOSE :: cint where "DSOS_ERESOURCECLOSE = - 12"
definition DSOS_ERESOURCEINUSE :: cint where "DSOS_ERESOURCEINUSE = - 13"
definition DSOS_ESEMAPHORECREATE :: cint where "DSOS_ESEMAPHORECREATE = - 14"
definition DSOS_ESEMAPHOREOPEN :: cint where "DSOS_ESEMAPHOREOPEN = - 15"
definition DSOS_ESEMAPHORENOEXCL :: cint where "DSOS_ESEMAPHORENOEXCL = - 16"
definition DSOS_ESEMAPHOREWAIT :: cint where "DSOS_ESEMAPHOREWAIT = - 17"
definition DSOS_ESEMAPHORECLOSE :: cint where "DSOS_ESEMAPHORECLOSE = - 19"

definition DSOS_MAX_SYSCALLS :: cint where "DSOS_MAX_SYSCALLS = 32"
definition DSOS_MAX_SYSCALLS_ARGS :: nat where "DSOS_MAX_SYSCALLS_ARGS = 8"
definition DSOS_CALL_PREEMPT :: cint where "DSOS_CALL_PREEMPT = 1"
definition DSOS_CALL_FORK :: cint where "DSOS_CALL_FORK = 2"
definition DSOS_CALL_WAIT :: cint where "DSOS_CALL_WAIT = 3"
definition DSOS_CALL_EXIT :: cint where "DSOS_CALL_EXIT = 4"
definition DSOS_CALL_SPAWN :: cint where "DSOS_CALL_SPAWN = 5"
definition DSOS_CALL_SLEEP :: cint where "DSOS_CALL_SLEEP = 6"
definition DSOS_CALL_OPEN_RESOURCE :: cint where "DSOS_CALL_OPEN_RESOURCE = 7"
definition DSOS_CALL_CLOSE_RESOURCE :: cint where "DSOS_CALL_CLOSE_RESOURCE = 8"
definition DSOS_CALL_DESTROY_RESOURCE :: cint where "DSOS_CALL_DESTROY_RESOURCE = 9"
definition DSOS_CALL_SHUTDOWN :: cint where "DSOS_CALL_SHUTDOWN = 10"
definition DSOS_CALL_SEMOPEN :: cint where "DSOS_CALL_SEMOPEN = 11"
definition DSOS_CALL_SEMCLOSE :: cint where "DSOS_CALL_SEMCLOSE = 12"
definition DSOS_CALL_SEMWAIT :: cint where "DSOS_CALL_SEMWAIT = 13"
definition DSOS_CALL_SEMPOST :: cint where "DSOS_CALL_SEMPOST = 14"

definition DSOS_CREATE :: cint where "DSOS_CREATE = 0x1"
definition DSOS_READ :: cint where "DSOS_READ = 0x2"
definition DSOS_WRITE :: cint where "DSOS_WRITE = 0x3"
definition DSOS_EXCL :: cint where "DSOS_EXCL = 0x4"

lemmas error_codes =
  DSOS_ESYSCALL_NOT_IMPLEMENTED_def DSOS_ESYSCALL_OUT_OF_RANGE_def DSOS_EWAIT_def DSOS_ESPAWN_def
  DSOS_ESLEEP_def DSOS_ERESOURCECREATE_def DSOS_ERESOURCEOPEN_def DSOS_ERESOURCENOEXCL_def
  DSOS_ERESOURCENOFD_def DSOS_ERESOURCECLOSE_def DSOS_ERESOURCEINUSE_def
  DSOS_ESEMAPHORECREATE_def DSOS_ESEMAPHOREOPEN_def DSOS_ESEMAPHORENOEXCL_def
  DSOS_ESEMAPHOREWAIT_def DSOS_ESEMAPHORECLOSE_def

lemmas syscall_numbers =
  DSOS_MAX_SYSCALLS_def DSOS_CALL_PREEMPT_def DSOS_CALL_FORK_def DSOS_CALL_WAIT_def
  DSOS_CALL_EXIT_def DSOS_CALL_SPAWN_def DSOS_CALL_SLEEP_def DSOS_CALL_OPEN_RESOURCE_def
  DSOS_CALL_CLOSE_RESOURCE_def DSOS_CALL_DESTROY_RESOURCE_def DSOS_CALL_SHUTDOWN_def
  DSOS_CALL_SEMOPEN_def DSOS_CALL_SEMCLOSE_def DSOS_CALL_SEMWAIT_def DSOS_CALL_SEMPOST_def

lemmas mode_bits = DSOS_CREATE_def DSOS_READ_def DSOS_WRITE_def DSOS_EXCL_def

subsection \<open>Structs\<close>

datatype ProcessStatus = Invalid | Created | Running | Ready | Waiting | Suspended | Zombie

text \<open>
  What \<open>setcontext\<close> would resume: the zeroed static memory, a function entered through
  \<open>makecontext\<close> with one argument, or the user context saved by \<open>swapcontext\<close>.
\<close>

datatype ucontext = ZeroContext | EntryContext clong clong | SavedContext

record PCB =
  pcb_pid :: cint
  pcb_return_value :: cint
  pcb_status :: ProcessStatus
  pcb_signals :: cint
  pcb_signals_mask :: cint
  pcb_parent :: ptr
  pcb_children :: ListHead
  pcb_cpu_state :: ucontext
  pcb_timer :: ptr
  pcb_last_fd :: cint
  pcb_descriptors :: ListHead
  pcb_last_sem_fd :: cint
  pcb_sem_descriptors :: ListHead
  pcb_syscall_num :: cint
  pcb_syscall_args :: "nat \<Rightarrow> clong"
  pcb_syscall_retvalue :: cint

record PCBPtr =
  pp_pcb :: ptr

record TimerItem =
  ti_awakening_time :: cint
  ti_pcb :: ptr

record Resource =
  res_id :: cint
  res_type :: cint
  res_descriptors :: ListHead

record Descriptor =
  des_pcb :: ptr
  des_resource :: ptr
  des_fd :: cint
  des_ptr :: ptr

record DescriptorPtr =
  dp_descriptor :: ptr

record Semaphore =
  sem_id :: cint
  sem_count :: cint
  sem_descriptors :: ListHead
  sem_waiting_descriptors :: ListHead

record SemDescriptor =
  sd_pcb :: ptr
  sd_semaphore :: ptr
  sd_fd :: cint
  sd_ptr :: ptr

record SemDescriptorPtr =
  sp_descriptor :: ptr

subsection \<open>Arenas\<close>

record 'a arena =
  ar_cells :: "ptr \<Rightarrow> 'a"
  ar_links :: list_mem
  ar_pool :: PoolAllocator

definition ar_upd :: "ptr \<Rightarrow> ('a \<Rightarrow> 'a) \<Rightarrow> 'a arena \<Rightarrow> 'a arena" where
  "ar_upd p f A = A\<lparr>ar_cells := (ar_cells A)(p := f (ar_cells A p))\<rparr>"

definition ar_get :: "'a arena \<Rightarrow> (ptr \<times> 'a arena) result" where
  "ar_get A = bindE (PoolAllocator_getBlock (ar_pool A)) (\<lambda>(p, a). Inr (p, A\<lparr>ar_pool := a\<rparr>))"

definition ar_free :: "'a arena \<Rightarrow> ptr \<Rightarrow> (cint \<times> 'a arena) result" where
  "ar_free A p = bindE (PoolAllocator_releaseBlock (ar_pool A) p)
     (\<lambda>(r, a). Inr (result_code r, A\<lparr>ar_pool := a\<rparr>))"

text \<open>\<open>x->list.prev = x->list.next = 0\<close>\<close>

definition ar_unlink :: "ptr \<Rightarrow> 'a arena \<Rightarrow> 'a arena" where
  "ar_unlink p A = A\<lparr>ar_links := (ar_links A)(p := \<lparr>li_prev = NULL, li_next = NULL\<rparr>)\<rparr>"

subsection \<open>The globals\<close>

datatype handler =
  internal_preempt_h | internal_fork_h | internal_wait_h | internal_exit_h | internal_spawn_h
| internal_sleep_h | internal_openResource_h | internal_closeResource_h
| internal_destroyResource_h | internal_shutdown_h | internal_semOpen_h | internal_semClose_h
| internal_semWait_h | internal_semPost_h

record kernel =
  pcb_mem :: "PCB arena"
  pcbptr_mem :: "PCBPtr arena"
  timer_mem :: "TimerItem arena"
  resource_mem :: "Resource arena"
  descriptor_mem :: "Descriptor arena"
  descriptorptr_mem :: "DescriptorPtr arena"
  semaphore_mem :: "Semaphore arena"
  semdescriptor_mem :: "SemDescriptor arena"
  semdescriptorptr_mem :: "SemDescriptorPtr arena"
  init_pcb :: ptr
  running :: ptr
  last_pid :: cint
  ready_list :: ListHead
  waiting_list :: ListHead
  zombie_list :: ListHead
  timer_list :: ListHead
  resources_list :: ListHead
  semaphores_list :: ListHead
  syscall_vector :: "handler option list"
  syscall_numarg :: "cint list"
  shutdown_now :: cint
  disastrOS_time :: cint
  user_mem :: "ptr \<Rightarrow> cint"

abbreviation pcb :: "kernel \<Rightarrow> ptr \<Rightarrow> PCB" where
  "pcb s \<equiv> ar_cells (pcb_mem s)"
abbreviation pcbptr :: "kernel \<Rightarrow> ptr \<Rightarrow> PCBPtr" where
  "pcbptr s \<equiv> ar_cells (pcbptr_mem s)"
abbreviation timer_item :: "kernel \<Rightarrow> ptr \<Rightarrow> TimerItem" where
  "timer_item s \<equiv> ar_cells (timer_mem s)"
abbreviation resource :: "kernel \<Rightarrow> ptr \<Rightarrow> Resource" where
  "resource s \<equiv> ar_cells (resource_mem s)"
abbreviation descriptor :: "kernel \<Rightarrow> ptr \<Rightarrow> Descriptor" where
  "descriptor s \<equiv> ar_cells (descriptor_mem s)"
abbreviation descriptorptr :: "kernel \<Rightarrow> ptr \<Rightarrow> DescriptorPtr" where
  "descriptorptr s \<equiv> ar_cells (descriptorptr_mem s)"
abbreviation semaphore :: "kernel \<Rightarrow> ptr \<Rightarrow> Semaphore" where
  "semaphore s \<equiv> ar_cells (semaphore_mem s)"
abbreviation semdescriptor :: "kernel \<Rightarrow> ptr \<Rightarrow> SemDescriptor" where
  "semdescriptor s \<equiv> ar_cells (semdescriptor_mem s)"
abbreviation semdescriptorptr :: "kernel \<Rightarrow> ptr \<Rightarrow> SemDescriptorPtr" where
  "semdescriptorptr s \<equiv> ar_cells (semdescriptorptr_mem s)"

definition upd_pcb :: "ptr \<Rightarrow> (PCB \<Rightarrow> PCB) \<Rightarrow> kernel \<Rightarrow> kernel" where
  "upd_pcb p f s = s\<lparr>pcb_mem := ar_upd p f (pcb_mem s)\<rparr>"

definition upd_resource :: "ptr \<Rightarrow> (Resource \<Rightarrow> Resource) \<Rightarrow> kernel \<Rightarrow> kernel" where
  "upd_resource p f s = s\<lparr>resource_mem := ar_upd p f (resource_mem s)\<rparr>"

definition upd_descriptor :: "ptr \<Rightarrow> (Descriptor \<Rightarrow> Descriptor) \<Rightarrow> kernel \<Rightarrow> kernel" where
  "upd_descriptor p f s = s\<lparr>descriptor_mem := ar_upd p f (descriptor_mem s)\<rparr>"

definition upd_semaphore :: "ptr \<Rightarrow> (Semaphore \<Rightarrow> Semaphore) \<Rightarrow> kernel \<Rightarrow> kernel" where
  "upd_semaphore p f s = s\<lparr>semaphore_mem := ar_upd p f (semaphore_mem s)\<rparr>"

definition upd_semdescriptor :: "ptr \<Rightarrow> (SemDescriptor \<Rightarrow> SemDescriptor) \<Rightarrow> kernel \<Rightarrow> kernel" where
  "upd_semdescriptor p f s = s\<lparr>semdescriptor_mem := ar_upd p f (semdescriptor_mem s)\<rparr>"

text \<open>\<open>running->syscall_retvalue = v\<close>, \<open>p->status = st\<close>, \<open>running->syscall_args[i]\<close>\<close>

definition set_retvalue :: "ptr \<Rightarrow> cint \<Rightarrow> kernel \<Rightarrow> kernel" where
  "set_retvalue p v = upd_pcb p (\<lambda>c. c\<lparr>pcb_syscall_retvalue := v\<rparr>)"

definition set_status :: "ptr \<Rightarrow> ProcessStatus \<Rightarrow> kernel \<Rightarrow> kernel" where
  "set_status p st = upd_pcb p (\<lambda>c. c\<lparr>pcb_status := st\<rparr>)"

abbreviation run_arg :: "kernel \<Rightarrow> nat \<Rightarrow> clong" where
  "run_arg s i \<equiv> pcb_syscall_args (pcb s (running s)) i"

subsection \<open>List heads by place\<close>

datatype list_loc =
  ReadyList | WaitingList | ZombieList | TimerList | ResourcesList | SemaphoresList
| Children ptr | Descriptors ptr | SemDescriptors ptr
| ResDescriptors ptr | SemDescs ptr | SemWaiting ptr

datatype item_kind =
  PCB_item | PCBPtr_item | Timer_item | Resource_item | Descriptor_item | DescriptorPtr_item
| Semaphore_item | SemDescriptor_item | SemDescriptorPtr_item

fun kind_of :: "list_loc \<Rightarrow> item_kind" where
  "kind_of ReadyList = PCB_item"
| "kind_of WaitingList = PCB_item"
| "kind_of ZombieList = PCB_item"
| "kind_of TimerList = Timer_item"
| "kind_of ResourcesList = Resource_item"
| "kind_of SemaphoresList = Semaphore_item"
| "kind_of (Children p) = PCBPtr_item"
| "kind_of (Descriptors p) = Descriptor_item"
| "kind_of (SemDescriptors p) = SemDescriptor_item"
| "kind_of (ResDescriptors r) = DescriptorPtr_item"
| "kind_of (SemDescs m) = SemDescriptorPtr_item"
| "kind_of (SemWaiting m) = SemDescriptorPtr_item"

fun head_of :: "kernel \<Rightarrow> list_loc \<Rightarrow> ListHead" where
  "head_of s ReadyList = ready_list s"
| "head_of s WaitingList = waiting_list s"
| "head_of s ZombieList = zombie_list s"
| "head_of s TimerList = timer_list s"
| "head_of s ResourcesList = resources_list s"
| "head_of s SemaphoresList = semaphores_list s"
| "head_of s (Children p) = pcb_children (pcb s p)"
| "head_of s (Descriptors p) = pcb_descriptors (pcb s p)"
| "head_of s (SemDescriptors p) = pcb_sem_descriptors (pcb s p)"
| "head_of s (ResDescriptors r) = res_descriptors (resource s r)"
| "head_of s (SemDescs m) = sem_descriptors (semaphore s m)"
| "head_of s (SemWaiting m) = sem_waiting_descriptors (semaphore s m)"

fun set_head :: "list_loc \<Rightarrow> ListHead \<Rightarrow> kernel \<Rightarrow> kernel" where
  "set_head ReadyList h s = s\<lparr>ready_list := h\<rparr>"
| "set_head WaitingList h s = s\<lparr>waiting_list := h\<rparr>"
| "set_head ZombieList h s = s\<lparr>zombie_list := h\<rparr>"
| "set_head TimerList h s = s\<lparr>timer_list := h\<rparr>"
| "set_head ResourcesList h s = s\<lparr>resources_list := h\<rparr>"
| "set_head SemaphoresList h s = s\<lparr>semaphores_list := h\<rparr>"
| "set_head (Children p) h s = upd_pcb p (\<lambda>c. c\<lparr>pcb_children := h\<rparr>) s"
| "set_head (Descriptors p) h s = upd_pcb p (\<lambda>c. c\<lparr>pcb_descriptors := h\<rparr>) s"
| "set_head (SemDescriptors p) h s = upd_pcb p (\<lambda>c. c\<lparr>pcb_sem_descriptors := h\<rparr>) s"
| "set_head (ResDescriptors r) h s = upd_resource r (\<lambda>c. c\<lparr>res_descriptors := h\<rparr>) s"
| "set_head (SemDescs m) h s = upd_semaphore m (\<lambda>c. c\<lparr>sem_descriptors := h\<rparr>) s"
| "set_head (SemWaiting m) h s = upd_semaphore m (\<lambda>c. c\<lparr>sem_waiting_descriptors := h\<rparr>) s"

fun links_of :: "kernel \<Rightarrow> item_kind \<Rightarrow> list_mem" where
  "links_of s PCB_item = ar_links (pcb_mem s)"
| "links_of s PCBPtr_item = ar_links (pcbptr_mem s)"
| "links_of s Timer_item = ar_links (timer_mem s)"
| "links_of s Resource_item = ar_links (resource_mem s)"
| "links_of s Descriptor_item = ar_links (descriptor_mem s)"
| "links_of s DescriptorPtr_item = ar_links (descriptorptr_mem s)"
| "links_of s Semaphore_item = ar_links (semaphore_mem s)"
| "links_of s SemDescriptor_item = ar_links (semdescriptor_mem s)"
| "links_of s SemDescriptorPtr_item = ar_links (semdescriptorptr_mem s)"

fun set_links :: "item_kind \<Rightarrow> list_mem \<Rightarrow> kernel \<Rightarrow> kernel" where
  "set_links PCB_item m s = s\<lparr>pcb_mem := (pcb_mem s)\<lparr>ar_links := m\<rparr>\<rparr>"
| "set_links PCBPtr_item m s = s\<lparr>pcbptr_mem := (pcbptr_mem s)\<lparr>ar_links := m\<rparr>\<rparr>"
| "set_links Timer_item m s = s\<lparr>timer_mem := (timer_mem s)\<lparr>ar_links := m\<rparr>\<rparr>"
| "set_links Resource_item m s = s\<lparr>resource_mem := (resource_mem s)\<lparr>ar_links := m\<rparr>\<rparr>"
| "set_links Descriptor_item m s = s\<lparr>descriptor_mem := (descriptor_mem s)\<lparr>ar_links := m\<rparr>\<rparr>"
| "set_links DescriptorPtr_item m s = s\<lparr>descriptorptr_mem := (descriptorptr_mem s)\<lparr>ar_links := m\<rparr>\<rparr>"
| "set_links Semaphore_item m s = s\<lparr>semaphore_mem := (semaphore_mem s)\<lparr>ar_links := m\<rparr>\<rparr>"
| "set_links SemDescriptor_item m s = s\<lparr>semdescriptor_mem := (semdescriptor_mem s)\<lparr>ar_links := m\<rparr>\<rparr>"
| "set_links SemDescriptorPtr_item m s =
     s\<lparr>semdescriptorptr_mem := (semdescriptorptr_mem s)\<lparr>ar_links := m\<rparr>\<rparr>"

definition put_list :: "list_loc \<Rightarrow> list_mem \<Rightarrow> ListHead \<Rightarrow> kernel \<Rightarrow> kernel" where
  "put_list l m h s = set_head l h (set_links (kind_of l) m s)"

definition k_insert :: "kernel \<Rightarrow> list_loc \<Rightarrow> ptr \<Rightarrow> ptr \<Rightarrow> (ptr \<times> kernel) result" where
  "k_insert s l prv x =
     bindE (List_insert (links_of s (kind_of l)) (head_of s l) prv x)
       (\<lambda>(r, m, h). Inr (r, put_list l m h s))"

definition k_detach :: "kernel \<Rightarrow> list_loc \<Rightarrow> ptr \<Rightarrow> (ptr \<times> kernel) result" where
  "k_detach s l x =
     bindE (List_detach (links_of s (kind_of l)) (head_of s l) x)
       (\<lambda>(r, m, h). Inr (r, put_list l m h s))"

text \<open>\<open>List_insert(&l, l.last, x)\<close>\<close>

definition k_append :: "kernel \<Rightarrow> list_loc \<Rightarrow> ptr \<Rightarrow> (ptr \<times> kernel) result" where
  "k_append s l x = k_insert s l (lh_last (head_of s l)) x"

end
