(* ===== verification/Kernel_Lists.thy ===== *)
theory Kernel_Lists
  imports Kernel_State
begin

text \<open>
  The kernel's lists as an instance of the contract \<open>list_store\<close>: \<open>klist s l xs\<close> says that the
  list at \<open>l\<close> holds the items \<open>xs\<close>, \<open>klayout s D L\<close> that all lists at \<open>D\<close> are well formed with
  contents \<open>L\<close> and share no items. The facts about \<open>put_list\<close> say what an operation on one list
  leaves alone.
\<close>

subsection \<open>Reading the state after a list operation\<close>

lemma ar_upd_simps [simp]:
  "ar_cells (ar_upd p f A) = (ar_cells A)(p := f (ar_cells A p))"
  "ar_links (ar_upd p f A) = ar_links A"
  "ar_pool (ar_upd p f A) = ar_pool A"
  by (simp_all add: ar_upd_def)

lemma ar_unlink_simps [simp]:
  "ar_cells (ar_unlink p A) = ar_cells A"
  "ar_links (ar_unlink p A) = (ar_links A)(p := \<lparr>li_prev = NULL, li_next = NULL\<rparr>)"
  "ar_pool (ar_unlink p A) = ar_pool A"
  by (simp_all add: ar_unlink_def)

lemma put_list_globals [simp]:
  "running (put_list l m h s) = running s"
  "init_pcb (put_list l m h s) = init_pcb s"
  "last_pid (put_list l m h s) = last_pid s"
  "syscall_vector (put_list l m h s) = syscall_vector s"
  "syscall_numarg (put_list l m h s) = syscall_numarg s"
  "shutdown_now (put_list l m h s) = shutdown_now s"
  "disastrOS_time (put_list l m h s) = disastrOS_time s"
  "user_mem (put_list l m h s) = user_mem s"
  by (cases l; simp add: put_list_def upd_pcb_def upd_resource_def upd_semaphore_def)+

lemma put_list_pools [simp]:
  "ar_pool (pcb_mem (put_list l m h s)) = ar_pool (pcb_mem s)"
  "ar_pool (pcbptr_mem (put_list l m h s)) = ar_pool (pcbptr_mem s)"
  "ar_pool (timer_mem (put_list l m h s)) = ar_pool (timer_mem s)"
  "ar_pool (resource_mem (put_list l m h s)) = ar_pool (resource_mem s)"
  "ar_pool (descriptor_mem (put_list l m h s)) = ar_pool (descriptor_mem s)"
  "ar_pool (descriptorptr_mem (put_list l m h s)) = ar_pool (descriptorptr_mem s)"
  "ar_pool (semaphore_mem (put_list l m h s)) = ar_pool (semaphore_mem s)"
  "ar_pool (semdescriptor_mem (put_list l m h s)) = ar_pool (semdescriptor_mem s)"
  "ar_pool (semdescriptorptr_mem (put_list l m h s)) = ar_pool (semdescriptorptr_mem s)"
  by (cases l; simp add: put_list_def upd_pcb_def upd_resource_def upd_semaphore_def)+

lemma put_list_cells [simp]:
  "pcbptr (put_list l m h s) = pcbptr s"
  "timer_item (put_list l m h s) = timer_item s"
  "descriptor (put_list l m h s) = descriptor s"
  "descriptorptr (put_list l m h s) = descriptorptr s"
  "semdescriptor (put_list l m h s) = semdescriptor s"
  "semdescriptorptr (put_list l m h s) = semdescriptorptr s"
  "res_id (resource (put_list l m h s) p) = res_id (resource s p)"
  "res_type (resource (put_list l m h s) p) = res_type (resource s p)"
  "sem_id (semaphore (put_list l m h s) p) = sem_id (semaphore s p)"
  "sem_count (semaphore (put_list l m h s) p) = sem_count (semaphore s p)"
  by (cases l; simp add: put_list_def upd_pcb_def upd_resource_def upd_semaphore_def)+

lemma put_list_pcb [simp]:
  "pcb_pid (pcb (put_list l m h s) p) = pcb_pid (pcb s p)"
  "pcb_return_value (pcb (put_list l m h s) p) = pcb_return_value (pcb s p)"
  "pcb_status (pcb (put_list l m h s) p) = pcb_status (pcb s p)"
  "pcb_signals (pcb (put_list l m h s) p) = pcb_signals (pcb s p)"
  "pcb_signals_mask (pcb (put_list l m h s) p) = pcb_signals_mask (pcb s p)"
  "pcb_parent (pcb (put_list l m h s) p) = pcb_parent (pcb s p)"
  "pcb_cpu_state (pcb (put_list l m h s) p) = pcb_cpu_state (pcb s p)"
  "pcb_timer (pcb (put_list l m h s) p) = pcb_timer (pcb s p)"
  "pcb_last_fd (pcb (put_list l m h s) p) = pcb_last_fd (pcb s p)"
  "pcb_last_sem_fd (pcb (put_list l m h s) p) = pcb_last_sem_fd (pcb s p)"
  "pcb_syscall_num (pcb (put_list l m h s) p) = pcb_syscall_num (pcb s p)"
  "pcb_syscall_args (pcb (put_list l m h s) p) = pcb_syscall_args (pcb s p)"
  "pcb_syscall_retvalue (pcb (put_list l m h s) p) = pcb_syscall_retvalue (pcb s p)"
  by (cases l; simp add: put_list_def upd_pcb_def upd_resource_def upd_semaphore_def)+

lemma links_of_set_head [simp]: "links_of (set_head l h s) k = links_of s k"
  by (cases l; cases k; simp add: upd_pcb_def upd_resource_def upd_semaphore_def)

lemma links_of_set_links: "links_of (set_links k m s) k' = (if k' = k then m else links_of s k')"
  by (cases k; cases k'; simp)

lemma head_of_set_links [simp]: "head_of (set_links k m s) l = head_of s l"
  by (cases k; cases l; simp)

lemma head_of_set_head: "head_of (set_head l h s) l' = (if l' = l then h else head_of s l')"
  by (cases l; cases l'; simp add: upd_pcb_def upd_resource_def upd_semaphore_def)

lemma put_list_lists [simp]:
  "links_of (put_list l m h s) k = (if k = kind_of l then m else links_of s k)"
  "head_of (put_list l m h s) l' = (if l' = l then h else head_of s l')"
  by (simp_all add: put_list_def links_of_set_links head_of_set_head)

text \<open>A null item faults in every list operation.\<close>

lemma k_null:
  "k_append s l NULL = Inl NullDeref" "k_detach s l NULL = Inl NullDeref"
  by (simp_all add: k_append_def k_insert_def k_detach_def List_insert_def List_detach_def)

subsection \<open>The lists of the kernel\<close>

definition klist :: "kernel \<Rightarrow> list_loc \<Rightarrow> ptr list \<Rightarrow> bool" where
  "klist s l xs \<longleftrightarrow> dlist (links_of s (kind_of l)) (head_of s l) xs"

definition kspare :: "kernel \<Rightarrow> item_kind \<Rightarrow> ptr \<Rightarrow> bool" where
  "kspare s k x \<longleftrightarrow> unlinked (links_of s k) x"

abbreviation k_first :: "kernel \<Rightarrow> list_loc \<Rightarrow> ptr" where
  "k_first s l \<equiv> lh_first (head_of s l)"

abbreviation k_last :: "kernel \<Rightarrow> list_loc \<Rightarrow> ptr" where
  "k_last s l \<equiv> lh_last (head_of s l)"

abbreviation k_edit :: "list_loc \<Rightarrow> list_mem \<times> ListHead \<Rightarrow> kernel \<Rightarrow> kernel" where
  "k_edit l c s \<equiv> put_list l (fst c) (snd c) s"

abbreviation klayout :: "kernel \<Rightarrow> list_loc set \<Rightarrow> (list_loc \<Rightarrow> ptr list) \<Rightarrow> bool" where
  "klayout \<equiv> layout klist kind_of"

abbreviation kloose :: "list_loc set \<Rightarrow> (list_loc \<Rightarrow> ptr list) \<Rightarrow> item_kind \<Rightarrow> ptr \<Rightarrow> bool" where
  "kloose \<equiv> loose kind_of"

interpretation kl: list_store klist kspare kind_of k_edit k_insert k_detach k_first k_last
proof
  fix s l as bs x
  assume a: "klist s l (as @ bs)" "x \<noteq> NULL" "x \<notin> set (as @ bs)" "kspare s (kind_of l) x"
  then obtain m h where mh:
      "List_insert (links_of s (kind_of l)) (head_of s l) (last_of NULL as) x = Inr (x, m, h)"
      "dlist m h (as @ x # bs)" "\<And>y. y \<notin> insert x (set (as @ bs)) \<Longrightarrow> m y = links_of s (kind_of l) y"
    using List_insert_dlist [of "links_of s (kind_of l)" "head_of s l" as bs x]
    by (auto simp: klist_def kspare_def)
  have "klist (put_list l m h s) k ys"
    if "k \<noteq> l" "klist s k ys" "kind_of k = kind_of l \<longrightarrow> set ys \<inter> insert x (set (as @ bs)) = {}" for k ys
    using that mh(3) dlist_cong [of ys m "links_of s (kind_of l)"] by (auto simp: klist_def disjoint_iff)
  moreover have "kspare (put_list l m h s) k y"
    if "kspare s k y" "k = kind_of l \<longrightarrow> y \<notin> insert x (set (as @ bs))" for k y
    using that mh(3) by (auto simp: kspare_def unlinked_def)
  moreover have "klist (put_list l m h s) l (as @ x # bs)" using mh(2) by (simp add: klist_def)
  ultimately show "\<exists>c. k_insert s l (last_of NULL as) x = Inr (x, k_edit l c s) \<and>
      klist (k_edit l c s) l (as @ x # bs) \<and>
      (\<forall>k ys. k \<noteq> l \<longrightarrow> klist s k ys \<longrightarrow>
        (kind_of k = kind_of l \<longrightarrow> set ys \<inter> insert x (set (as @ bs)) = {}) \<longrightarrow> klist (k_edit l c s) k ys) \<and>
      (\<forall>k y. kspare s k y \<longrightarrow> (k = kind_of l \<longrightarrow> y \<notin> insert x (set (as @ bs))) \<longrightarrow> kspare (k_edit l c s) k y)"
    using mh(1) by (intro exI [of _ "(m, h)"]) (auto simp: k_insert_def)
next
  fix s l as x bs
  assume a: "klist s l (as @ x # bs)"
  then obtain m h where mh:
      "List_detach (links_of s (kind_of l)) (head_of s l) x = Inr (x, m, h)"
      "dlist m h (as @ bs)" "unlinked m x" "\<And>y. y \<notin> set (as @ x # bs) \<Longrightarrow> m y = links_of s (kind_of l) y"
    using List_detach_dlist [of "links_of s (kind_of l)" "head_of s l" as x bs]
    by (auto simp: klist_def disjoint_iff)
  have "klist (put_list l m h s) k ys"
    if "k \<noteq> l" "klist s k ys" "kind_of k = kind_of l \<longrightarrow> set ys \<inter> set (as @ x # bs) = {}" for k ys
    using that mh(4) dlist_cong [of ys m "links_of s (kind_of l)"] by (auto simp: klist_def disjoint_iff)
  moreover have "kspare (put_list l m h s) k y"
    if "kspare s k y" "k = kind_of l \<longrightarrow> y \<notin> set (as @ x # bs)" for k y
    using that mh(4) by (auto simp: kspare_def unlinked_def)
  moreover have "klist (put_list l m h s) l (as @ bs)" "kspare (put_list l m h s) (kind_of l) x"
    using mh(2,3) by (simp_all add: klist_def kspare_def)
  ultimately show "\<exists>c. k_detach s l x = Inr (x, k_edit l c s) \<and>
      klist (k_edit l c s) l (as @ bs) \<and> kspare (k_edit l c s) (kind_of l) x \<and>
      (\<forall>k ys. k \<noteq> l \<longrightarrow> klist s k ys \<longrightarrow>
        (kind_of k = kind_of l \<longrightarrow> set ys \<inter> set (as @ x # bs) = {}) \<longrightarrow> klist (k_edit l c s) k ys) \<and>
      (\<forall>k y. kspare s k y \<longrightarrow> (k = kind_of l \<longrightarrow> y \<notin> set (as @ x # bs)) \<longrightarrow> kspare (k_edit l c s) k y)"
    using mh(1) by (intro exI [of _ "(m, h)"]) (auto simp: k_detach_def)
qed (auto simp: klist_def dlist_def dest: dseg_nonnull)

end
