(* ===== verification/Kernel_Inv.thy ===== *)
theory Kernel_Inv
  imports Kernel_Lists
begin

text \<open>
  The part of the kernel's invariant that every system call relies on: the nine pools are well
  formed, every list of a live object is well formed, lists over the same kind of item share no
  item, and list items are live blocks (\<open>core_ok\<close>). The lemmas say what allocating a block,
  releasing one and editing a list do to it.
\<close>

subsection \<open>State updates that leave the lists alone\<close>

fun pool_of :: "kernel \<Rightarrow> item_kind \<Rightarrow> PoolAllocator" where
  "pool_of s PCB_item = ar_pool (pcb_mem s)"
| "pool_of s PCBPtr_item = ar_pool (pcbptr_mem s)"
| "pool_of s Timer_item = ar_pool (timer_mem s)"
| "pool_of s Resource_item = ar_pool (resource_mem s)"
| "pool_of s Descriptor_item = ar_pool (descriptor_mem s)"
| "pool_of s DescriptorPtr_item = ar_pool (descriptorptr_mem s)"
| "pool_of s Semaphore_item = ar_pool (semaphore_mem s)"
| "pool_of s SemDescriptor_item = ar_pool (semdescriptor_mem s)"
| "pool_of s SemDescriptorPtr_item = ar_pool (semdescriptorptr_mem s)"

lemma pool_of_put_list [simp]: "pool_of (put_list l m h s) k = pool_of s k"
  by (cases k) simp_all

text \<open>Two states with the same pools, links and list heads.\<close>

definition same_lists :: "kernel \<Rightarrow> kernel \<Rightarrow> bool" where
  "same_lists s' s \<longleftrightarrow>
     (\<forall>k. pool_of s' k = pool_of s k) \<and> (\<forall>k. links_of s' k = links_of s k) \<and>
     (\<forall>l. head_of s' l = head_of s l)"

lemma all_kinds:
  "(\<forall>k. P k) \<longleftrightarrow> P PCB_item \<and> P PCBPtr_item \<and> P Timer_item \<and> P Resource_item \<and> P Descriptor_item \<and>
    P DescriptorPtr_item \<and> P Semaphore_item \<and> P SemDescriptor_item \<and> P SemDescriptorPtr_item"
  by (auto, metis item_kind.exhaust)

lemma all_locs:
  "(\<forall>l. P l) \<longleftrightarrow> P ReadyList \<and> P WaitingList \<and> P ZombieList \<and> P TimerList \<and> P ResourcesList \<and>
    P SemaphoresList \<and> (\<forall>p. P (Children p)) \<and> (\<forall>p. P (Descriptors p)) \<and> (\<forall>p. P (SemDescriptors p)) \<and>
    (\<forall>p. P (ResDescriptors p)) \<and> (\<forall>p. P (SemDescs p)) \<and> (\<forall>p. P (SemWaiting p))"
  by (auto, metis list_loc.exhaust)

lemma same_lists_refl [simp]: "same_lists s s"
  by (simp add: same_lists_def)

lemma same_lists_trans: "same_lists s t \<Longrightarrow> same_lists t u \<Longrightarrow> same_lists s u"
  by (simp add: same_lists_def)

lemma same_lists_upd_pcb:
  assumes "\<And>c. pcb_children (f c) = pcb_children c" and "\<And>c. pcb_descriptors (f c) = pcb_descriptors c"
    and "\<And>c. pcb_sem_descriptors (f c) = pcb_sem_descriptors c"
  shows "same_lists (upd_pcb p f s) s"
  using assms unfolding same_lists_def all_kinds all_locs by (simp add: upd_pcb_def)

lemma same_lists_updates [simp]:
  "same_lists (set_status p st s) s"
  "same_lists (set_retvalue p v s) s"
  "same_lists (s\<lparr>running := q\<rparr>) s"
  "same_lists (s\<lparr>init_pcb := q\<rparr>) s"
  "same_lists (s\<lparr>last_pid := n\<rparr>) s"
  "same_lists (s\<lparr>user_mem := um\<rparr>) s"
  "same_lists (s\<lparr>shutdown_now := n\<rparr>) s"
  "same_lists (s\<lparr>disastrOS_time := n\<rparr>) s"
  "same_lists (upd_descriptor d g s) s"
  "same_lists (upd_semdescriptor d g' s) s"
  "(\<And>c. sem_descriptors (g2 c) = sem_descriptors c) \<Longrightarrow>
    (\<And>c. sem_waiting_descriptors (g2 c) = sem_waiting_descriptors c) \<Longrightarrow> same_lists (upd_semaphore d g2 s) s"
  unfolding same_lists_def all_kinds all_locs set_status_def set_retvalue_def
  by (simp_all add: upd_pcb_def upd_descriptor_def upd_semdescriptor_def upd_semaphore_def)

lemma same_klist:
  assumes "same_lists s' s"
  shows "klist s' = klist s"
proof -
  have "links_of s' k = links_of s k" "head_of s' l = head_of s l" for k l
    using assms by (simp_all only: same_lists_def)
  then show ?thesis by (intro ext) (simp only: klist_def)
qed

lemma same_kspare:
  assumes "same_lists s' s"
  shows "kspare s' = kspare s"
proof -
  have "links_of s' k = links_of s k" for k
    using assms by (simp only: same_lists_def)
  then show ?thesis by (intro ext) (simp only: kspare_def)
qed

lemma same_k_first: "same_lists s' s \<Longrightarrow> head_of s' l = head_of s l"
  by (simp add: same_lists_def)

subsection \<open>The core invariant\<close>

abbreviation live :: "kernel \<Rightarrow> item_kind \<Rightarrow> ptr set" where
  "live s k \<equiv> pool_live (pool_of s k)"

abbreviation spare :: "kernel \<Rightarrow> item_kind \<Rightarrow> ptr set" where
  "spare s k \<equiv> pool_spare (pool_of s k)"

text \<open>
  The lists that exist in a state. The list of semaphore descriptors of a PCB is neither
  initialised by \<open>PCB_alloc\<close> nor emptied when the process ends, so it is there for every block
  of the pool, also for the free ones.
\<close>

fun loc_live :: "kernel \<Rightarrow> list_loc \<Rightarrow> bool" where
  "loc_live s (Children p) \<longleftrightarrow> p \<in> live s PCB_item"
| "loc_live s (Descriptors p) \<longleftrightarrow> p \<in> live s PCB_item"
| "loc_live s (SemDescriptors p) \<longleftrightarrow> p \<in> live s PCB_item \<union> spare s PCB_item"
| "loc_live s (ResDescriptors r) \<longleftrightarrow> r \<in> live s Resource_item"
| "loc_live s (SemDescs m) \<longleftrightarrow> m \<in> live s Semaphore_item"
| "loc_live s (SemWaiting m) \<longleftrightarrow> m \<in> live s Semaphore_item"
| "loc_live s _ \<longleftrightarrow> True"

definition heads :: "kernel \<Rightarrow> list_loc set" where
  "heads s = {l. loc_live s l}"

definition core_ok :: "kernel \<Rightarrow> (list_loc \<Rightarrow> ptr list) \<Rightarrow> bool" where
  "core_ok s L \<longleftrightarrow>
     (\<forall>k. pool_good (pool_of s k)) \<and> klayout s (heads s) L \<and>
     (\<forall>l. if l \<in> heads s then set (L l) \<subseteq> live s (kind_of l) else L l = [])"

text \<open>An item that is in no list, with null links.\<close>

definition idle :: "kernel \<Rightarrow> (list_loc \<Rightarrow> ptr list) \<Rightarrow> item_kind \<Rightarrow> ptr \<Rightarrow> bool" where
  "idle s L k x \<longleftrightarrow> x \<in> live s k \<and> kspare s k x \<and> (\<forall>l. kind_of l = k \<longrightarrow> x \<notin> set (L l))"

lemma loc_live_cong: "(\<And>k. pool_of s' k = pool_of s k) \<Longrightarrow> loc_live s' l = loc_live s l"
  by (cases l) (simp_all del: pool_of.simps)

lemma heads_cong: "(\<And>k. pool_of s' k = pool_of s k) \<Longrightarrow> heads s' = heads s"
  by (auto simp: heads_def loc_live_cong [of s' s])

lemma heads_put_list [simp]: "heads (put_list l m h s) = heads s"
  by (rule heads_cong) simp

lemma global_heads [simp]:
  "ReadyList \<in> heads s" "WaitingList \<in> heads s" "ZombieList \<in> heads s" "TimerList \<in> heads s"
  "ResourcesList \<in> heads s" "SemaphoresList \<in> heads s"
  by (simp_all add: heads_def)

lemma owned_heads [simp]:
  "Children p \<in> heads s \<longleftrightarrow> p \<in> live s PCB_item"
  "Descriptors p \<in> heads s \<longleftrightarrow> p \<in> live s PCB_item"
  "SemDescriptors p \<in> heads s \<longleftrightarrow> p \<in> live s PCB_item \<or> p \<in> spare s PCB_item"
  "ResDescriptors r \<in> heads s \<longleftrightarrow> r \<in> live s Resource_item"
  "SemDescs m \<in> heads s \<longleftrightarrow> m \<in> live s Semaphore_item"
  "SemWaiting m \<in> heads s \<longleftrightarrow> m \<in> live s Semaphore_item"
  by (simp_all add: heads_def del: pool_of.simps)

lemma core_pool: "core_ok s L \<Longrightarrow> pool_good (pool_of s k)"
  by (simp add: core_ok_def)

lemma core_layout: "core_ok s L \<Longrightarrow> klayout s (heads s) L"
  by (simp add: core_ok_def)

lemma core_mem: "core_ok s L \<Longrightarrow> x \<in> set (L l) \<Longrightarrow> l \<in> heads s \<and> x \<in> live s (kind_of l)"
  unfolding core_ok_def by (metis empty_iff empty_set subsetD)

lemma core_dead: "core_ok s L \<Longrightarrow> l \<notin> heads s \<Longrightarrow> L l = []"
  unfolding core_ok_def by meson

lemma core_klist: "core_ok s L \<Longrightarrow> l \<in> heads s \<Longrightarrow> klist s l (L l)"
  by (auto dest: core_layout layout_repr)

lemma core_distinct: "core_ok s L \<Longrightarrow> distinct (L l)"
  using core_klist [of s L l] core_dead [of s L l] by (cases "l \<in> heads s") (auto dest: kl.items)

lemma core_apart:
  "core_ok s L \<Longrightarrow> x \<in> set (L l) \<Longrightarrow> l \<noteq> l' \<Longrightarrow> kind_of l = kind_of l' \<Longrightarrow> x \<notin> set (L l')"
  using layout_apart [OF core_layout] core_mem by metis

lemma live_nonnull: "core_ok s L \<Longrightarrow> x \<in> live s k \<Longrightarrow> x \<noteq> NULL"
  using pool.not_null core_pool by blast

lemma core_nonnull: "core_ok s L \<Longrightarrow> x \<in> set (L l) \<Longrightarrow> x \<noteq> NULL"
  using live_nonnull core_mem by blast

lemma pool_live_bound:
  assumes "pool_good a"
  shows "card (pool_live a) < 2 ^ 31"
proof -
  have "pool_geometry a" using assms by (auto simp: pool_good_def pool_inv_def)
  from geometry_length [OF this] have "length (pa_free_list a) < 2 ^ 31" .
  moreover have "card (pool_live a) \<le> card {j. j < length (pa_free_list a) \<and> pa_free_list a ! j = DetachedIdx}"
    unfolding pool_live_def by (rule card_image_le) simp
  moreover have "card {j. j < length (pa_free_list a) \<and> pa_free_list a ! j = DetachedIdx} \<le>
      card {..<length (pa_free_list a)}" by (rule card_mono) auto
  ultimately show ?thesis by simp
qed

text \<open>No list is longer than its pool, so the \<open>int\<close> that counts its items never wraps.\<close>

lemma core_length:
  assumes "core_ok s L"
  shows "length (L l) < 2 ^ 31"
proof -
  have "set (L l) \<subseteq> live s (kind_of l)" using core_mem [OF assms] by blast
  moreover have "finite (live s (kind_of l))"
    using pool.finite_blocks [OF core_pool [OF assms]] by blast
  ultimately have "length (L l) \<le> card (live s (kind_of l))"
    using distinct_card [OF core_distinct [OF assms, of l]] card_mono by metis
  with pool_live_bound [OF core_pool [OF assms, of "kind_of l"]] show ?thesis by simp
qed

lemma core_size_zero:
  assumes "core_ok s L" and "l \<in> heads s"
  shows "lh_size (head_of s l) = 0 \<longleftrightarrow> L l = []"
proof -
  have "dlist (links_of s (kind_of l)) (head_of s l) (L l)"
    using core_klist [OF assms] by (simp add: klist_def)
  then show ?thesis using dlist_size_zero core_length [OF assms(1), of l] by fastforce
qed

lemma same_core:
  assumes "same_lists s' s"
  shows "core_ok s' L \<longleftrightarrow> core_ok s L"
proof -
  have p: "pool_of s' k = pool_of s k" for k using assms by (simp add: same_lists_def)
  have h: "heads s' = heads s" using p by (rule heads_cong)
  show ?thesis
    unfolding core_ok_def layout_def h p same_klist [OF assms] ..
qed

lemma same_idle:
  assumes "same_lists s' s"
  shows "idle s' L k x \<longleftrightarrow> idle s L k x"
proof -
  have p: "pool_of s' k = pool_of s k" for k using assms by (simp add: same_lists_def)
  show ?thesis unfolding idle_def p same_kspare [OF assms] ..
qed

lemma same_live: "same_lists s' s \<Longrightarrow> pool_of s' k = pool_of s k"
  by (simp add: same_lists_def)

lemma same_heads: "same_lists s' s \<Longrightarrow> heads s' = heads s"
  by (intro heads_cong) (simp add: same_lists_def)

lemmas same_state = same_core same_idle same_live same_heads same_k_first

lemmas core_updates [simp] = same_lists_updates [THEN same_core] same_lists_updates [THEN same_idle]
  same_lists_updates [THEN same_live] same_lists_updates [THEN same_heads]
  same_lists_updates [THEN same_k_first]
  same_lists_upd_pcb [THEN same_core] same_lists_upd_pcb [THEN same_idle]
  same_lists_upd_pcb [THEN same_live] same_lists_upd_pcb [THEN same_heads]
  same_lists_upd_pcb [THEN same_k_first]

lemma idleD:
  assumes "idle s L k x"
  shows "x \<in> live s k" "kspare s k x" "kind_of l = k \<Longrightarrow> x \<notin> set (L l)"
  using assms by (simp_all add: idle_def)

lemma idle_loose: "idle s L k x \<Longrightarrow> kloose (heads s) L k x"
  by (auto simp: idle_def loose_def)

subsection \<open>Editing one list\<close>

lemma core_insert:
  assumes c: "core_ok s L" "l \<in> heads s" "L l = as @ bs" and x: "idle s L (kind_of l) x"
  shows "\<exists>m h. k_insert s l (last_of NULL as) x = Inr (x, put_list l m h s) \<and>
    core_ok (put_list l m h s) (L(l := as @ x # bs)) \<and>
    (\<forall>k y. idle s L k y \<longrightarrow> (k = kind_of l \<longrightarrow> y \<noteq> x) \<longrightarrow>
      idle (put_list l m h s) (L(l := as @ x # bs)) k y)"
proof -
  have "x \<noteq> NULL" using live_nonnull [OF c(1)] idleD(1) [OF x] by blast
  from kl.layout_insert [OF core_layout [OF c(1)] c(2,3) this idle_loose [OF x] idleD(2) [OF x]]
  obtain e where e: "k_insert s l (last_of NULL as) x = Inr (x, k_edit l e s)"
      "klayout (k_edit l e s) (heads s) (L(l := as @ x # bs))"
      "\<And>k y. kspare s k y \<Longrightarrow> kloose (heads s) L k y \<Longrightarrow> (k = kind_of l \<Longrightarrow> y \<noteq> x) \<Longrightarrow>
        kspare (k_edit l e s) k y"
    by blast
  have "set (L l) \<subseteq> live s (kind_of l)" using core_mem [OF c(1)] by blast
  then have "core_ok (k_edit l e s) (L(l := as @ x # bs))"
    using c e(2) idleD(1) [OF x] by (auto simp: core_ok_def)
  moreover have "idle (k_edit l e s) (L(l := as @ x # bs)) k y"
    if "idle s L k y" "k = kind_of l \<longrightarrow> y \<noteq> x" for k y
    using that e(3) [of k y] idle_loose [OF that(1)] idleD(3) [OF that(1), of l] c(3)
    by (auto simp: idle_def)
  ultimately show ?thesis using e(1) by blast
qed

lemma core_append:
  assumes c: "core_ok s L" "l \<in> heads s" and x: "idle s L (kind_of l) x"
  shows "\<exists>m h. k_append s l x = Inr (x, put_list l m h s) \<and>
    core_ok (put_list l m h s) (L(l := L l @ [x])) \<and>
    (\<forall>k y. idle s L k y \<longrightarrow> (k = kind_of l \<longrightarrow> y \<noteq> x) \<longrightarrow>
      idle (put_list l m h s) (L(l := L l @ [x])) k y)"
  using core_insert [OF c, of "L l" "[]" x] x kl.last_law [OF core_klist [OF c]]
  by (simp add: k_append_def)

lemma core_detach:
  assumes c: "core_ok s L" "L l = as @ x # bs"
  shows "\<exists>m h. k_detach s l x = Inr (x, put_list l m h s) \<and>
    core_ok (put_list l m h s) (L(l := as @ bs)) \<and> idle (put_list l m h s) (L(l := as @ bs)) (kind_of l) x \<and>
    (\<forall>k y. idle s L k y \<longrightarrow> idle (put_list l m h s) (L(l := as @ bs)) k y)"
proof -
  have h: "l \<in> heads s" and x: "x \<in> live s (kind_of l)"
    using core_mem [OF c(1), of x l] c(2) by auto
  from kl.layout_detach [OF core_layout [OF c(1)] h c(2)]
  obtain e where e: "k_detach s l x = Inr (x, k_edit l e s)"
      "klayout (k_edit l e s) (heads s) (L(l := as @ bs))" "kspare (k_edit l e s) (kind_of l) x"
      "\<And>k y. kspare s k y \<Longrightarrow> kloose (heads s) L k y \<Longrightarrow> kspare (k_edit l e s) k y"
    by blast
  have "core_ok (k_edit l e s) (L(l := as @ bs))"
    using c e(2) h core_mem [OF c(1)] by (auto simp: core_ok_def)
  moreover have "x \<notin> set ((L(l := as @ bs)) l')" if "kind_of l' = kind_of l" for l'
    using core_distinct [OF c(1), of l] core_apart [OF c(1), of x l l'] c(2) that by auto
  then have "idle (k_edit l e s) (L(l := as @ bs)) (kind_of l) x"
    using e(3) x by (simp add: idle_def)
  moreover have "idle (k_edit l e s) (L(l := as @ bs)) k y" if "idle s L k y" for k y
    using that e(4) [of k y] idle_loose [OF that] idleD(3) [OF that, of l] c(2)
    by (auto simp: idle_def)
  ultimately show ?thesis using e(1) by blast
qed

lemma core_pop:
  assumes c: "core_ok s L" "L l = x # xs"
  shows "\<exists>m h. k_detach s l (k_first s l) = Inr (x, put_list l m h s) \<and>
    core_ok (put_list l m h s) (L(l := xs)) \<and> idle (put_list l m h s) (L(l := xs)) (kind_of l) x \<and>
    (\<forall>k y. idle s L k y \<longrightarrow> idle (put_list l m h s) (L(l := xs)) k y)"
proof -
  have "x \<in> set (L l)" using c(2) by simp
  then have "klist s l (L l)" using core_klist [OF c(1)] core_mem [OF c(1)] by blast
  then have "k_first s l = x" using kl.first_law [of s l "L l"] c(2) by simp
  then show ?thesis using core_detach [OF c(1), of l "[]" x xs] c(2) by simp
qed

text \<open>The same facts as elimination rules, with the new contents of the lists given by an equation.\<close>

lemma core_appendE:
  assumes "core_ok s L" and "idle s L k x" and "l \<in> heads s" and "k = kind_of l"
    and "L' = L(l := L l @ [x])"
  obtains m h where "k_append s l x = Inr (x, put_list l m h s)" "core_ok (put_list l m h s) L'"
    "\<And>k' y. idle s L k' y \<Longrightarrow> (k' = k \<Longrightarrow> y \<noteq> x) \<Longrightarrow> idle (put_list l m h s) L' k' y"
  using core_append [of s L l x] assms by blast

lemma core_detachE:
  assumes "core_ok s L" and "L l = as @ x # bs" and "k = kind_of l" and "L' = L(l := as @ bs)"
  obtains m h where "k_detach s l x = Inr (x, put_list l m h s)" "core_ok (put_list l m h s) L'"
    "idle (put_list l m h s) L' k x"
    "\<And>k' y. idle s L k' y \<Longrightarrow> idle (put_list l m h s) L' k' y"
  using core_detach [of s L l as x bs] assms by blast

lemma core_popE:
  assumes "core_ok s L" and "L l = x # xs" and "k = kind_of l" and "L' = L(l := xs)"
  obtains m h where "k_detach s l (k_first s l) = Inr (x, put_list l m h s)"
    "core_ok (put_list l m h s) L'" "idle (put_list l m h s) L' k x"
    "\<And>k' y. idle s L k' y \<Longrightarrow> idle (put_list l m h s) L' k' y"
  using core_pop [of s L l x xs] assms by blast

text \<open>A state determines the lists its heads represent.\<close>

lemma core_unique:
  assumes "core_ok s L" and "core_ok s L'"
  shows "L = L'"
proof
  fix l
  show "L l = L' l"
  proof (cases "l \<in> heads s")
    case True
    from core_klist [OF assms(1) True] core_klist [OF assms(2) True] show ?thesis
      unfolding klist_def by (rule dlist_unique)
  next
    case False
    with assms show ?thesis unfolding core_ok_def by metis
  qed
qed

lemma core_first_null: "core_ok s L \<Longrightarrow> l \<in> heads s \<Longrightarrow> k_first s l = NULL \<longleftrightarrow> L l = []"
  by (rule kl.layout_first_null [OF core_layout])

lemma core_first: "core_ok s L \<Longrightarrow> l \<in> heads s \<Longrightarrow> k_first s l = first_of (L l) NULL"
  by (rule kl.first_law [OF core_klist])

lemma core_scan:
  assumes "core_ok s L" and "l \<in> heads s" and "\<And>x. x \<in> set (L l) \<Longrightarrow> hit x = Inr (P x)"
  shows "list_scan hit (links_of s (kind_of l)) (k_first s l) = Some (Inr (scan_result P (L l)))"
  using list_scan_dlist [of "links_of s (kind_of l)" "head_of s l" "L l" hit P] core_klist [OF assms(1,2)]
    assms(3) by (simp add: klist_def)

subsection \<open>Allocating and releasing a block\<close>

text \<open>The lists that come and go with the block \<open>x\<close> of kind \<open>k\<close>.\<close>

fun born :: "item_kind \<Rightarrow> ptr \<Rightarrow> list_loc \<Rightarrow> bool" where
  "born k x (Children p) \<longleftrightarrow> k = PCB_item \<and> p = x"
| "born k x (Descriptors p) \<longleftrightarrow> k = PCB_item \<and> p = x"
| "born k x (ResDescriptors r) \<longleftrightarrow> k = Resource_item \<and> r = x"
| "born k x (SemDescs m) \<longleftrightarrow> k = Semaphore_item \<and> m = x"
| "born k x (SemWaiting m) \<longleftrightarrow> k = Semaphore_item \<and> m = x"
| "born k x _ \<longleftrightarrow> False"

definition allocd :: "item_kind \<Rightarrow> ptr \<Rightarrow> kernel \<Rightarrow> kernel \<Rightarrow> bool" where
  "allocd k x s s' \<longleftrightarrow>
     pool_good (pool_of s' k) \<and> x \<noteq> NULL \<and> x \<notin> live s k \<and> x \<in> spare s k \<and>
     live s' k = insert x (live s k) \<and> spare s' k = spare s k - {x} \<and>
     links_of s' k = (links_of s k)(x := \<lparr>li_prev = NULL, li_next = NULL\<rparr>) \<and>
     (\<forall>k'. k' \<noteq> k \<longrightarrow> pool_of s' k' = pool_of s k' \<and> links_of s' k' = links_of s k') \<and>
     (\<forall>l. head_of s' l = (if born k x l then List_init else head_of s l))"

definition freed :: "item_kind \<Rightarrow> ptr \<Rightarrow> kernel \<Rightarrow> kernel \<Rightarrow> bool" where
  "freed k x s s' \<longleftrightarrow>
     pool_good (pool_of s' k) \<and> x \<in> live s k \<and>
     live s' k = live s k - {x} \<and> spare s' k = insert x (spare s k) \<and>
     (\<forall>k'. k' \<noteq> k \<longrightarrow> pool_of s' k' = pool_of s k') \<and>
     (\<forall>k'. links_of s' k' = links_of s k') \<and> (\<forall>l. head_of s' l = head_of s l)"

lemma allocd_loc_live:
  assumes "allocd k x s s'"
  shows "loc_live s' l \<longleftrightarrow> loc_live s l \<or> born k x l"
proof -
  have l: "live s' k' = (if k' = k then insert x (live s k) else live s k')" for k'
    using assms by (simp add: allocd_def)
  have "live s' k' \<union> spare s' k' = live s k' \<union> spare s k'" for k'
    using assms by (cases "k' = k") (auto simp: allocd_def)
  then have b: "p \<in> live s' k' \<or> p \<in> spare s' k' \<longleftrightarrow> p \<in> live s k' \<or> p \<in> spare s k'" for p k'
    by blast
  show ?thesis
  proof (cases l)
    case (SemDescriptors p)
    then show ?thesis using b [of p PCB_item] by (simp del: pool_of.simps)
  qed (simp_all add: l del: pool_of.simps, auto)
qed

lemma freedD:
  assumes "freed k x s s'"
  shows "pool_good (pool_of s' k)" "x \<in> live s k" "live s' k = live s k - {x}"
    "spare s' k = insert x (spare s k)" "\<forall>k'. k' \<noteq> k \<longrightarrow> pool_of s' k' = pool_of s k'"
    "\<forall>k'. links_of s' k' = links_of s k'" "\<forall>l. head_of s' l = head_of s l"
  using assms unfolding freed_def by - (elim conjE, assumption)+

lemma freed_live:
  assumes "freed k x s s'"
  shows "y \<in> live s' k' \<longleftrightarrow> y \<in> live s k' \<and> \<not> (k' = k \<and> y = x)"
proof (cases "k' = k")
  case True
  show ?thesis unfolding True freedD(3) [OF assms] by blast
next
  case False
  then have "pool_of s' k' = pool_of s k'" using freedD(5) [OF assms] by blast
  with False show ?thesis by simp
qed

lemma freed_spare:
  assumes "freed k x s s'"
  shows "y \<in> spare s' k' \<longleftrightarrow> y \<in> spare s k' \<or> k' = k \<and> y = x"
proof (cases "k' = k")
  case True
  show ?thesis unfolding True freedD(4) [OF assms] by blast
next
  case False
  then have "pool_of s' k' = pool_of s k'" using freedD(5) [OF assms] by blast
  with False show ?thesis by simp
qed

lemma freed_loc_live:
  assumes "freed k x s s'"
  shows "loc_live s' l \<longleftrightarrow> loc_live s l \<and> \<not> born k x l"
proof -
  show ?thesis
    using freedD(2) [OF assms]
    by (cases l) (auto simp: freed_live [OF assms] freed_spare [OF assms] simp del: pool_of.simps)
qed

lemma born_dead: "x \<notin> live s k \<Longrightarrow> born k x l \<Longrightarrow> l \<notin> heads s"
  by (cases l) auto

lemma allocd_core:
  assumes c: "core_ok s L" and a: "allocd k x s s'"
  shows "core_ok s' L" and "idle s' L k x" and "\<And>k' y. idle s L k' y \<Longrightarrow> idle s' L k' y"
proof -
  let ?z = "\<lparr>li_prev = NULL, li_next = NULL\<rparr>"
  have x: "x \<notin> live s k" using a by (simp add: allocd_def)
  have lnk: "links_of s' k' = (if k' = k then (links_of s k)(x := ?z) else links_of s k')" for k'
    using a by (simp add: allocd_def)
  have lv: "live s k' \<subseteq> live s' k'" for k' using a by (cases "k' = k") (auto simp: allocd_def)
  have good: "pool_good (pool_of s' k')" for k'
    using a core_pool [OF c, of k'] by (cases "k' = k") (simp_all add: allocd_def)
  have hd: "head_of s' l = (if born k x l then List_init else head_of s l)" for l
    using a by (simp add: allocd_def)
  have heads: "l \<in> heads s' \<longleftrightarrow> l \<in> heads s \<or> born k x l" for l
    using allocd_loc_live [OF a] by (simp add: heads_def)
  have notin: "x \<notin> set (L l)" if "kind_of l = k" for l using core_mem [OF c, of x l] x that by auto
  have repr: "klist s' l (L l)" if "l \<in> heads s'" for l
  proof (cases "born k x l")
    case True
    then show ?thesis using core_dead [OF c born_dead [OF x True]] by (simp add: klist_def hd)
  next
    case False
    with that heads have "dlist (links_of s (kind_of l)) (head_of s l) (L l)"
      using core_klist [OF c, of l] by (simp add: klist_def)
    moreover have "links_of s' (kind_of l) y = links_of s (kind_of l) y" if "y \<in> set (L l)" for y
      using that notin [of l] by (auto simp: lnk)
    ultimately have "dlist (links_of s' (kind_of l)) (head_of s l) (L l)"
      using dlist_cong [of "L l" "links_of s' (kind_of l)" "links_of s (kind_of l)"] by blast
    then show ?thesis using False by (simp add: klist_def hd)
  qed
  have "set (L l) \<inter> set (L l') = {}" if "l \<noteq> l'" "kind_of l = kind_of l'" for l l'
    using core_apart [OF c _ that] by blast
  with repr have "klayout s' (heads s') L" by (simp add: layout_def)
  moreover have "set (L l) \<subseteq> live s' (kind_of l)" for l using core_mem [OF c] lv by blast
  moreover have "L l = []" if "l \<notin> heads s'" for l
    using core_dead [OF c, of l] that heads by blast
  ultimately show "core_ok s' L" using good by (simp add: core_ok_def)
  show "idle s' L k x"
    using a notin by (simp add: idle_def allocd_def kspare_def unlinked_def)
  show "idle s' L k' y" if "idle s L k' y" for k' y
    using that lv [of k'] by (auto simp: idle_def kspare_def unlinked_def lnk)
qed

lemma freed_core:
  assumes c: "core_ok s L" and f: "freed k x s s'" and i: "idle s L k x"
  shows "core_ok s' (\<lambda>l. if born k x l then [] else L l)"
    and "\<And>k' y. idle s L k' y \<Longrightarrow> (k' = k \<longrightarrow> y \<noteq> x) \<Longrightarrow>
      idle s' (\<lambda>l. if born k x l then [] else L l) k' y"
proof -
  have lnk: "links_of s' k' = links_of s k'" and hd: "head_of s' l = head_of s l" for k' l
    using freedD(6,7) [OF f] by blast+
  note lv = freed_live [OF f]
  have good: "pool_good (pool_of s' k')" for k'
  proof (cases "k' = k")
    case True
    show ?thesis unfolding True by (rule freedD(1) [OF f])
  next
    case False
    with freedD(5) [OF f] have "pool_of s' k' = pool_of s k'" by blast
    then show ?thesis using core_pool [OF c, of k'] by simp
  qed
  have heads: "l \<in> heads s' \<longleftrightarrow> l \<in> heads s \<and> \<not> born k x l" for l
    using freed_loc_live [OF f] by (simp add: heads_def)
  have "set (L l) \<inter> set (L l') = {}" if "l \<noteq> l'" "kind_of l = kind_of l'" for l l'
    using core_apart [OF c _ that] by blast
  then have "klayout s' (heads s') (\<lambda>l. if born k x l then [] else L l)"
    using core_klist [OF c] by (simp add: layout_def heads klist_def lnk hd)
  moreover have "set (L l) \<subseteq> live s' (kind_of l)" for l
    using core_mem [OF c, of _ l] idleD(3) [OF i, of l] by (auto simp: lv)
  ultimately show "core_ok s' (\<lambda>l. if born k x l then [] else L l)"
    using good core_dead [OF c] heads by (simp add: core_ok_def)
  show "idle s' (\<lambda>l. if born k x l then [] else L l) k' y" if "idle s L k' y" "k' = k \<longrightarrow> y \<noteq> x" for k' y
    using that by (simp add: idle_def kspare_def lnk lv)
qed

text \<open>Kinds whose blocks carry no list heads.\<close>

lemma born_other [simp]:
  "\<not> born PCBPtr_item x l" "\<not> born Timer_item x l" "\<not> born Descriptor_item x l"
  "\<not> born DescriptorPtr_item x l" "\<not> born SemDescriptor_item x l" "\<not> born SemDescriptorPtr_item x l"
  by (cases l; simp)+

lemma freed_core_plain:
  assumes "core_ok s L" and "freed k x s s'" and "idle s L k x" and "\<And>l. \<not> born k x l"
  shows "core_ok s' L" and "\<And>k' y. idle s L k' y \<Longrightarrow> (k' = k \<longrightarrow> y \<noteq> x) \<Longrightarrow> idle s' L k' y"
  using freed_core [OF assms(1-3)] assms(4) by simp_all

subsection \<open>Blocks of an arena\<close>

lemma ar_get_cases:
  assumes "pool_good (ar_pool A)"
  obtains (exhausted) "pool_spare (ar_pool A) = {}" "ar_get A = Inr (NULL, A)"
  | (block) p a where "ar_get A = Inr (p, A\<lparr>ar_pool := a\<rparr>)" "pool_good a" "p \<noteq> NULL"
      "p \<notin> pool_live (ar_pool A)" "p \<in> pool_spare (ar_pool A)"
      "pool_live a = insert p (pool_live (ar_pool A))" "pool_spare a = pool_spare (ar_pool A) - {p}"
  using assms
proof (cases rule: pool.get_cases)
  case exhausted
  then show ?thesis by (intro that(1)) (simp_all add: ar_get_def)
next
  case (block p a)
  then show ?thesis by (intro that(2) [of p a]) (simp_all add: ar_get_def)
qed

lemma ar_free_live:
  assumes "pool_good (ar_pool A)" and "p \<in> pool_live (ar_pool A)"
  shows "\<exists>a. ar_free A p = Inr (0, A\<lparr>ar_pool := a\<rparr>) \<and> pool_good a \<and>
    pool_live a = pool_live (ar_pool A) - {p} \<and> pool_spare a = insert p (pool_spare (ar_pool A))"
  using pool.put_live [OF assms] by (auto simp: ar_free_def)

lemmas alloc_frame = allocd_def all_kinds all_locs
lemmas free_frame = freed_def all_kinds all_locs

subsection \<open>What an operation leaves alone\<close>

text \<open>
  \<open>quiet s' s\<close>: the two states differ at most in the pools, the lists and their links, and in the
  status and the timer of processes.
\<close>

definition quiet :: "kernel \<Rightarrow> kernel \<Rightarrow> bool" where
  "quiet s' s \<longleftrightarrow>
     running s' = running s \<and> init_pcb s' = init_pcb s \<and> last_pid s' = last_pid s \<and>
     disastrOS_time s' = disastrOS_time s \<and> user_mem s' = user_mem s \<and>
     shutdown_now s' = shutdown_now s \<and>
     syscall_vector s' = syscall_vector s \<and> syscall_numarg s' = syscall_numarg s \<and>
     pcbptr s' = pcbptr s \<and> timer_item s' = timer_item s \<and> descriptor s' = descriptor s \<and>
     descriptorptr s' = descriptorptr s \<and> semdescriptor s' = semdescriptor s \<and>
     semdescriptorptr s' = semdescriptorptr s \<and>
     (\<forall>r. res_id (resource s' r) = res_id (resource s r) \<and> res_type (resource s' r) = res_type (resource s r)) \<and>
     (\<forall>m. sem_id (semaphore s' m) = sem_id (semaphore s m) \<and> sem_count (semaphore s' m) = sem_count (semaphore s m)) \<and>
     (\<forall>p. pcb_pid (pcb s' p) = pcb_pid (pcb s p) \<and> pcb_return_value (pcb s' p) = pcb_return_value (pcb s p) \<and>
       pcb_signals (pcb s' p) = pcb_signals (pcb s p) \<and>
       pcb_signals_mask (pcb s' p) = pcb_signals_mask (pcb s p) \<and>
       pcb_parent (pcb s' p) = pcb_parent (pcb s p) \<and> pcb_cpu_state (pcb s' p) = pcb_cpu_state (pcb s p) \<and>
       pcb_last_fd (pcb s' p) = pcb_last_fd (pcb s p) \<and>
       pcb_last_sem_fd (pcb s' p) = pcb_last_sem_fd (pcb s p) \<and>
       pcb_syscall_num (pcb s' p) = pcb_syscall_num (pcb s p) \<and>
       pcb_syscall_args (pcb s' p) = pcb_syscall_args (pcb s p) \<and>
       pcb_syscall_retvalue (pcb s' p) = pcb_syscall_retvalue (pcb s p))"

lemma quiet_refl [simp]: "quiet s s"
  by (simp add: quiet_def)

lemma quiet_trans: "quiet s t \<Longrightarrow> quiet t u \<Longrightarrow> quiet s u"
  by (simp add: quiet_def)

lemma quiet_put_list [simp]: "quiet (put_list l m h s) s"
  by (simp add: quiet_def)

lemma quiet_set_status [simp]: "quiet (set_status p st s) s"
  by (simp add: quiet_def set_status_def upd_pcb_def)

subsection \<open>The next system call\<close>

text \<open>The process makes its next system call with the arguments \<open>f\<close>.\<close>

definition with_args :: "(nat \<Rightarrow> clong) \<Rightarrow> kernel \<Rightarrow> kernel" where
  "with_args f s = upd_pcb (running s) (\<lambda>c. c\<lparr>pcb_syscall_args := f\<rparr>) s"

lemma ucast_scast: "ucast (scast (x :: cint) :: clong) = x"
  by transfer (simp add: take_bit_signed_take_bit)

lemma with_args_simps [simp]:
  "running (with_args f s) = running s" "run_arg (with_args f s) i = f i"
  "semdescriptor (with_args f s) = semdescriptor s" "semdescriptorptr (with_args f s) = semdescriptorptr s"
  "descriptor (with_args f s) = descriptor s" "descriptorptr (with_args f s) = descriptorptr s"
  "resource (with_args f s) = resource s" "semaphore (with_args f s) = semaphore s"
  "pool_of (with_args f s) k = pool_of s k" "core_ok (with_args f s) L \<longleftrightarrow> core_ok s L"
  "idle (with_args f s) L k x \<longleftrightarrow> idle s L k x"
  by (simp_all add: with_args_def) (simp_all add: upd_pcb_def)

text \<open>The process traps with the call number \<open>n\<close> and the arguments \<open>f\<close>.\<close>

definition with_call :: "cint \<Rightarrow> (nat \<Rightarrow> clong) \<Rightarrow> kernel \<Rightarrow> kernel" where
  "with_call n f s = upd_pcb (running s) (\<lambda>c. c\<lparr>pcb_syscall_num := n, pcb_syscall_args := f\<rparr>) s"

lemma with_call_simps [simp]:
  "running (with_call n f s) = running s" "init_pcb (with_call n f s) = init_pcb s"
  "run_arg (with_call n f s) i = f i" "pcb_syscall_num (pcb (with_call n f s) (running s)) = n"
  "pcb_pid (pcb (with_call n f s) p) = pcb_pid (pcb s p)" "pcb_parent (pcb (with_call n f s) p) = pcb_parent (pcb s p)"
  "pcb_status (pcb (with_call n f s) p) = pcb_status (pcb s p)"
  "p \<noteq> running s \<Longrightarrow> pcb (with_call n f s) p = pcb s p"
  "pcbptr (with_call n f s) = pcbptr s" "timer_item (with_call n f s) = timer_item s"
  "descriptor (with_call n f s) = descriptor s" "descriptorptr (with_call n f s) = descriptorptr s"
  "semdescriptor (with_call n f s) = semdescriptor s" "semdescriptorptr (with_call n f s) = semdescriptorptr s"
  "resource (with_call n f s) = resource s" "semaphore (with_call n f s) = semaphore s"
  "user_mem (with_call n f s) = user_mem s" "disastrOS_time (with_call n f s) = disastrOS_time s"
  "pool_of (with_call n f s) k = pool_of s k" "core_ok (with_call n f s) L \<longleftrightarrow> core_ok s L"
  "idle (with_call n f s) L k x \<longleftrightarrow> idle s L k x"
  by (simp_all add: with_call_def) (simp_all add: upd_pcb_def)

end
