(* ===== verification/Pcb.thy ===== *)
theory Pcb
  imports Kernel_Inv
begin

text \<open>
  \<open>disastrOS_pcb.c\<close>: process control blocks, the \<open>PCBPtr\<close> list items that record a process in its
  parent's list of children, and the lookups by pid.

  The addresses of the static buffers and the sizes of the structs are chosen by the compiler and
  the linker: they are the parameter \<open>static_mem\<close> of the initialisation functions.
\<close>

record static_mem =
  site_buffer :: "item_kind \<Rightarrow> ptr"
  site_size :: "item_kind \<Rightarrow> cint"

text \<open>\<open>result = PoolAllocator_init(...); assert(!result);\<close>\<close>

definition init_pool :: "static_mem \<Rightarrow> item_kind \<Rightarrow> cint \<Rightarrow> cint \<Rightarrow> 'a arena \<Rightarrow> 'a arena result" where
  "init_pool st k num_items buffer_size A =
     bindE (PoolAllocator_init (ar_pool A) (site_size st k) num_items (site_buffer st k)
       (replicate (unat num_items) 0) buffer_size) (\<lambda>(r, a).
     check (r = Success) AssertFailed (Inr (A\<lparr>ar_pool := a\<rparr>)))"

definition PCB_init :: "static_mem \<Rightarrow> kernel \<Rightarrow> kernel result" where
  "PCB_init st s =
     bindE (init_pool st PCB_item MAX_NUM_PROCESSES
       (MAX_NUM_PROCESSES * (site_size st PCB_item + 4)) (pcb_mem s)) (\<lambda>A.
     bindE (init_pool st PCBPtr_item MAX_NUM_PROCESSES
       (MAX_NUM_PROCESSES * (site_size st PCBPtr_item + 4)) (pcbptr_mem s)) (\<lambda>B.
     Inr (s\<lparr>pcb_mem := A, pcbptr_mem := B\<rparr>)))"

text \<open>
  \<open>PCB_alloc\<close> does not test the block it gets before it writes to it, and does not initialise
  \<open>sem_descriptors\<close>, \<open>cpu_state\<close> and the system call registers of the block.
\<close>

definition PCB_alloc :: "kernel \<Rightarrow> (ptr \<times> kernel) result" where
  "PCB_alloc s =
     bindE (ar_get (pcb_mem s)) (\<lambda>(p, A).
     check (p \<noteq> NULL) NullDeref
     (Inr (p, s\<lparr>pcb_mem := ar_upd p (\<lambda>c. c\<lparr>pcb_pid := last_pid s, pcb_return_value := 0,
          pcb_status := Invalid, pcb_last_fd := 0, pcb_signals := 0, pcb_signals_mask := 0xFFFFFFFF,
          pcb_parent := NULL, pcb_timer := NULL, pcb_children := List_init,
          pcb_last_sem_fd := 0, pcb_descriptors := List_init\<rparr>) (ar_unlink p A),
        last_pid := last_pid s + 1\<rparr>)))"

definition PCB_free :: "kernel \<Rightarrow> ptr \<Rightarrow> (cint \<times> kernel) result" where
  "PCB_free s p = bindE (ar_free (pcb_mem s) p) (\<lambda>(r, A). Inr (r, s\<lparr>pcb_mem := A\<rparr>))"

definition PCBPtr_alloc :: "kernel \<Rightarrow> ptr \<Rightarrow> (ptr \<times> kernel) result" where
  "PCBPtr_alloc s p =
     bindE (ar_get (pcbptr_mem s)) (\<lambda>(q, A).
     check (q \<noteq> NULL) NullDeref
     (Inr (q, s\<lparr>pcbptr_mem := ar_upd q (\<lambda>c. c\<lparr>pp_pcb := p\<rparr>) (ar_unlink q A)\<rparr>)))"

definition PCBPtr_free :: "kernel \<Rightarrow> ptr \<Rightarrow> (cint \<times> kernel) result" where
  "PCBPtr_free s q = bindE (ar_free (pcbptr_mem s) q) (\<lambda>(r, A). Inr (r, s\<lparr>pcbptr_mem := A\<rparr>))"

definition PCB_byPID :: "kernel \<Rightarrow> ListHead \<Rightarrow> cint \<Rightarrow> ptr result" where
  "PCB_byPID s head pid =
     run_loopE (list_scan (\<lambda>p. Inr (pcb_pid (pcb s p) = pid)) (ar_links (pcb_mem s)) (lh_first head))"

definition PCBPtr_byPID :: "kernel \<Rightarrow> ListHead \<Rightarrow> cint \<Rightarrow> ptr result" where
  "PCBPtr_byPID s head pid =
     run_loopE (list_scan
       (\<lambda>q. let p = pp_pcb (pcbptr s q) in check (p \<noteq> NULL) NullDeref (Inr (pcb_pid (pcb s p) = pid)))
       (ar_links (pcbptr_mem s)) (lh_first head))"

subsection \<open>What the operations do to a well-formed state\<close>

lemma PCB_alloc_cases:
  assumes "core_ok s L"
  obtains (exhausted) "spare s PCB_item = {}" "PCB_alloc s = Inl NullDeref"
  | (block) p A where "PCB_alloc s = Inr (p, s\<lparr>pcb_mem := A, last_pid := last_pid s + 1\<rparr>)"
      "allocd PCB_item p s (s\<lparr>pcb_mem := A, last_pid := last_pid s + 1\<rparr>)"
      "ar_cells A = (pcb s)(p := (pcb s p)\<lparr>pcb_pid := last_pid s, pcb_return_value := 0,
          pcb_status := Invalid, pcb_last_fd := 0, pcb_signals := 0, pcb_signals_mask := 0xFFFFFFFF,
          pcb_parent := NULL, pcb_timer := NULL, pcb_children := List_init,
          pcb_last_sem_fd := 0, pcb_descriptors := List_init\<rparr>)"
proof -
  have "pool_good (ar_pool (pcb_mem s))" using core_pool [OF assms, of PCB_item] by simp
  then show ?thesis
  proof (cases rule: ar_get_cases)
    case exhausted
    then show ?thesis by (intro that(1)) (simp_all add: PCB_alloc_def)
  next
    case (block p a)
    then show ?thesis
      by (intro that(2)) (simp_all add: PCB_alloc_def, simp_all add: alloc_frame)
  qed
qed

lemma PCBPtr_alloc_cases:
  assumes "core_ok s L"
  obtains (exhausted) "spare s PCBPtr_item = {}" "PCBPtr_alloc s p = Inl NullDeref"
  | (block) q A where "PCBPtr_alloc s p = Inr (q, s\<lparr>pcbptr_mem := A\<rparr>)"
      "allocd PCBPtr_item q s (s\<lparr>pcbptr_mem := A\<rparr>)"
      "ar_cells A = (pcbptr s)(q := (pcbptr s q)\<lparr>pp_pcb := p\<rparr>)"
proof -
  have "pool_good (ar_pool (pcbptr_mem s))" using core_pool [OF assms, of PCBPtr_item] by simp
  then show ?thesis
  proof (cases rule: ar_get_cases)
    case exhausted
    then show ?thesis by (intro that(1)) (simp_all add: PCBPtr_alloc_def)
  next
    case (block q a)
    then show ?thesis
      by (intro that(2)) (simp_all add: PCBPtr_alloc_def, simp_all add: alloc_frame)
  qed
qed

lemma PCB_free_live:
  assumes "core_ok s L" and "p \<in> live s PCB_item"
  shows "\<exists>A. PCB_free s p = Inr (0, s\<lparr>pcb_mem := A\<rparr>) \<and> freed PCB_item p s (s\<lparr>pcb_mem := A\<rparr>) \<and>
    ar_cells A = pcb s"
proof -
  have "pool_good (ar_pool (pcb_mem s))" "p \<in> pool_live (ar_pool (pcb_mem s))"
    using core_pool [OF assms(1), of PCB_item] assms(2) by simp_all
  from ar_free_live [OF this] obtain a where "ar_free (pcb_mem s) p = Inr (0, (pcb_mem s)\<lparr>ar_pool := a\<rparr>)"
      "pool_good a" "pool_live a = live s PCB_item - {p}" "pool_spare a = insert p (spare s PCB_item)"
    by auto
  then show ?thesis using assms(2)
    by (intro exI [of _ "(pcb_mem s)\<lparr>ar_pool := a\<rparr>"]) (simp add: PCB_free_def free_frame)
qed

lemma PCBPtr_free_live:
  assumes "core_ok s L" and "p \<in> live s PCBPtr_item"
  shows "\<exists>A. PCBPtr_free s p = Inr (0, s\<lparr>pcbptr_mem := A\<rparr>) \<and>
    freed PCBPtr_item p s (s\<lparr>pcbptr_mem := A\<rparr>) \<and> ar_cells A = pcbptr s"
proof -
  have "pool_good (ar_pool (pcbptr_mem s))" "p \<in> pool_live (ar_pool (pcbptr_mem s))"
    using core_pool [OF assms(1), of PCBPtr_item] assms(2) by simp_all
  from ar_free_live [OF this] obtain a where
      "ar_free (pcbptr_mem s) p = Inr (0, (pcbptr_mem s)\<lparr>ar_pool := a\<rparr>)"
      "pool_good a" "pool_live a = live s PCBPtr_item - {p}" "pool_spare a = insert p (spare s PCBPtr_item)"
    by auto
  then show ?thesis using assms(2)
    by (intro exI [of _ "(pcbptr_mem s)\<lparr>ar_pool := a\<rparr>"]) (simp add: PCBPtr_free_def free_frame)
qed

lemma PCB_byPID_scan:
  assumes "core_ok s L" and "l \<in> heads s" and "kind_of l = PCB_item"
  shows "PCB_byPID s (head_of s l) pid = Inr (scan_result (\<lambda>p. pcb_pid (pcb s p) = pid) (L l))"
  using core_scan [OF assms(1,2), of "\<lambda>p. Inr (pcb_pid (pcb s p) = pid)"] assms(3)
  by (simp add: PCB_byPID_def)

lemma PCBPtr_byPID_scan:
  assumes "core_ok s L" and "l \<in> heads s" and "kind_of l = PCBPtr_item"
    and "\<And>q. q \<in> set (L l) \<Longrightarrow> pp_pcb (pcbptr s q) \<noteq> NULL"
  shows "PCBPtr_byPID s (head_of s l) pid =
    Inr (scan_result (\<lambda>q. pcb_pid (pcb s (pp_pcb (pcbptr s q))) = pid) (L l))"
proof -
  have "list_scan (\<lambda>q. let p = pp_pcb (pcbptr s q) in check (p \<noteq> NULL) NullDeref (Inr (pcb_pid (pcb s p) = pid)))
      (links_of s (kind_of l)) (k_first s l) =
    Some (Inr (scan_result (\<lambda>q. pcb_pid (pcb s (pp_pcb (pcbptr s q))) = pid) (L l)))"
    using assms(4) by (intro core_scan [OF assms(1,2)]) (simp add: Let_def)
  then show ?thesis using assms(3) by (simp add: PCBPtr_byPID_def)
qed

end
