(* ===== verification/Example_State.thy ===== *)
theory Example_State
  imports Kernel_Inv
begin

text \<open>
  A small system on which the properties of the kernel are exercised: init (pid 0) runs, and of
  its four children process 1 is ready, process 2 sleeps until time 5, process 3 waits for the
  semaphore with id 7 and process 4 is a zombie with exit value 42. Init and process 1 hold the
  resource with id 3, init holds the semaphores with ids 6 and 7, process 3 the one with id 7.
  Every pool has six blocks of sixteen bytes; the blocks of one kind start at a multiple of 4096.
\<close>

definition ex_pool :: "ptr \<Rightarrow> cint list \<Rightarrow> cint \<Rightarrow> cint \<Rightarrow> PoolAllocator" where
  "ex_pool base fl first n = \<lparr>pa_buffer = base, pa_free_list = fl, pa_buffer_size = 96, pa_size = n,
     pa_size_max = 6, pa_item_size = 16, pa_first_idx = first, pa_bucket_size = 0\<rparr>"

definition ex_links :: "(ptr \<times> ptr \<times> ptr) list \<Rightarrow> list_mem" where
  "ex_links ls = (\<lambda>x. case map_of ls x of
     None \<Rightarrow> \<lparr>li_prev = NULL, li_next = NULL\<rparr> | Some (p, n) \<Rightarrow> \<lparr>li_prev = p, li_next = n\<rparr>)"

definition ex_pcb :: "cint \<Rightarrow> ProcessStatus \<Rightarrow> ptr \<Rightarrow> ListHead \<Rightarrow> ListHead \<Rightarrow> ListHead \<Rightarrow> PCB" where
  "ex_pcb pid st par ch ds sd = \<lparr>pcb_pid = pid, pcb_return_value = 0, pcb_status = st,
     pcb_signals = 0, pcb_signals_mask = 0xFFFFFFFF, pcb_parent = par, pcb_children = ch,
     pcb_cpu_state = SavedContext, pcb_timer = NULL, pcb_last_fd = 1, pcb_descriptors = ds,
     pcb_last_sem_fd = 2, pcb_sem_descriptors = sd, pcb_syscall_num = 0,
     pcb_syscall_args = (\<lambda>_. 0), pcb_syscall_retvalue = 0\<rparr>"

definition ex_list :: "ptr list \<Rightarrow> ListHead" where
  "ex_list xs = \<lparr>lh_first = first_of xs NULL, lh_last = last_of NULL xs, lh_size = of_nat (length xs)\<rparr>"

definition ex_pcb_mem :: "PCB arena" where
  "ex_pcb_mem = \<lparr>ar_cells = (\<lambda>_. ex_pcb 0 Invalid 0 (ex_list []) (ex_list []) (ex_list []))
         (4096 := ex_pcb 0 Running 0 (ex_list [8192, 8208, 8224, 8240]) (ex_list [20480]) (ex_list [32768, 32784]),
          4112 := ex_pcb 1 Ready 4096 (ex_list []) (ex_list [20496]) (ex_list []),
          4128 := ex_pcb 2 Waiting 4096 (ex_list []) (ex_list []) (ex_list []),
          4144 := ex_pcb 3 Waiting 4096 (ex_list []) (ex_list []) (ex_list [32800]),
          4160 := (ex_pcb 4 Zombie 4096 (ex_list []) (ex_list []) (ex_list []))\<lparr>pcb_return_value := 42\<rparr>),
     ar_links = ex_links [(4128, 0, 4144), (4144, 4128, 0)],
     ar_pool = ex_pool 4096 [-2, -2, -2, -2, -2, -1] 5 1\<rparr>"

definition ex_pcbptr_mem :: "PCBPtr arena" where
  "ex_pcbptr_mem = \<lparr>ar_cells = (\<lambda>_. \<lparr>pp_pcb = 0\<rparr>)(8192 := \<lparr>pp_pcb = 4112\<rparr>, 8208 := \<lparr>pp_pcb = 4128\<rparr>,
         8224 := \<lparr>pp_pcb = 4144\<rparr>, 8240 := \<lparr>pp_pcb = 4160\<rparr>),
     ar_links = ex_links [(8192, 0, 8208), (8208, 8192, 8224), (8224, 8208, 8240), (8240, 8224, 0)],
     ar_pool = ex_pool 8192 [-2, -2, -2, -2, 5, -1] 4 2\<rparr>"

definition ex_timer_mem :: "TimerItem arena" where
  "ex_timer_mem = \<lparr>ar_cells = (\<lambda>_. \<lparr>ti_awakening_time = 0, ti_pcb = 0\<rparr>)
         (12288 := \<lparr>ti_awakening_time = 5, ti_pcb = 4128\<rparr>),
     ar_links = ex_links [],
     ar_pool = ex_pool 12288 [-2, 2, 3, 4, 5, -1] 1 5\<rparr>"

definition ex_resource_mem :: "Resource arena" where
  "ex_resource_mem = \<lparr>ar_cells = (\<lambda>_. \<lparr>res_id = 0, res_type = 0, res_descriptors = ex_list []\<rparr>)
         (16384 := \<lparr>res_id = 3, res_type = 1, res_descriptors = ex_list [24576, 24592]\<rparr>),
     ar_links = ex_links [],
     ar_pool = ex_pool 16384 [-2, 2, 3, 4, 5, -1] 1 5\<rparr>"

definition ex_descriptor_mem :: "Descriptor arena" where
  "ex_descriptor_mem = \<lparr>ar_cells = (\<lambda>_. \<lparr>des_pcb = 0, des_resource = 0, des_fd = 0, des_ptr = 0\<rparr>)
         (20480 := \<lparr>des_pcb = 4096, des_resource = 16384, des_fd = 0, des_ptr = 24576\<rparr>,
          20496 := \<lparr>des_pcb = 4112, des_resource = 16384, des_fd = 0, des_ptr = 24592\<rparr>),
     ar_links = ex_links [],
     ar_pool = ex_pool 20480 [-2, -2, 3, 4, 5, -1] 2 4\<rparr>"

definition ex_descriptorptr_mem :: "DescriptorPtr arena" where
  "ex_descriptorptr_mem = \<lparr>ar_cells = (\<lambda>_. \<lparr>dp_descriptor = 0\<rparr>)
         (24576 := \<lparr>dp_descriptor = 20480\<rparr>, 24592 := \<lparr>dp_descriptor = 20496\<rparr>),
     ar_links = ex_links [(24576, 0, 24592), (24592, 24576, 0)],
     ar_pool = ex_pool 24576 [-2, -2, 3, 4, 5, -1] 2 4\<rparr>"

definition ex_semaphore_mem :: "Semaphore arena" where
  "ex_semaphore_mem = \<lparr>ar_cells = (\<lambda>_. \<lparr>sem_id = 0, sem_count = 0, sem_descriptors = ex_list [],
           sem_waiting_descriptors = ex_list []\<rparr>)
         (28672 := \<lparr>sem_id = 6, sem_count = 1, sem_descriptors = ex_list [36864],
            sem_waiting_descriptors = ex_list []\<rparr>,
          28688 := \<lparr>sem_id = 7, sem_count = -1, sem_descriptors = ex_list [36880, 36896],
            sem_waiting_descriptors = ex_list [36912]\<rparr>),
     ar_links = ex_links [(28672, 0, 28688), (28688, 28672, 0)],
     ar_pool = ex_pool 28672 [-2, -2, 3, 4, 5, -1] 2 4\<rparr>"

definition ex_semdescriptor_mem :: "SemDescriptor arena" where
  "ex_semdescriptor_mem = \<lparr>ar_cells = (\<lambda>_. \<lparr>sd_pcb = 0, sd_semaphore = 0, sd_fd = 0, sd_ptr = 0\<rparr>)
         (32768 := \<lparr>sd_pcb = 4096, sd_semaphore = 28672, sd_fd = 0, sd_ptr = 36864\<rparr>,
          32784 := \<lparr>sd_pcb = 4096, sd_semaphore = 28688, sd_fd = 1, sd_ptr = 36880\<rparr>,
          32800 := \<lparr>sd_pcb = 4144, sd_semaphore = 28688, sd_fd = 0, sd_ptr = 36896\<rparr>),
     ar_links = ex_links [(32768, 0, 32784), (32784, 32768, 0)],
     ar_pool = ex_pool 32768 [-2, -2, -2, 4, 5, -1] 3 3\<rparr>"

definition ex_semdescriptorptr_mem :: "SemDescriptorPtr arena" where
  "ex_semdescriptorptr_mem = \<lparr>ar_cells = (\<lambda>_. \<lparr>sp_descriptor = 0\<rparr>)
         (36864 := \<lparr>sp_descriptor = 32768\<rparr>, 36880 := \<lparr>sp_descriptor = 32784\<rparr>,
          36896 := \<lparr>sp_descriptor = 32800\<rparr>, 36912 := \<lparr>sp_descriptor = 32800\<rparr>),
     ar_links = ex_links [(36880, 0, 36896), (36896, 36880, 0)],
     ar_pool = ex_pool 36864 [-2, -2, -2, -2, 5, -1] 4 2\<rparr>"

definition ex_state :: kernel where
  "ex_state = \<lparr>
     pcb_mem = ex_pcb_mem, pcbptr_mem = ex_pcbptr_mem, timer_mem = ex_timer_mem,
     resource_mem = ex_resource_mem, descriptor_mem = ex_descriptor_mem, descriptorptr_mem = ex_descriptorptr_mem,
     semaphore_mem = ex_semaphore_mem, semdescriptor_mem = ex_semdescriptor_mem, semdescriptorptr_mem = ex_semdescriptorptr_mem,
     init_pcb = 4096, running = 4096, last_pid = 5,
     ready_list = ex_list [4112], waiting_list = ex_list [4128, 4144], zombie_list = ex_list [4160],
     timer_list = ex_list [12288], resources_list = ex_list [16384],
     semaphores_list = ex_list [28672, 28688],
     syscall_vector = [], syscall_numarg = [], shutdown_now = 0, disastrOS_time = 4,
     user_mem = (\<lambda>_. 0)\<rparr>"

lemma ex_state_fields [simp]:
  "pcb_mem ex_state = ex_pcb_mem"
  "pcbptr_mem ex_state = ex_pcbptr_mem"
  "timer_mem ex_state = ex_timer_mem"
  "resource_mem ex_state = ex_resource_mem"
  "descriptor_mem ex_state = ex_descriptor_mem"
  "descriptorptr_mem ex_state = ex_descriptorptr_mem"
  "semaphore_mem ex_state = ex_semaphore_mem"
  "semdescriptor_mem ex_state = ex_semdescriptor_mem"
  "semdescriptorptr_mem ex_state = ex_semdescriptorptr_mem"
  "init_pcb ex_state = 4096" "running ex_state = 4096" "last_pid ex_state = 5"
  "ready_list ex_state = ex_list [4112]" "waiting_list ex_state = ex_list [4128, 4144]"
  "zombie_list ex_state = ex_list [4160]" "timer_list ex_state = ex_list [12288]"
  "resources_list ex_state = ex_list [16384]" "semaphores_list ex_state = ex_list [28672, 28688]"
  "shutdown_now ex_state = 0" "disastrOS_time ex_state = 4"
  by (simp_all only: ex_state_def kernel.simps)

lemmas ex_mem_defs = ex_pcb_mem_def ex_pcbptr_mem_def ex_timer_mem_def ex_resource_mem_def ex_descriptor_mem_def ex_descriptorptr_mem_def ex_semaphore_mem_def ex_semdescriptor_mem_def ex_semdescriptorptr_mem_def

lemma ex_pools [simp]:
  "ar_pool ex_pcb_mem = ex_pool 4096 [-2, -2, -2, -2, -2, -1] 5 1"
  "ar_pool ex_pcbptr_mem = ex_pool 8192 [-2, -2, -2, -2, 5, -1] 4 2"
  "ar_pool ex_timer_mem = ex_pool 12288 [-2, 2, 3, 4, 5, -1] 1 5"
  "ar_pool ex_resource_mem = ex_pool 16384 [-2, 2, 3, 4, 5, -1] 1 5"
  "ar_pool ex_descriptor_mem = ex_pool 20480 [-2, -2, 3, 4, 5, -1] 2 4"
  "ar_pool ex_descriptorptr_mem = ex_pool 24576 [-2, -2, 3, 4, 5, -1] 2 4"
  "ar_pool ex_semaphore_mem = ex_pool 28672 [-2, -2, 3, 4, 5, -1] 2 4"
  "ar_pool ex_semdescriptor_mem = ex_pool 32768 [-2, -2, -2, 4, 5, -1] 3 3"
  "ar_pool ex_semdescriptorptr_mem = ex_pool 36864 [-2, -2, -2, -2, 5, -1] 4 2"
  by (simp_all only: ex_mem_defs arena.simps)

fun ex_lists :: "list_loc \<Rightarrow> ptr list" where
  "ex_lists ReadyList = [4112]"
| "ex_lists WaitingList = [4128, 4144]"
| "ex_lists ZombieList = [4160]"
| "ex_lists TimerList = [12288]"
| "ex_lists ResourcesList = [16384]"
| "ex_lists SemaphoresList = [28672, 28688]"
| "ex_lists (Children p) = (if p = 4096 then [8192, 8208, 8224, 8240] else [])"
| "ex_lists (Descriptors p) = (if p = 4096 then [20480] else if p = 4112 then [20496] else [])"
| "ex_lists (SemDescriptors p) = (if p = 4096 then [32768, 32784] else if p = 4144 then [32800] else [])"
| "ex_lists (ResDescriptors r) = (if r = 16384 then [24576, 24592] else [])"
| "ex_lists (SemDescs m) = (if m = 28672 then [36864] else if m = 28688 then [36880, 36896] else [])"
| "ex_lists (SemWaiting m) = (if m = 28688 then [36912] else [])"

lemma below_six: "(\<forall>j < 6. P (j :: nat)) \<longleftrightarrow> P 0 \<and> P 1 \<and> P 2 \<and> P 3 \<and> P 4 \<and> P 5"
proof -
  have "j < 6 \<longleftrightarrow> j = 0 \<or> j = 1 \<or> j = 2 \<or> j = 3 \<or> j = 4 \<or> j = 5" for j :: nat by arith
  then show ?thesis by auto
qed

lemma ex_pool_good:
  assumes "length fl = 6" and "free_chain fl first xs" and "distinct xs"
    and "\<forall>j < 6. j \<notin> set xs \<longleftrightarrow> fl ! j = -2" and "n = of_nat (length xs)"
    and "0 < uint base" and "uint base + 2 ^ 31 \<le> 2 ^ 64"
  shows "pool_good (ex_pool base fl first n)"
  using assms unfolding pool_good_def
  by (intro exI [of _ xs]) (simp add: pool_inv_def pool_geometry_def ex_pool_def DetachedIdx_def)

lemma ex_pool_goods:
  assumes "0 < uint base" and "uint base + 2 ^ 31 \<le> 2 ^ 64"
  shows "pool_good (ex_pool base [-2, -2, -2, -2, -2, -1] 5 1)"
    "pool_good (ex_pool base [-2, -2, -2, -2, 5, -1] 4 2)"
    "pool_good (ex_pool base [-2, -2, -2, 4, 5, -1] 3 3)"
    "pool_good (ex_pool base [-2, -2, 3, 4, 5, -1] 2 4)"
    "pool_good (ex_pool base [-2, 2, 3, 4, 5, -1] 1 5)"
proof -
  show "pool_good (ex_pool base [-2, -2, -2, -2, -2, -1] 5 1)"
    by (rule ex_pool_good [where xs = "[5]"]) (use assms in \<open>simp_all add: below_six NullIdx_def\<close>)
  show "pool_good (ex_pool base [-2, -2, -2, -2, 5, -1] 4 2)"
    by (rule ex_pool_good [where xs = "[4, 5]"]) (use assms in \<open>simp_all add: below_six NullIdx_def\<close>)
  show "pool_good (ex_pool base [-2, -2, -2, 4, 5, -1] 3 3)"
    by (rule ex_pool_good [where xs = "[3, 4, 5]"]) (use assms in \<open>simp_all add: below_six NullIdx_def\<close>)
  show "pool_good (ex_pool base [-2, -2, 3, 4, 5, -1] 2 4)"
    by (rule ex_pool_good [where xs = "[2, 3, 4, 5]"]) (use assms in \<open>simp_all add: below_six NullIdx_def\<close>)
  show "pool_good (ex_pool base [-2, 2, 3, 4, 5, -1] 1 5)"
    by (rule ex_pool_good [where xs = "[1, 2, 3, 4, 5]"]) (use assms in \<open>simp_all add: below_six NullIdx_def\<close>)
qed

lemma ex_state_pools: "pool_good (pool_of ex_state k)"
  by (cases k) (simp_all add: ex_pool_goods)

lemma image_below_six: "f ` {j. j < 6 \<and> P (j :: nat)} = set (map f (filter P [0, 1, 2, 3, 4, 5]))"
proof -
  have "j < 6 \<longleftrightarrow> j \<in> set [0, 1, 2, 3, 4, 5]" for j :: nat
    unfolding list.set insert_iff empty_iff by arith
  then have "{j. j < 6 \<and> P j} = set (filter P [0, 1, 2, 3, 4, 5])"
    unfolding set_filter by blast
  then show ?thesis by (simp only: set_map)
qed

lemma ex_pool_blocks:
  assumes "length fl = 6"
  shows "pool_live (ex_pool base fl first n) =
      set (map (\<lambda>j. base + word_of_int (int j * 16)) (filter (\<lambda>j. fl ! j = -2) [0, 1, 2, 3, 4, 5]))"
    and "pool_spare (ex_pool base fl first n) =
      set (map (\<lambda>j. base + word_of_int (int j * 16)) (filter (\<lambda>j. fl ! j \<noteq> -2) [0, 1, 2, 3, 4, 5]))"
  unfolding pool_live_def pool_spare_def image_below_six [symmetric]
  using assms by (simp_all add: ex_pool_def block_at_def DetachedIdx_def)

lemma ex_state_live:
  "live ex_state PCB_item = {4096, 4112, 4128, 4144, 4160}" "spare ex_state PCB_item = {4176}"
  "live ex_state PCBPtr_item = {8192, 8208, 8224, 8240}" "spare ex_state PCBPtr_item = {8256, 8272}"
  "live ex_state Timer_item = {12288}"
  "live ex_state Resource_item = {16384}"
  "live ex_state Descriptor_item = {20480, 20496}"
  "live ex_state DescriptorPtr_item = {24576, 24592}"
  "live ex_state Semaphore_item = {28672, 28688}"
  "live ex_state SemDescriptor_item = {32768, 32784, 32800}"
  "live ex_state SemDescriptorPtr_item = {36864, 36880, 36896, 36912}"
  by (auto simp: ex_pool_blocks)

lemma ex_heads: "head_of ex_state l = ex_list (ex_lists l)"
  by (cases l) (simp_all add: ex_mem_defs ex_pcb_def)

lemma ex_segments: "dseg (links_of ex_state (kind_of l)) NULL (ex_lists l) NULL"
  by (cases l) (simp_all add: ex_mem_defs ex_links_def)

lemma ex_distinct: "distinct (ex_lists l)"
  by (cases l) simp_all

lemma ex_klist: "klist ex_state l (ex_lists l)"
  unfolding klist_def dlist_def ex_heads
  by (simp add: ex_segments ex_distinct, simp add: ex_list_def)

lemma ex_items:
  "if l \<in> heads ex_state then set (ex_lists l) \<subseteq> live ex_state (kind_of l) else ex_lists l = []"
  by (cases l) (auto simp: ex_state_live simp del: pool_of.simps)

lemma ex_apart: "l \<noteq> k \<Longrightarrow> kind_of l = kind_of k \<Longrightarrow> set (ex_lists l) \<inter> set (ex_lists k) = {}"
  by (cases l; cases k) (simp_all, auto)

lemma ex_core: "core_ok ex_state ex_lists"
  unfolding core_ok_def layout_def
  using ex_state_pools ex_klist ex_apart ex_items by blast

lemma ex_running: "idle ex_state ex_lists PCB_item 4096"
proof -
  have "4096 \<notin> set (ex_lists l)" if "kind_of l = PCB_item" for l using that by (cases l) simp_all
  moreover have "kspare ex_state PCB_item 4096" by (simp add: kspare_def unlinked_def ex_mem_defs ex_links_def)
  ultimately show ?thesis by (simp only: idle_def ex_state_live) simp
qed

text \<open>The example with given system call arguments.\<close>

definition ex_args :: "(nat \<Rightarrow> clong) \<Rightarrow> kernel" where
  "ex_args f = upd_pcb 4096 (\<lambda>c. c\<lparr>pcb_syscall_args := f\<rparr>) ex_state"

abbreviation ex_call :: "clong \<Rightarrow> kernel" where
  "ex_call a \<equiv> ex_args (\<lambda>_. a)"

lemma ex_args_fields [simp]:
  "running (ex_args f) = 4096" "init_pcb (ex_args f) = 4096" "disastrOS_time (ex_args f) = 4"
  "resource (ex_args f) = resource ex_state" "descriptor (ex_args f) = descriptor ex_state"
  "descriptorptr (ex_args f) = descriptorptr ex_state"
  "semaphore (ex_args f) = semaphore ex_state"
  "semdescriptor (ex_args f) = semdescriptor ex_state" "semdescriptorptr (ex_args f) = semdescriptorptr ex_state"
  "pcbptr (ex_args f) = pcbptr ex_state" "timer_item (ex_args f) = timer_item ex_state"
  "pcb_syscall_args (pcb (ex_args f) 4096) = f" "pool_of (ex_args f) k = pool_of ex_state k"
  "core_ok (ex_args f) L = core_ok ex_state L" "idle (ex_args f) L k x = idle ex_state L k x"
  by (simp_all add: ex_args_def, simp_all add: upd_pcb_def)

end
