(* ===== verification/Timer.thy ===== *)
theory Timer
  imports Pcb Example_State
begin

text \<open>
  \<open>disastrOS_timer.c\<close>: the timers of sleeping processes, in a list ordered by awakening time.
\<close>

definition Timer_init :: "static_mem \<Rightarrow> kernel \<Rightarrow> kernel result" where
  "Timer_init st s =
     bindE (init_pool st Timer_item MAX_NUM_PROCESSES
       (MAX_NUM_PROCESSES * (site_size st Timer_item + 4)) (timer_mem s)) (\<lambda>A.
     Inr (s\<lparr>timer_mem := A\<rparr>))"

definition TimerItem_alloc :: "kernel \<Rightarrow> cint \<Rightarrow> ptr \<Rightarrow> (ptr \<times> kernel) result" where
  "TimerItem_alloc s awakening_time p =
     bindE (ar_get (timer_mem s)) (\<lambda>(t, A).
     if t = NULL then Inr (NULL, s\<lparr>timer_mem := A\<rparr>)
     else Inr (t, s\<lparr>timer_mem := ar_upd t (\<lambda>c. c\<lparr>ti_pcb := p, ti_awakening_time := awakening_time\<rparr>)
       (ar_unlink t A)\<rparr>))"

definition TimerItem_free :: "kernel \<Rightarrow> ptr \<Rightarrow> (cint \<times> kernel) result" where
  "TimerItem_free s t = bindE (ar_free (timer_mem s) t) (\<lambda>(r, A). Inr (r, s\<lparr>timer_mem := A\<rparr>))"

definition TimerList_init :: "kernel \<Rightarrow> kernel" where
  "TimerList_init s = s\<lparr>timer_list := List_init\<rparr>"

text \<open>The scan for the place of a new timer; its result is \<open>previous_item\<close>.\<close>

partial_function (option) timer_position :: "kernel \<Rightarrow> cint \<Rightarrow> ptr \<Rightarrow> ptr \<Rightarrow> ptr option" where
  "timer_position s awakening_time previous_item aux =
     (if aux = NULL then Some previous_item
      else if awakening_time <s ti_awakening_time (timer_item s aux) then Some previous_item
      else timer_position s awakening_time aux (li_next (ar_links (timer_mem s) aux)))"

definition TimerList_add :: "kernel \<Rightarrow> cint \<Rightarrow> ptr \<Rightarrow> (ptr \<times> kernel) result" where
  "TimerList_add s awakening_time p =
     bindE (run_loop (timer_position s awakening_time NULL (lh_first (timer_list s)))) (\<lambda>previous_item.
     bindE (TimerItem_alloc s awakening_time p) (\<lambda>(new_item, s).
     if new_item = NULL then Inr (NULL, s)
     else bindE (k_insert s TimerList previous_item new_item) (\<lambda>(_, s).
       Inr (new_item, s))))"

definition TimerList_current :: "kernel \<Rightarrow> cint \<Rightarrow> ptr" where
  "TimerList_current s current_time =
     (if lh_first (timer_list s) = NULL then NULL
      else let item = lh_first (timer_list s) in
        if ti_awakening_time (timer_item s item) \<le>s current_time then item else NULL)"

definition TimerList_removeCurrent :: "kernel \<Rightarrow> (cint \<times> kernel) result" where
  "TimerList_removeCurrent s =
     bindE (k_detach s TimerList (lh_first (timer_list s))) (\<lambda>(item, s).
     if item = NULL then Inr (- 1, s)
     else bindE (TimerItem_free s item) (\<lambda>(_, s). Inr (0, s)))"

subsection \<open>What the operations do to a well-formed state\<close>

lemma TimerItem_alloc_cases:
  assumes "core_ok s L"
  obtains (exhausted) "spare s Timer_item = {}" "TimerItem_alloc s w p = Inr (NULL, s)"
  | (block) x A where "TimerItem_alloc s w p = Inr (x, s\<lparr>timer_mem := A\<rparr>)"
      "allocd Timer_item x s (s\<lparr>timer_mem := A\<rparr>)"
      "ar_cells A = (timer_item s)(x := (timer_item s x)\<lparr>ti_pcb := p, ti_awakening_time := w\<rparr>)"
proof -
  have "pool_good (ar_pool (timer_mem s))" using core_pool [OF assms, of Timer_item] by simp
  then show ?thesis
  proof (cases rule: ar_get_cases)
    case exhausted
    then show ?thesis by (intro that(1)) (simp_all add: TimerItem_alloc_def)
  next
    case (block x a)
    then show ?thesis
      by (intro that(2)) (simp_all add: TimerItem_alloc_def, simp_all add: alloc_frame)
  qed
qed

lemma TimerItem_free_live:
  assumes "core_ok s L" and "x \<in> live s Timer_item"
  shows "\<exists>A. TimerItem_free s x = Inr (0, s\<lparr>timer_mem := A\<rparr>) \<and>
    freed Timer_item x s (s\<lparr>timer_mem := A\<rparr>) \<and> ar_cells A = timer_item s"
proof -
  have "pool_good (ar_pool (timer_mem s))" "x \<in> pool_live (ar_pool (timer_mem s))"
    using core_pool [OF assms(1), of Timer_item] assms(2) by simp_all
  from ar_free_live [OF this] obtain a where
      "ar_free (timer_mem s) x = Inr (0, (timer_mem s)\<lparr>ar_pool := a\<rparr>)"
      "pool_good a" "pool_live a = live s Timer_item - {x}" "pool_spare a = insert x (spare s Timer_item)"
    by auto
  then show ?thesis using assms(2)
    by (intro exI [of _ "(timer_mem s)\<lparr>ar_pool := a\<rparr>"]) (simp add: TimerItem_free_def free_frame)
qed

subsection \<open>The timer list\<close>

abbreviation timer_due :: "kernel \<Rightarrow> cint \<Rightarrow> ptr \<Rightarrow> bool" where
  "timer_due s w t \<equiv> ti_awakening_time (timer_item s t) \<le>s w"

definition timers_sorted :: "kernel \<Rightarrow> ptr list \<Rightarrow> bool" where
  "timers_sorted s ts \<longleftrightarrow>
     sorted_wrt (\<lambda>x y. x \<le>s y) (map (\<lambda>t. ti_awakening_time (timer_item s t)) ts)"

lemma timer_position_dseg:
  "dseg (ar_links (timer_mem s)) p ts NULL \<Longrightarrow>
   timer_position s w prv (first_of ts NULL) = Some (last_of prv (takeWhile (timer_due s w) ts))"
proof (induction ts arbitrary: p prv)
  case Nil
  then show ?case by (simp add: timer_position.simps [of s w prv NULL])
next
  case (Cons t ts)
  then have "dseg (ar_links (timer_mem s)) t ts NULL" by simp
  from Cons.IH [OF this, of t] Cons.prems show ?case
    by (simp add: timer_position.simps [of s w prv t] signed.not_less [symmetric])
qed

lemma timer_position_list:
  assumes "core_ok s L"
  shows "timer_position s w NULL (lh_first (timer_list s)) =
    Some (last_of NULL (takeWhile (timer_due s w) (L TimerList)))"
proof -
  have "klist s TimerList (L TimerList)" using core_klist [OF assms] by simp
  then show ?thesis using timer_position_dseg [of s NULL "L TimerList" w NULL]
    by (simp add: klist_def dlist_def)
qed

lemma TimerList_add_cases:
  assumes c: "core_ok s L"
  obtains (exhausted) "spare s Timer_item = {}" "TimerList_add s w p = Inr (NULL, s)"
  | (block) t A m h where
      "TimerList_add s w p = Inr (t, put_list TimerList m h (s\<lparr>timer_mem := A\<rparr>))"
      "allocd Timer_item t s (s\<lparr>timer_mem := A\<rparr>)"
      "ar_cells A = (timer_item s)(t := (timer_item s t)\<lparr>ti_pcb := p, ti_awakening_time := w\<rparr>)"
      "core_ok (put_list TimerList m h (s\<lparr>timer_mem := A\<rparr>))
        (L(TimerList := takeWhile (timer_due s w) (L TimerList) @ t # dropWhile (timer_due s w) (L TimerList)))"
      "\<And>k y. idle s L k y \<Longrightarrow> idle (put_list TimerList m h (s\<lparr>timer_mem := A\<rparr>))
        (L(TimerList := takeWhile (timer_due s w) (L TimerList) @ t # dropWhile (timer_due s w) (L TimerList))) k y"
  using c
proof (cases rule: TimerItem_alloc_cases [of s L w p])
  case exhausted
  then show ?thesis by (intro that(1)) (simp_all add: TimerList_add_def timer_position_list [OF c])
next
  case (block t A)
  let ?s = "s\<lparr>timer_mem := A\<rparr>"
  note a = allocd_core [OF c block(2)]
  have "t \<noteq> NULL" "t \<notin> live s Timer_item" using block(2) by (simp_all add: allocd_def)
  moreover from core_insert [OF a(1), of TimerList "takeWhile (timer_due s w) (L TimerList)"
      "dropWhile (timer_due s w) (L TimerList)" t] a(2)
  obtain m h where mh: "k_insert ?s TimerList (last_of NULL (takeWhile (timer_due s w) (L TimerList))) t =
        Inr (t, put_list TimerList m h ?s)"
      "core_ok (put_list TimerList m h ?s)
        (L(TimerList := takeWhile (timer_due s w) (L TimerList) @ t # dropWhile (timer_due s w) (L TimerList)))"
      "\<And>k y. idle ?s L k y \<Longrightarrow> (k = Timer_item \<Longrightarrow> y \<noteq> t) \<Longrightarrow> idle (put_list TimerList m h ?s)
        (L(TimerList := takeWhile (timer_due s w) (L TimerList) @ t # dropWhile (timer_due s w) (L TimerList))) k y"
    by (auto simp del: put_list_lists)
  ultimately show ?thesis
    using that(2) [OF _ block(2,3) mh(2)] mh(1,3) a(3) block(1) idleD(1)
    by (fastforce simp: TimerList_add_def timer_position_list [OF c])
qed

lemma TimerList_current_list:
  assumes "core_ok s L"
  shows "TimerList_current s w = (case L TimerList of [] \<Rightarrow> NULL | t # _ \<Rightarrow> if timer_due s w t then t else NULL)"
  using core_first [OF assms, of TimerList] core_nonnull [OF assms, of _ TimerList]
  by (auto simp: TimerList_current_def Let_def split: list.splits)

lemma TimerList_removeCurrent_list:
  assumes c: "core_ok s L" and t: "L TimerList = t # ts"
  shows "\<exists>m h A. TimerList_removeCurrent s = Inr (0, (put_list TimerList m h s)\<lparr>timer_mem := A\<rparr>) \<and>
    ar_cells A = timer_item s \<and>
    core_ok ((put_list TimerList m h s)\<lparr>timer_mem := A\<rparr>) (L(TimerList := ts)) \<and>
    (\<forall>k y. idle s L k y \<longrightarrow> k \<noteq> Timer_item \<longrightarrow>
      idle ((put_list TimerList m h s)\<lparr>timer_mem := A\<rparr>) (L(TimerList := ts)) k y)"
proof -
  from core_pop [OF c t] obtain m h where mh:
      "k_detach s TimerList (lh_first (timer_list s)) = Inr (t, put_list TimerList m h s)"
      "core_ok (put_list TimerList m h s) (L(TimerList := ts))"
      "idle (put_list TimerList m h s) (L(TimerList := ts)) Timer_item t"
      "\<And>k y. idle s L k y \<Longrightarrow> idle (put_list TimerList m h s) (L(TimerList := ts)) k y"
    by (auto simp del: put_list_lists)
  from TimerItem_free_live [OF mh(2) idleD(1) [OF mh(3)]] obtain A where A:
      "TimerItem_free (put_list TimerList m h s) t = Inr (0, (put_list TimerList m h s)\<lparr>timer_mem := A\<rparr>)"
      "freed Timer_item t (put_list TimerList m h s) ((put_list TimerList m h s)\<lparr>timer_mem := A\<rparr>)"
      "ar_cells A = timer_item s"
    by auto
  have "t \<noteq> NULL" using core_nonnull [OF c, of t TimerList] t by simp
  with mh A freed_core_plain [OF mh(2) A(2) mh(3)] show ?thesis
    by (intro exI [of _ m] exI [of _ h] exI [of _ A]) (simp add: TimerList_removeCurrent_def)
qed

lemma sorted_split_at:
  assumes "timers_sorted s ts" and "u \<in> set (dropWhile (timer_due s w) ts)"
  shows "\<not> timer_due s w u"
  using assms
proof (induction ts)
  case (Cons t ts)
  show ?case
  proof (cases "timer_due s w t")
    case True
    with Cons show ?thesis by (simp add: timers_sorted_def)
  next
    case False
    with Cons.prems have "u = t \<or> ti_awakening_time (timer_item s t) \<le>s ti_awakening_time (timer_item s u)"
      by (auto simp: timers_sorted_def)
    with False show ?thesis using signed.order_trans by blast
  qed
qed simp

lemma timers_sorted_insert:
  assumes o: "timers_sorted s ts" and t: "t \<notin> set ts"
    and new: "timer_item s' = (timer_item s)(t := r)" "ti_awakening_time r = w"
  shows "timers_sorted s' (takeWhile (timer_due s w) ts @ t # dropWhile (timer_due s w) ts)"
proof -
  let ?b = "takeWhile (timer_due s w) ts" and ?a = "dropWhile (timer_due s w) ts"
  let ?k = "\<lambda>u. ti_awakening_time (timer_item s u)"
  have "sorted_wrt (\<lambda>x y. x \<le>s y) (map ?k ?b @ map ?k ?a)"
    using o by (simp only: timers_sorted_def map_append [symmetric] takeWhile_dropWhile_id)
  moreover have "x \<le>s w" if "x \<in> set (map ?k ?b)" for x
    using that unfolding set_map by (blast dest: set_takeWhileD)
  moreover have "w \<le>s x" if x: "x \<in> set (map ?k ?a)" for x
  proof -
    from x obtain u where "x = ?k u" "u \<in> set ?a" unfolding set_map by blast
    with sorted_split_at [OF o] have "\<not> x \<le>s w" by blast
    then show ?thesis using signed.linear [of x w] by blast
  qed
  moreover have "x \<le>s y" if "x \<in> set (map ?k ?b)" "y \<in> set (map ?k ?a)" for x y
    using calculation(2,3) that signed.order_trans by blast
  ultimately have "sorted_wrt (\<lambda>x y. x \<le>s y) (map ?k ?b @ w # map ?k ?a)"
    unfolding sorted_wrt_append sorted_wrt.simps list.set by blast
  moreover have "map (\<lambda>u. ti_awakening_time (timer_item s' u)) (?b @ t # ?a) = map ?k ?b @ w # map ?k ?a"
    using t new(2) unfolding new(1) by (auto dest: set_takeWhileD set_dropWhileD)
  ultimately show ?thesis unfolding timers_sorted_def by (simp only:)
qed

text \<open>
  C35: \<open>TimerList_add\<close> on an ordered timer list either finds no free timer block and changes
  nothing, or takes a free block for the new timer and puts it behind the timers that are due no
  later and before those that are due later: the list stays ordered, and timers that are due at
  the same time stay in the order in which they were added.
\<close>

theorem TimerList_add_ordered:
  assumes "core_ok s L" and "timers_sorted s (L TimerList)"
  shows "\<exists>t s'. TimerList_add s w p = Inr (t, s') \<and>
    (if t = NULL then spare s Timer_item = {} \<and> s' = s
     else t \<in> spare s Timer_item \<and>
       timer_item s' = (timer_item s)(t := \<lparr>ti_awakening_time = w, ti_pcb = p\<rparr>) \<and>
       (\<exists>before after. L TimerList = before @ after \<and> (\<forall>u\<in>set before. timer_due s w u) \<and>
         (\<forall>u\<in>set after. \<not> timer_due s w u) \<and> core_ok s' (L(TimerList := before @ t # after)) \<and>
         timers_sorted s' (before @ t # after)))"
  using assms(1)
proof (cases rule: TimerList_add_cases [of s L w p])
  case (block t A m h)
  let ?b = "takeWhile (timer_due s w) (L TimerList)" and ?a = "dropWhile (timer_due s w) (L TimerList)"
  let ?s = "put_list TimerList m h (s\<lparr>timer_mem := A\<rparr>)"
  have new: "timer_item ?s = (timer_item s)(t := \<lparr>ti_awakening_time = w, ti_pcb = p\<rparr>)"
    using block(3) by (simp, cases "timer_item s t", simp)
  have t: "t \<noteq> NULL" "t \<in> spare s Timer_item" "t \<notin> live s Timer_item"
    using block(2) by (simp_all add: allocd_def)
  have "t \<notin> set (L TimerList)" using core_mem [OF assms(1), of t TimerList] t(3) by auto
  from timers_sorted_insert [OF assms(2) this new] have "timers_sorted ?s (?b @ t # ?a)" by simp
  moreover have due: "\<forall>u\<in>set ?b. timer_due s w u" by (auto dest: set_takeWhileD)
  moreover have late: "\<forall>u\<in>set ?a. \<not> timer_due s w u" using sorted_split_at [OF assms(2)] by blast
  ultimately have "\<exists>before after. L TimerList = before @ after \<and>
      (\<forall>u\<in>set before. timer_due s w u) \<and> (\<forall>u\<in>set after. \<not> timer_due s w u) \<and>
      core_ok ?s (L(TimerList := before @ t # after)) \<and> timers_sorted ?s (before @ t # after)"
    using block(4) by (intro exI [of _ ?b] exI [of _ ?a] conjI takeWhile_dropWhile_id [symmetric])
  with block(1) t(1,2) new show ?thesis
    by (intro exI [of _ t] exI [of _ ?s]) (simp only: if_False simp_thms)
qed simp

theorem TimerList_add_ordered_witness:
  "\<exists>t s'. TimerList_add ex_state 5 4144 = Inr (t, s') \<and> t \<noteq> NULL \<and>
    core_ok s' (ex_lists(TimerList := [12288, t])) \<and> timers_sorted s' [12288, t]"
proof -
  have l: "ex_lists TimerList = [12288]" and e: "timer_item ex_state 12288 = \<lparr>ti_awakening_time = 5, ti_pcb = 4128\<rparr>"
    by (simp_all add: ex_mem_defs)
  have sp: "spare ex_state Timer_item \<noteq> {}" by (simp add: ex_pool_blocks)
  have "timers_sorted ex_state (ex_lists TimerList)" by (simp add: timers_sorted_def)
  from TimerList_add_ordered [OF ex_core this, of 5 4144] sp obtain t s' b a where
    t: "TimerList_add ex_state 5 4144 = Inr (t, s')" "t \<noteq> NULL" "[12288] = b @ a"
      "\<forall>u\<in>set a. \<not> timer_due ex_state 5 u" "core_ok s' (ex_lists(TimerList := b @ t # a))"
      "timers_sorted s' (b @ t # a)" unfolding l by (auto split: if_splits)
  have "a = []" using t(3,4) e by (cases a; cases b) auto
  with t show ?thesis by auto
qed

end
