(* ===== verification/Scheduler.thy ===== *)
theory Scheduler
  imports Timer
begin

text \<open>
  \<open>disastrOS_schedule.c\<close>, \<open>disastrOS_preempt.c\<close>, \<open>disastrOS_sleep.c\<close> and the timer interrupt of
  \<open>disastrOS.c\<close>: waking the processes whose timer has expired and the round-robin switch to the
  next ready process.
\<close>

text \<open>One turn of the loop of \<open>internal_schedule\<close> for the timer \<open>elapsed_timer\<close>.\<close>

definition wake_one :: "kernel \<Rightarrow> ptr \<Rightarrow> ptr \<Rightarrow> (ptr \<times> kernel) result" where
  "wake_one s elapsed_timer previous_pcb =
     (let pcb_to_wake = ti_pcb (timer_item s elapsed_timer) in
      bindE (k_detach s WaitingList pcb_to_wake) (\<lambda>(_, s).
      let s = upd_pcb pcb_to_wake (\<lambda>c. c\<lparr>pcb_status := Ready, pcb_timer := NULL\<rparr>) s in
      bindE (k_insert s ReadyList previous_pcb pcb_to_wake) (\<lambda>(_, s).
      bindE (TimerList_removeCurrent s) (\<lambda>(_, s).
      Inr (pcb_to_wake, s)))))"

partial_function (option) wake_loop :: "kernel \<Rightarrow> ptr \<Rightarrow> kernel result option" where
  "wake_loop s previous_pcb =
     (let elapsed_timer = TimerList_current s (disastrOS_time s) in
      if elapsed_timer = NULL then Some (Inr s)
      else case wake_one s elapsed_timer previous_pcb of
        Inl e \<Rightarrow> Some (Inl e)
      | Inr (p, s') \<Rightarrow> wake_loop s' p)"

definition switch_process :: "kernel \<Rightarrow> kernel result" where
  "switch_process s =
     (if lh_first (ready_list s) = NULL then Inr s
      else
        bindE (k_detach s ReadyList (lh_first (ready_list s))) (\<lambda>(next_process, s).
        check (running s \<noteq> NULL) NullDeref
        (let s = set_status (running s) Ready s in
         bindE (k_append s ReadyList (running s)) (\<lambda>(_, s).
         Inr ((set_status next_process Running s)\<lparr>running := next_process\<rparr>)))))"

definition internal_schedule :: "kernel \<Rightarrow> kernel result" where
  "internal_schedule s = bindE (run_loopE (wake_loop s NULL)) switch_process"

definition internal_preempt :: "kernel \<Rightarrow> kernel result" where
  "internal_preempt s = internal_schedule s"

text \<open>The interrupt ends by resuming the running process, whose PCB it reads.\<close>

definition timerInterrupt :: "kernel \<Rightarrow> kernel result" where
  "timerInterrupt s =
     bindE (internal_schedule (s\<lparr>disastrOS_time := disastrOS_time s + 1\<rparr>)) (\<lambda>s.
     check (running s \<noteq> NULL) NullDeref (Inr s))"

text \<open>
  The signal handler of the interval timer: \<open>swapcontext(&running->cpu_state, ...)\<close> stores the
  context of the running process, which must exist, and enters the interrupt.
\<close>

definition timerHandler :: "kernel \<Rightarrow> kernel result" where
  "timerHandler s =
     check (running s \<noteq> NULL) NullDeref
     (timerInterrupt (upd_pcb (running s) (\<lambda>c. c\<lparr>pcb_cpu_state := SavedContext\<rparr>) s))"

text \<open>
  \<open>internal_sleep\<close> tests \<open>running->timer\<close> but never sets it, and does not set the status of the
  process it switches to.
\<close>

definition internal_sleep :: "kernel \<Rightarrow> kernel result" where
  "internal_sleep s =
     check (running s \<noteq> NULL) NullDeref
     (if pcb_timer (pcb s (running s)) \<noteq> NULL then Inr (set_retvalue (running s) DSOS_ESLEEP s)
      else
        let cycles_to_sleep = (ucast (run_arg s 0) :: cint);
            wake_time = disastrOS_time s + cycles_to_sleep in
        bindE (TimerList_add s wake_time (running s)) (\<lambda>(new_timer, s).
        if new_timer = NULL then Inr (set_retvalue (running s) DSOS_ESLEEP s)
        else
          let s = set_status (running s) Waiting s in
          bindE (k_append s WaitingList (running s)) (\<lambda>(_, s).
          if lh_first (ready_list s) \<noteq> NULL then
            bindE (k_detach s ReadyList (lh_first (ready_list s))) (\<lambda>(p, s). Inr (s\<lparr>running := p\<rparr>))
          else Inr (s\<lparr>running := NULL\<rparr>))))"

subsection \<open>Waking processes\<close>

text \<open>
  Every timer belongs to a process in the waiting list, no two to the same one, and the timers are
  ordered.
\<close>

abbreviation timer_pcb :: "kernel \<Rightarrow> ptr \<Rightarrow> ptr" where
  "timer_pcb s t \<equiv> ti_pcb (timer_item s t)"

definition timers_ok :: "kernel \<Rightarrow> (list_loc \<Rightarrow> ptr list) \<Rightarrow> bool" where
  "timers_ok s L \<longleftrightarrow>
     timers_sorted s (L TimerList) \<and> distinct (map (timer_pcb s) (L TimerList)) \<and>
     timer_pcb s ` set (L TimerList) \<subseteq> set (L WaitingList)"

text \<open>The processes of \<open>P\<close> are ready and have no timer, everything else outside the lists is as before.\<close>

definition woke :: "ptr set \<Rightarrow> kernel \<Rightarrow> kernel \<Rightarrow> bool" where
  "woke P s' s \<longleftrightarrow> quiet s' s \<and>
     (\<forall>q. pcb_status (pcb s' q) = (if q \<in> P then Ready else pcb_status (pcb s q))) \<and>
     (\<forall>q. pcb_timer (pcb s' q) = (if q \<in> P then NULL else pcb_timer (pcb s q)))"

lemma woke_empty [simp]: "woke {} s s"
  by (simp add: woke_def)

lemma woke_trans: "woke P s' s \<Longrightarrow> woke Q s'' s' \<Longrightarrow> woke (P \<union> Q) s'' s"
  unfolding woke_def using quiet_trans [of s'' s' s] by auto

lemma wake_one_step:
  assumes c: "core_ok s L" and t: "L TimerList = t # ts" and w: "L WaitingList = as @ timer_pcb s t # bs"
    and r: "L ReadyList = pre @ rest"
  shows "\<exists>s'. wake_one s t (last_of NULL pre) = Inr (timer_pcb s t, s') \<and>
    core_ok s' (L(WaitingList := as @ bs, ReadyList := pre @ timer_pcb s t # rest, TimerList := ts)) \<and>
    woke {timer_pcb s t} s' s \<and>
    (\<forall>y. idle s L PCB_item y \<longrightarrow> idle s'
      (L(WaitingList := as @ bs, ReadyList := pre @ timer_pcb s t # rest, TimerList := ts)) PCB_item y)"
proof -
  let ?p = "timer_pcb s t"
  let ?L1 = "L(WaitingList := as @ bs)" and ?L2 = "L(WaitingList := as @ bs, ReadyList := pre @ ?p # rest)"
  from core_detach [OF c w] obtain m h where d:
      "k_detach s WaitingList ?p = Inr (?p, put_list WaitingList m h s)"
      "core_ok (put_list WaitingList m h s) ?L1"
      "idle (put_list WaitingList m h s) ?L1 PCB_item ?p"
      "\<And>k y. idle s L k y \<Longrightarrow> idle (put_list WaitingList m h s) ?L1 k y"
    by (auto simp del: put_list_lists)
  let ?s2 = "upd_pcb ?p (\<lambda>c. c\<lparr>pcb_status := Ready, pcb_timer := NULL\<rparr>) (put_list WaitingList m h s)"
  have c2: "core_ok ?s2 ?L1" "idle ?s2 ?L1 PCB_item ?p" "\<And>k y. idle s L k y \<Longrightarrow> idle ?s2 ?L1 k y"
    using d by simp_all
  from core_insert [OF c2(1), of ReadyList pre rest ?p] c2(2) r obtain m' h' where i:
      "k_insert ?s2 ReadyList (last_of NULL pre) ?p = Inr (?p, put_list ReadyList m' h' ?s2)"
      "core_ok (put_list ReadyList m' h' ?s2) ?L2"
      "\<And>k y. idle ?s2 ?L1 k y \<Longrightarrow> (k = PCB_item \<Longrightarrow> y \<noteq> ?p) \<Longrightarrow> idle (put_list ReadyList m' h' ?s2) ?L2 k y"
    by (auto simp del: put_list_lists)
  let ?s3 = "put_list ReadyList m' h' ?s2"
  have "?L2 TimerList = t # ts" using t by simp
  from TimerList_removeCurrent_list [OF i(2) this] obtain m'' h'' A where e:
      "TimerList_removeCurrent ?s3 = Inr (0, (put_list TimerList m'' h'' ?s3)\<lparr>timer_mem := A\<rparr>)"
      "ar_cells A = timer_item ?s3"
      "core_ok ((put_list TimerList m'' h'' ?s3)\<lparr>timer_mem := A\<rparr>) (?L2(TimerList := ts))"
      "\<And>k y. idle ?s3 ?L2 k y \<Longrightarrow> k \<noteq> Timer_item \<Longrightarrow>
        idle ((put_list TimerList m'' h'' ?s3)\<lparr>timer_mem := A\<rparr>) (?L2(TimerList := ts)) k y"
    by blast
  let ?s4 = "(put_list TimerList m'' h'' ?s3)\<lparr>timer_mem := A\<rparr>"
  have "wake_one s t (last_of NULL pre) = Inr (?p, ?s4)"
    using d(1) i(1) e(1) by (simp add: wake_one_def Let_def)
  moreover have "woke {?p} ?s4 s" using e(2) by (simp add: woke_def quiet_def upd_pcb_def)
  moreover have "idle ?s4 (?L2(TimerList := ts)) PCB_item y" if "idle s L PCB_item y" for y
  proof -
    have "y \<noteq> ?p" using idleD(3) [OF that, of WaitingList] w by auto
    then show ?thesis using that c2(3) i(3) e(4) by blast
  qed
  ultimately show ?thesis using e(3) by blast
qed

abbreviation due_timers :: "kernel \<Rightarrow> (list_loc \<Rightarrow> ptr list) \<Rightarrow> ptr list" where
  "due_timers s L \<equiv> takeWhile (timer_due s (disastrOS_time s)) (L TimerList)"

abbreviation due_procs :: "kernel \<Rightarrow> (list_loc \<Rightarrow> ptr list) \<Rightarrow> ptr list" where
  "due_procs s L \<equiv> map (timer_pcb s) (due_timers s L)"

definition awake :: "kernel \<Rightarrow> (list_loc \<Rightarrow> ptr list) \<Rightarrow> ptr list \<Rightarrow> list_loc \<Rightarrow> ptr list" where
  "awake s L ready = L(
     WaitingList := filter (\<lambda>q. q \<notin> set (due_procs s L)) (L WaitingList),
     ReadyList := ready,
     TimerList := dropWhile (timer_due s (disastrOS_time s)) (L TimerList))"

lemma timers_ok_next:
  assumes o: "timers_ok s L" and t: "L TimerList = t # ts" and w: "L WaitingList = as @ timer_pcb s t # bs"
    and q: "quiet s' s"
  shows "timers_ok s' (L(WaitingList := as @ bs, ReadyList := rs, TimerList := ts))"
proof -
  have e: "timer_item s' = timer_item s" using q by (simp add: quiet_def)
  have "timer_pcb s t \<notin> timer_pcb s ` set ts" "timer_pcb s ` set ts \<subseteq> set (L WaitingList)"
    using o t by (simp_all add: timers_ok_def)
  then have "timer_pcb s u \<noteq> timer_pcb s t" "timer_pcb s u \<in> set (L WaitingList)" if "u \<in> set ts" for u
    using that by (metis image_eqI, blast)
  then have "timer_pcb s ` set ts \<subseteq> set (as @ bs)" unfolding w by auto
  moreover have "timers_sorted s ts" "distinct (map (timer_pcb s) ts)"
    using o t by (simp_all add: timers_ok_def timers_sorted_def)
  ultimately show ?thesis by (simp add: timers_ok_def timers_sorted_def e)
qed

lemma awake_step:
  assumes o: "timers_ok s L" and t: "L TimerList = t # ts" and d: "timer_due s (disastrOS_time s) t"
    and w: "L WaitingList = as @ timer_pcb s t # bs" and a: "distinct (L WaitingList)"
    and q: "quiet s' s"
  shows "awake s' (L(WaitingList := as @ bs, ReadyList := rs, TimerList := ts)) ready = awake s L ready"
    and "timer_pcb s t # due_procs s' (L(WaitingList := as @ bs, ReadyList := rs, TimerList := ts)) = due_procs s L"
proof -
  have e: "timer_item s' = timer_item s" "disastrOS_time s' = disastrOS_time s"
    using q by (simp_all add: quiet_def)
  show "timer_pcb s t # due_procs s' (L(WaitingList := as @ bs, ReadyList := rs, TimerList := ts)) = due_procs s L"
    using t d by (simp add: e)
  have "timer_pcb s t \<notin> set (as @ bs)" using a w by simp
  then have "filter (\<lambda>q. q \<notin> set (due_procs s' (L(WaitingList := as @ bs, ReadyList := rs, TimerList := ts)))) (as @ bs) =
      filter (\<lambda>q. q \<notin> set (due_procs s L)) (L WaitingList)"
    using w t d by (auto simp: e intro!: filter_cong arg_cong2 [of _ _ _ _ "(@)"])
  then show "awake s' (L(WaitingList := as @ bs, ReadyList := rs, TimerList := ts)) ready = awake s L ready"
    using t d by (simp add: awake_def e fun_eq_iff)
qed

lemma wake_loop_due:
  assumes "core_ok s L" and "timers_ok s L" and "L ReadyList = pre @ rest"
  shows "\<exists>s'. wake_loop s (last_of NULL pre) = Some (Inr s') \<and>
    core_ok s' (awake s L (pre @ due_procs s L @ rest)) \<and>
    timers_ok s' (awake s L (pre @ due_procs s L @ rest)) \<and> woke (set (due_procs s L)) s' s \<and>
    (\<forall>y. idle s L PCB_item y \<longrightarrow> idle s' (awake s L (pre @ due_procs s L @ rest)) PCB_item y)"
  using assms
proof (induction "L TimerList" arbitrary: s L pre)
  case Nil
  then have "TimerList_current s (disastrOS_time s) = NULL"
    by (simp add: TimerList_current_list)
  moreover have "awake s L (pre @ rest) = L" using Nil by (simp add: awake_def fun_eq_iff)
  ultimately show ?case using Nil by (simp add: wake_loop.simps [of s])
next
  case (Cons t ts)
  note t = Cons.hyps(2) [symmetric]
  show ?case
  proof (cases "timer_due s (disastrOS_time s) t")
    case False
    then have "TimerList_current s (disastrOS_time s) = NULL"
      using t by (simp add: TimerList_current_list [OF Cons.prems(1)])
    moreover have "awake s L (pre @ rest) = L" using Cons.prems t False by (simp add: awake_def fun_eq_iff)
    ultimately show ?thesis using Cons.prems t False by (simp add: wake_loop.simps [of s])
  next
    case True
    then have cur: "TimerList_current s (disastrOS_time s) = t"
      using t by (simp add: TimerList_current_list [OF Cons.prems(1)])
    have nn: "t \<noteq> NULL" using core_nonnull [OF Cons.prems(1), of t TimerList] t by simp
    have "timer_pcb s t \<in> set (L WaitingList)" using Cons.prems(2) t by (simp add: timers_ok_def)
    then obtain as bs where w: "L WaitingList = as @ timer_pcb s t # bs" by (auto dest: split_list)
    let ?L = "L(WaitingList := as @ bs, ReadyList := pre @ timer_pcb s t # rest, TimerList := ts)"
    from wake_one_step [OF Cons.prems(1) t w Cons.prems(3)] obtain s1 where s1:
        "wake_one s t (last_of NULL pre) = Inr (timer_pcb s t, s1)" "core_ok s1 ?L"
        "woke {timer_pcb s t} s1 s" "\<And>y. idle s L PCB_item y \<Longrightarrow> idle s1 ?L PCB_item y"
      by blast
    have q: "quiet s1 s" using s1(3) by (simp add: woke_def)
    note st = awake_step [OF Cons.prems(2) t True w core_distinct [OF Cons.prems(1)] q,
        of "pre @ timer_pcb s t # rest"]
    have "ts = ?L TimerList" "?L ReadyList = (pre @ [timer_pcb s t]) @ rest" by simp_all
    note Cons.hyps(1) [OF this(1) s1(2) timers_ok_next [OF Cons.prems(2) t w q] this(2)]
    then obtain s2 where s2: "wake_loop s1 (timer_pcb s t) = Some (Inr s2)"
        "core_ok s2 (awake s L (pre @ due_procs s L @ rest))"
        "timers_ok s2 (awake s L (pre @ due_procs s L @ rest))"
        "woke (set (due_procs s1 ?L)) s2 s1"
        "\<forall>y. idle s1 ?L PCB_item y \<longrightarrow> idle s2 (awake s L (pre @ due_procs s L @ rest)) PCB_item y"
      unfolding st(1) st(2) [symmetric] last_of_append last_of.simps append_assoc append_Cons append_Nil
      by blast
    have "set (due_procs s L) = {timer_pcb s t} \<union> set (due_procs s1 ?L)"
      unfolding st(2) [symmetric] by simp
    then have "woke (set (due_procs s L)) s2 s" using woke_trans [OF s1(3) s2(4)] by (simp only:)
    moreover have "wake_loop s (last_of NULL pre) = Some (Inr s2)"
      using s1(1) s2(1) nn by (simp add: wake_loop.simps [of s "last_of NULL pre"] cur)
    ultimately show ?thesis using s2(2,3,5) s1(4) by blast
  qed
qed

subsection \<open>The switch to the next process\<close>

lemma timers_ok_cong:
  assumes "timers_ok s L" and "timer_item s' = timer_item s"
    and "L' TimerList = L TimerList" and "L' WaitingList = L WaitingList"
  shows "timers_ok s' L'"
  using assms by (simp add: timers_ok_def timers_sorted_def)

lemma switch_process_none:
  "core_ok s L \<Longrightarrow> L ReadyList = [] \<Longrightarrow> switch_process s = Inr s"
  using core_first_null [of s L ReadyList] by (simp add: switch_process_def)

lemma switch_process_next:
  assumes c: "core_ok s L" and r: "L ReadyList = p # ps" and i: "idle s L PCB_item (running s)"
  shows "\<exists>s'. switch_process s = Inr s' \<and> core_ok s' (L(ReadyList := ps @ [running s])) \<and>
    running s' = p \<and> idle s' (L(ReadyList := ps @ [running s])) PCB_item p \<and>
    quiet (s'\<lparr>running := running s\<rparr>) s \<and>
    (\<forall>q. pcb_timer (pcb s' q) = pcb_timer (pcb s q)) \<and>
    (\<forall>q. pcb_status (pcb s' q) =
      (if q = p then Running else if q = running s then Ready else pcb_status (pcb s q)))"
proof -
  let ?L1 = "L(ReadyList := ps)" and ?L2 = "L(ReadyList := ps @ [running s])"
  obtain m h where d: "k_detach s ReadyList (k_first s ReadyList) = Inr (p, put_list ReadyList m h s)"
      "core_ok (put_list ReadyList m h s) ?L1" "idle (put_list ReadyList m h s) ?L1 PCB_item p"
      "\<And>k y. idle s L k y \<Longrightarrow> idle (put_list ReadyList m h s) ?L1 k y"
    by (rule core_popE [OF c r]) (simp, simp, blast)
  let ?s1 = "put_list ReadyList m h s" and ?s2 = "set_status (running s) Ready (put_list ReadyList m h s)"
  have c2: "core_ok ?s2 ?L1" "idle ?s2 ?L1 PCB_item (running s)" "idle ?s2 ?L1 PCB_item p"
    using d(2-4) i by simp_all
  obtain m' h' where a: "k_append ?s2 ReadyList (running s) = Inr (running s, put_list ReadyList m' h' ?s2)"
      "core_ok (put_list ReadyList m' h' ?s2) ?L2"
      "\<And>k y. idle ?s2 ?L1 k y \<Longrightarrow> (k = PCB_item \<Longrightarrow> y \<noteq> running s) \<Longrightarrow>
        idle (put_list ReadyList m' h' ?s2) ?L2 k y"
    by (rule core_appendE [OF c2(1,2), of ReadyList ?L2]) (simp, simp, simp, blast)
  let ?s3 = "(set_status p Running (put_list ReadyList m' h' ?s2))\<lparr>running := p\<rparr>"
  have p: "p \<noteq> running s" using idleD(3) [OF i, of ReadyList] r by auto
  have nn: "p \<noteq> NULL" "running s \<noteq> NULL"
    using live_nonnull [OF c, of _ PCB_item] idleD(1) [OF i] core_nonnull [OF c, of p ReadyList] r by auto
  have f: "lh_first (ready_list s) \<noteq> NULL" using core_first [OF c, of ReadyList] r nn by simp
  have "switch_process s = Inr ?s3"
    using f d(1) a(1) nn by (simp add: switch_process_def Let_def set_status_def upd_pcb_def)
  moreover have "core_ok ?s3 (L(ReadyList := ps @ [running s]))" using a(2) by simp
  moreover have "idle ?s3 (L(ReadyList := ps @ [running s])) PCB_item p" using a(3) c2(3) p by simp
  moreover have "quiet (?s3\<lparr>running := running s\<rparr>) s"
    by (simp add: quiet_def set_status_def upd_pcb_def)
  moreover have "pcb_timer (pcb ?s3 q) = pcb_timer (pcb s q)" for q
    by (simp add: set_status_def upd_pcb_def)
  moreover have "pcb_status (pcb ?s3 q) =
      (if q = p then Running else if q = running s then Ready else pcb_status (pcb s q))" for q
    by (simp add: set_status_def upd_pcb_def)
  ultimately show ?thesis by (intro exI [of _ ?s3]) simp
qed

text \<open>
  The effect of \<open>internal_schedule\<close>: the queue of ready processes, with the woken ones in front,
  moves up by one, and the process that was running goes to its end.
\<close>

definition next_order :: "kernel \<Rightarrow> (list_loc \<Rightarrow> ptr list) \<Rightarrow> ptr list" where
  "next_order s L = due_procs s L @ L ReadyList @ [running s]"

definition scheduled :: "kernel \<Rightarrow> (list_loc \<Rightarrow> ptr list) \<Rightarrow> list_loc \<Rightarrow> ptr list" where
  "scheduled s L = awake s L (tl (next_order s L))"

lemma internal_schedule_total:
  assumes c: "core_ok s L" and o: "timers_ok s L" and i: "idle s L PCB_item (running s)"
  shows "\<exists>s'. internal_schedule s = Inr s' \<and> core_ok s' (scheduled s L) \<and> timers_ok s' (scheduled s L) \<and>
    running s' = hd (next_order s L) \<and> idle s' (scheduled s L) PCB_item (running s') \<and>
    quiet (s'\<lparr>running := running s\<rparr>) s \<and>
    (\<forall>q. pcb_status (pcb s' q) =
      (if q \<in> set (tl (next_order s L)) \<and> (q = running s \<or> q \<in> set (due_procs s L)) then Ready
       else if q = running s' \<and> running s' \<noteq> running s then Running
       else pcb_status (pcb s q)))"
proof -
  let ?D = "due_procs s L"
  from wake_loop_due [OF c o, of "[]" "L ReadyList"] obtain s1 where w:
      "wake_loop s NULL = Some (Inr s1)" "core_ok s1 (awake s L (?D @ L ReadyList))"
      "timers_ok s1 (awake s L (?D @ L ReadyList))" "woke (set ?D) s1 s"
      "idle s1 (awake s L (?D @ L ReadyList)) PCB_item (running s)"
    using i by auto
  have run: "running s1 = running s" using w(4) by (simp add: woke_def quiet_def)
  have D: "?D @ L ReadyList = [] \<or> (\<exists>p ps. ?D @ L ReadyList = p # ps)" by (cases "?D @ L ReadyList") auto
  then show ?thesis
  proof (elim disjE exE)
    assume e: "?D @ L ReadyList = []"
    then have "switch_process s1 = Inr s1"
      using switch_process_none [OF w(2)] by (simp add: awake_def)
    moreover have "scheduled s L = awake s L (?D @ L ReadyList)" "next_order s L = [running s]"
      using e by (simp_all add: scheduled_def next_order_def)
    moreover have "?D = []" using e by simp
    moreover have "quiet (s1\<lparr>running := running s\<rparr>) s" using w(4) run by (simp add: woke_def quiet_def)
    ultimately show ?thesis using w run by (simp add: internal_schedule_def woke_def)
  next
    fix p ps
    assume e: "?D @ L ReadyList = p # ps"
    then have r: "awake s L (?D @ L ReadyList) ReadyList = p # ps" by (simp add: awake_def)
    have n: "next_order s L = p # ps @ [running s]"
      unfolding next_order_def append_assoc [symmetric] e by simp
    have up: "(awake s L (?D @ L ReadyList))(ReadyList := ps @ [running s]) = scheduled s L"
      "next_order s L = p # ps @ [running s]"
      by (simp_all add: awake_def scheduled_def n fun_eq_iff)
    from switch_process_next [OF w(2) r] w(5) obtain s2 where s2:
        "switch_process s1 = Inr s2" "core_ok s2 (scheduled s L)" "running s2 = p"
        "idle s2 (scheduled s L) PCB_item p" "quiet (s2\<lparr>running := running s\<rparr>) s1"
        "\<And>q. pcb_status (pcb s2 q) =
          (if q = p then Running else if q = running s then Ready else pcb_status (pcb s1 q))"
      unfolding run up by blast
    have "p \<noteq> running s" using idleD(3) [OF w(5), of ReadyList] r by auto
    have dist: "distinct (p # ps)" using core_distinct [OF w(2), of ReadyList] r by simp
    have "set ?D \<subseteq> set (p # ps)" unfolding e [symmetric] by simp
    then have D: "q \<in> set ?D \<Longrightarrow> q = p \<or> q \<in> set ps" for q by auto
    have "pcb_status (pcb s2 q) =
      (if q \<in> set (tl (next_order s L)) \<and> (q = running s \<or> q \<in> set ?D) then Ready
       else if q = running s2 \<and> running s2 \<noteq> running s then Running else pcb_status (pcb s q))" for q
      using s2(3,6) w(4) \<open>p \<noteq> running s\<close> dist D unfolding up(2) by (auto simp: woke_def)
    moreover have "quiet (s2\<lparr>running := running s\<rparr>) s"
      using s2(5) w(4) quiet_trans by (auto simp: woke_def)
    moreover have "timers_ok s2 (scheduled s L)"
      using s2(5) by (intro timers_ok_cong [OF w(3)]) (simp_all add: quiet_def up(1) [symmetric])
    ultimately show ?thesis using w(1) s2(1-4) by (simp add: internal_schedule_def up(2))
  qed
qed

lemma due_timers_filter:
  assumes "timers_ok s L"
  shows "due_timers s L = filter (timer_due s (disastrOS_time s)) (L TimerList)"
proof -
  let ?P = "timer_due s (disastrOS_time s)" and ?ts = "L TimerList"
  have "filter ?P (takeWhile ?P ?ts) = takeWhile ?P ?ts"
    by (intro filter_True ballI) (blast dest: set_takeWhileD)
  moreover have "filter ?P (dropWhile ?P ?ts) = []"
    using assms sorted_split_at [of s ?ts _ "disastrOS_time s"] unfolding timers_ok_def filter_empty_conv by blast
  moreover have "filter ?P ?ts = filter ?P (takeWhile ?P ?ts) @ filter ?P (dropWhile ?P ?ts)"
    unfolding filter_append [symmetric] takeWhile_dropWhile_id ..
  ultimately show ?thesis by (simp only: append_Nil2)
qed

text \<open>
  C4: \<open>internal_schedule\<close> always returns. It wakes the sleeping processes whose timer is due, and
  only those, puts them in the order of their timers before the processes that were ready, queues
  the process that was running behind all of them and runs the first of the resulting order, which
  is the running process itself when there is no other. The invariants of the lists and of the
  timers hold again, and nothing else outside the lists, the statuses and the timer fields changes.
\<close>

theorem internal_schedule_order:
  assumes "core_ok s L" and "timers_ok s L" and "idle s L PCB_item (running s)"
  shows "\<exists>s'. internal_schedule s = Inr s' \<and> core_ok s' (scheduled s L) \<and> timers_ok s' (scheduled s L) \<and>
    due_timers s L = filter (timer_due s (disastrOS_time s)) (L TimerList) \<and>
    running s' = hd (next_order s L) \<and> scheduled s L ReadyList = tl (next_order s L) \<and>
    idle s' (scheduled s L) PCB_item (running s') \<and> quiet (s'\<lparr>running := running s\<rparr>) s \<and>
    (\<forall>q. pcb_status (pcb s' q) =
      (if q \<in> set (tl (next_order s L)) \<and> (q = running s \<or> q \<in> set (due_procs s L)) then Ready
       else if q = running s' \<and> running s' \<noteq> running s then Running
       else pcb_status (pcb s q)))"
  using internal_schedule_total [OF assms] due_timers_filter [OF assms(2)]
  by (simp add: scheduled_def awake_def)

lemma ex_timers: "timers_ok ex_state ex_lists"
  by (simp add: timers_ok_def timers_sorted_def ex_mem_defs)

lemma ex_timers_at: "timers_ok (ex_state\<lparr>disastrOS_time := n\<rparr>) ex_lists"
  by (rule timers_ok_cong [OF ex_timers]) simp_all

theorem internal_schedule_order_witness:
  "\<exists>s'. internal_schedule (ex_state\<lparr>disastrOS_time := 5\<rparr>) = Inr s' \<and> running s' = 4128 \<and>
    core_ok s' (scheduled (ex_state\<lparr>disastrOS_time := 5\<rparr>) ex_lists) \<and>
    scheduled (ex_state\<lparr>disastrOS_time := 5\<rparr>) ex_lists ReadyList = [4112, 4096]"
proof -
  have n: "next_order (ex_state\<lparr>disastrOS_time := 5\<rparr>) ex_lists = [4128, 4112, 4096]"
    by (simp add: next_order_def ex_mem_defs)
  have "core_ok (ex_state\<lparr>disastrOS_time := 5\<rparr>) ex_lists" using ex_core by simp
  moreover have "idle (ex_state\<lparr>disastrOS_time := 5\<rparr>) ex_lists PCB_item (running (ex_state\<lparr>disastrOS_time := 5\<rparr>))"
    using ex_running by simp
  ultimately show ?thesis
    using internal_schedule_order [OF _ ex_timers_at, of 5] unfolding n by force
qed

fun preempts :: "nat \<Rightarrow> kernel \<Rightarrow> kernel result" where
  "preempts 0 s = Inr s"
| "preempts (Suc k) s = bindE (internal_preempt s) (preempts k)"

text \<open>
  C13: round robin. While no timer is due, preemption serves the processes in turn: after \<open>k\<close>
  preemptions the running process followed by the ready queue is the original order rotated \<open>k\<close>
  times, so each of \<open>n\<close> processes runs once in every \<open>n\<close> preemptions and the last of them restores
  the order.
\<close>

theorem preempt_round_robin:
  assumes "core_ok s L" and "timers_ok s L" and "idle s L PCB_item (running s)" and "due_timers s L = []"
  shows "\<exists>s' ps. preempts k s = Inr s' \<and> running s' # ps = rotate k (running s # L ReadyList) \<and>
    core_ok s' (L(ReadyList := ps)) \<and> timers_ok s' (L(ReadyList := ps)) \<and>
    quiet (s'\<lparr>running := running s\<rparr>) s"
  using assms
proof (induction k arbitrary: s L)
  case 0
  then show ?case by (intro exI [of _ s] exI [of _ "L ReadyList"]) simp
next
  case (Suc k)
  let ?o = "L ReadyList @ [running s]" and ?L = "L(ReadyList := tl (L ReadyList @ [running s]))"
  have o: "next_order s L = ?o" using Suc.prems(4) by (simp add: next_order_def)
  have "dropWhile (timer_due s (disastrOS_time s)) (L TimerList) = L TimerList"
    using Suc.prems(4) takeWhile_dropWhile_id [of "timer_due s (disastrOS_time s)" "L TimerList"] by simp
  then have "scheduled s L = ?L"
    unfolding scheduled_def awake_def o Suc.prems(4) by (simp add: fun_eq_iff)
  with internal_schedule_total [OF Suc.prems(1-3)] o obtain s1 where s1: "internal_schedule s = Inr s1"
      "core_ok s1 ?L" "timers_ok s1 ?L" "running s1 = hd ?o" "idle s1 ?L PCB_item (running s1)"
      "quiet (s1\<lparr>running := running s\<rparr>) s"
    by auto
  have "due_timers s1 ?L = []" using Suc.prems(4) s1(6) by (simp add: quiet_def takeWhile_eq_Nil_iff)
  from Suc.IH [OF s1(2,3,5) this] obtain s2 ps where s2: "preempts k s1 = Inr s2"
      "running s2 # ps = rotate k (running s1 # ?L ReadyList)" "core_ok s2 (?L(ReadyList := ps))"
      "timers_ok s2 (?L(ReadyList := ps))" "quiet (s2\<lparr>running := running s1\<rparr>) s1"
    by blast
  have "running s1 # ?L ReadyList = rotate1 (running s # L ReadyList)"
    by (cases "L ReadyList") (simp_all add: s1(4))
  then have "running s2 # ps = rotate (Suc k) (running s # L ReadyList)"
    using s2(2) by (simp add: rotate1_rotate_swap rotate_Suc)
  moreover have "quiet (s2\<lparr>running := running s\<rparr>) s" using s2(5) s1(6) by (simp add: quiet_def)
  moreover have "preempts (Suc k) s = Inr s2" using s1(1) s2(1) by (simp add: internal_preempt_def)
  moreover have "core_ok s2 (L(ReadyList := ps))" "timers_ok s2 (L(ReadyList := ps))"
    using s2(3,4) by simp_all
  ultimately show ?case by blast
qed

theorem preempt_round_robin_witness:
  "\<exists>s' ps. preempts 3 ex_state = Inr s' \<and> running s' = 4112 \<and> core_ok s' (ex_lists(ReadyList := [4096]))"
proof -
  have "due_timers ex_state ex_lists = []" by (simp add: ex_mem_defs)
  from preempt_round_robin [OF ex_core ex_timers _ this, of 3] ex_running
  obtain s' ps where "preempts 3 ex_state = Inr s'" "running s' # ps = rotate 3 [4096, 4112]"
      "core_ok s' (ex_lists(ReadyList := ps))" by auto
  moreover have "rotate 3 [4096, 4112] = [4112, 4096 :: ptr]" by (simp add: numeral_3_eq_3)
  ultimately show ?thesis by auto
qed

subsection \<open>The timer interrupt\<close>

lemma image_mem_iff: "x \<in> f ` A \<longleftrightarrow> (\<exists>u \<in> A. f u = x)"
  by blast

lemma late_timers:
  assumes "timers_sorted s ts" and "u \<in> set ts"
  shows "u \<in> set (dropWhile (timer_due s w) ts) \<longleftrightarrow> \<not> timer_due s w u"
proof -
  have "u \<in> set (takeWhile (timer_due s w) ts) \<or> u \<in> set (dropWhile (timer_due s w) ts)"
    using assms(2) unfolding Un_iff [symmetric] set_append [symmetric] takeWhile_dropWhile_id .
  then show ?thesis
    using sorted_split_at [OF assms(1), of u w] by (auto dest: set_takeWhileD)
qed

text \<open>
  C14: the timer interrupt always returns, with the clock advanced by one. A process whose timer is
  due at the new time leaves the waiting list and is ready or running, and its timer is gone; a
  process whose timer is due later still waits, with its timer.
\<close>

theorem timerInterrupt_wakes:
  assumes "core_ok s L" and "timers_ok s L" and "idle s L PCB_item (running s)" and "t \<in> set (L TimerList)"
  shows "\<exists>s' L'. timerInterrupt s = Inr s' \<and> core_ok s' L' \<and> timers_ok s' L' \<and>
    idle s' L' PCB_item (running s') \<and> disastrOS_time s' = disastrOS_time s + 1 \<and>
    (if timer_due s (disastrOS_time s + 1) t
     then timer_pcb s t \<in> set (running s' # L' ReadyList) \<and> timer_pcb s t \<notin> set (L' WaitingList) \<and>
       t \<notin> set (L' TimerList)
     else timer_pcb s t \<in> set (L' WaitingList) \<and> t \<in> set (L' TimerList))"
proof -
  let ?s = "s\<lparr>disastrOS_time := disastrOS_time s + 1\<rparr>" and ?now = "disastrOS_time s + 1"
  have c: "core_ok ?s L" "idle ?s L PCB_item (running ?s)" using assms(1,3) by simp_all
  have o: "timers_ok ?s L" by (rule timers_ok_cong [OF assms(2)]) simp_all
  from internal_schedule_total [OF c(1) o c(2)] obtain s1 where s1: "internal_schedule ?s = Inr s1"
      "core_ok s1 (scheduled ?s L)" "timers_ok s1 (scheduled ?s L)" "running s1 = hd (next_order ?s L)"
      "idle s1 (scheduled ?s L) PCB_item (running s1)" "quiet (s1\<lparr>running := running s\<rparr>) ?s"
    by auto
  have "running s1 \<noteq> NULL" using live_nonnull [OF s1(2) idleD(1) [OF s1(5)]] .
  then have ret: "timerInterrupt s = Inr s1" using s1(1) by (simp add: timerInterrupt_def)
  have time: "disastrOS_time s1 = ?now" using s1(6) by (simp add: quiet_def)
  have "next_order ?s L \<noteq> []" by (simp add: next_order_def)
  then have ord: "set (running s1 # scheduled ?s L ReadyList) = set (next_order ?s L)"
    unfolding s1(4) by (simp add: scheduled_def awake_def list.set_sel flip: list.set(2))
  have due: "u \<in> set (due_timers ?s L) \<longleftrightarrow> u \<in> set (L TimerList) \<and> timer_due s ?now u" for u
    using due_timers_filter [OF o] by simp
  have "timers_sorted s (L TimerList)" using assms(2) by (simp add: timers_ok_def)
  then have late: "t \<in> set (scheduled ?s L TimerList) \<longleftrightarrow> \<not> timer_due s ?now t"
    using late_timers [OF _ assms(4)] by (simp add: scheduled_def awake_def)
  have inj: "inj_on (timer_pcb s) (set (L TimerList))" and w: "timer_pcb s t \<in> set (L WaitingList)"
    using assms(2,4) by (auto simp: timers_ok_def distinct_map)
  have woken: "timer_pcb s t \<in> set (due_procs ?s L) \<longleftrightarrow> timer_due s ?now t"
  proof -
    have "timer_pcb s t \<in> set (due_procs ?s L) \<longleftrightarrow> (\<exists>u \<in> set (due_timers ?s L). timer_pcb s u = timer_pcb s t)"
      by (simp add: image_mem_iff)
    also have "\<dots> \<longleftrightarrow> t \<in> set (due_timers ?s L)"
      using inj assms(4) due by (auto dest: inj_onD)
    finally show ?thesis using due assms(4) by simp
  qed
  then have "timer_pcb s t \<in> set (scheduled ?s L WaitingList) \<longleftrightarrow> \<not> timer_due s ?now t"
    using w by (simp add: scheduled_def awake_def)
  moreover have "timer_due s ?now t \<Longrightarrow> timer_pcb s t \<in> set (running s1 # scheduled ?s L ReadyList)"
    unfolding ord next_order_def set_append using woken by blast
  ultimately show ?thesis
    using ret s1(2,3,5) time late by (intro exI [of _ s1] exI [of _ "scheduled ?s L"]) (simp only: if_split, blast)
qed

theorem timerInterrupt_wakes_witness:
  "\<exists>s' L'. timerInterrupt ex_state = Inr s' \<and> core_ok s' L' \<and> disastrOS_time s' = 5 \<and>
    4128 \<in> set (running s' # L' ReadyList) \<and> 12288 \<notin> set (L' TimerList)"
proof -
  have "12288 \<in> set (ex_lists TimerList)" and d: "timer_due ex_state (disastrOS_time ex_state + 1) 12288"
    and p: "timer_pcb ex_state 12288 = 4128"
    by (simp_all add: ex_mem_defs)
  from timerInterrupt_wakes [OF ex_core ex_timers _ this(1)] ex_running
  show ?thesis unfolding p using d by fastforce
qed

subsection \<open>Sleeping\<close>

definition asleep :: "kernel \<Rightarrow> (list_loc \<Rightarrow> ptr list) \<Rightarrow> ptr \<Rightarrow> cint \<Rightarrow> list_loc \<Rightarrow> ptr list" where
  "asleep s L t w = L(
     TimerList := takeWhile (timer_due s w) (L TimerList) @ t # dropWhile (timer_due s w) (L TimerList),
     WaitingList := L WaitingList @ [running s],
     ReadyList := tl (L ReadyList))"

lemma timers_ok_asleep:
  assumes o: "timers_ok s L" and i: "running s \<notin> set (L WaitingList)" and t: "t \<notin> set (L TimerList)"
    and new: "timer_item s' = (timer_item s)(t := \<lparr>ti_awakening_time = w, ti_pcb = running s\<rparr>)"
  shows "timers_ok s' (asleep s L t w)"
proof -
  let ?b = "takeWhile (timer_due s w) (L TimerList)" and ?a = "dropWhile (timer_due s w) (L TimerList)"
  have ts: "?b @ ?a = L TimerList" by (rule takeWhile_dropWhile_id)
  have "timers_sorted s (L TimerList)" using o by (simp add: timers_ok_def)
  from timers_sorted_insert [OF this t new] have "timers_sorted s' (?b @ t # ?a)" by simp
  moreover have old: "map (timer_pcb s') ?b = map (timer_pcb s) ?b" "map (timer_pcb s') ?a = map (timer_pcb s) ?a"
    using t by (auto simp: new dest: set_takeWhileD set_dropWhileD)
  have "distinct (map (timer_pcb s) ?b @ map (timer_pcb s) ?a)"
    and sub: "set (map (timer_pcb s) ?b @ map (timer_pcb s) ?a) \<subseteq> set (L WaitingList)"
    unfolding map_append [symmetric] ts using o by (simp_all add: timers_ok_def)
  then have "distinct (map (timer_pcb s) ?b @ running s # map (timer_pcb s) ?a)"
    using i by auto
  then have "distinct (map (timer_pcb s') (?b @ t # ?a))"
    unfolding map_append list.map old by (simp add: new)
  moreover have "timer_pcb s' ` set (?b @ t # ?a) \<subseteq> set (L WaitingList @ [running s])"
    using sub unfolding set_map [symmetric] map_append list.map old by (auto simp: new)
  ultimately show ?thesis unfolding timers_ok_def asleep_def by simp
qed

lemma next_ready:
  assumes c: "core_ok s L" and L': "L' = L(ReadyList := tl (L ReadyList))"
  shows "\<exists>s'. (if k_first s ReadyList \<noteq> NULL
      then bindE (k_detach s ReadyList (k_first s ReadyList)) (\<lambda>(p, s). Inr (s\<lparr>running := p\<rparr>))
      else Inr (s\<lparr>running := NULL\<rparr>)) = Inr s' \<and>
    core_ok s' L' \<and> running s' = first_of (L ReadyList) NULL \<and>
    (L ReadyList \<noteq> [] \<longrightarrow> idle s' L' PCB_item (running s')) \<and>
    quiet (s'\<lparr>running := running s\<rparr>) s \<and> (\<forall>q. pcb_status (pcb s' q) = pcb_status (pcb s q)) \<and>
    (\<forall>k. pool_of s' k = pool_of s k)"
proof (cases "L ReadyList")
  case Nil
  then have "L' = L" unfolding L' by (simp add: fun_eq_iff)
  with c Nil core_first_null [OF c, of ReadyList] show ?thesis by (simp add: quiet_def)
next
  case (Cons p ps)
  obtain m h where d: "k_detach s ReadyList (k_first s ReadyList) = Inr (p, put_list ReadyList m h s)"
      "core_ok (put_list ReadyList m h s) L'" "idle (put_list ReadyList m h s) L' PCB_item p"
    by (rule core_popE [OF c, of ReadyList p ps PCB_item L']) (simp_all add: Cons L')
  have "k_first s ReadyList \<noteq> NULL" using core_first_null [OF c, of ReadyList] Cons by simp
  with d Cons show ?thesis by (simp add: quiet_def)
qed

lemma internal_sleep_total:
  assumes "core_ok s L" and "timers_ok s L" and "idle s L PCB_item (running s)"
    and "pcb_timer (pcb s (running s)) = NULL"
  shows "\<exists>s'. internal_sleep s = Inr s' \<and>
    (if spare s Timer_item = {} then s' = set_retvalue (running s) DSOS_ESLEEP s
     else \<exists>t w. w = disastrOS_time s + ucast (run_arg s 0) \<and> t \<in> spare s Timer_item \<and>
       core_ok s' (asleep s L t w) \<and> timers_ok s' (asleep s L t w) \<and>
       timer_item s' = (timer_item s)(t := \<lparr>ti_awakening_time = w, ti_pcb = running s\<rparr>) \<and>
       running s' = first_of (L ReadyList) NULL \<and>
       (L ReadyList \<noteq> [] \<longrightarrow> idle s' (asleep s L t w) PCB_item (running s')) \<and>
       (\<forall>q. pcb_status (pcb s' q) = (if q = running s then Waiting else pcb_status (pcb s q))) \<and>
       (\<forall>k. k \<noteq> Timer_item \<longrightarrow> pool_of s' k = pool_of s k) \<and> last_pid s' = last_pid s \<and>
       shutdown_now s' = shutdown_now s \<and> syscall_vector s' = syscall_vector s)"
proof -
  let ?w = "disastrOS_time s + (ucast (run_arg s 0) :: cint)"
  have nn: "running s \<noteq> NULL" using live_nonnull [OF assms(1)] idleD(1) [OF assms(3)] by blast
  from assms(1) show ?thesis
  proof (cases rule: TimerList_add_cases [of s L ?w "running s"])
    case exhausted
    then show ?thesis using assms(4) nn by (simp add: internal_sleep_def Let_def)
  next
    case (block t A m h)
    let ?T = "takeWhile (timer_due s ?w) (L TimerList) @ t # dropWhile (timer_due s ?w) (L TimerList)"
    let ?s1 = "set_status (running s) Waiting (put_list TimerList m h (s\<lparr>timer_mem := A\<rparr>))"
    let ?L1 = "L(TimerList := ?T)" and ?L2 = "L(TimerList := ?T, WaitingList := L WaitingList @ [running s])"
    have t: "t \<noteq> NULL" "t \<in> spare s Timer_item" "t \<notin> live s Timer_item"
      using block(2) by (simp_all add: allocd_def)
    have t': "t \<notin> set (L TimerList)" using core_mem [OF assms(1), of t TimerList] t(3) by auto
    have new: "timer_item ?s1 = (timer_item s)(t := \<lparr>ti_awakening_time = ?w, ti_pcb = running s\<rparr>)"
      using block(3) by (simp add: set_status_def upd_pcb_def, cases "timer_item s t", simp)
    have c1: "core_ok ?s1 ?L1" "idle ?s1 ?L1 PCB_item (running s)"
      using block(4) block(5) [OF assms(3)] by simp_all
    obtain m' h' where a: "k_append ?s1 WaitingList (running s) = Inr (running s, put_list WaitingList m' h' ?s1)"
        "core_ok (put_list WaitingList m' h' ?s1) ?L2"
      by (rule core_appendE [OF c1, of WaitingList ?L2]) (simp, simp, simp, blast)
    let ?s2 = "put_list WaitingList m' h' ?s1"
    have r1: "running ?s1 = running s" by (simp add: set_status_def upd_pcb_def)
    have go: "internal_sleep s = (if k_first ?s2 ReadyList \<noteq> NULL
        then bindE (k_detach ?s2 ReadyList (k_first ?s2 ReadyList)) (\<lambda>(p, s). Inr (s\<lparr>running := p\<rparr>))
        else Inr (?s2\<lparr>running := NULL\<rparr>))"
      using nn assms(4) t(1) block(1) a(1) r1
      by (simp add: internal_sleep_def Let_def del: put_list_lists)
    have "asleep s L t ?w = ?L2(ReadyList := tl (?L2 ReadyList))" by (simp add: asleep_def)
    from next_ready [OF a(2) this] obtain s3 where s3: "internal_sleep s = Inr s3"
        "core_ok s3 (asleep s L t ?w)" "running s3 = first_of (L ReadyList) NULL"
        "L ReadyList \<noteq> [] \<longrightarrow> idle s3 (asleep s L t ?w) PCB_item (running s3)"
        "quiet (s3\<lparr>running := running s\<rparr>) ?s2" "\<And>q. pcb_status (pcb s3 q) = pcb_status (pcb ?s2 q)"
        "\<And>k. pool_of s3 k = pool_of ?s2 k"
      unfolding go [symmetric] by (auto simp: r1)
    have new3: "timer_item s3 = (timer_item s)(t := \<lparr>ti_awakening_time = ?w, ti_pcb = running s\<rparr>)"
      using s3(5) new by (simp add: quiet_def)
    have i': "running s \<notin> set (L WaitingList)" using idleD(3) [OF assms(3), of WaitingList] by simp
    have "timers_ok s3 (asleep s L t ?w)" by (rule timers_ok_asleep [OF assms(2) i' t' new3])
    moreover have "pcb_status (pcb s3 q) = (if q = running s then Waiting else pcb_status (pcb s q))" for q
      unfolding s3(6) by (simp add: set_status_def upd_pcb_def)
    moreover have "pool_of s3 k = pool_of s k" if "k \<noteq> Timer_item" for k
      using that unfolding s3(7) by (cases k) (simp_all add: set_status_def upd_pcb_def)
    moreover have "last_pid s3 = last_pid s" "shutdown_now s3 = shutdown_now s" "syscall_vector s3 = syscall_vector s"
      using s3(5) by (simp_all add: quiet_def set_status_def upd_pcb_def)
    moreover have "spare s Timer_item \<noteq> {}" using t(2) by blast
    ultimately show ?thesis using s3(1-4) new3 t(2) by (intro exI [of _ s3]) (simp del: pool_of.simps, blast)
  qed
qed

text \<open>
  C15: \<open>internal_sleep\<close> of a process that has no timer either finds no timer block and only reports
  \<open>DSOS_ESLEEP\<close>, or takes a block for a timer that is due after the given number of ticks, in its
  place in the timer list, queues the process as waiting and leaves the processor to the first
  ready process, or to nobody when there is none. The status of the process that runs next is not
  changed.
\<close>

theorem internal_sleep_blocks:
  assumes "core_ok s L" and "timers_ok s L" and "idle s L PCB_item (running s)"
    and "pcb_timer (pcb s (running s)) = NULL"
  shows "\<exists>s'. internal_sleep s = Inr s' \<and>
    (if spare s Timer_item = {} then s' = set_retvalue (running s) DSOS_ESLEEP s
     else \<exists>t w. w = disastrOS_time s + ucast (run_arg s 0) \<and> t \<in> spare s Timer_item \<and>
       core_ok s' (asleep s L t w) \<and> timers_ok s' (asleep s L t w) \<and>
       timer_item s' = (timer_item s)(t := \<lparr>ti_awakening_time = w, ti_pcb = running s\<rparr>) \<and>
       running s' = first_of (L ReadyList) NULL \<and>
       (L ReadyList \<noteq> [] \<longrightarrow> idle s' (asleep s L t w) PCB_item (running s')) \<and>
       (\<forall>q. pcb_status (pcb s' q) = (if q = running s then Waiting else pcb_status (pcb s q))))"
  using internal_sleep_total [OF assms] by (elim exE conjE) (intro exI conjI, assumption, auto split: if_splits)

theorem internal_sleep_blocks_witness:
  "\<exists>s' t. internal_sleep (ex_call 3) = Inr s' \<and> core_ok s' (asleep (ex_call 3) ex_lists t 7) \<and>
    timer_item s' t = \<lparr>ti_awakening_time = 7, ti_pcb = 4096\<rparr> \<and> running s' = 4112"
proof -
  have c: "core_ok (ex_call 3) ex_lists" "idle (ex_call 3) ex_lists PCB_item (running (ex_call 3))"
      "pcb_timer (pcb (ex_call 3) (running (ex_call 3))) = NULL"
    using ex_core ex_running by (simp_all, simp add: ex_args_def upd_pcb_def ex_mem_defs ex_pcb_def)
  have o: "timers_ok (ex_call 3) ex_lists"
    by (rule timers_ok_cong [OF ex_timers]) simp_all
  have f: "spare (ex_call 3) Timer_item \<noteq> {}" "running (ex_call 3) = 4096"
      "disastrOS_time (ex_call 3) + ucast (run_arg (ex_call 3) 0) = 7"
    by (simp_all add: ex_args_def upd_pcb_def ex_pool_blocks)
  from internal_sleep_blocks [OF c(1) o c(2,3)] f(1) obtain s' t where s': "internal_sleep (ex_call 3) = Inr s'"
      "core_ok s' (asleep (ex_call 3) ex_lists t 7)" "running s' = first_of (ex_lists ReadyList) NULL"
      "timer_item s' = (timer_item (ex_call 3))(t := \<lparr>ti_awakening_time = 7, ti_pcb = running (ex_call 3)\<rparr>)"
    unfolding f(3) by auto
  then show ?thesis by (simp add: f(2)) blast
qed

end
