(* ===== verification/Resource.thy ===== *)
theory Resource
  imports Pcb
begin

text \<open>
  \<open>disastrOS_resource.c\<close> and \<open>disastrOS_descriptor.c\<close>: resources, the descriptors by which
  processes hold them, and the \<open>DescriptorPtr\<close> items by which a resource lists its descriptors.
\<close>

subsection \<open>Resources\<close>

definition Resource_init :: "static_mem \<Rightarrow> kernel \<Rightarrow> kernel result" where
  "Resource_init st s =
     bindE (init_pool st Resource_item MAX_NUM_RESOURCES
       (MAX_NUM_RESOURCES * (site_size st Resource_item + 4)) (resource_mem s)) (\<lambda>A.
     Inr (s\<lparr>resource_mem := A\<rparr>))"

definition Resource_alloc :: "kernel \<Rightarrow> cint \<Rightarrow> cint \<Rightarrow> (ptr \<times> kernel) result" where
  "Resource_alloc s rid type =
     bindE (ar_get (resource_mem s)) (\<lambda>(r, A).
     if r = NULL then Inr (NULL, s\<lparr>resource_mem := A\<rparr>)
     else Inr (r, s\<lparr>resource_mem := ar_upd r (\<lambda>c. c\<lparr>res_id := rid, res_type := type,
       res_descriptors := List_init\<rparr>) (ar_unlink r A)\<rparr>))"

definition Resource_free :: "kernel \<Rightarrow> ptr \<Rightarrow> (cint \<times> kernel) result" where
  "Resource_free s r =
     check (r \<noteq> NULL) NullDeref
     (check (lh_first (res_descriptors (resource s r)) = NULL) AssertFailed
     (check (lh_last (res_descriptors (resource s r)) = NULL) AssertFailed
     (bindE (ar_free (resource_mem s) r) (\<lambda>(v, A). Inr (v, s\<lparr>resource_mem := A\<rparr>)))))"

definition ResourceList_byId :: "kernel \<Rightarrow> ListHead \<Rightarrow> cint \<Rightarrow> ptr result" where
  "ResourceList_byId s l rid =
     run_loopE (list_scan (\<lambda>r. Inr (res_id (resource s r) = rid)) (ar_links (resource_mem s)) (lh_first l))"

subsection \<open>Descriptors\<close>

text \<open>
  The buffers have room for \<open>MAX_NUM_DESCRIPTORS\<close> blocks, but the pools are initialised with
  \<open>MAX_NUM_PROCESSES\<close> blocks only.
\<close>

definition MAX_NUM_DESCRIPTORS :: cint where
  "MAX_NUM_DESCRIPTORS = MAX_NUM_DESCRIPTORS_PER_PROCESS * MAX_NUM_PROCESSES"

definition Descriptor_init :: "static_mem \<Rightarrow> kernel \<Rightarrow> kernel result" where
  "Descriptor_init st s =
     bindE (init_pool st Descriptor_item MAX_NUM_PROCESSES
       (MAX_NUM_DESCRIPTORS * (site_size st Descriptor_item + 4)) (descriptor_mem s)) (\<lambda>A.
     bindE (init_pool st DescriptorPtr_item MAX_NUM_PROCESSES
       (MAX_NUM_DESCRIPTORS * (site_size st DescriptorPtr_item + 4)) (descriptorptr_mem s)) (\<lambda>B.
     Inr (s\<lparr>descriptor_mem := A, descriptorptr_mem := B\<rparr>)))"

definition Descriptor_alloc :: "kernel \<Rightarrow> cint \<Rightarrow> ptr \<Rightarrow> ptr \<Rightarrow> (ptr \<times> kernel) result" where
  "Descriptor_alloc s fd res p =
     bindE (ar_get (descriptor_mem s)) (\<lambda>(d, A).
     if d = NULL then Inr (NULL, s\<lparr>descriptor_mem := A\<rparr>)
     else Inr (d, s\<lparr>descriptor_mem := ar_upd d (\<lambda>c. c\<lparr>des_fd := fd, des_resource := res, des_pcb := p\<rparr>)
       (ar_unlink d A)\<rparr>))"

definition Descriptor_free :: "kernel \<Rightarrow> ptr \<Rightarrow> (cint \<times> kernel) result" where
  "Descriptor_free s d =
     bindE (ar_free (descriptor_mem s) d) (\<lambda>(v, A). Inr (v, s\<lparr>descriptor_mem := A\<rparr>))"

definition DescriptorList_byFd :: "kernel \<Rightarrow> ListHead \<Rightarrow> cint \<Rightarrow> ptr result" where
  "DescriptorList_byFd s l fd =
     run_loopE (list_scan (\<lambda>d. Inr (des_fd (descriptor s d) = fd)) (ar_links (descriptor_mem s)) (lh_first l))"

definition DescriptorPtr_alloc :: "kernel \<Rightarrow> ptr \<Rightarrow> (ptr \<times> kernel) result" where
  "DescriptorPtr_alloc s des =
     bindE (ar_get (descriptorptr_mem s)) (\<lambda>(d, A).
     if d = NULL then Inr (NULL, s\<lparr>descriptorptr_mem := A\<rparr>)
     else Inr (d, s\<lparr>descriptorptr_mem := ar_upd d (\<lambda>c. c\<lparr>dp_descriptor := des\<rparr>) (ar_unlink d A)\<rparr>))"

definition DescriptorPtr_free :: "kernel \<Rightarrow> ptr \<Rightarrow> (cint \<times> kernel) result" where
  "DescriptorPtr_free s d =
     bindE (ar_free (descriptorptr_mem s) d) (\<lambda>(v, A). Inr (v, s\<lparr>descriptorptr_mem := A\<rparr>))"

subsection \<open>What the operations do to a well-formed state\<close>

lemma Resource_alloc_cases:
  assumes "core_ok s L"
  obtains (exhausted) "spare s Resource_item = {}" "Resource_alloc s rid type = Inr (NULL, s)"
  | (block) x A where "Resource_alloc s rid type = Inr (x, s\<lparr>resource_mem := A\<rparr>)"
      "allocd Resource_item x s (s\<lparr>resource_mem := A\<rparr>)"
      "ar_cells A = (resource s)(x := (resource s x)\<lparr>res_id := rid, res_type := type, res_descriptors := List_init\<rparr>)"
proof -
  have "pool_good (ar_pool (resource_mem s))" using core_pool [OF assms, of Resource_item] by simp
  then show ?thesis
  proof (cases rule: ar_get_cases)
    case exhausted
    then show ?thesis by (intro that(1)) (simp_all add: Resource_alloc_def)
  next
    case (block x a)
    then show ?thesis
      by (intro that(2)) (simp_all add: Resource_alloc_def, simp_all add: alloc_frame)
  qed
qed

lemma Resource_free_live:
  assumes "core_ok s L" and "x \<in> live s Resource_item" and "L (ResDescriptors x) = []"
  shows "\<exists>A. Resource_free s x = Inr (0, s\<lparr>resource_mem := A\<rparr>) \<and>
    freed Resource_item x s (s\<lparr>resource_mem := A\<rparr>) \<and> ar_cells A = resource s"
proof -
  have "klist s (ResDescriptors x) (L (ResDescriptors x))" using core_klist [OF assms(1), of "ResDescriptors x"] assms(2) by simp
  then have h: "lh_first (head_of s (ResDescriptors x)) = NULL" "lh_last (head_of s (ResDescriptors x)) = NULL"
    using assms(3) by (simp_all only: klist_def dlist_empty_iff)
  have "x \<noteq> NULL" using assms(1,2) by (rule live_nonnull)
  have "pool_good (ar_pool (resource_mem s))" "x \<in> pool_live (ar_pool (resource_mem s))"
    using core_pool [OF assms(1), of Resource_item] assms(2) by simp_all
  from ar_free_live [OF this] obtain a where
      "ar_free (resource_mem s) x = Inr (0, (resource_mem s)\<lparr>ar_pool := a\<rparr>)"
      "pool_good a" "pool_live a = live s Resource_item - {x}" "pool_spare a = insert x (spare s Resource_item)"
    by auto
  then show ?thesis using assms(2) h \<open>x \<noteq> NULL\<close>
    by (intro exI [of _ "(resource_mem s)\<lparr>ar_pool := a\<rparr>"]) (simp add: Resource_free_def free_frame)
qed

lemma ResourceList_byId_scan:
  assumes "core_ok s L" and "l \<in> heads s" and "kind_of l = Resource_item"
  shows "ResourceList_byId s (head_of s l) rid = Inr (scan_result (\<lambda>x. res_id (resource s x) = rid) (L l))"
  using core_scan [OF assms(1,2), of "\<lambda>x. Inr (res_id (resource s x) = rid)"] assms(3)
  by (simp add: ResourceList_byId_def)

lemma Descriptor_alloc_cases:
  assumes "core_ok s L"
  obtains (exhausted) "spare s Descriptor_item = {}" "Descriptor_alloc s fd r p = Inr (NULL, s)"
  | (block) x A where "Descriptor_alloc s fd r p = Inr (x, s\<lparr>descriptor_mem := A\<rparr>)"
      "allocd Descriptor_item x s (s\<lparr>descriptor_mem := A\<rparr>)"
      "ar_cells A = (descriptor s)(x := (descriptor s x)\<lparr>des_fd := fd, des_resource := r, des_pcb := p\<rparr>)"
proof -
  have "pool_good (ar_pool (descriptor_mem s))" using core_pool [OF assms, of Descriptor_item] by simp
  then show ?thesis
  proof (cases rule: ar_get_cases)
    case exhausted
    then show ?thesis by (intro that(1)) (simp_all add: Descriptor_alloc_def)
  next
    case (block x a)
    then show ?thesis
      by (intro that(2)) (simp_all add: Descriptor_alloc_def, simp_all add: alloc_frame)
  qed
qed

lemma Descriptor_free_live:
  assumes "core_ok s L" and "x \<in> live s Descriptor_item"
  shows "\<exists>A. Descriptor_free s x = Inr (0, s\<lparr>descriptor_mem := A\<rparr>) \<and>
    freed Descriptor_item x s (s\<lparr>descriptor_mem := A\<rparr>) \<and> ar_cells A = descriptor s"
proof -
  have "pool_good (ar_pool (descriptor_mem s))" "x \<in> pool_live (ar_pool (descriptor_mem s))"
    using core_pool [OF assms(1), of Descriptor_item] assms(2) by simp_all
  from ar_free_live [OF this] obtain a where
      "ar_free (descriptor_mem s) x = Inr (0, (descriptor_mem s)\<lparr>ar_pool := a\<rparr>)"
      "pool_good a" "pool_live a = live s Descriptor_item - {x}" "pool_spare a = insert x (spare s Descriptor_item)"
    by auto
  then show ?thesis using assms(2)
    by (intro exI [of _ "(descriptor_mem s)\<lparr>ar_pool := a\<rparr>"]) (simp add: Descriptor_free_def free_frame)
qed

lemma DescriptorList_byFd_scan:
  assumes "core_ok s L" and "l \<in> heads s" and "kind_of l = Descriptor_item"
  shows "DescriptorList_byFd s (head_of s l) fd = Inr (scan_result (\<lambda>x. des_fd (descriptor s x) = fd) (L l))"
  using core_scan [OF assms(1,2), of "\<lambda>x. Inr (des_fd (descriptor s x) = fd)"] assms(3)
  by (simp add: DescriptorList_byFd_def)

lemma DescriptorPtr_alloc_cases:
  assumes "core_ok s L"
  obtains (exhausted) "spare s DescriptorPtr_item = {}" "DescriptorPtr_alloc s d = Inr (NULL, s)"
  | (block) x A where "DescriptorPtr_alloc s d = Inr (x, s\<lparr>descriptorptr_mem := A\<rparr>)"
      "allocd DescriptorPtr_item x s (s\<lparr>descriptorptr_mem := A\<rparr>)"
      "ar_cells A = (descriptorptr s)(x := (descriptorptr s x)\<lparr>dp_descriptor := d\<rparr>)"
proof -
  have "pool_good (ar_pool (descriptorptr_mem s))" using core_pool [OF assms, of DescriptorPtr_item] by simp
  then show ?thesis
  proof (cases rule: ar_get_cases)
    case exhausted
    then show ?thesis by (intro that(1)) (simp_all add: DescriptorPtr_alloc_def)
  next
    case (block x a)
    then show ?thesis
      by (intro that(2)) (simp_all add: DescriptorPtr_alloc_def, simp_all add: alloc_frame)
  qed
qed

lemma DescriptorPtr_free_live:
  assumes "core_ok s L" and "x \<in> live s DescriptorPtr_item"
  shows "\<exists>A. DescriptorPtr_free s x = Inr (0, s\<lparr>descriptorptr_mem := A\<rparr>) \<and>
    freed DescriptorPtr_item x s (s\<lparr>descriptorptr_mem := A\<rparr>) \<and> ar_cells A = descriptorptr s"
proof -
  have "pool_good (ar_pool (descriptorptr_mem s))" "x \<in> pool_live (ar_pool (descriptorptr_mem s))"
    using core_pool [OF assms(1), of DescriptorPtr_item] assms(2) by simp_all
  from ar_free_live [OF this] obtain a where
      "ar_free (descriptorptr_mem s) x = Inr (0, (descriptorptr_mem s)\<lparr>ar_pool := a\<rparr>)"
      "pool_good a" "pool_live a = live s DescriptorPtr_item - {x}" "pool_spare a = insert x (spare s DescriptorPtr_item)"
    by auto
  then show ?thesis using assms(2)
    by (intro exI [of _ "(descriptorptr_mem s)\<lparr>ar_pool := a\<rparr>"]) (simp add: DescriptorPtr_free_def free_frame)
qed

end
