(* ===== verification/Process_Calls.thy ===== *)
theory Process_Calls
  imports Scheduler Resource
begin

text \<open>
  The process system calls: \<open>disastrOS_fork.c\<close>, \<open>disastrOS_spawn.c\<close>, \<open>disastrOS_wait.c\<close>,
  \<open>disastrOS_exit.c\<close> and \<open>disastrOS_shutdown.c\<close>.
\<close>

subsection \<open>fork and spawn\<close>

text \<open>The body of \<open>internal_fork\<close>, which \<open>internal_spawn\<close> repeats; returns the new process.\<close>

definition make_child :: "kernel \<Rightarrow> (ptr \<times> kernel) result" where
  "make_child s =
     check (running s \<noteq> NULL) NullDeref
     (bindE (PCB_alloc s) (\<lambda>(new_pcb, s).
      if new_pcb = NULL then Inr (NULL, set_retvalue (running s) DSOS_ESPAWN s)
      else
        let s = upd_pcb new_pcb (\<lambda>c. c\<lparr>pcb_status := Ready, pcb_parent := running s\<rparr>) s in
        bindE (PCBPtr_alloc s new_pcb) (\<lambda>(new_pcb_ptr, s).
        check (new_pcb_ptr \<noteq> NULL) AssertFailed
        (bindE (k_append s (Children (running s)) new_pcb_ptr) (\<lambda>(_, s).
         bindE (k_append s ReadyList new_pcb) (\<lambda>(_, s).
         Inr (new_pcb, set_retvalue (running s) (pcb_pid (pcb s new_pcb)) s)))))))"

definition internal_fork :: "kernel \<Rightarrow> kernel result" where
  "internal_fork s = bindE (make_child s) (\<lambda>(_, s). Inr s)"

definition internal_spawn :: "kernel \<Rightarrow> kernel result" where
  "internal_spawn s =
     bindE (make_child s) (\<lambda>(new_pcb, s).
     if new_pcb = NULL then Inr s
     else Inr (upd_pcb new_pcb (\<lambda>c. c\<lparr>pcb_cpu_state := EntryContext (run_arg s 0) (run_arg s 1)\<rparr>) s))"

subsection \<open>wait\<close>

text \<open>
  The scan of the children: the result is the pair \<open>(awaited_pcb, awaited_pcb_ptr)\<close> the loop ends
  with, which is the last child when no child matches.
\<close>

partial_function (option) wait_scan ::
    "kernel \<Rightarrow> cint \<Rightarrow> ptr \<times> ptr \<Rightarrow> ptr \<Rightarrow> (ptr \<times> ptr) result option" where
  "wait_scan s pid_to_wait awaited aux =
     (if aux = NULL then Some (Inr awaited)
      else
        let q = aux; p = pp_pcb (pcbptr s q) in
        if p = NULL then Some (Inl NullDeref)
        else if pid_to_wait = 0 \<and> pcb_status (pcb s p) = Zombie then Some (Inr (p, q))
        else if pid_to_wait \<noteq> 0 \<and> pcb_pid (pcb s p) = pid_to_wait then Some (Inr (p, q))
        else wait_scan s pid_to_wait (p, q) (li_next (ar_links (pcbptr_mem s) aux)))"

text \<open>The branch of \<open>internal_wait\<close> for a child that is a zombie.\<close>

definition reap :: "kernel \<Rightarrow> ptr \<Rightarrow> ptr \<Rightarrow> ptr \<Rightarrow> kernel result" where
  "reap s awaited_pcb awaited_pcb_ptr result =
     bindE (k_detach s (Children (running s)) awaited_pcb_ptr) (\<lambda>(_, s).
     bindE (PCBPtr_free s awaited_pcb_ptr) (\<lambda>(_, s).
     bindE (k_detach s ZombieList awaited_pcb) (\<lambda>(_, s).
     let s = set_retvalue (running s) (pcb_pid (pcb s awaited_pcb)) s;
         s = (if result \<noteq> NULL
              then s\<lparr>user_mem := (user_mem s)(result := pcb_return_value (pcb s awaited_pcb))\<rparr>
              else s) in
     bindE (PCB_free s awaited_pcb) (\<lambda>(_, s). Inr s))))"

text \<open>The rest of \<open>internal_wait\<close>: the process sleeps until a child exits.\<close>

definition block_in_wait :: "kernel \<Rightarrow> kernel result" where
  "block_in_wait s =
     (let s = set_status (running s) Waiting s in
      bindE (k_append s WaitingList (running s)) (\<lambda>(_, s).
      bindE (k_detach s ReadyList (lh_first (ready_list s))) (\<lambda>(next_running, s).
      Inr (s\<lparr>running := next_running\<rparr>))))"

definition internal_wait :: "kernel \<Rightarrow> kernel result" where
  "internal_wait s =
     check (running s \<noteq> NULL) NullDeref
     (let pid_to_wait = (ucast (run_arg s 0) :: cint); result = run_arg s 1 in
      if lh_first (pcb_children (pcb s (running s))) = NULL
      then Inr (set_retvalue (running s) DSOS_EWAIT s)
      else
        bindE (run_loopE (wait_scan s pid_to_wait (NULL, NULL)
          (lh_first (pcb_children (pcb s (running s)))))) (\<lambda>(awaited_pcb, awaited_pcb_ptr).
        if 0 <s pid_to_wait \<and> awaited_pcb = NULL then Inr (set_retvalue (running s) DSOS_EWAIT s)
        else if awaited_pcb \<noteq> NULL \<and> pcb_status (pcb s awaited_pcb) = Zombie
        then reap s awaited_pcb awaited_pcb_ptr result
        else block_in_wait s))"

subsection \<open>exit\<close>

text \<open>One turn of the loop that gives the children of the dying process to init.\<close>

definition reparent_one :: "kernel \<Rightarrow> kernel result" where
  "reparent_one s =
     bindE (k_detach s (Children (running s)) (lh_first (pcb_children (pcb s (running s))))) (\<lambda>(item, s).
     check (item \<noteq> NULL) AssertFailed
     (bindE (k_append s (Children (init_pcb s)) item) (\<lambda>(_, s).
      let p = pp_pcb (pcbptr s item) in
      check (p \<noteq> NULL) NullDeref
      (Inr (upd_pcb p (\<lambda>c. c\<lparr>pcb_signals :=
         pcb_signals c OR (DSOS_SIGHUP AND pcb_signals_mask c)\<rparr>) s)))))"

partial_function (option) reparent_children :: "kernel \<Rightarrow> kernel result option" where
  "reparent_children s =
     (if lh_first (pcb_children (pcb s (running s))) = NULL then Some (Inr s)
      else case reparent_one s of Inl e \<Rightarrow> Some (Inl e) | Inr s' \<Rightarrow> reparent_children s')"

partial_function (option) release_timers :: "kernel \<Rightarrow> ptr \<Rightarrow> kernel result option" where
  "release_timers s aux =
     (if aux = NULL then Some (Inr s)
      else
        let timer = aux; aux' = li_next (ar_links (timer_mem s) aux) in
        if ti_pcb (timer_item s timer) = running s then
          (case bindE (k_detach s TimerList timer) (\<lambda>(detach_result, s).
             check (detach_result \<noteq> NULL) AssertFailed
             (bindE (TimerItem_free s timer) (\<lambda>(_, s). Inr s))) of
             Inl e \<Rightarrow> Some (Inl e) | Inr s' \<Rightarrow> release_timers s' aux')
        else release_timers s aux')"

definition release_one_descriptor :: "kernel \<Rightarrow> kernel result" where
  "release_one_descriptor s =
     (let des = lh_first (pcb_descriptors (pcb s (running s))) in
      bindE (k_detach s (Descriptors (running s)) des) (\<lambda>(_, s).
      let res = des_resource (descriptor s des) in
      check (res \<noteq> NULL) NullDeref
      (bindE (k_detach s (ResDescriptors res) (des_ptr (descriptor s des))) (\<lambda>(_, s).
       bindE (DescriptorPtr_free s (des_ptr (descriptor s des))) (\<lambda>(_, s).
       bindE (Descriptor_free s des) (\<lambda>(_, s). Inr s))))))"

partial_function (option) release_descriptors :: "kernel \<Rightarrow> kernel result option" where
  "release_descriptors s =
     (if lh_first (pcb_descriptors (pcb s (running s))) = NULL then Some (Inr s)
      else case release_one_descriptor s of Inl e \<Rightarrow> Some (Inl e) | Inr s' \<Rightarrow> release_descriptors s')"

text \<open>The parent is asleep in \<open>wait\<close> for this process or for any child.\<close>

definition parent_awaits :: "kernel \<Rightarrow> ptr \<Rightarrow> bool" where
  "parent_awaits s par \<longleftrightarrow>
     pcb_status (pcb s par) = Waiting \<and> pcb_syscall_num (pcb s par) = DSOS_CALL_WAIT \<and>
     (pcb_syscall_args (pcb s par) 0 = 0 \<or>
      pcb_syscall_args (pcb s par) 0 = scast (pcb_pid (pcb s (running s))))"

text \<open>
  The branch of \<open>internal_exit\<close> for a waiting parent: the process gives up its timers, its
  descriptors and its PCB (\<open>perish\<close>) after it has handed the exit value to the parent.
\<close>

definition perish :: "kernel \<Rightarrow> ptr \<Rightarrow> kernel result" where
  "perish s par =
     bindE (run_loopE (release_timers s (lh_first (timer_list s)))) (\<lambda>s.
     bindE (run_loopE (release_descriptors s)) (\<lambda>s.
     bindE (k_detach s ZombieList (running s)) (\<lambda>(suppressed_item, s).
     bindE (PCB_free s suppressed_item) (\<lambda>(_, s).
     Inr (s\<lparr>running := par\<rparr>)))))"

definition die_to_parent :: "kernel \<Rightarrow> kernel result" where
  "die_to_parent s =
     bindE (k_detach s WaitingList (pcb_parent (pcb s (running s)))) (\<lambda>(par, s).
     check (par \<noteq> NULL) AssertFailed
     (let s = set_status par Running s in
      bindE (PCBPtr_byPID s (pcb_children (pcb s par)) (pcb_pid (pcb s (running s)))) (\<lambda>self_in_parent.
      bindE (k_detach s (Children par) self_in_parent) (\<lambda>(_, s).
      let s = set_retvalue par (pcb_pid (pcb s (running s))) s;
          result = pcb_syscall_args (pcb s par) 1;
          s = (if result \<noteq> NULL
               then s\<lparr>user_mem := (user_mem s)(result := pcb_return_value (pcb s (running s)))\<rparr> else s) in
      perish s par))))"

text \<open>The other branch: the process stays a zombie and the first ready process runs.\<close>

definition run_next :: "kernel \<Rightarrow> kernel result" where
  "run_next s =
     bindE (k_detach s ReadyList (lh_first (ready_list s))) (\<lambda>(next_running, s).
     check (next_running \<noteq> NULL) AssertFailed
     (Inr ((set_status next_running Running s)\<lparr>running := next_running\<rparr>)))"

definition internal_exit :: "kernel \<Rightarrow> kernel result" where
  "internal_exit s =
     check (running s \<noteq> NULL) NullDeref
     (let s = upd_pcb (running s) (\<lambda>c. c\<lparr>pcb_return_value := ucast (pcb_syscall_args c 0)\<rparr>) s in
      check (init_pcb s \<noteq> NULL) AssertFailed
      (bindE (run_loopE (reparent_children s)) (\<lambda>s.
       let s = set_status (running s) Zombie s in
       bindE (k_append s ZombieList (running s)) (\<lambda>(_, s).
       let par = pcb_parent (pcb s (running s)) in
       check (par \<noteq> NULL) NullDeref
       (let s = upd_pcb par (\<lambda>c. c\<lparr>pcb_signals :=
              pcb_signals c OR (DSOS_SIGCHLD AND pcb_signals_mask c)\<rparr>) s in
        if parent_awaits s par then die_to_parent s else run_next s)))))"

subsection \<open>shutdown\<close>

text \<open>Control then goes to the main context (see \<open>disastrOS_trap\<close>).\<close>

definition internal_shutdown :: "kernel \<Rightarrow> kernel" where
  "internal_shutdown s = s\<lparr>shutdown_now := 1\<rparr>"

subsection \<open>What fork and spawn do\<close>

text \<open>
  \<open>child_made s L s' c q\<close>: the state \<open>s'\<close> differs from \<open>s\<close> by the new process \<open>c\<close>, recorded
  by the list item \<open>q\<close>. The semaphore descriptors and the system call registers of the block of
  \<open>c\<close> are those of the process that had the block before.
\<close>

definition child_made :: "kernel \<Rightarrow> (list_loc \<Rightarrow> ptr list) \<Rightarrow> kernel \<Rightarrow> ptr \<Rightarrow> ptr \<Rightarrow> bool" where
  "child_made s L s' c q \<longleftrightarrow>
     c \<in> spare s PCB_item \<and> c \<notin> live s PCB_item \<and> q \<in> spare s PCBPtr_item \<and>
     core_ok s' (L(Children (running s) := L (Children (running s)) @ [q], ReadyList := L ReadyList @ [c])) \<and>
     live s' PCB_item = insert c (live s PCB_item) \<and> live s' PCBPtr_item = insert q (live s PCBPtr_item) \<and>
     (\<forall>k. k \<noteq> PCB_item \<and> k \<noteq> PCBPtr_item \<longrightarrow> pool_of s' k = pool_of s k) \<and>
     (\<forall>y. idle s L PCB_item y \<longrightarrow>
       idle s' (L(Children (running s) := L (Children (running s)) @ [q], ReadyList := L ReadyList @ [c])) PCB_item y) \<and>
     running s' = running s \<and> last_pid s' = last_pid s + 1 \<and> timer_item s' = timer_item s \<and>
     pcb_pid (pcb s' (running s)) = pcb_pid (pcb s (running s)) \<and>
     pcb_parent (pcb s' (running s)) = pcb_parent (pcb s (running s)) \<and>
     pcb_status (pcb s' (running s)) = pcb_status (pcb s (running s)) \<and>
     pcb_cpu_state (pcb s' (running s)) = pcb_cpu_state (pcb s (running s)) \<and>
     pcbptr s' = (pcbptr s)(q := \<lparr>pp_pcb = c\<rparr>) \<and>
     pcb_pid (pcb s' c) = last_pid s \<and> pcb_status (pcb s' c) = Ready \<and>
     pcb_parent (pcb s' c) = running s \<and> pcb_timer (pcb s' c) = NULL \<and>
     pcb_signals (pcb s' c) = 0 \<and> pcb_last_fd (pcb s' c) = 0 \<and> pcb_last_sem_fd (pcb s' c) = 0 \<and>
     pcb_sem_descriptors (pcb s' c) = pcb_sem_descriptors (pcb s c) \<and>
     pcb_syscall_num (pcb s' c) = pcb_syscall_num (pcb s c) \<and>
     pcb_syscall_retvalue (pcb s' (running s)) = last_pid s \<and>
     (\<forall>p. p \<noteq> c \<and> p \<noteq> running s \<longrightarrow> pcb s' p = pcb s p)"

lemma make_child_exhausted:
  assumes c: "core_ok s L" and e: "spare s PCB_item = {} \<or> spare s PCBPtr_item = {}"
    and r: "running s \<noteq> NULL"
  shows "make_child s = Inl NullDeref"
  using c
proof (cases rule: PCB_alloc_cases)
  case exhausted
  with r show ?thesis by (simp add: make_child_def)
next
  case (block c A)
  let ?s1 = "s\<lparr>pcb_mem := A, last_pid := last_pid s + 1\<rparr>"
  let ?s2 = "upd_pcb c (\<lambda>x. x\<lparr>pcb_status := Ready, pcb_parent := running s\<rparr>) ?s1"
  have x: "c \<noteq> NULL" "c \<in> spare s PCB_item" "pool_of ?s1 PCBPtr_item = pool_of s PCBPtr_item"
    using block(2) by (simp_all add: allocd_def)
  with e have sp: "spare ?s1 PCBPtr_item = {}" by (auto simp: x(3) simp del: pool_of.simps)
  have "core_ok ?s2 L" using allocd_core(1) [OF c block(2)] by simp
  then show ?thesis
  proof (cases rule: PCBPtr_alloc_cases [of ?s2 L c])
    case exhausted
    then show ?thesis using block(1) x(1) r by (simp add: make_child_def Let_def)
  next
    case (block q B)
    then have "q \<in> spare ?s1 PCBPtr_item" by (simp add: allocd_def upd_pcb_def)
    with sp show ?thesis by blast
  qed
qed

lemma make_child_made:
  assumes c: "core_ok s L" and r: "running s \<in> live s PCB_item"
    and sp: "spare s PCB_item \<noteq> {}" "spare s PCBPtr_item \<noteq> {}"
  shows "\<exists>s' c q. make_child s = Inr (c, s') \<and> child_made s L s' c q \<and>
    pcb_cpu_state (pcb s' c) = pcb_cpu_state (pcb s c) \<and> c \<noteq> NULL \<and>
    (\<forall>i. run_arg s' i = run_arg s i) \<and> c \<noteq> running s"
  using c
proof (cases rule: PCB_alloc_cases)
  case exhausted
  with sp show ?thesis by simp
next
  case (block c A)
  let ?s1 = "s\<lparr>pcb_mem := A, last_pid := last_pid s + 1\<rparr>"
  let ?s2 = "upd_pcb c (\<lambda>x. x\<lparr>pcb_status := Ready, pcb_parent := running s\<rparr>) ?s1"
  note a1 = allocd_core [OF assms(1) block(2)]
  have x: "c \<noteq> NULL" "c \<in> spare s PCB_item" "c \<notin> live s PCB_item"
      "pool_of ?s1 PCBPtr_item = pool_of s PCBPtr_item" "live ?s1 PCB_item = insert c (live s PCB_item)"
    using block(2) by (simp_all add: allocd_def)
  have nn: "running s \<noteq> NULL" "running s \<noteq> c" using live_nonnull [OF assms(1) r] r x(3) by auto
  have c2: "core_ok ?s2 L" "idle ?s2 L PCB_item c" using a1 by simp_all
  have run2: "running ?s2 = running s" by (simp add: upd_pcb_def)
  from c2(1) show ?thesis
  proof (cases rule: PCBPtr_alloc_cases [of ?s2 L c])
    case exhausted
    then have "spare ?s1 PCBPtr_item = {}" by (simp add: upd_pcb_def)
    then show ?thesis using sp(2) unfolding x(4) by blast
  next
    case b: (block q B)
    let ?s3 = "?s2\<lparr>pcbptr_mem := B\<rparr>"
    let ?L4 = "L(Children (running s) := L (Children (running s)) @ [q])"
    note a3 = allocd_core [OF c2(1) b(2)]
    have q: "q \<noteq> NULL" "q \<in> spare s PCBPtr_item" "live ?s3 PCBPtr_item = insert q (live s PCBPtr_item)"
      and lv: "live ?s3 PCB_item = insert c (live s PCB_item)"
      using b(2) x(4,5) by (simp_all add: allocd_def upd_pcb_def)
    have h: "Children (running s) \<in> heads ?s3" using r lv by (simp del: pool_of.simps)
    obtain m h where p4: "k_append ?s3 (Children (running s)) q = Inr (q, put_list (Children (running s)) m h ?s3)"
        "core_ok (put_list (Children (running s)) m h ?s3) ?L4"
        "\<And>k y. idle ?s3 L k y \<Longrightarrow> (k = PCBPtr_item \<Longrightarrow> y \<noteq> q) \<Longrightarrow>
          idle (put_list (Children (running s)) m h ?s3) ?L4 k y"
      by (rule core_appendE [OF a3(1,2) h, of ?L4]) (simp, simp, blast)
    let ?s4 = "put_list (Children (running s)) m h ?s3"
    have i4: "idle ?s4 ?L4 PCB_item c" using p4(3) a3(3) c2(2) by blast
    let ?L5 = "L(Children (running s) := L (Children (running s)) @ [q], ReadyList := L ReadyList @ [c])"
    obtain m' h' where p5: "k_append ?s4 ReadyList c = Inr (c, put_list ReadyList m' h' ?s4)"
        "core_ok (put_list ReadyList m' h' ?s4) ?L5"
        "\<And>k y. idle ?s4 ?L4 k y \<Longrightarrow> (k = PCB_item \<Longrightarrow> y \<noteq> c) \<Longrightarrow> idle (put_list ReadyList m' h' ?s4) ?L5 k y"
      by (rule core_appendE [OF p4(2) i4, of ReadyList ?L5]) (simp, simp, simp, blast)
    let ?s5 = "set_retvalue (running s) (last_pid s) (put_list ReadyList m' h' ?s4)"
    have "make_child s = Inr (c, ?s5)"
      using nn x(1) block(1,3) b(1) q(1) p4(1) p5(1) run2
      by (simp add: make_child_def Let_def del: put_list_lists) (simp add: upd_pcb_def)
    moreover have "child_made s L ?s5 c q"
      unfolding child_made_def
    proof (intro conjI)
      show "core_ok ?s5 ?L5" using p5(2) by simp
      show "\<forall>y. idle s L PCB_item y \<longrightarrow> idle ?s5 ?L5 PCB_item y"
      proof (intro allI impI)
        fix y
        assume y: "idle s L PCB_item y"
        then have "idle ?s2 L PCB_item y" "y \<noteq> c" using a1(3) x(3) idleD(1) [OF y] by auto
        then have "idle ?s4 ?L4 PCB_item y" by (intro p4(3) a3(3)) simp_all
        then show "idle ?s5 ?L5 PCB_item y" using p5(3) \<open>y \<noteq> c\<close> by simp
      qed
      show "live ?s5 PCB_item = insert c (live s PCB_item)" using lv by (simp add: set_retvalue_def upd_pcb_def)
      show "live ?s5 PCBPtr_item = insert q (live s PCBPtr_item)"
        using q(3) by (simp add: set_retvalue_def upd_pcb_def)
      show "\<forall>k. k \<noteq> PCB_item \<and> k \<noteq> PCBPtr_item \<longrightarrow> pool_of ?s5 k = pool_of s k"
        unfolding all_kinds by (simp add: set_retvalue_def upd_pcb_def)
      show "pcbptr ?s5 = (pcbptr s)(q := \<lparr>pp_pcb = c\<rparr>)"
        using b(3) by (simp add: set_retvalue_def upd_pcb_def, cases "pcbptr s q", simp)
      show "\<forall>p. p \<noteq> c \<and> p \<noteq> running s \<longrightarrow> pcb ?s5 p = pcb s p"
        using block(3) by (simp add: set_retvalue_def upd_pcb_def put_list_def)
    qed (use x(2,3) q(2) nn block(3) in \<open>simp_all add: set_retvalue_def upd_pcb_def put_list_def\<close>)
    moreover have "run_arg ?s5 i = run_arg s i" for i
      using nn block(3) by (simp add: set_retvalue_def upd_pcb_def)
    moreover have "pcb_cpu_state (pcb ?s5 c) = pcb_cpu_state (pcb s c)"
      using nn block(3) by (simp add: set_retvalue_def upd_pcb_def)
    ultimately show ?thesis using nn x(1) by blast
  qed
qed

lemma child_made_entry:
  assumes "child_made s L s' c q" and "c \<noteq> running s"
  shows "child_made s L (upd_pcb c (\<lambda>x. x\<lparr>pcb_cpu_state := e\<rparr>) s') c q"
proof -
  let ?s = "upd_pcb c (\<lambda>x. x\<lparr>pcb_cpu_state := e\<rparr>) s'"
  have "core_ok ?s L' \<longleftrightarrow> core_ok s' L'" "idle ?s L' k y \<longleftrightarrow> idle s' L' k y"
      "live ?s PCB_item = live s' PCB_item" "live ?s PCBPtr_item = live s' PCBPtr_item"
      "k \<noteq> PCB_item \<Longrightarrow> pool_of ?s k = pool_of s' k" for L' k y
    by simp_all (simp_all add: upd_pcb_def)
  with assms show ?thesis unfolding child_made_def by (simp add: upd_pcb_def del: pool_of.simps)
qed

lemma fork_child:
  assumes "core_ok s L" and "running s \<in> live s PCB_item"
    and "spare s PCB_item \<noteq> {}" and "spare s PCBPtr_item \<noteq> {}"
  shows "\<exists>s' c q. internal_fork s = Inr s' \<and> child_made s L s' c q \<and>
    pcb_cpu_state (pcb s' c) = pcb_cpu_state (pcb s c)"
proof -
  from make_child_made [OF assms] obtain s' c q where m: "make_child s = Inr (c, s')"
      "child_made s L s' c q" "pcb_cpu_state (pcb s' c) = pcb_cpu_state (pcb s c)" by blast
  then have "internal_fork s = Inr s'" by (simp add: internal_fork_def)
  with m(2,3) show ?thesis by blast
qed

lemma spawn_child:
  assumes "core_ok s L" and "running s \<in> live s PCB_item"
    and "spare s PCB_item \<noteq> {}" and "spare s PCBPtr_item \<noteq> {}"
  shows "\<exists>s' c q. internal_spawn s = Inr s' \<and> child_made s L s' c q \<and>
    pcb_cpu_state (pcb s' c) = EntryContext (run_arg s 0) (run_arg s 1)"
proof -
  from make_child_made [OF assms] obtain s' c q where m: "make_child s = Inr (c, s')"
      "child_made s L s' c q" "c \<noteq> NULL" "\<forall>i. run_arg s' i = run_arg s i" "c \<noteq> running s" by blast
  let ?s = "upd_pcb c (\<lambda>x. x\<lparr>pcb_cpu_state := EntryContext (run_arg s 0) (run_arg s 1)\<rparr>) s'"
  have "internal_spawn s = Inr ?s" using m(1,3,4) by (simp add: internal_spawn_def)
  moreover have "pcb_cpu_state (pcb ?s c) = EntryContext (run_arg s 0) (run_arg s 1)"
    by (simp add: upd_pcb_def)
  ultimately show ?thesis using child_made_entry [OF m(2,5)] by blast
qed

lemma ex_room: "spare ex_state PCB_item \<noteq> {}" "spare ex_state PCBPtr_item \<noteq> {}"
    "running ex_state \<in> live ex_state PCB_item"
  by (simp_all only: ex_state_live) simp_all

text \<open>
  C16: the children of fork and spawn. Both take a free PCB and a free list item, link the new process
  as the last child of its parent and at the end of the ready queue, give it the next pid and return
  that pid to the parent; nobody else is touched. Spawn lets the child start in the function given by
  the first argument of the call, with the second argument; fork leaves the context of the child as
  it is in the block.
\<close>

theorem fork_spawn_child:
  assumes "core_ok s L" and "running s \<in> live s PCB_item"
    and "spare s PCB_item \<noteq> {}" and "spare s PCBPtr_item \<noteq> {}"
  shows "(\<exists>s' c q. internal_fork s = Inr s' \<and> child_made s L s' c q \<and>
      pcb_cpu_state (pcb s' c) = pcb_cpu_state (pcb s c)) \<and>
    (\<exists>s' c q. internal_spawn s = Inr s' \<and> child_made s L s' c q \<and>
      pcb_cpu_state (pcb s' c) = EntryContext (run_arg s 0) (run_arg s 1))"
  using fork_child [OF assms] spawn_child [OF assms] by blast

theorem fork_spawn_child_witness:
  "(\<exists>s' q. internal_fork ex_state = Inr s' \<and> pcb_pid (pcb s' 4176) = 5 \<and> pcb_parent (pcb s' 4176) = 4096 \<and>
      core_ok s' (ex_lists(Children 4096 := [8192, 8208, 8224, 8240, q], ReadyList := [4112, 4176]))) \<and>
    (\<exists>s'. internal_spawn ex_state = Inr s' \<and> pcb_cpu_state (pcb s' 4176) = EntryContext 0 0)"
proof -
  note both = fork_spawn_child [OF ex_core ex_room(3,1,2)]
  have c: "c = 4176" if "child_made ex_state ex_lists s' c q" for s' c q
    using that unfolding child_made_def ex_state_live by simp
  from both obtain s1 c1 q1 where f: "internal_fork ex_state = Inr s1" "child_made ex_state ex_lists s1 c1 q1" by blast
  from both obtain s2 c2 q2 where g: "internal_spawn ex_state = Inr s2" "child_made ex_state ex_lists s2 c2 q2"
      "pcb_cpu_state (pcb s2 c2) = EntryContext (run_arg ex_state 0) (run_arg ex_state 1)" by blast
  have "run_arg ex_state i = 0" for i by (simp add: ex_mem_defs ex_pcb_def)
  with g c [OF g(2)] have "internal_spawn ex_state = Inr s2 \<and> pcb_cpu_state (pcb s2 4176) = EntryContext 0 0" by simp
  moreover have "internal_fork ex_state = Inr s1 \<and> pcb_pid (pcb s1 4176) = 5 \<and> pcb_parent (pcb s1 4176) = 4096 \<and>
      core_ok s1 (ex_lists(Children 4096 := [8192, 8208, 8224, 8240, q1], ReadyList := [4112, 4176]))"
    using f c [OF f(2)] unfolding child_made_def by simp
  ultimately show ?thesis by blast
qed

text \<open>
  C30: when the PCBs or the list items of children are used up, fork and spawn do not report
  \<open>DSOS_ESPAWN\<close>: they write through the null pointer that the allocator returned.
\<close>

theorem spawn_exhausted_faults:
  assumes "core_ok s L" and "running s \<noteq> NULL"
    and "spare s PCB_item = {} \<or> spare s PCBPtr_item = {}"
  shows "internal_fork s = Inl NullDeref \<and> internal_spawn s = Inl NullDeref"
  using make_child_exhausted [OF assms(1,3,2)] by (simp add: internal_fork_def internal_spawn_def)

definition ex_full :: kernel where
  "ex_full = ex_state\<lparr>pcbptr_mem := ex_pcbptr_mem\<lparr>ar_pool := ex_pool 8192 [-2, -2, -2, -2, -2, -2] (-1) 0\<rparr>\<rparr>"

lemma ex_full_core: "core_ok ex_full ex_lists"
proof -
  have "pool_good (ex_pool 8192 [-2, -2, -2, -2, -2, -2] (-1) 0)"
    by (rule ex_pool_good [where xs = "[]"]) (simp_all add: below_six NullIdx_def)
  then have g: "pool_good (pool_of ex_full k)" for k
    using ex_state_pools [of k] by (cases k) (simp_all add: ex_full_def)
  have l: "links_of ex_full k = links_of ex_state k" for k by (cases k) (simp_all add: ex_full_def)
  have h: "head_of ex_full l = head_of ex_state l" for l by (cases l) (simp_all add: ex_full_def)
  have r: "klist ex_full l (ex_lists l)" for l using ex_klist [of l] by (simp only: klist_def l h)
  have lv: "live ex_state k \<subseteq> live ex_full k" for k
    by (cases k) (simp_all add: ex_full_def ex_pool_blocks)
  have hd: "heads ex_full = heads ex_state"
    unfolding heads_def by (rule Collect_cong, rename_tac l, case_tac l) (simp_all add: ex_full_def)
  have "if l \<in> heads ex_full then set (ex_lists l) \<subseteq> live ex_full (kind_of l) else ex_lists l = []" for l
    using ex_items [of l] lv [of "kind_of l"] unfolding hd by (auto simp del: pool_of.simps split: if_splits)
  then show ?thesis unfolding core_ok_def layout_def using g r ex_apart by blast
qed

theorem spawn_exhausted_faults_witness:
  "internal_fork ex_full = Inl NullDeref \<and> internal_spawn ex_full = Inl NullDeref"
proof (rule spawn_exhausted_faults [OF ex_full_core])
  show "running ex_full \<noteq> NULL" by (simp add: ex_full_def)
  show "spare ex_full PCB_item = {} \<or> spare ex_full PCBPtr_item = {}"
    by (simp add: ex_full_def ex_pool_blocks)
qed

end
