(* ===== verification/Resource_Calls.thy ===== *)
theory Resource_Calls
  imports Resource Example_State
begin

text \<open>
  The resource system calls: \<open>disastrOS_open_resource.c\<close>, \<open>disastrOS_close_resource.c\<close> and
  \<open>disastrOS_destroy_resource.c\<close>, and what they do to a well-formed state.
\<close>

subsection \<open>The calls\<close>

text \<open>Creating the descriptor of an opened resource: the last part of \<open>internal_openResource\<close>.\<close>

definition add_descriptor :: "kernel \<Rightarrow> ptr \<Rightarrow> kernel result" where
  "add_descriptor s res =
     bindE (Descriptor_alloc s (pcb_last_fd (pcb s (running s))) res (running s)) (\<lambda>(des, s).
     if des = NULL then Inr (set_retvalue (running s) DSOS_ERESOURCENOFD s)
     else
       let s = upd_pcb (running s) (\<lambda>c. c\<lparr>pcb_last_fd := pcb_last_fd c + 1\<rparr>) s in
       bindE (DescriptorPtr_alloc s des) (\<lambda>(desptr, s).
       bindE (k_append s (Descriptors (running s)) des) (\<lambda>(_, s).
       let s = upd_descriptor des (\<lambda>c. c\<lparr>des_ptr := desptr\<rparr>) s in
       bindE (k_append s (ResDescriptors res) desptr) (\<lambda>(_, s).
       Inr (set_retvalue (running s) (des_fd (descriptor s des)) s)))))"

definition internal_openResource :: "kernel \<Rightarrow> kernel result" where
  "internal_openResource s =
     check (running s \<noteq> NULL) NullDeref
     (let rid = (ucast (run_arg s 0) :: cint); type = (ucast (run_arg s 1) :: cint);
          open_mode = (ucast (run_arg s 2) :: cint) in
      bindE (ResourceList_byId s (resources_list s) rid) (\<lambda>res.
      if open_mode AND DSOS_CREATE \<noteq> 0 \<and> res \<noteq> NULL
      then Inr (set_retvalue (running s) DSOS_ERESOURCECREATE s)
      else
        bindE (if open_mode AND DSOS_CREATE \<noteq> 0 then
                 bindE (Resource_alloc s rid type) (\<lambda>(res, s).
                 bindE (k_append s ResourcesList res) (\<lambda>(_, s). Inr (res, s)))
               else Inr (res, s)) (\<lambda>(res, s).
        if res = NULL \<or> res_type (resource s res) \<noteq> type
        then Inr (set_retvalue (running s) DSOS_ERESOURCEOPEN s)
        else if open_mode AND DSOS_EXCL \<noteq> 0 \<and> lh_size (res_descriptors (resource s res)) \<noteq> 0
        then Inr (set_retvalue (running s) DSOS_ERESOURCENOEXCL s)
        else add_descriptor s res)))"

definition internal_closeResource :: "kernel \<Rightarrow> kernel result" where
  "internal_closeResource s =
     check (running s \<noteq> NULL) NullDeref
     (let fd = (ucast (run_arg s 0) :: cint) in
      bindE (DescriptorList_byFd s (pcb_descriptors (pcb s (running s))) fd) (\<lambda>des.
      if des = NULL then Inr (set_retvalue (running s) DSOS_ERESOURCECLOSE s)
      else
        bindE (k_detach s (Descriptors (running s)) des) (\<lambda>(des, s).
        check (des \<noteq> NULL) AssertFailed
        (let res = des_resource (descriptor s des) in
         check (res \<noteq> NULL) NullDeref
         (bindE (k_detach s (ResDescriptors res) (des_ptr (descriptor s des))) (\<lambda>(desptr, s).
          check (desptr \<noteq> NULL) AssertFailed
          (bindE (Descriptor_free s des) (\<lambda>(_, s).
           bindE (DescriptorPtr_free s desptr) (\<lambda>(_, s).
           Inr (set_retvalue (running s) 0 s)))))))))) "

definition internal_destroyResource :: "kernel \<Rightarrow> kernel result" where
  "internal_destroyResource s =
     check (running s \<noteq> NULL) NullDeref
     (let rid = (ucast (run_arg s 0) :: cint) in
      bindE (ResourceList_byId s (resources_list s) rid) (\<lambda>res.
      if res = NULL then Inr (set_retvalue (running s) DSOS_ERESOURCECLOSE s)
      else if lh_size (res_descriptors (resource s res)) \<noteq> 0
      then Inr (set_retvalue (running s) DSOS_ERESOURCEINUSE s)
      else
        bindE (k_detach s ResourcesList res) (\<lambda>(res, s).
        check (res \<noteq> NULL) AssertFailed
        (bindE (Resource_free s res) (\<lambda>(_, s). Inr (set_retvalue (running s) 0 s))))))"

subsection \<open>The invariant of descriptors\<close>

text \<open>
  \<open>desc_ok\<close>: every descriptor in the list of a process is one of that process, and is listed, by the
  pointer item it records, among the descriptors of its resource; a resource with open descriptors
  is in the global list.
\<close>

definition desc_ok :: "kernel \<Rightarrow> (list_loc \<Rightarrow> ptr list) \<Rightarrow> bool" where
  "desc_ok s L \<longleftrightarrow>
     (\<forall>p. \<forall>d\<in>set (L (Descriptors p)).
        des_pcb (descriptor s d) = p \<and>
        des_ptr (descriptor s d) \<in> set (L (ResDescriptors (des_resource (descriptor s d)))) \<and>
        dp_descriptor (descriptorptr s (des_ptr (descriptor s d))) = d) \<and>
     (\<forall>r. L (ResDescriptors r) \<noteq> [] \<longrightarrow> r \<in> set (L ResourcesList))"

lemma desc_ok_cong:
  assumes "desc_ok s L" and "descriptor s' = descriptor s" and "descriptorptr s' = descriptorptr s"
    and "\<And>p. L' (Descriptors p) = L (Descriptors p)" and "\<And>r. L' (ResDescriptors r) = L (ResDescriptors r)"
    and "set (L ResourcesList) \<subseteq> set (L' ResourcesList)"
  shows "desc_ok s' L'"
  using assms unfolding desc_ok_def by auto

lemma desc_ok_with_args [simp]: "desc_ok (with_args f s) L \<longleftrightarrow> desc_ok s L"
  by (simp add: desc_ok_def)

text \<open>The descriptor that the running process has under a descriptor number, or null.\<close>

abbreviation des_of_fd :: "kernel \<Rightarrow> (list_loc \<Rightarrow> ptr list) \<Rightarrow> cint \<Rightarrow> ptr" where
  "des_of_fd s L fd \<equiv> scan_result (\<lambda>d. des_fd (descriptor s d) = fd) (L (Descriptors (running s)))"

abbreviation res_named :: "kernel \<Rightarrow> (list_loc \<Rightarrow> ptr list) \<Rightarrow> cint \<Rightarrow> ptr" where
  "res_named s L rid \<equiv> scan_result (\<lambda>x. res_id (resource s x) = rid) (L ResourcesList)"

lemma des_lookup:
  assumes "core_ok s L" and "running s \<in> live s PCB_item"
  shows "DescriptorList_byFd s (pcb_descriptors (pcb s (running s))) fd = Inr (des_of_fd s L fd)"
  using DescriptorList_byFd_scan [OF assms(1), of "Descriptors (running s)" fd] assms(2) by simp

lemma res_lookup: "core_ok s L \<Longrightarrow> ResourceList_byId s (resources_list s) rid = Inr (res_named s L rid)"
  using ResourceList_byId_scan [of s L ResourcesList rid] by simp

lemma res_listed:
  assumes "core_ok s L" and "res_named s L rid \<noteq> NULL"
  shows "res_named s L rid \<in> set (L ResourcesList)" and "res_named s L rid \<in> live s Resource_item"
    and "lh_size (res_descriptors (resource s (res_named s L rid))) = 0 \<longleftrightarrow> L (ResDescriptors (res_named s L rid)) = []"
proof -
  show r: "res_named s L rid \<in> set (L ResourcesList)" using scan_result_mem assms(2) by blast
  then show l: "res_named s L rid \<in> live s Resource_item"
    using core_mem [OF assms(1), of _ ResourcesList] by (simp del: pool_of.simps)
  then have "ResDescriptors (res_named s L rid) \<in> heads s" by (simp del: pool_of.simps)
  from core_size_zero [OF assms(1) this]
  show "lh_size (res_descriptors (resource s (res_named s L rid))) = 0 \<longleftrightarrow> L (ResDescriptors (res_named s L rid)) = []"
    by simp
qed

subsection \<open>close\<close>

definition res_closed :: "kernel \<Rightarrow> (list_loc \<Rightarrow> ptr list) \<Rightarrow> ptr \<Rightarrow> list_loc \<Rightarrow> ptr list" where
  "res_closed s L d =
     (let r = des_resource (descriptor s d) in
      L(Descriptors (des_pcb (descriptor s d)) := remove1 d (L (Descriptors (des_pcb (descriptor s d)))),
        ResDescriptors r := remove1 (des_ptr (descriptor s d)) (L (ResDescriptors r))))"

lemma desc_ok_closed:
  assumes c: "core_ok s L" and k: "desc_ok s L" and d: "d \<in> set (L (Descriptors p))"
    and s': "descriptor s' = descriptor s" "descriptorptr s' = descriptorptr s"
  shows "desc_ok s' (res_closed s L d)"
proof -
  let ?C = "res_closed s L d" and ?r = "des_resource (descriptor s d)" and ?w = "des_ptr (descriptor s d)"
  have p: "des_pcb (descriptor s d) = p" using k d unfolding desc_ok_def by blast
  have lists: "?C (Descriptors q) = (if q = p then remove1 d (L (Descriptors q)) else L (Descriptors q))"
    "?C (ResDescriptors r) = (if r = ?r then remove1 ?w (L (ResDescriptors r)) else L (ResDescriptors r))"
    "?C ResourcesList = L ResourcesList" for q r by (simp_all add: res_closed_def Let_def p)
  have dd: "distinct (L l)" for l by (rule core_distinct [OF c])
  have "x \<in> set (L (Descriptors q)) \<and> x \<noteq> d" if "x \<in> set (?C (Descriptors q))" for x q
    using that dd [of "Descriptors q"] core_apart [OF c d, of "Descriptors q"] unfolding lists
    by (auto split: if_splits)
  moreover have "des_ptr (descriptor s x) \<in> set (?C (ResDescriptors (des_resource (descriptor s x))))"
    if "x \<in> set (L (Descriptors q))" "x \<noteq> d" for x q
  proof -
    have "dp_descriptor (descriptorptr s (des_ptr (descriptor s x))) = x" "dp_descriptor (descriptorptr s ?w) = d"
      "des_ptr (descriptor s x) \<in> set (L (ResDescriptors (des_resource (descriptor s x))))"
      using k that(1) d unfolding desc_ok_def by blast+
    then show ?thesis using that(2) dd unfolding lists by auto
  qed
  moreover have "r \<in> set (?C ResourcesList)" if "?C (ResDescriptors r) \<noteq> []" for r
  proof -
    have "L (ResDescriptors r) \<noteq> []" using that unfolding lists by (auto split: if_splits)
    then show ?thesis using k unfolding desc_ok_def lists by blast
  qed
  ultimately show ?thesis using k unfolding desc_ok_def s' by blast
qed

text \<open>A descriptor of \<open>p\<close> and its pointer item are taken off their lists.\<close>

lemma detach_descriptor:
  assumes c: "core_ok s L" and k: "desc_ok s L" and d: "d \<in> set (L (Descriptors p))"
  obtains s1 s2 where "k_detach s (Descriptors p) d = Inr (d, s1)"
    "k_detach s1 (ResDescriptors (des_resource (descriptor s d))) (des_ptr (descriptor s d)) =
      Inr (des_ptr (descriptor s d), s2)"
    "des_resource (descriptor s d) \<noteq> NULL" "des_ptr (descriptor s d) \<noteq> NULL"
    "core_ok s2 (res_closed s L d)" "idle s2 (res_closed s L d) Descriptor_item d"
    "idle s2 (res_closed s L d) DescriptorPtr_item (des_ptr (descriptor s d))"
    "\<And>k y. idle s L k y \<Longrightarrow> idle s2 (res_closed s L d) k y"
    "quiet s2 s" "descriptor s1 = descriptor s" "\<And>k. pool_of s2 k = pool_of s k"
    "\<And>q. pcb_status (pcb s2 q) = pcb_status (pcb s q)"
    "\<And>q. pcb_timer (pcb s2 q) = pcb_timer (pcb s q)"
proof -
  let ?r = "des_resource (descriptor s d)" and ?w = "des_ptr (descriptor s d)"
  have p: "des_pcb (descriptor s d) = p" and wm: "?w \<in> set (L (ResDescriptors ?r))"
    using k d unfolding desc_ok_def by blast+
  have "?r \<in> live s Resource_item" using core_mem [OF c wm] by (simp del: pool_of.simps)
  then have rn: "?r \<noteq> NULL" by (rule live_nonnull [OF c])
  obtain as bs where ab: "L (Descriptors p) = as @ d # bs" "remove1 d (L (Descriptors p)) = as @ bs"
    using remove1_split [OF d] .
  obtain as' bs' where ab': "L (ResDescriptors ?r) = as' @ ?w # bs'" "remove1 ?w (L (ResDescriptors ?r)) = as' @ bs'"
    using remove1_split [OF wm] .
  let ?L1 = "L(Descriptors p := as @ bs)" and ?L2 = "res_closed s L d"
  obtain a b where d1: "k_detach s (Descriptors p) d = Inr (d, put_list (Descriptors p) a b s)"
      "core_ok (put_list (Descriptors p) a b s) ?L1" "idle (put_list (Descriptors p) a b s) ?L1 Descriptor_item d"
      "\<And>k y. idle s L k y \<Longrightarrow> idle (put_list (Descriptors p) a b s) ?L1 k y"
    by (rule core_detachE [OF c ab(1)]) (simp, simp, blast)
  let ?s1 = "put_list (Descriptors p) a b s"
  have e: "?L1 (ResDescriptors ?r) = as' @ ?w # bs'" using ab'(1) by simp
  have L2: "?L2 = ?L1(ResDescriptors ?r := as' @ bs')" by (simp add: res_closed_def Let_def p ab(2) ab'(2))
  obtain a' b' where d2: "k_detach ?s1 (ResDescriptors ?r) ?w = Inr (?w, put_list (ResDescriptors ?r) a' b' ?s1)"
      "core_ok (put_list (ResDescriptors ?r) a' b' ?s1) ?L2"
      "idle (put_list (ResDescriptors ?r) a' b' ?s1) ?L2 DescriptorPtr_item ?w"
      "\<And>k y. idle ?s1 ?L1 k y \<Longrightarrow> idle (put_list (ResDescriptors ?r) a' b' ?s1) ?L2 k y"
    by (rule core_detachE [OF d1(2) e _ L2, of DescriptorPtr_item]) (simp, blast)
  show ?thesis
    by (rule that [OF d1(1) d2(1) rn core_nonnull [OF c wm] d2(2) d2(4) [OF d1(3)] d2(3) d2(4) [OF d1(4)]])
      (simp_all add: quiet_def)
qed

text \<open>Both are given back, in either order.\<close>

lemma free_descriptors:
  assumes c: "core_ok s L" and d: "idle s L Descriptor_item d" and w: "idle s L DescriptorPtr_item w"
  shows "\<exists>s'. bindE (Descriptor_free s d) (\<lambda>(_, s). DescriptorPtr_free s w) = Inr (0, s') \<and>
    bindE (DescriptorPtr_free s w) (\<lambda>(_, s). Descriptor_free s d) = Inr (0, s') \<and>
    pcb s' = pcb s \<and>
    core_ok s' L \<and> quiet s' s \<and> (\<forall>k y. k \<noteq> Descriptor_item \<longrightarrow> k \<noteq> DescriptorPtr_item \<longrightarrow> idle s L k y \<longrightarrow> idle s' L k y) \<and>
    (\<forall>k. k \<noteq> Descriptor_item \<and> k \<noteq> DescriptorPtr_item \<longrightarrow> pool_of s' k = pool_of s k) \<and>
    live s' Descriptor_item = live s Descriptor_item - {d} \<and>
    live s' DescriptorPtr_item = live s DescriptorPtr_item - {w}"
proof -
  obtain A where A: "Descriptor_free s d = Inr (0, s\<lparr>descriptor_mem := A\<rparr>)"
      "freed Descriptor_item d s (s\<lparr>descriptor_mem := A\<rparr>)" "ar_cells A = descriptor s"
    using Descriptor_free_live [OF c idleD(1) [OF d]] by blast
  let ?s4 = "s\<lparr>descriptor_mem := A\<rparr>"
  note f4 = freed_core_plain [OF c A(2) d born_other(3)]
  have i4: "idle ?s4 L DescriptorPtr_item w" by (rule f4(2) [OF w]) simp
  obtain B where B: "DescriptorPtr_free ?s4 w = Inr (0, ?s4\<lparr>descriptorptr_mem := B\<rparr>)"
      "freed DescriptorPtr_item w ?s4 (?s4\<lparr>descriptorptr_mem := B\<rparr>)" "ar_cells B = descriptorptr ?s4"
    using DescriptorPtr_free_live [OF f4(1) idleD(1) [OF i4]] by blast
  let ?s5 = "s\<lparr>descriptor_mem := A, descriptorptr_mem := B\<rparr>"
  note f5 = freed_core_plain [OF f4(1) B(2) i4 born_other(4)]
  have "DescriptorPtr_free s w = Inr (0, s\<lparr>descriptorptr_mem := B\<rparr>)"
    using B(1) by (auto simp: DescriptorPtr_free_def bindE_def split: sum.splits dest: arg_cong [of _ _ descriptorptr_mem])
  moreover have "Descriptor_free (s\<lparr>descriptorptr_mem := B\<rparr>) d = Inr (0, ?s5)"
    using A(1) by (auto simp: Descriptor_free_def bindE_def split: sum.splits dest: arg_cong [of _ _ descriptor_mem])
  moreover have "idle ?s5 L k y" if "idle s L k y" "k \<noteq> Descriptor_item" "k \<noteq> DescriptorPtr_item" for k y
    using f5(2) [OF f4(2) [OF that(1)]] that(2,3) by simp
  moreover have "quiet ?s5 s" using A(3) B(3) by (simp add: quiet_def)
  moreover have "live ?s5 Descriptor_item = live s Descriptor_item - {d}"
      "live ?s5 DescriptorPtr_item = live s DescriptorPtr_item - {w}"
    using freedD(3) [OF A(2)] freedD(3) [OF B(2)] by simp_all
  moreover have "\<forall>k. k \<noteq> Descriptor_item \<and> k \<noteq> DescriptorPtr_item \<longrightarrow> pool_of ?s5 k = pool_of s k"
    unfolding all_kinds by simp
  ultimately show ?thesis using A(1) B(1) f5(1) by (intro exI [of _ ?s5]) simp
qed

lemma closeResource_done:
  assumes c: "core_ok s L" and k: "desc_ok s L" and r: "running s \<in> live s PCB_item"
    and d: "des_of_fd s L (ucast (run_arg s 0)) = d" "d \<noteq> NULL"
  shows "\<exists>s'. internal_closeResource s = Inr s' \<and> core_ok s' (res_closed s L d) \<and> desc_ok s' (res_closed s L d) \<and>
    (\<forall>y. idle s L PCB_item y \<longrightarrow> idle s' (res_closed s L d) PCB_item y) \<and>
    quiet (set_retvalue (running s) (pcb_syscall_retvalue (pcb s (running s))) s') s \<and>
    pcb_syscall_retvalue (pcb s' (running s)) = 0 \<and>
    (\<forall>k. k \<noteq> Descriptor_item \<and> k \<noteq> DescriptorPtr_item \<longrightarrow> pool_of s' k = pool_of s k) \<and>
    live s' Descriptor_item = live s Descriptor_item - {d} \<and>
    live s' DescriptorPtr_item = live s DescriptorPtr_item - {des_ptr (descriptor s d)}"
proof -
  let ?r = "running s" and ?w = "des_ptr (descriptor s d)" and ?C = "res_closed s L d"
  have dm: "d \<in> set (L (Descriptors ?r))"
    using scan_result_mem [where xs = "L (Descriptors ?r)"] d by blast
  obtain s1 s2 where d2: "k_detach s (Descriptors ?r) d = Inr (d, s1)"
    "k_detach s1 (ResDescriptors (des_resource (descriptor s d))) ?w = Inr (?w, s2)"
    "des_resource (descriptor s d) \<noteq> NULL" "?w \<noteq> NULL" "core_ok s2 ?C" "idle s2 ?C Descriptor_item d"
    "idle s2 ?C DescriptorPtr_item ?w" "\<And>k y. idle s L k y \<Longrightarrow> idle s2 ?C k y"
    "quiet s2 s" "descriptor s1 = descriptor s" "\<And>k. pool_of s2 k = pool_of s k"
    by (rule detach_descriptor [OF c k dm]) blast
  obtain s3 where s3: "bindE (Descriptor_free s2 d) (\<lambda>(_, s). DescriptorPtr_free s ?w) = Inr (0, s3)"
      "core_ok s3 ?C" "quiet s3 s2"
      "\<forall>k y. k \<noteq> Descriptor_item \<longrightarrow> k \<noteq> DescriptorPtr_item \<longrightarrow> idle s2 ?C k y \<longrightarrow> idle s3 ?C k y"
      "live s3 Descriptor_item = live s2 Descriptor_item - {d}"
      "live s3 DescriptorPtr_item = live s2 DescriptorPtr_item - {?w}"
      "\<forall>k. k \<noteq> Descriptor_item \<and> k \<noteq> DescriptorPtr_item \<longrightarrow> pool_of s3 k = pool_of s2 k"
    using free_descriptors [OF d2(5-7)] by blast
  have q: "quiet s3 s" by (rule quiet_trans [OF s3(3) d2(9)])
  then have run3: "running s3 = ?r" by (simp add: quiet_def)
  let ?s4 = "set_retvalue ?r 0 s3"
  from s3(1) obtain v s' where f: "Descriptor_free s2 d = Inr (v, s')" "DescriptorPtr_free s' ?w = Inr (0, s3)"
    by (auto simp: bindE_def split: sum.splits)
  have "internal_closeResource s = Inr ?s4"
    using live_nonnull [OF c r] des_lookup [OF c r] d d2(1-4,10) f run3
    by (auto simp: internal_closeResource_def Let_def)
  moreover have "live ?s4 Descriptor_item = live s Descriptor_item - {d}"
      "live ?s4 DescriptorPtr_item = live s DescriptorPtr_item - {?w}"
    using s3(5,6) unfolding d2(11) core_updates by simp_all
  moreover have "\<forall>k. k \<noteq> Descriptor_item \<and> k \<noteq> DescriptorPtr_item \<longrightarrow> pool_of ?s4 k = pool_of s k"
    using s3(7) unfolding d2(11) core_updates .
  moreover have "core_ok ?s4 ?C" using s3(2) by simp
  moreover have "desc_ok ?s4 ?C"
    using q by (intro desc_ok_closed [OF c k dm]) (simp_all add: quiet_def set_retvalue_def upd_pcb_def)
  moreover have "idle ?s4 ?C PCB_item y" if "idle s L PCB_item y" for y
    using s3(4) d2(8) [OF that] by simp
  moreover have "quiet (set_retvalue ?r (pcb_syscall_retvalue (pcb s ?r)) ?s4) s"
    using q by (simp add: quiet_def set_retvalue_def upd_pcb_def)
  moreover have "pcb_syscall_retvalue (pcb ?s4 ?r) = 0" by (simp add: set_retvalue_def upd_pcb_def)
  ultimately show ?thesis by blast
qed

subsection \<open>open\<close>

definition res_opened :: "kernel \<Rightarrow> (list_loc \<Rightarrow> ptr list) \<Rightarrow> ptr \<Rightarrow> ptr \<Rightarrow> ptr \<Rightarrow> list_loc \<Rightarrow> ptr list" where
  "res_opened s L r d w = L(Descriptors (running s) := L (Descriptors (running s)) @ [d],
     ResDescriptors r := L (ResDescriptors r) @ [w])"

text \<open>The state after the running process got the descriptor \<open>d\<close>, with pointer item \<open>w\<close>, on \<open>r\<close>.\<close>

definition holds_resource :: "kernel \<Rightarrow> (list_loc \<Rightarrow> ptr list) \<Rightarrow> kernel \<Rightarrow> ptr \<Rightarrow> ptr \<Rightarrow> ptr \<Rightarrow> bool" where
  "holds_resource s L s' r d w \<longleftrightarrow>
     d \<in> spare s Descriptor_item \<and> w \<in> spare s DescriptorPtr_item \<and>
     core_ok s' (res_opened s L r d w) \<and> desc_ok s' (res_opened s L r d w) \<and>
     (\<forall>y. idle s L PCB_item y \<longrightarrow> idle s' (res_opened s L r d w) PCB_item y) \<and>
     running s' = running s \<and>
     pcb_syscall_retvalue (pcb s' (running s)) = pcb_last_fd (pcb s (running s)) \<and>
     pcb_last_fd (pcb s' (running s)) = pcb_last_fd (pcb s (running s)) + 1 \<and>
     (\<forall>p. pcb_status (pcb s' p) = pcb_status (pcb s p)) \<and>
     descriptor s' = (descriptor s)(d := \<lparr>des_pcb = running s, des_resource = r,
       des_fd = pcb_last_fd (pcb s (running s)), des_ptr = w\<rparr>) \<and>
     descriptorptr s' = (descriptorptr s)(w := \<lparr>dp_descriptor = d\<rparr>) \<and>
     (\<forall>k. k \<noteq> Descriptor_item \<and> k \<noteq> DescriptorPtr_item \<longrightarrow> pool_of s' k = pool_of s k) \<and>
     live s' Descriptor_item = insert d (live s Descriptor_item) \<and>
     live s' DescriptorPtr_item = insert w (live s DescriptorPtr_item) \<and>
     (\<forall>k. res_id (resource s' k) = res_id (resource s k) \<and> res_type (resource s' k) = res_type (resource s k))"

lemma desc_ok_opened:
  assumes c: "core_ok s L" and k: "desc_ok s L" and r: "r \<in> set (L ResourcesList)"
    and d: "d \<notin> live s Descriptor_item" and w: "w \<notin> live s DescriptorPtr_item"
    and s': "descriptor s' = (descriptor s)(d := \<lparr>des_pcb = running s, des_resource = r, des_fd = f, des_ptr = w\<rparr>)"
      "descriptorptr s' = (descriptorptr s)(w := \<lparr>dp_descriptor = d\<rparr>)"
  shows "desc_ok s' (res_opened s L r d w)"
proof -
  let ?O = "res_opened s L r d w"
  have old: "x \<noteq> d \<and> des_pcb (descriptor s x) = p \<and>
      des_ptr (descriptor s x) \<in> set (L (ResDescriptors (des_resource (descriptor s x)))) \<and>
      des_ptr (descriptor s x) \<noteq> w \<and> dp_descriptor (descriptorptr s (des_ptr (descriptor s x))) = x"
    if "x \<in> set (L (Descriptors p))" for x p
  proof -
    have a: "des_pcb (descriptor s x) = p"
      "des_ptr (descriptor s x) \<in> set (L (ResDescriptors (des_resource (descriptor s x))))"
      "dp_descriptor (descriptorptr s (des_ptr (descriptor s x))) = x"
      using k that unfolding desc_ok_def by blast+
    moreover have "x \<in> live s Descriptor_item" using core_mem [OF c that] by (simp del: pool_of.simps)
    moreover have "des_ptr (descriptor s x) \<in> live s DescriptorPtr_item"
      using core_mem [OF c a(2)] by (simp del: pool_of.simps)
    ultimately show ?thesis using d w by blast
  qed
  have "des_pcb (descriptor s' x) = p \<and>
      des_ptr (descriptor s' x) \<in> set (?O (ResDescriptors (des_resource (descriptor s' x)))) \<and>
      dp_descriptor (descriptorptr s' (des_ptr (descriptor s' x))) = x"
    if "x \<in> set (?O (Descriptors p))" for x p
  proof (cases "x = d")
    case True
    with that old [of d p] have "p = running s" by (auto simp: res_opened_def split: if_splits)
    with True show ?thesis by (simp add: s' res_opened_def)
  next
    case False
    with that have "x \<in> set (L (Descriptors p))" by (auto simp: res_opened_def split: if_splits)
    from old [OF this] False show ?thesis by (auto simp: s' res_opened_def)
  qed
  moreover have "n \<in> set (?O ResourcesList)" if "?O (ResDescriptors n) \<noteq> []" for n
    using that r k unfolding desc_ok_def by (auto simp: res_opened_def split: if_splits)
  ultimately show ?thesis unfolding desc_ok_def by blast
qed

lemma add_descriptor_done:
  assumes c: "core_ok s L" and k: "desc_ok s L" and r: "running s \<in> live s PCB_item"
    and m: "m \<in> set (L ResourcesList)"
    and sp: "spare s Descriptor_item \<noteq> {}" "spare s DescriptorPtr_item \<noteq> {}"
  shows "\<exists>s' d w. add_descriptor s m = Inr s' \<and> holds_resource s L s' m d w"
  using c
proof (cases rule: Descriptor_alloc_cases [of s L "pcb_last_fd (pcb s (running s))" m "running s"])
  case exhausted
  with sp(1) show ?thesis by simp
next
  case (block d A)
  let ?r = "running s" and ?f = "pcb_last_fd (pcb s (running s))"
  let ?s1 = "s\<lparr>descriptor_mem := A\<rparr>"
  let ?s2 = "upd_pcb ?r (\<lambda>c. c\<lparr>pcb_last_fd := pcb_last_fd c + 1\<rparr>) ?s1"
  note a1 = allocd_core [OF c block(2)]
  have d: "d \<noteq> NULL" "d \<in> spare s Descriptor_item" "d \<notin> live s Descriptor_item"
      "live ?s1 Descriptor_item = insert d (live s Descriptor_item)"
    using block(2) by (simp_all add: allocd_def)
  have c2: "core_ok ?s2 L" "idle ?s2 L Descriptor_item d" "\<And>k y. idle s L k y \<Longrightarrow> idle ?s2 L k y"
    using a1 by simp_all
  from c2(1) show ?thesis
  proof (cases rule: DescriptorPtr_alloc_cases [of ?s2 L d])
    case exhausted
    with sp(2) show ?thesis by (simp add: upd_pcb_def)
  next
    case b3: (block w B)
    let ?s3 = "?s2\<lparr>descriptorptr_mem := B\<rparr>" and ?L4 = "L(Descriptors ?r := L (Descriptors ?r) @ [d])"
    note a3 = allocd_core [OF c2(1) b3(2)]
    have w: "w \<in> spare s DescriptorPtr_item" "w \<notin> live s DescriptorPtr_item"
        "live ?s3 DescriptorPtr_item = insert w (live s DescriptorPtr_item)"
      using b3(2) by (simp_all add: allocd_def upd_pcb_def)
    have h: "Descriptors ?r \<in> heads ?s3" using r by (simp add: upd_pcb_def)
    obtain a b where i4: "k_append ?s3 (Descriptors ?r) d = Inr (d, put_list (Descriptors ?r) a b ?s3)"
        "core_ok (put_list (Descriptors ?r) a b ?s3) ?L4"
        "\<And>k y. idle ?s3 L k y \<Longrightarrow> (k = Descriptor_item \<Longrightarrow> y \<noteq> d) \<Longrightarrow>
          idle (put_list (Descriptors ?r) a b ?s3) ?L4 k y"
      by (rule core_appendE [OF a3(1) a3(3) [OF c2(2)] h, of ?L4]) (simp, simp, blast)
    let ?s4 = "upd_descriptor d (\<lambda>c. c\<lparr>des_ptr := w\<rparr>) (put_list (Descriptors ?r) a b ?s3)"
    have c4: "core_ok ?s4 ?L4" "idle ?s4 ?L4 DescriptorPtr_item w" using i4(2) i4(3) [OF a3(2)] by simp_all
    have "m \<in> live s Resource_item" using core_mem [OF c m] by (simp del: pool_of.simps)
    then have h5: "ResDescriptors m \<in> heads ?s4" by (simp add: upd_pcb_def upd_descriptor_def)
    obtain a' b' where i5: "k_append ?s4 (ResDescriptors m) w = Inr (w, put_list (ResDescriptors m) a' b' ?s4)"
        "core_ok (put_list (ResDescriptors m) a' b' ?s4) (res_opened s L m d w)"
        "\<And>k y. idle ?s4 ?L4 k y \<Longrightarrow> (k = DescriptorPtr_item \<Longrightarrow> y \<noteq> w) \<Longrightarrow>
          idle (put_list (ResDescriptors m) a' b' ?s4) (res_opened s L m d w) k y"
      by (rule core_appendE [OF c4 h5, of "res_opened s L m d w"]) (simp, simp add: res_opened_def, blast)
    let ?s6 = "set_retvalue ?r ?f (put_list (ResDescriptors m) a' b' ?s4)"
    note defs = set_retvalue_def upd_pcb_def upd_descriptor_def
    have cells: "descriptor ?s6 = (descriptor s)(d := \<lparr>des_pcb = ?r, des_resource = m, des_fd = ?f, des_ptr = w\<rparr>)"
        "descriptorptr ?s6 = (descriptorptr s)(w := \<lparr>dp_descriptor = d\<rparr>)"
      using block(3) b3(3)
      by (simp add: defs, cases "descriptor s d", simp) (simp add: defs b3(3), cases "descriptorptr s w", simp)
    have "add_descriptor s m = Inr ?s6"
      using d(1) block(1,3) i4(1) b3(1) i5(1)
      by (simp add: add_descriptor_def Let_def del: put_list_lists) (simp add: defs)
    moreover have "holds_resource s L ?s6 m d w"
      unfolding holds_resource_def
    proof (intro conjI)
      show "core_ok ?s6 (res_opened s L m d w)" using i5(2) by simp
      show "desc_ok ?s6 (res_opened s L m d w)" by (rule desc_ok_opened [OF c k m d(3) w(2) cells])
      show "\<forall>y. idle s L PCB_item y \<longrightarrow> idle ?s6 (res_opened s L m d w) PCB_item y"
      proof (intro allI impI)
        fix y
        assume "idle s L PCB_item y"
        then have "idle ?s3 L PCB_item y" by (intro a3(3) c2(3))
        from i4(3) [OF this] have "idle ?s4 ?L4 PCB_item y" by simp
        from i5(3) [OF this] show "idle ?s6 (res_opened s L m d w) PCB_item y" by simp
      qed
      show "descriptor ?s6 = (descriptor s)(d := \<lparr>des_pcb = ?r, des_resource = m, des_fd = ?f, des_ptr = w\<rparr>)"
        "descriptorptr ?s6 = (descriptorptr s)(w := \<lparr>dp_descriptor = d\<rparr>)" by (rule cells)+
      show "live ?s6 Descriptor_item = insert d (live s Descriptor_item)"
        using d(4) by (simp add: defs)
      show "live ?s6 DescriptorPtr_item = insert w (live s DescriptorPtr_item)"
        using w(3) by (simp add: defs)
      show "\<forall>k. k \<noteq> Descriptor_item \<and> k \<noteq> DescriptorPtr_item \<longrightarrow> pool_of ?s6 k = pool_of s k"
        unfolding all_kinds by (simp add: defs)
    qed (use d(2) w(1) in \<open>simp_all add: defs\<close>)
    ultimately show ?thesis by blast
  qed
qed

lemma add_descriptor_nofd:
  assumes c: "core_ok s L" and sp: "spare s Descriptor_item = {}"
  shows "add_descriptor s m = Inr (set_retvalue (running s) DSOS_ERESOURCENOFD s)"
  using c
proof (cases rule: Descriptor_alloc_cases [of s L "pcb_last_fd (pcb s (running s))" m "running s"])
  case exhausted
  then show ?thesis by (simp add: add_descriptor_def)
next
  case (block d A)
  with sp show ?thesis by (simp add: allocd_def)
qed

lemma add_descriptor_exhausted:
  assumes c: "core_ok s L" and r: "running s \<in> live s PCB_item"
    and sp: "spare s Descriptor_item \<noteq> {}" "spare s DescriptorPtr_item = {}"
  shows "add_descriptor s m = Inl NullDeref"
  using c
proof (cases rule: Descriptor_alloc_cases [of s L "pcb_last_fd (pcb s (running s))" m "running s"])
  case exhausted
  with sp(1) show ?thesis by simp
next
  case (block d A)
  let ?r = "running s"
  let ?s2 = "upd_pcb ?r (\<lambda>c. c\<lparr>pcb_last_fd := pcb_last_fd c + 1\<rparr>) (s\<lparr>descriptor_mem := A\<rparr>)"
  have d: "d \<noteq> NULL" using block(2) by (simp add: allocd_def)
  have c2: "core_ok ?s2 L" "idle ?s2 L Descriptor_item d" using allocd_core [OF c block(2)] by simp_all
  have h: "Descriptors ?r \<in> heads ?s2" using r by (simp add: upd_pcb_def)
  obtain a b where i: "k_append ?s2 (Descriptors ?r) d = Inr (d, put_list (Descriptors ?r) a b ?s2)"
    by (rule core_appendE [OF c2 h, of "L(Descriptors ?r := L (Descriptors ?r) @ [d])"]) (simp, simp, blast)
  from c2(1) show ?thesis
  proof (cases rule: DescriptorPtr_alloc_cases [of ?s2 L d])
    case exhausted
    then show ?thesis using d block(1) i
      by (simp add: add_descriptor_def Let_def del: put_list_lists) (simp add: upd_pcb_def k_null)
  next
    case (block w B)
    with sp(2) show ?thesis by (simp add: allocd_def upd_pcb_def)
  qed
qed

text \<open>The state after the resource \<open>r\<close> was created.\<close>

definition res_listed :: "(list_loc \<Rightarrow> ptr list) \<Rightarrow> ptr \<Rightarrow> list_loc \<Rightarrow> ptr list" where
  "res_listed L r = L(ResourcesList := L ResourcesList @ [r])"

definition res_created :: "kernel \<Rightarrow> (list_loc \<Rightarrow> ptr list) \<Rightarrow> cint \<Rightarrow> cint \<Rightarrow> ptr \<Rightarrow> kernel \<Rightarrow> bool" where
  "res_created s L rid type r s' \<longleftrightarrow>
     r \<in> spare s Resource_item \<and> r \<notin> live s Resource_item \<and>
     core_ok s' (res_listed L r) \<and> (\<forall>y. idle s L PCB_item y \<longrightarrow> idle s' (res_listed L r) PCB_item y) \<and>
     (\<forall>k. k \<noteq> Resource_item \<longrightarrow> pool_of s' k = pool_of s k) \<and>
     live s' Resource_item = insert r (live s Resource_item) \<and>
     running s' = running s \<and> pcb s' = pcb s \<and>
     descriptor s' = descriptor s \<and> descriptorptr s' = descriptorptr s \<and>
     (\<forall>k. res_id (resource s' k) = (if k = r then rid else res_id (resource s k)) \<and>
       res_type (resource s' k) = (if k = r then type else res_type (resource s k)))"

lemma desc_ok_created: "desc_ok s L \<Longrightarrow> res_created s L rid type r s' \<Longrightarrow> desc_ok s' (res_listed L r)"
  by (auto simp: desc_ok_def res_created_def res_listed_def)

lemma create_resource:
  assumes c: "core_ok s L"
  obtains (exhausted) "spare s Resource_item = {}"
      "bindE (Resource_alloc s rid type) (\<lambda>(r, s). bindE (k_append s ResourcesList r) (\<lambda>(_, s). Inr (r, s))) = Inl NullDeref"
  | (created) r s' where "res_created s L rid type r s'" "r \<noteq> NULL"
      "bindE (Resource_alloc s rid type) (\<lambda>(r, s). bindE (k_append s ResourcesList r) (\<lambda>(_, s). Inr (r, s))) = Inr (r, s')"
  using c
proof (cases rule: Resource_alloc_cases [of s L rid type])
  case exhausted
  then show ?thesis by (intro that(1)) (simp_all add: k_append_def k_insert_def List_insert_def)
next
  case (block r A)
  let ?s1 = "s\<lparr>resource_mem := A\<rparr>"
  note a1 = allocd_core [OF c block(2)]
  have r: "r \<noteq> NULL" "r \<in> spare s Resource_item" "r \<notin> live s Resource_item"
      "live ?s1 Resource_item = insert r (live s Resource_item)"
    using block(2) by (simp_all add: allocd_def)
  obtain a b where i: "k_append ?s1 ResourcesList r = Inr (r, put_list ResourcesList a b ?s1)"
      "core_ok (put_list ResourcesList a b ?s1) (res_listed L r)"
      "\<And>k y. idle ?s1 L k y \<Longrightarrow> (k = Resource_item \<Longrightarrow> y \<noteq> r) \<Longrightarrow>
        idle (put_list ResourcesList a b ?s1) (res_listed L r) k y"
    by (rule core_appendE [OF a1(1,2), of ResourcesList "res_listed L r"]) (simp, simp, simp add: res_listed_def, blast)
  let ?s2 = "put_list ResourcesList a b ?s1"
  have "pool_of ?s2 k = pool_of s k" if "k \<noteq> Resource_item" for k
    using that by (cases k) simp_all
  moreover have "pcb ?s2 = pcb s" by (simp add: put_list_def)
  moreover have "idle ?s2 (res_listed L r) PCB_item y" if "idle s L PCB_item y" for y
    by (rule i(3) [OF a1(3) [OF that]]) simp
  ultimately have "res_created s L rid type r ?s2"
    unfolding res_created_def using i(2) r block(3) by (simp del: pool_of.simps)
  moreover have "bindE (Resource_alloc s rid type) (\<lambda>(r, s). bindE (k_append s ResourcesList r) (\<lambda>(_, s). Inr (r, s))) = Inr (r, ?s2)"
    using block(1) i(1) by (simp del: put_list_lists)
  ultimately show ?thesis using r(1) that(2) by blast
qed

subsection \<open>Properties of open, close and destroy\<close>

text \<open>What opening the listed resource \<open>r\<close> amounts to, once it has been found.\<close>

definition opens :: "kernel \<Rightarrow> kernel \<Rightarrow> (list_loc \<Rightarrow> ptr list) \<Rightarrow> ptr \<Rightarrow> bool" where
  "opens s s1 L r \<longleftrightarrow>
     (if spare s1 Descriptor_item = {}
      then internal_openResource s = Inr (set_retvalue (running s) DSOS_ERESOURCENOFD s1)
      else if spare s1 DescriptorPtr_item = {} then internal_openResource s = Inl NullDeref
      else \<exists>s' d w. internal_openResource s = Inr s' \<and> holds_resource s1 L s' r d w)"

lemma opens_done:
  assumes "internal_openResource s = add_descriptor s1 r" and "core_ok s1 L" and "desc_ok s1 L"
    and "running s1 \<in> live s1 PCB_item" and "r \<in> set (L ResourcesList)" and "running s1 = running s"
  shows "opens s s1 L r"
  unfolding opens_def assms(1)
  using add_descriptor_nofd [OF assms(2), of r] add_descriptor_exhausted [OF assms(2,4), of r]
    add_descriptor_done [OF assms(2-5)]
  unfolding assms(6) by (intro if_intro) blast+

lemma openResource_create:
  assumes "core_ok s L" and "desc_ok s L" and "running s \<in> live s PCB_item"
    and "rid = ucast (run_arg s 0)"
    and "mode = (ucast (run_arg s 2) :: cint)" and "mode AND DSOS_CREATE \<noteq> 0" and "type = ucast (run_arg s 1)"
    and "res_named s L rid = NULL" and "spare s Resource_item \<noteq> {}"
  shows "\<exists>r s1. res_created s L rid type r s1 \<and> opens s s1 (res_listed L r) r"
  using assms(1)
proof (cases rule: create_resource [of s L rid type])
  case exhausted
  with assms(9) show ?thesis by simp
next
  case (created r1 s1)
  have look: "ResourceList_byId s (resources_list s) rid = Inr NULL" using res_lookup [OF assms(1)] assms(8) by simp
  have c1: "core_ok s1 (res_listed L r1)" "running s1 = running s" "r1 \<in> set (res_listed L r1 ResourcesList)"
      "spare s1 DescriptorPtr_item = spare s DescriptorPtr_item" "live s1 PCB_item = live s PCB_item"
      "res_type (resource s1 r1) = type"
    using created(1) unfolding res_created_def by (simp_all add: res_listed_def del: pool_of.simps)
  have "ResDescriptors r1 \<notin> heads s" using created(1) unfolding res_created_def by (simp del: pool_of.simps)
  then have "res_listed L r1 (ResDescriptors r1) = []" using core_dead [OF assms(1)] by (simp add: res_listed_def)
  moreover have "ResDescriptors r1 \<in> heads s1" using core_mem [OF c1(1,3)] by (simp del: pool_of.simps)
  ultimately have "lh_size (res_descriptors (resource s1 r1)) = 0"
    using core_size_zero [OF c1(1), of "ResDescriptors r1"] by simp
  then have go: "internal_openResource s = add_descriptor s1 r1"
    using assms(6) created(2,3) c1(6) look live_nonnull [OF assms(1,3)] unfolding assms(4,5,7)
    by (simp add: internal_openResource_def Let_def)
  have "running s1 \<in> live s1 PCB_item"
    unfolding c1(2,5) by (rule assms(3))
  then have "opens s s1 (res_listed L r1) r1"
    by (intro opens_done [OF go c1(1) desc_ok_created [OF assms(2) created(1)]] c1(2,3))
  with created(1) show ?thesis by blast
qed

lemma openResource_cases:
  assumes "core_ok s L" and "desc_ok s L" and "running s \<in> live s PCB_item"
    and "rid = ucast (run_arg s 0)" and "type = ucast (run_arg s 1)" and "mode = (ucast (run_arg s 2) :: cint)"
    and "r = res_named s L rid"
  shows "if mode AND DSOS_CREATE \<noteq> 0 then
      (if r \<noteq> NULL then internal_openResource s = Inr (set_retvalue (running s) DSOS_ERESOURCECREATE s)
       else if spare s Resource_item = {} then internal_openResource s = Inl NullDeref
       else \<exists>r s1. res_created s L rid type r s1 \<and> opens s s1 (res_listed L r) r)
    else if r = NULL \<or> res_type (resource s r) \<noteq> type
    then internal_openResource s = Inr (set_retvalue (running s) DSOS_ERESOURCEOPEN s)
    else if mode AND DSOS_EXCL \<noteq> 0 \<and> L (ResDescriptors r) \<noteq> []
    then internal_openResource s = Inr (set_retvalue (running s) DSOS_ERESOURCENOEXCL s)
    else opens s s L r"
proof (intro if_intro)
  note nn = live_nonnull [OF assms(1,3)]
  have look: "ResourceList_byId s (resources_list s) rid = Inr r" using res_lookup [OF assms(1)] assms(7) by simp
  note start = internal_openResource_def Let_def look [unfolded assms(4)] nn
  show "internal_openResource s = Inr (set_retvalue (running s) DSOS_ERESOURCECREATE s)"
    if "mode AND DSOS_CREATE \<noteq> 0" "r \<noteq> NULL"
    using that unfolding assms(6) by (simp add: start)
  show "internal_openResource s = Inl NullDeref"
    if "mode AND DSOS_CREATE \<noteq> 0" "\<not> r \<noteq> NULL" "spare s Resource_item = {}"
    using assms(1)
  proof (cases rule: create_resource [of s L rid type])
    case exhausted
    then show ?thesis using that unfolding assms(4-6) by (simp add: start)
  next
    case (created r s1)
    with that(3) show ?thesis unfolding res_created_def by blast
  qed
  show "\<exists>r s1. res_created s L rid type r s1 \<and> opens s s1 (res_listed L r) r"
    if "mode AND DSOS_CREATE \<noteq> 0" "\<not> r \<noteq> NULL" "spare s Resource_item \<noteq> {}"
    using openResource_create [OF assms(1-4,6) that(1) assms(5) _ that(3)] that(2) unfolding assms(7) by simp
  show "internal_openResource s = Inr (set_retvalue (running s) DSOS_ERESOURCEOPEN s)"
    if "\<not> mode AND DSOS_CREATE \<noteq> 0" "r = NULL \<or> res_type (resource s r) \<noteq> type"
    using that unfolding assms(5,6) by (auto simp: start)
  note z = res_listed [OF assms(1), of rid, folded assms(7)]
  show "internal_openResource s = Inr (set_retvalue (running s) DSOS_ERESOURCENOEXCL s)"
    if "\<not> mode AND DSOS_CREATE \<noteq> 0" "\<not> (r = NULL \<or> res_type (resource s r) \<noteq> type)"
      "mode AND DSOS_EXCL \<noteq> 0 \<and> L (ResDescriptors r) \<noteq> []"
    using that z(3) unfolding assms(5,6) by (auto simp: start)
  show "opens s s L r"
    if "\<not> mode AND DSOS_CREATE \<noteq> 0" "\<not> (r = NULL \<or> res_type (resource s r) \<noteq> type)"
      "\<not> (mode AND DSOS_EXCL \<noteq> 0 \<and> L (ResDescriptors r) \<noteq> [])"
  proof (rule opens_done [OF _ assms(1-3) _ refl])
    show "internal_openResource s = add_descriptor s r"
      using that z(3) unfolding assms(5,6) by (auto simp: start)
    show "r \<in> set (L ResourcesList)" using z(1) that(2) by blast
  qed
qed

text \<open>
  C23: opening a resource, on every branch. The mode is a set of bits, and the bit of
  \<open>DSOS_CREATE\<close> is also set in \<open>DSOS_WRITE\<close>. With it, an id that is taken is an error, and the
  resource is created and opened otherwise (through a null pointer when the resources are used up);
  without it, the resource must exist with the given type, and must have no descriptor when it is
  to be exclusive. In all cases the invariants are kept.
\<close>

theorem openResource_branches:
  assumes "core_ok s L" and "desc_ok s L" and "running s \<in> live s PCB_item"
    and "rid = ucast (run_arg s 0)" and "type = ucast (run_arg s 1)" and "mode = (ucast (run_arg s 2) :: cint)"
    and "r = res_named s L rid"
  shows "if mode AND DSOS_CREATE \<noteq> 0 then
      (if r \<noteq> NULL then internal_openResource s = Inr (set_retvalue (running s) DSOS_ERESOURCECREATE s)
       else if spare s Resource_item = {} then internal_openResource s = Inl NullDeref
       else \<exists>r s1. res_created s L rid type r s1 \<and> opens s s1 (res_listed L r) r)
    else if r = NULL \<or> res_type (resource s r) \<noteq> type
    then internal_openResource s = Inr (set_retvalue (running s) DSOS_ERESOURCEOPEN s)
    else if mode AND DSOS_EXCL \<noteq> 0 \<and> L (ResDescriptors r) \<noteq> []
    then internal_openResource s = Inr (set_retvalue (running s) DSOS_ERESOURCENOEXCL s)
    else opens s s L r"
  using assms by (rule openResource_cases)

lemma ex_desc_ok: "desc_ok ex_state ex_lists"
  by (simp add: desc_ok_def ex_mem_defs)

lemma ex_args_desc_ok: "desc_ok (ex_args f) ex_lists"
  by (rule desc_ok_cong [OF ex_desc_ok]) simp_all

lemma ex_res_named: "res_named (ex_args f) ex_lists 3 = 16384" "res_named (ex_args f) ex_lists 9 = NULL"
    "res_type (resource (ex_args f) 16384) = 1"
  by (simp_all add: ex_mem_defs)

lemma ex_res_room: "spare (ex_args f) Descriptor_item \<noteq> {}" "spare (ex_args f) DescriptorPtr_item \<noteq> {}"
    "spare (ex_args f) Resource_item \<noteq> {}" "running (ex_args f) \<in> live (ex_args f) PCB_item"
    "core_ok (ex_args f) ex_lists"
  unfolding ex_args_fields ex_state_live using ex_core by (simp_all add: ex_pool_blocks)

abbreviation ex_open :: "clong \<Rightarrow> clong \<Rightarrow> clong \<Rightarrow> kernel" where
  "ex_open a b c \<equiv> ex_args (\<lambda>i. if i = 0 then a else if i = 1 then b else c)"

theorem openResource_branches_witness:
  "\<exists>s' d w. internal_openResource (ex_open 3 1 0) = Inr s' \<and>
    core_ok s' (res_opened (ex_open 3 1 0) ex_lists 16384 d w) \<and> pcb_syscall_retvalue (pcb s' 4096) = 1"
proof -
  have a: "ucast (run_arg (ex_open 3 1 0) 0) = (3 :: cint)" "ucast (run_arg (ex_open 3 1 0) 1) = (1 :: cint)"
    "ucast (run_arg (ex_open 3 1 0) 2) = (0 :: cint)" by simp_all
  from openResource_branches [OF ex_res_room(5) ex_args_desc_ok ex_res_room(4) refl refl refl refl, of "\<lambda>i. if i = 0 then 3 else if i = 1 then 1 else 0"]
  have "opens (ex_open 3 1 0) (ex_open 3 1 0) ex_lists 16384"
    unfolding a ex_res_named by simp
  then obtain s' d w where o: "internal_openResource (ex_open 3 1 0) = Inr s'"
      "holds_resource (ex_open 3 1 0) ex_lists s' 16384 d w"
    unfolding opens_def using ex_res_room(1,2) by (simp only: if_False) blast
  moreover have "pcb_last_fd (pcb (ex_open 3 1 0) 4096) = 1"
    by (simp add: ex_args_def upd_pcb_def ex_mem_defs ex_pcb_def)
  ultimately show ?thesis unfolding holds_resource_def by (intro exI [of _ s'] exI [of _ d] exI [of _ w]) simp
qed

lemma closeResource_cases:
  assumes "core_ok s L" and "desc_ok s L" and "running s \<in> live s PCB_item"
    and "d = des_of_fd s L (ucast (run_arg s 0))"
  shows "if d = NULL then internal_closeResource s = Inr (set_retvalue (running s) DSOS_ERESOURCECLOSE s)
    else \<exists>s'. internal_closeResource s = Inr s' \<and> core_ok s' (res_closed s L d) \<and> desc_ok s' (res_closed s L d) \<and>
      (\<forall>y. idle s L PCB_item y \<longrightarrow> idle s' (res_closed s L d) PCB_item y) \<and>
      quiet (set_retvalue (running s) (pcb_syscall_retvalue (pcb s (running s))) s') s \<and>
      pcb_syscall_retvalue (pcb s' (running s)) = 0 \<and>
      (\<forall>k. k \<noteq> Descriptor_item \<and> k \<noteq> DescriptorPtr_item \<longrightarrow> pool_of s' k = pool_of s k) \<and>
      live s' Descriptor_item = live s Descriptor_item - {d} \<and>
      live s' DescriptorPtr_item = live s DescriptorPtr_item - {des_ptr (descriptor s d)}"
proof (rule if_intro)
  assume "d = NULL"
  then show "internal_closeResource s = Inr (set_retvalue (running s) DSOS_ERESOURCECLOSE s)"
    using live_nonnull [OF assms(1,3)] des_lookup [OF assms(1,3)] assms(4)
    by (simp add: internal_closeResource_def Let_def)
qed (rule closeResource_done [OF assms(1-3) assms(4) [symmetric]])

text \<open>
  C24: closing a descriptor, on both branches: a descriptor number that is not open is reported;
  otherwise the descriptor leaves the lists of the process and of the resource, it and its list item
  are given back, and nothing but the lists and the return value changes.
\<close>

theorem closeResource_branches:
  assumes "core_ok s L" and "desc_ok s L" and "running s \<in> live s PCB_item"
    and "d = des_of_fd s L (ucast (run_arg s 0))"
  shows "if d = NULL then internal_closeResource s = Inr (set_retvalue (running s) DSOS_ERESOURCECLOSE s)
    else \<exists>s'. internal_closeResource s = Inr s' \<and> core_ok s' (res_closed s L d) \<and> desc_ok s' (res_closed s L d) \<and>
      (\<forall>y. idle s L PCB_item y \<longrightarrow> idle s' (res_closed s L d) PCB_item y) \<and>
      quiet (set_retvalue (running s) (pcb_syscall_retvalue (pcb s (running s))) s') s \<and>
      pcb_syscall_retvalue (pcb s' (running s)) = 0 \<and>
      (\<forall>k. k \<noteq> Descriptor_item \<and> k \<noteq> DescriptorPtr_item \<longrightarrow> pool_of s' k = pool_of s k) \<and>
      live s' Descriptor_item = live s Descriptor_item - {d} \<and>
      live s' DescriptorPtr_item = live s DescriptorPtr_item - {des_ptr (descriptor s d)}"
  using assms by (rule closeResource_cases)

theorem closeResource_branches_witness:
  "\<exists>s'. internal_closeResource (ex_call 0) = Inr s' \<and> core_ok s' (res_closed (ex_call 0) ex_lists 20480) \<and>
    res_closed (ex_call 0) ex_lists 20480 (ResDescriptors 16384) = [24592]"
proof -
  have d: "20480 = des_of_fd (ex_call 0) ex_lists (ucast (run_arg (ex_call 0) 0))"
    "res_closed (ex_call 0) ex_lists 20480 (ResDescriptors 16384) = [24592]"
    by (simp_all add: ex_mem_defs res_closed_def Let_def)
  from closeResource_branches [OF ex_res_room(5) ex_args_desc_ok ex_res_room(4) d(1)] d(2) show ?thesis
    by (simp del: ex_args_fields pool_of.simps) blast
qed

lemma destroyResource_done:
  assumes c: "core_ok s L" and k: "desc_ok s L" and r: "running s \<in> live s PCB_item"
    and m: "m = res_named s L (ucast (run_arg s 0))" "m \<noteq> NULL" "L (ResDescriptors m) = []"
  shows "\<exists>s'. internal_destroyResource s = Inr s' \<and>
    core_ok s' (L(ResourcesList := remove1 m (L ResourcesList))) \<and>
    desc_ok s' (L(ResourcesList := remove1 m (L ResourcesList))) \<and>
    (\<forall>y. idle s L PCB_item y \<longrightarrow> idle s' (L(ResourcesList := remove1 m (L ResourcesList))) PCB_item y) \<and>
    live s' Resource_item = live s Resource_item - {m} \<and>
    (\<forall>k. k \<noteq> Resource_item \<longrightarrow> pool_of s' k = pool_of s k) \<and>
    quiet (set_retvalue (running s) (pcb_syscall_retvalue (pcb s (running s))) s') s \<and>
    pcb_syscall_retvalue (pcb s' (running s)) = 0"
proof -
  note z = res_listed [OF c, of "ucast (run_arg s 0)", folded m(1), OF m(2)]
  obtain as bs where ab: "L ResourcesList = as @ m # bs" "remove1 m (L ResourcesList) = as @ bs"
    using remove1_split [OF z(1)] .
  let ?L1 = "L(ResourcesList := remove1 m (L ResourcesList))"
  have L1: "?L1 = L(ResourcesList := as @ bs)" by (simp only: ab(2))
  obtain a b where d1: "k_detach s ResourcesList m = Inr (m, put_list ResourcesList a b s)"
      "core_ok (put_list ResourcesList a b s) ?L1" "idle (put_list ResourcesList a b s) ?L1 Resource_item m"
      "\<And>k y. idle s L k y \<Longrightarrow> idle (put_list ResourcesList a b s) ?L1 k y"
    by (rule core_detachE [OF c ab(1) _ L1, of Resource_item]) (simp, blast)
  let ?s1 = "put_list ResourcesList a b s"
  have "?L1 (ResDescriptors m) = []" using m(3) by simp
  from Resource_free_live [OF d1(2) idleD(1) [OF d1(3)] this] obtain A where
    f: "Resource_free ?s1 m = Inr (0, ?s1\<lparr>resource_mem := A\<rparr>)"
      "freed Resource_item m ?s1 (?s1\<lparr>resource_mem := A\<rparr>)" "ar_cells A = resource ?s1" by blast
  let ?s2 = "set_retvalue (running s) 0 (?s1\<lparr>resource_mem := A\<rparr>)"
  have "(\<lambda>l. if born Resource_item m l then [] else ?L1 l) = ?L1"
  proof
    fix l
    show "(if born Resource_item m l then [] else ?L1 l) = ?L1 l" using m(3) by (cases l) simp_all
  qed
  note L1' = this
  with freed_core(1) [OF d1(2) f(2) d1(3)] have c2: "core_ok (?s1\<lparr>resource_mem := A\<rparr>) ?L1" by (simp only:)
  have i2: "idle ?s2 ?L1 PCB_item y" if "idle s L PCB_item y" for y
    using freed_core(2) [OF d1(2) f(2) d1(3) d1(4) [OF that]] unfolding L1' by simp
  have p: "pool_of ?s2 k = pool_of s k" if "k \<noteq> Resource_item" for k
    using that by (cases k) (simp_all add: set_retvalue_def upd_pcb_def)
  have "live ?s2 Resource_item = live s Resource_item - {m}"
    using freedD(3) [OF f(2)] by (simp add: set_retvalue_def upd_pcb_def)
  moreover have "core_ok ?s2 ?L1" using c2 by simp
  moreover have "desc_ok ?s2 ?L1"
  proof -
    have "q \<in> set (?L1 ResourcesList)" if "L (ResDescriptors q) \<noteq> []" for q
    proof -
      have "q \<in> set (L ResourcesList)" "q \<noteq> m" using that k m(3) unfolding desc_ok_def by auto
      then show ?thesis by simp
    qed
    then show ?thesis using k unfolding desc_ok_def by (simp add: set_retvalue_def upd_pcb_def)
  qed
  moreover have "internal_destroyResource s = Inr ?s2"
    using live_nonnull [OF c r] res_lookup [OF c, of "ucast (run_arg s 0)"] m z(3) d1(1) f(1)
    by (simp add: internal_destroyResource_def Let_def)
  moreover have "quiet (set_retvalue (running s) (pcb_syscall_retvalue (pcb s (running s))) ?s2) s"
      "pcb_syscall_retvalue (pcb ?s2 (running s)) = 0"
    using f(3) by (simp_all add: quiet_def set_retvalue_def upd_pcb_def)
  ultimately show ?thesis using p i2 by (intro exI [of _ ?s2] conjI allI impI)
qed

lemma destroyResource_cases:
  assumes "core_ok s L" and "desc_ok s L" and "running s \<in> live s PCB_item"
    and "r = res_named s L (ucast (run_arg s 0))"
  shows "if r = NULL then internal_destroyResource s = Inr (set_retvalue (running s) DSOS_ERESOURCECLOSE s)
    else if L (ResDescriptors r) \<noteq> []
    then internal_destroyResource s = Inr (set_retvalue (running s) DSOS_ERESOURCEINUSE s)
    else \<exists>s'. internal_destroyResource s = Inr s' \<and>
      core_ok s' (L(ResourcesList := remove1 r (L ResourcesList))) \<and>
      desc_ok s' (L(ResourcesList := remove1 r (L ResourcesList))) \<and>
      (\<forall>y. idle s L PCB_item y \<longrightarrow>
        idle s' (L(ResourcesList := remove1 r (L ResourcesList))) PCB_item y) \<and>
      live s' Resource_item = live s Resource_item - {r} \<and>
      (\<forall>k. k \<noteq> Resource_item \<longrightarrow> pool_of s' k = pool_of s k) \<and>
      quiet (set_retvalue (running s) (pcb_syscall_retvalue (pcb s (running s))) s') s \<and>
      pcb_syscall_retvalue (pcb s' (running s)) = 0"
proof (intro if_intro)
  note nn = live_nonnull [OF assms(1,3)]
  have look: "ResourceList_byId s (resources_list s) (ucast (run_arg s 0)) = Inr r"
    using res_lookup [OF assms(1)] assms(4) by simp
  show "internal_destroyResource s = Inr (set_retvalue (running s) DSOS_ERESOURCECLOSE s)" if "r = NULL"
    using that by (simp add: internal_destroyResource_def Let_def look nn)
  show "internal_destroyResource s = Inr (set_retvalue (running s) DSOS_ERESOURCEINUSE s)"
    if "r \<noteq> NULL" "L (ResDescriptors r) \<noteq> []"
    using that res_listed(3) [OF assms(1), of "ucast (run_arg s 0)"] assms(4)
    by (simp add: internal_destroyResource_def Let_def look nn)
qed (use destroyResource_done [OF assms] in blast)

text \<open>
  C25: destroying a resource, on every branch: an unknown id and a resource that is still open are
  reported; otherwise the resource leaves the global list and its block is given back.
\<close>

theorem destroyResource_branches:
  assumes "core_ok s L" and "desc_ok s L" and "running s \<in> live s PCB_item"
    and "r = res_named s L (ucast (run_arg s 0))"
  shows "if r = NULL then internal_destroyResource s = Inr (set_retvalue (running s) DSOS_ERESOURCECLOSE s)
    else if L (ResDescriptors r) \<noteq> []
    then internal_destroyResource s = Inr (set_retvalue (running s) DSOS_ERESOURCEINUSE s)
    else \<exists>s'. internal_destroyResource s = Inr s' \<and>
      core_ok s' (L(ResourcesList := remove1 r (L ResourcesList))) \<and>
      desc_ok s' (L(ResourcesList := remove1 r (L ResourcesList))) \<and>
      (\<forall>y. idle s L PCB_item y \<longrightarrow>
        idle s' (L(ResourcesList := remove1 r (L ResourcesList))) PCB_item y) \<and>
      live s' Resource_item = live s Resource_item - {r} \<and>
      (\<forall>k. k \<noteq> Resource_item \<longrightarrow> pool_of s' k = pool_of s k) \<and>
      quiet (set_retvalue (running s) (pcb_syscall_retvalue (pcb s (running s))) s') s \<and>
      pcb_syscall_retvalue (pcb s' (running s)) = 0"
  using assms by (rule destroyResource_cases)

theorem destroyResource_branches_witness:
  "internal_destroyResource (ex_call 3) = Inr (set_retvalue 4096 DSOS_ERESOURCEINUSE (ex_call 3))"
proof -
  have "16384 = res_named (ex_call 3) ex_lists (ucast (run_arg (ex_call 3) 0))" using ex_res_named(1) by simp
  from destroyResource_branches [OF ex_res_room(5) ex_args_desc_ok ex_res_room(4) this] show ?thesis by simp
qed

subsection \<open>Undoing open\<close>

text \<open>Closing the descriptor just opened, if its number is fresh, restores all lists and blocks.\<close>

lemma close_opened:
  assumes c: "core_ok s L" and h: "holds_resource s L s1 r d w" and l: "running s \<in> live s PCB_item"
    and fresh: "\<forall>x\<in>set (L (Descriptors (running s))). des_fd (descriptor s x) \<noteq> pcb_last_fd (pcb s (running s))"
  shows "\<exists>s2. internal_closeResource (with_args (\<lambda>_. scast (pcb_syscall_retvalue (pcb s1 (running s)))) s1) = Inr s2 \<and>
    core_ok s2 L \<and> desc_ok s2 L \<and> running s2 = running s \<and> (\<forall>k. live s2 k = live s k) \<and>
    (\<forall>k. res_id (resource s2 k) = res_id (resource s k))"
proof -
  let ?r = "running s" and ?fd = "pcb_last_fd (pcb s (running s))"
  let ?O = "res_opened s L r d w" and ?sa = "with_args (\<lambda>_. scast (pcb_syscall_retvalue (pcb s1 ?r))) s1"
  have a: "core_ok ?sa ?O" "desc_ok ?sa ?O" "running ?sa = ?r" "pcb_syscall_retvalue (pcb s1 ?r) = ?fd"
      "descriptor ?sa = (descriptor s)(d := \<lparr>des_pcb = ?r, des_resource = r, des_fd = ?fd, des_ptr = w\<rparr>)"
      "d \<in> spare s Descriptor_item" "w \<in> spare s DescriptorPtr_item"
      "live ?sa Descriptor_item = insert d (live s Descriptor_item)"
      "live ?sa DescriptorPtr_item = insert w (live s DescriptorPtr_item)"
      "\<And>k. k \<noteq> Descriptor_item \<Longrightarrow> k \<noteq> DescriptorPtr_item \<Longrightarrow> pool_of ?sa k = pool_of s k"
      "\<And>k. res_id (resource ?sa k) = res_id (resource s k)"
    using h unfolding holds_resource_def by (simp_all del: pool_of.simps)
  have sp: "d \<notin> live s Descriptor_item" "w \<notin> live s DescriptorPtr_item"
    using a(6,7) pool.apart [OF core_pool [OF c]] by blast+
  have dn: "d \<notin> set (L (Descriptors ?r))" "w \<notin> set (L (ResDescriptors r))"
    using core_mem [OF c] sp by fastforce+
  have lists: "?O (Descriptors ?r) = L (Descriptors ?r) @ [d]" by (simp add: res_opened_def)
  have "des_fd (descriptor ?sa x) \<noteq> ?fd" if "x \<in> set (L (Descriptors ?r))" for x
    using that fresh dn(1) unfolding a(5) by auto
  moreover have "NULL \<notin> set (?O (Descriptors ?r))" using core_nonnull [OF a(1)] by blast
  ultimately have "scan_result (\<lambda>x. des_fd (descriptor ?sa x) = ?fd) (?O (Descriptors ?r)) = d"
    unfolding lists by (intro scan_result_unique) (auto simp: a(5) simp del: with_args_simps)
  moreover have "ucast (run_arg ?sa 0) = ?fd" by (simp only: with_args_simps(2) a(4) ucast_scast)
  ultimately have f: "des_of_fd ?sa ?O (ucast (run_arg ?sa 0)) = d" by (simp only: a(3))
  have ra: "running ?sa \<in> live ?sa PCB_item"
    using l a(10) [of PCB_item] a(3) by (simp del: pool_of.simps with_args_simps)
  have "d \<noteq> NULL" using live_nonnull [OF a(1), of d Descriptor_item] a(8) by blast
  note close = closeResource_done [OF a(1,2) ra f this]
  have C: "res_closed ?sa ?O d = L"
    using dn unfolding res_closed_def a(5)
    by (simp add: Let_def res_opened_def remove1_append fun_eq_iff)
  have W: "des_ptr (descriptor ?sa d) = w" by (simp only: a(5) fun_upd_same Descriptor.simps)
  obtain s2 where s2: "internal_closeResource ?sa = Inr s2" "core_ok s2 L" "desc_ok s2 L"
      "quiet (set_retvalue (running ?sa) (pcb_syscall_retvalue (pcb ?sa (running ?sa))) s2) ?sa"
      "\<And>k. k \<noteq> Descriptor_item \<Longrightarrow> k \<noteq> DescriptorPtr_item \<Longrightarrow> pool_of s2 k = pool_of ?sa k"
      "live s2 Descriptor_item = live ?sa Descriptor_item - {d}"
      "live s2 DescriptorPtr_item = live ?sa DescriptorPtr_item - {w}"
    using close unfolding C W by (elim exE conjE) blast
  have "running s2 = ?r" "res_id (resource s2 k) = res_id (resource s k)" for k
    using s2(4) a(3) a(11) [of k] unfolding quiet_def by (simp_all add: set_retvalue_def upd_pcb_def)
  moreover have "live s2 k = live s k" for k
    using s2(5-7) a(8-10) sp by (cases "k = Descriptor_item"; cases "k = DescriptorPtr_item")
      (simp_all del: pool_of.simps with_args_simps)
  ultimately show ?thesis using s2(1-3) by blast
qed

text \<open>Destroying the resource just created, once it is closed.\<close>

lemma destroy_created:
  assumes c: "core_ok s L" and n: "res_named s L rid = NULL" and o: "res_created s L rid type r s0"
    and s2: "core_ok s2 (res_listed L r)" "desc_ok s2 (res_listed L r)" "running s2 \<in> live s2 PCB_item"
      "\<And>k. live s2 k = live s0 k" "\<And>k. res_id (resource s2 k) = res_id (resource s0 k)"
    and a: "ucast (run_arg s2 0) = rid"
  shows "\<exists>s3. internal_destroyResource s2 = Inr s3 \<and> core_ok s3 L \<and> desc_ok s3 L \<and> running s3 = running s2 \<and>
    (\<forall>k. live s3 k = live s k)"
proof -
  have o0: "r \<notin> live s Resource_item" "live s0 Resource_item = insert r (live s Resource_item)"
      "\<And>k. k \<noteq> Resource_item \<Longrightarrow> pool_of s0 k = pool_of s k"
      "\<And>k. res_id (resource s0 k) = (if k = r then rid else res_id (resource s k))"
    using o unfolding res_created_def by blast+
  have lists: "L (ResDescriptors r) = []" "r \<notin> set (L ResourcesList)"
    using core_dead [OF c, of "ResDescriptors r"] core_mem [OF c, of r ResourcesList] o0(1) by auto
  have "res_id (resource s x) \<noteq> rid" if "x \<in> set (L ResourcesList)" for x
  proof
    assume "res_id (resource s x) = rid"
    moreover have "NULL \<notin> set (L ResourcesList)" using core_nonnull [OF c] by blast
    ultimately have "res_named s L rid \<noteq> NULL" by (intro scan_result_hit [OF that])
    with n show False by blast
  qed
  moreover have "NULL \<notin> set (res_listed L r ResourcesList)" using core_nonnull [OF s2(1)] by blast
  ultimately have "r = res_named s2 (res_listed L r) rid"
    by (intro scan_result_unique [symmetric]) (auto simp: res_listed_def s2(5) o0(4) split: if_splits)
  then have n2: "r = res_named s2 (res_listed L r) (ucast (run_arg s2 0))" unfolding a .
  have r: "r \<in> live s2 Resource_item" unfolding s2(4) o0(2) by blast
  have "res_listed L r (ResDescriptors r) = []" using lists(1) by (simp add: res_listed_def)
  note destroy = destroyResource_done [OF s2(1-3) n2 live_nonnull [OF s2(1) r] this]
  have D: "(res_listed L r)(ResourcesList := remove1 r (res_listed L r ResourcesList)) = L"
    using lists(2) by (simp add: res_listed_def remove1_append fun_eq_iff)
  obtain s3 where s3: "internal_destroyResource s2 = Inr s3" "core_ok s3 L" "desc_ok s3 L"
      "live s3 Resource_item = live s2 Resource_item - {r}"
      "\<And>k. k \<noteq> Resource_item \<Longrightarrow> pool_of s3 k = pool_of s2 k"
      "quiet (set_retvalue (running s2) (pcb_syscall_retvalue (pcb s2 (running s2))) s3) s2"
    using destroy unfolding D by (elim exE conjE) blast
  have "running s3 = running s2" using s3(6) unfolding quiet_def by (simp add: set_retvalue_def upd_pcb_def)
  moreover have "live s3 k = live s k" for k
  proof (cases "k = Resource_item")
    case True
    show ?thesis unfolding True s3(4) s2(4) o0(2) using o0(1) by blast
  next
    case False
    show ?thesis unfolding s3(5) [OF False] s2(4) o0(3) [OF False] ..
  qed
  ultimately show ?thesis using s3(1-3) by blast
qed

text \<open>
  C26: a resource can be created, closed and destroyed again. A process that creates a resource under
  an unused id, closes the descriptor it got (fresh among its descriptors) and destroys the resource
  leaves all lists and the blocks in use of every pool as they were.
\<close>

theorem create_close_destroy_roundtrip:
  assumes "core_ok s L" and "desc_ok s L" and "running s \<in> live s PCB_item"
    and "res_named s L (ucast (run_arg s 0)) = NULL" and "(ucast (run_arg s 2) :: cint) AND DSOS_CREATE \<noteq> 0"
    and "spare s Resource_item \<noteq> {}" and "spare s Descriptor_item \<noteq> {}" and "spare s DescriptorPtr_item \<noteq> {}"
    and "\<forall>x\<in>set (L (Descriptors (running s))). des_fd (descriptor s x) \<noteq> pcb_last_fd (pcb s (running s))"
  shows "\<exists>s1 s2 s3. internal_openResource s = Inr s1 \<and>
    internal_closeResource (with_args (\<lambda>_. scast (pcb_syscall_retvalue (pcb s1 (running s)))) s1) = Inr s2 \<and>
    internal_destroyResource (with_args (\<lambda>_. run_arg s 0) s2) = Inr s3 \<and>
    core_ok s3 L \<and> desc_ok s3 L \<and> running s3 = running s \<and> (\<forall>k. live s3 k = live s k)"
proof -
  from openResource_create [OF assms(1-3) refl refl assms(5) refl assms(4,6)] obtain r s0 where
    o: "res_created s L (ucast (run_arg s 0)) (ucast (run_arg s 1)) r s0" "opens s s0 (res_listed L r) r" by blast
  have o0: "running s0 = running s" "pcb s0 = pcb s" "descriptor s0 = descriptor s" "core_ok s0 (res_listed L r)"
      "pool_of s0 PCB_item = pool_of s PCB_item" "pool_of s0 Descriptor_item = pool_of s Descriptor_item"
      "pool_of s0 DescriptorPtr_item = pool_of s DescriptorPtr_item"
    using o(1) unfolding res_created_def by (simp_all del: pool_of.simps)
  have e: "res_listed L r (Descriptors p) = L (Descriptors p)" for p by (simp add: res_listed_def)
  obtain s1 d w where s1: "internal_openResource s = Inr s1" "holds_resource s0 (res_listed L r) s1 r d w"
    using o(2) assms(7,8) unfolding opens_def o0(6,7) by (auto simp del: pool_of.simps)
  have l0: "running s0 \<in> live s0 PCB_item" unfolding o0(1,5) by (rule assms(3))
  from close_opened [OF o0(4) s1(2) l0] assms(9)
  obtain s2 where s2: "internal_closeResource (with_args (\<lambda>_. scast (pcb_syscall_retvalue (pcb s1 (running s)))) s1) = Inr s2"
      "core_ok s2 (res_listed L r)" "desc_ok s2 (res_listed L r)" "running s2 = running s" "\<And>k. live s2 k = live s0 k"
      "\<And>k. res_id (resource s2 k) = res_id (resource s0 k)"
    unfolding o0(1-3) e by blast
  let ?sb = "with_args (\<lambda>_. run_arg s 0) s2"
  have "running ?sb \<in> live ?sb PCB_item" using assms(3) s2(4,5) o0(5) by (simp del: pool_of.simps)
  moreover have "core_ok ?sb (res_listed L r)" "desc_ok ?sb (res_listed L r)" "\<And>k. live ?sb k = live s0 k"
      "\<And>k. res_id (resource ?sb k) = res_id (resource s0 k)"
    using s2 by simp_all
  moreover have "ucast (run_arg ?sb 0) = (ucast (run_arg s 0) :: cint)" by (simp only: with_args_simps(2))
  ultimately obtain s3 where "internal_destroyResource ?sb = Inr s3" "core_ok s3 L" "desc_ok s3 L"
      "running s3 = running ?sb" "\<forall>k. live s3 k = live s k"
    using destroy_created [OF assms(1,4) o(1)] by blast
  with s1(1) s2(1,4) show ?thesis by (intro exI [of _ s1] exI [of _ s2] exI [of _ s3]) simp
qed

theorem create_close_destroy_roundtrip_witness:
  "\<exists>s1 s2 s3. internal_openResource (ex_open 9 1 1) = Inr s1 \<and>
    internal_closeResource (with_args (\<lambda>_. scast (pcb_syscall_retvalue (pcb s1 4096))) s1) = Inr s2 \<and>
    internal_destroyResource (with_args (\<lambda>_. 9) s2) = Inr s3 \<and> core_ok s3 ex_lists"
proof -
  have a: "ucast (run_arg (ex_open 9 1 1) 0) = (9 :: cint)" "run_arg (ex_open 9 1 1) 0 = 9"
    "(ucast (run_arg (ex_open 9 1 1) 2) :: cint) AND DSOS_CREATE \<noteq> 0" by (simp_all add: DSOS_CREATE_def)
  have "pcb_last_fd (pcb (ex_open 9 1 1) 4096) = 1" by (simp add: ex_args_def upd_pcb_def ex_mem_defs ex_pcb_def)
  then have "\<forall>x\<in>set (ex_lists (Descriptors (running (ex_open 9 1 1)))).
      des_fd (descriptor (ex_open 9 1 1) x) \<noteq> pcb_last_fd (pcb (ex_open 9 1 1) (running (ex_open 9 1 1)))"
    by (simp add: ex_mem_defs)
  note fresh = this
  have n: "res_named (ex_open 9 1 1) ex_lists (ucast (run_arg (ex_open 9 1 1) 0)) = NULL"
    unfolding a(1) by (rule ex_res_named(2))
  from create_close_destroy_roundtrip [OF ex_res_room(5) ex_args_desc_ok ex_res_room(4) n a(3) ex_res_room(3,1,2) fresh]
  show ?thesis unfolding a(2) unfolding ex_args_fields(1) by blast
qed

end
