(* ===== verification/Semaphore.thy ===== *)
theory Semaphore
  imports Pcb
begin

text \<open>
  \<open>disastrOS_semaphore.c\<close> and \<open>disastrOS_semdescriptor.c\<close>: semaphores, the descriptors by which
  processes hold them, and the \<open>SemDescriptorPtr\<close> items by which a semaphore lists the descriptors
  that are open on it and those that wait for it.
\<close>

subsection \<open>Semaphores\<close>

definition Semaphore_init :: "static_mem \<Rightarrow> kernel \<Rightarrow> kernel result" where
  "Semaphore_init st s =
     bindE (init_pool st Semaphore_item MAX_NUM_SEMAPHORES
       (MAX_NUM_SEMAPHORES * (site_size st Semaphore_item + 4)) (semaphore_mem s)) (\<lambda>A.
     Inr (s\<lparr>semaphore_mem := A\<rparr>))"

definition Semaphore_alloc :: "kernel \<Rightarrow> cint \<Rightarrow> cint \<Rightarrow> (ptr \<times> kernel) result" where
  "Semaphore_alloc s sid count =
     bindE (ar_get (semaphore_mem s)) (\<lambda>(r, A).
     if r = NULL then Inr (NULL, s\<lparr>semaphore_mem := A\<rparr>)
     else Inr (r, s\<lparr>semaphore_mem := ar_upd r (\<lambda>c. c\<lparr>sem_id := sid, sem_count := count,
       sem_descriptors := List_init, sem_waiting_descriptors := List_init\<rparr>) (ar_unlink r A)\<rparr>))"

definition Semaphore_free :: "kernel \<Rightarrow> ptr \<Rightarrow> (cint \<times> kernel) result" where
  "Semaphore_free s r =
     check (r \<noteq> NULL) NullDeref
     (check (lh_first (sem_descriptors (semaphore s r)) = NULL) AssertFailed
     (check (lh_last (sem_descriptors (semaphore s r)) = NULL) AssertFailed
     (bindE (ar_free (semaphore_mem s) r) (\<lambda>(v, A). Inr (v, s\<lparr>semaphore_mem := A\<rparr>)))))"

definition SemaphoreList_byId :: "kernel \<Rightarrow> ListHead \<Rightarrow> cint \<Rightarrow> ptr result" where
  "SemaphoreList_byId s l sid =
     run_loopE (list_scan (\<lambda>r. Inr (sem_id (semaphore s r) = sid)) (ar_links (semaphore_mem s)) (lh_first l))"

subsection \<open>Semaphore descriptors\<close>

text \<open>
  As for resources, the buffers have room for \<open>MAX_NUM_SEMDESCRIPTORS\<close> blocks, but the pools are
  initialised with \<open>MAX_NUM_PROCESSES\<close> blocks only.
\<close>

definition MAX_NUM_SEMDESCRIPTORS :: cint where
  "MAX_NUM_SEMDESCRIPTORS = MAX_NUM_SEMDESCRIPTORS_PER_PROCESS * MAX_NUM_PROCESSES"

definition SemDescriptor_init :: "static_mem \<Rightarrow> kernel \<Rightarrow> kernel result" where
  "SemDescriptor_init st s =
     bindE (init_pool st SemDescriptor_item MAX_NUM_PROCESSES
       (MAX_NUM_SEMDESCRIPTORS * (site_size st SemDescriptor_item + 4)) (semdescriptor_mem s)) (\<lambda>A.
     bindE (init_pool st SemDescriptorPtr_item MAX_NUM_PROCESSES
       (MAX_NUM_SEMDESCRIPTORS * (site_size st SemDescriptorPtr_item + 4)) (semdescriptorptr_mem s)) (\<lambda>B.
     Inr (s\<lparr>semdescriptor_mem := A, semdescriptorptr_mem := B\<rparr>)))"

definition SemDescriptor_alloc :: "kernel \<Rightarrow> cint \<Rightarrow> ptr \<Rightarrow> ptr \<Rightarrow> (ptr \<times> kernel) result" where
  "SemDescriptor_alloc s fd res p =
     bindE (ar_get (semdescriptor_mem s)) (\<lambda>(d, A).
     if d = NULL then Inr (NULL, s\<lparr>semdescriptor_mem := A\<rparr>)
     else Inr (d, s\<lparr>semdescriptor_mem := ar_upd d (\<lambda>c. c\<lparr>sd_fd := fd, sd_semaphore := res, sd_pcb := p\<rparr>)
       (ar_unlink d A)\<rparr>))"

definition SemDescriptor_free :: "kernel \<Rightarrow> ptr \<Rightarrow> (cint \<times> kernel) result" where
  "SemDescriptor_free s d =
     bindE (ar_free (semdescriptor_mem s) d) (\<lambda>(v, A). Inr (v, s\<lparr>semdescriptor_mem := A\<rparr>))"

definition SemDescriptorList_byFd :: "kernel \<Rightarrow> ListHead \<Rightarrow> cint \<Rightarrow> ptr result" where
  "SemDescriptorList_byFd s l fd =
     run_loopE (list_scan (\<lambda>d. Inr (sd_fd (semdescriptor s d) = fd)) (ar_links (semdescriptor_mem s)) (lh_first l))"

definition SemDescriptorPtr_alloc :: "kernel \<Rightarrow> ptr \<Rightarrow> (ptr \<times> kernel) result" where
  "SemDescriptorPtr_alloc s des =
     bindE (ar_get (semdescriptorptr_mem s)) (\<lambda>(d, A).
     if d = NULL then Inr (NULL, s\<lparr>semdescriptorptr_mem := A\<rparr>)
     else Inr (d, s\<lparr>semdescriptorptr_mem := ar_upd d (\<lambda>c. c\<lparr>sp_descriptor := des\<rparr>) (ar_unlink d A)\<rparr>))"

definition SemDescriptorPtr_free :: "kernel \<Rightarrow> ptr \<Rightarrow> (cint \<times> kernel) result" where
  "SemDescriptorPtr_free s d =
     bindE (ar_free (semdescriptorptr_mem s) d) (\<lambda>(v, A). Inr (v, s\<lparr>semdescriptorptr_mem := A\<rparr>))"

subsection \<open>What the operations do to a well-formed state\<close>

lemma Semaphore_alloc_cases:
  assumes "core_ok s L"
  obtains (exhausted) "spare s Semaphore_item = {}" "Semaphore_alloc s sid n = Inr (NULL, s)"
  | (block) x A where "Semaphore_alloc s sid n = Inr (x, s\<lparr>semaphore_mem := A\<rparr>)"
      "allocd Semaphore_item x s (s\<lparr>semaphore_mem := A\<rparr>)"
      "ar_cells A = (semaphore s)(x := (semaphore s x)\<lparr>sem_id := sid, sem_count := n, sem_descriptors := List_init, sem_waiting_descriptors := List_init\<rparr>)"
proof -
  have "pool_good (ar_pool (semaphore_mem s))" using core_pool [OF assms, of Semaphore_item] by simp
  then show ?thesis
  proof (cases rule: ar_get_cases)
    case exhausted
    then show ?thesis by (intro that(1)) (simp_all add: Semaphore_alloc_def)
  next
    case (block x a)
    then show ?thesis
      by (intro that(2)) (simp_all add: Semaphore_alloc_def, simp_all add: alloc_frame)
  qed
qed

lemma SemaphoreList_byId_scan:
  assumes "core_ok s L" and "l \<in> heads s" and "kind_of l = Semaphore_item"
  shows "SemaphoreList_byId s (head_of s l) sid = Inr (scan_result (\<lambda>x. sem_id (semaphore s x) = sid) (L l))"
  using core_scan [OF assms(1,2), of "\<lambda>x. Inr (sem_id (semaphore s x) = sid)"] assms(3)
  by (simp add: SemaphoreList_byId_def)

lemma SemDescriptor_alloc_cases:
  assumes "core_ok s L"
  obtains (exhausted) "spare s SemDescriptor_item = {}" "SemDescriptor_alloc s fd m p = Inr (NULL, s)"
  | (block) x A where "SemDescriptor_alloc s fd m p = Inr (x, s\<lparr>semdescriptor_mem := A\<rparr>)"
      "allocd SemDescriptor_item x s (s\<lparr>semdescriptor_mem := A\<rparr>)"
      "ar_cells A = (semdescriptor s)(x := (semdescriptor s x)\<lparr>sd_fd := fd, sd_semaphore := m, sd_pcb := p\<rparr>)"
proof -
  have "pool_good (ar_pool (semdescriptor_mem s))" using core_pool [OF assms, of SemDescriptor_item] by simp
  then show ?thesis
  proof (cases rule: ar_get_cases)
    case exhausted
    then show ?thesis by (intro that(1)) (simp_all add: SemDescriptor_alloc_def)
  next
    case (block x a)
    then show ?thesis
      by (intro that(2)) (simp_all add: SemDescriptor_alloc_def, simp_all add: alloc_frame)
  qed
qed

lemma SemDescriptor_free_live:
  assumes "core_ok s L" and "x \<in> live s SemDescriptor_item"
  shows "\<exists>A. SemDescriptor_free s x = Inr (0, s\<lparr>semdescriptor_mem := A\<rparr>) \<and>
    freed SemDescriptor_item x s (s\<lparr>semdescriptor_mem := A\<rparr>) \<and> ar_cells A = semdescriptor s"
proof -
  have "pool_good (ar_pool (semdescriptor_mem s))" "x \<in> pool_live (ar_pool (semdescriptor_mem s))"
    using core_pool [OF assms(1), of SemDescriptor_item] assms(2) by simp_all
  from ar_free_live [OF this] obtain a where
      "ar_free (semdescriptor_mem s) x = Inr (0, (semdescriptor_mem s)\<lparr>ar_pool := a\<rparr>)"
      "pool_good a" "pool_live a = live s SemDescriptor_item - {x}" "pool_spare a = insert x (spare s SemDescriptor_item)"
    by auto
  then show ?thesis using assms(2)
    by (intro exI [of _ "(semdescriptor_mem s)\<lparr>ar_pool := a\<rparr>"]) (simp add: SemDescriptor_free_def free_frame)
qed

lemma SemDescriptorList_byFd_scan:
  assumes "core_ok s L" and "l \<in> heads s" and "kind_of l = SemDescriptor_item"
  shows "SemDescriptorList_byFd s (head_of s l) fd = Inr (scan_result (\<lambda>x. sd_fd (semdescriptor s x) = fd) (L l))"
  using core_scan [OF assms(1,2), of "\<lambda>x. Inr (sd_fd (semdescriptor s x) = fd)"] assms(3)
  by (simp add: SemDescriptorList_byFd_def)

lemma SemDescriptorPtr_alloc_cases:
  assumes "core_ok s L"
  obtains (exhausted) "spare s SemDescriptorPtr_item = {}" "SemDescriptorPtr_alloc s d = Inr (NULL, s)"
  | (block) x A where "SemDescriptorPtr_alloc s d = Inr (x, s\<lparr>semdescriptorptr_mem := A\<rparr>)"
      "allocd SemDescriptorPtr_item x s (s\<lparr>semdescriptorptr_mem := A\<rparr>)"
      "ar_cells A = (semdescriptorptr s)(x := (semdescriptorptr s x)\<lparr>sp_descriptor := d\<rparr>)"
proof -
  have "pool_good (ar_pool (semdescriptorptr_mem s))" using core_pool [OF assms, of SemDescriptorPtr_item] by simp
  then show ?thesis
  proof (cases rule: ar_get_cases)
    case exhausted
    then show ?thesis by (intro that(1)) (simp_all add: SemDescriptorPtr_alloc_def)
  next
    case (block x a)
    then show ?thesis
      by (intro that(2)) (simp_all add: SemDescriptorPtr_alloc_def, simp_all add: alloc_frame)
  qed
qed

lemma SemDescriptorPtr_free_live:
  assumes "core_ok s L" and "x \<in> live s SemDescriptorPtr_item"
  shows "\<exists>A. SemDescriptorPtr_free s x = Inr (0, s\<lparr>semdescriptorptr_mem := A\<rparr>) \<and>
    freed SemDescriptorPtr_item x s (s\<lparr>semdescriptorptr_mem := A\<rparr>) \<and> ar_cells A = semdescriptorptr s"
proof -
  have "pool_good (ar_pool (semdescriptorptr_mem s))" "x \<in> pool_live (ar_pool (semdescriptorptr_mem s))"
    using core_pool [OF assms(1), of SemDescriptorPtr_item] assms(2) by simp_all
  from ar_free_live [OF this] obtain a where
      "ar_free (semdescriptorptr_mem s) x = Inr (0, (semdescriptorptr_mem s)\<lparr>ar_pool := a\<rparr>)"
      "pool_good a" "pool_live a = live s SemDescriptorPtr_item - {x}" "pool_spare a = insert x (spare s SemDescriptorPtr_item)"
    by auto
  then show ?thesis using assms(2)
    by (intro exI [of _ "(semdescriptorptr_mem s)\<lparr>ar_pool := a\<rparr>"]) (simp add: SemDescriptorPtr_free_def free_frame)
qed

end
