(* ===== verification/Semaphore_Calls.thy ===== *)
theory Semaphore_Calls
  imports Semaphore Example_State
begin

text \<open>
  The semaphore system calls: \<open>disastrOS_semopen.c\<close>, \<open>disastrOS_semclose.c\<close>,
  \<open>disastrOS_semwait.c\<close> and \<open>disastrOS_sempost.c\<close>.
\<close>

text \<open>Parts (5) and (6) of \<open>internal_semOpen\<close>: the descriptor of the opened semaphore.\<close>

definition add_semdescriptor :: "kernel \<Rightarrow> ptr \<Rightarrow> kernel result" where
  "add_semdescriptor s sem =
     bindE (SemDescriptor_alloc s (pcb_last_sem_fd (pcb s (running s))) sem (running s)) (\<lambda>(desc, s).
     if desc = NULL then Inr (set_retvalue (running s) DSOS_ERESOURCENOFD s)
     else
       let s = upd_pcb (running s) (\<lambda>c. c\<lparr>pcb_last_sem_fd := pcb_last_sem_fd c + 1\<rparr>) s in
       bindE (k_append s (SemDescriptors (running s)) desc) (\<lambda>(_, s).
       bindE (SemDescriptorPtr_alloc s desc) (\<lambda>(desc_ptr, s).
       let s = upd_semdescriptor desc (\<lambda>c. c\<lparr>sd_ptr := desc_ptr\<rparr>) s in
       bindE (k_append s (SemDescs sem) desc_ptr) (\<lambda>(_, s).
       Inr (set_retvalue (running s) (sd_fd (semdescriptor s desc)) s)))))"

definition internal_semOpen :: "kernel \<Rightarrow> kernel result" where
  "internal_semOpen s =
     check (running s \<noteq> NULL) NullDeref
     (let sid = (ucast (run_arg s 0) :: cint); oflag = (ucast (run_arg s 1) :: cint);
          cnt = (ucast (run_arg s 2) :: cint) in
      bindE (SemaphoreList_byId s (semaphores_list s) sid) (\<lambda>sem.
      if oflag AND DSOS_CREATE \<noteq> 0 \<and> sem \<noteq> NULL
      then Inr (set_retvalue (running s) DSOS_ESEMAPHORECREATE s)
      else
        bindE (if oflag AND DSOS_CREATE \<noteq> 0 then
                 bindE (Semaphore_alloc s sid cnt) (\<lambda>(sem, s).
                 bindE (k_append s SemaphoresList sem) (\<lambda>(_, s). Inr (sem, s)))
               else Inr (sem, s)) (\<lambda>(sem, s).
        if sem = NULL then Inr (set_retvalue (running s) DSOS_ESEMAPHOREOPEN s)
        else if oflag AND DSOS_EXCL \<noteq> 0 \<and> lh_size (sem_descriptors (semaphore s sem)) \<noteq> 0
        then Inr (set_retvalue (running s) DSOS_ESEMAPHORENOEXCL s)
        else add_semdescriptor s sem)))"

text \<open>The semaphore is taken off the global list with its last descriptor, but never freed.\<close>

definition internal_semClose :: "kernel \<Rightarrow> kernel result" where
  "internal_semClose s =
     check (running s \<noteq> NULL) NullDeref
     (let sem_fd = (ucast (run_arg s 0) :: cint) in
      bindE (SemDescriptorList_byFd s (pcb_sem_descriptors (pcb s (running s))) sem_fd) (\<lambda>semDesc.
      if semDesc = NULL then Inr (set_retvalue (running s) DSOS_ESEMAPHORECLOSE s)
      else
        bindE (k_detach s (SemDescriptors (running s)) semDesc) (\<lambda>(semDesc, s).
        check (semDesc \<noteq> NULL) AssertFailed
        (let sem = sd_semaphore (semdescriptor s semDesc) in
         check (sem \<noteq> NULL) NullDeref
         (bindE (k_detach s (SemDescs sem) (sd_ptr (semdescriptor s semDesc))) (\<lambda>(semDesPtr, s).
          check (semDesPtr \<noteq> NULL) AssertFailed
          (bindE (if lh_size (sem_descriptors (semaphore s sem)) = 0
                  then bindE (k_detach s SemaphoresList sem) (\<lambda>(_, s). Inr s)
                  else Inr s) (\<lambda>s.
           bindE (SemDescriptor_free s semDesc) (\<lambda>(_, s).
           bindE (SemDescriptorPtr_free s semDesPtr) (\<lambda>(_, s).
           Inr (set_retvalue (running s) 0 s)))))))))))"

text \<open>
  When the count becomes negative the process is marked and queued as waiting, but \<open>running\<close> is
  not changed.
\<close>

definition internal_semWait :: "kernel \<Rightarrow> kernel result" where
  "internal_semWait s =
     check (running s \<noteq> NULL) NullDeref
     (let sem_fd = (ucast (run_arg s 0) :: cint) in
      bindE (SemDescriptorList_byFd s (pcb_sem_descriptors (pcb s (running s))) sem_fd) (\<lambda>sem_desc.
      if sem_desc = NULL then Inr (set_retvalue (running s) DSOS_ESEMAPHOREWAIT s)
      else
        let sem = sd_semaphore (semdescriptor s sem_desc) in
        check (sem \<noteq> NULL) NullDeref
        (let s = upd_semaphore sem (\<lambda>c. c\<lparr>sem_count := sem_count c - 1\<rparr>) s in
         bindE (if sem_count (semaphore s sem) <s 0 then
                  bindE (SemDescriptorPtr_alloc s sem_desc) (\<lambda>(sem_desc_ptr, s).
                  bindE (k_append s (SemWaiting sem) sem_desc_ptr) (\<lambda>(_, s).
                  let s = set_status (running s) Waiting s in
                  bindE (k_append s WaitingList (running s)) (\<lambda>(_, s). Inr s)))
                else Inr s) (\<lambda>s.
         Inr (set_retvalue (running s) 0 s)))))"

text \<open>
  The descriptor is used without a test that it was found. The two error returns after a
  \<open>List_detach\<close> are never taken, because \<open>List_detach\<close> returns the item it is given.
\<close>

definition internal_semPost :: "kernel \<Rightarrow> kernel result" where
  "internal_semPost s =
     check (running s \<noteq> NULL) NullDeref
     (let fd = (ucast (run_arg s 0) :: cint) in
      bindE (SemDescriptorList_byFd s (pcb_sem_descriptors (pcb s (running s))) fd) (\<lambda>sem_desc.
      check (sem_desc \<noteq> NULL) NullDeref
      (let sem = sd_semaphore (semdescriptor s sem_desc) in
       check (sem \<noteq> NULL) NullDeref
       (let s = upd_semaphore sem (\<lambda>c. c\<lparr>sem_count := sem_count c + 1\<rparr>) s in
        if sem_count (semaphore s sem) \<le>s 0 then
          bindE (k_detach s (SemWaiting sem)
            (lh_first (sem_waiting_descriptors (semaphore s sem)))) (\<lambda>(sem_desc_ptr, s).
          if sem_desc_ptr = NULL then Inr (set_retvalue (running s) DSOS_ERESOURCEOPEN s)
          else
            let sem_desc = sp_descriptor (semdescriptorptr s sem_desc_ptr) in
            check (sem_desc \<noteq> NULL) NullDeref
            (let ready_process = sd_pcb (semdescriptor s sem_desc) in
             bindE (k_detach s WaitingList ready_process) (\<lambda>(ret, s).
             if ret = NULL then Inr (set_retvalue (running s) DSOS_ERESOURCEOPEN s)
             else
               let s = set_status ready_process Ready s in
               bindE (k_append s ReadyList ready_process) (\<lambda>(_, s).
               Inr (set_retvalue (running s) 0 s)))))
        else Inr (set_retvalue (running s) 0 s)))))"

subsection \<open>The invariants of semaphores\<close>

text \<open>
  \<open>sem_ok\<close>: every descriptor in the list of a process block is one of that block, and is listed, by
  the pointer item it records, among the descriptors of its semaphore; a semaphore with open
  descriptors is in the global list.
\<close>

definition sem_ok :: "kernel \<Rightarrow> (list_loc \<Rightarrow> ptr list) \<Rightarrow> bool" where
  "sem_ok s L \<longleftrightarrow>
     (\<forall>p. \<forall>d\<in>set (L (SemDescriptors p)).
        sd_pcb (semdescriptor s d) = p \<and>
        sd_ptr (semdescriptor s d) \<in> set (L (SemDescs (sd_semaphore (semdescriptor s d)))) \<and>
        sp_descriptor (semdescriptorptr s (sd_ptr (semdescriptor s d))) = d) \<and>
     (\<forall>m. L (SemDescs m) \<noteq> [] \<longrightarrow> m \<in> set (L SemaphoresList))"

text \<open>The processes queued at a semaphore, in order.\<close>

abbreviation waiter :: "kernel \<Rightarrow> ptr \<Rightarrow> ptr" where
  "waiter s w \<equiv> sd_pcb (semdescriptor s (sp_descriptor (semdescriptorptr s w)))"

text \<open>
  \<open>wait_ok\<close>: a semaphore has as many queued processes as its count is below zero, all of them are
  queued by a descriptor in use and are in the waiting list of the kernel, and no process is queued
  twice.
\<close>

definition wait_ok :: "kernel \<Rightarrow> (list_loc \<Rightarrow> ptr list) \<Rightarrow> bool" where
  "wait_ok s L \<longleftrightarrow>
     (\<forall>m\<in>live s Semaphore_item.
        int (length (L (SemWaiting m))) = max 0 (- sint (sem_count (semaphore s m)))) \<and>
     (\<forall>m. \<forall>w\<in>set (L (SemWaiting m)). sp_descriptor (semdescriptorptr s w) \<in> live s SemDescriptor_item \<and>
        waiter s w \<in> set (L WaitingList)) \<and>
     (\<forall>m m'. \<forall>w\<in>set (L (SemWaiting m)). \<forall>w'\<in>set (L (SemWaiting m')). waiter s w = waiter s w' \<longrightarrow> w = w')"

text \<open>The descriptor that the running process has under a descriptor number, or null.\<close>

abbreviation sem_of_fd :: "kernel \<Rightarrow> (list_loc \<Rightarrow> ptr list) \<Rightarrow> cint \<Rightarrow> ptr" where
  "sem_of_fd s L fd \<equiv> scan_result (\<lambda>d. sd_fd (semdescriptor s d) = fd) (L (SemDescriptors (running s)))"

lemma sem_lookup:
  assumes "core_ok s L" and "running s \<in> live s PCB_item"
  shows "SemDescriptorList_byFd s (pcb_sem_descriptors (pcb s (running s))) fd = Inr (sem_of_fd s L fd)"
  using SemDescriptorList_byFd_scan [OF assms(1), of "SemDescriptors (running s)" fd] assms(2) by simp

lemma sem_of_fd_mem:
  "sem_of_fd s L fd \<noteq> NULL \<Longrightarrow>
   sem_of_fd s L fd \<in> set (L (SemDescriptors (running s))) \<and> sd_fd (semdescriptor s (sem_of_fd s L fd)) = fd"
  by (rule scan_result_mem)

lemma sem_ok_live:
  assumes "core_ok s L" and "sem_ok s L" and "d \<in> set (L (SemDescriptors p))"
  shows "sd_semaphore (semdescriptor s d) \<in> live s Semaphore_item"
    and "sd_semaphore (semdescriptor s d) \<noteq> NULL"
proof -
  have "sd_ptr (semdescriptor s d) \<in> set (L (SemDescs (sd_semaphore (semdescriptor s d))))"
    using assms(2,3) by (auto simp: sem_ok_def)
  from core_mem [OF assms(1) this] show "sd_semaphore (semdescriptor s d) \<in> live s Semaphore_item"
    by (simp del: pool_of.simps)
  then show "sd_semaphore (semdescriptor s d) \<noteq> NULL" by (rule live_nonnull [OF assms(1)])
qed

lemma sint_dec: "sint c \<noteq> - (2 ^ 31) \<Longrightarrow> sint (c - 1 :: cint) = sint c - 1"
  using sint_cint_of_int [of "sint c - 1"] sint_range32 [of c] by simp

lemma sint_inc: "sint c \<noteq> 2 ^ 31 - 1 \<Longrightarrow> sint (c + 1 :: cint) = sint c + 1"
  using sint_cint_of_int [of "sint c + 1"] sint_range32 [of c] by simp

subsection \<open>wait\<close>

lemma semWait_free:
  assumes c: "core_ok s L" and k: "sem_ok s L" and r: "running s \<in> live s PCB_item"
    and d: "sem_of_fd s L (ucast (run_arg s 0)) = d" "d \<noteq> NULL"
    and m: "sd_semaphore (semdescriptor s d) = m" and n: "0 < sint (sem_count (semaphore s m))"
  shows "internal_semWait s = Inr (set_retvalue (running s) 0
    (upd_semaphore m (\<lambda>c. c\<lparr>sem_count := sem_count c - 1\<rparr>) s))"
proof -
  have "m \<noteq> NULL" using sem_ok_live(2) [OF c k] sem_of_fd_mem [where s = s and L = L and fd = "ucast (run_arg s 0)"] d m by auto
  moreover have "\<not> sem_count (semaphore s m) - 1 <s 0"
    using n sint_dec [of "sem_count (semaphore s m)"] by (simp add: word_sless_alt)
  ultimately show ?thesis
    using live_nonnull [OF c r] sem_lookup [OF c r] d m
    by (simp add: internal_semWait_def Let_def, simp add: upd_semaphore_def)
qed

definition queued :: "kernel \<Rightarrow> (list_loc \<Rightarrow> ptr list) \<Rightarrow> ptr \<Rightarrow> ptr \<Rightarrow> list_loc \<Rightarrow> ptr list" where
  "queued s L m w = L(SemWaiting m := L (SemWaiting m) @ [w], WaitingList := L WaitingList @ [running s])"

lemma sem_ok_cong:
  assumes "sem_ok s L" and "semdescriptor s' = semdescriptor s"
    and "\<And>d p. d \<in> set (L (SemDescriptors p)) \<Longrightarrow> semdescriptorptr s' (sd_ptr (semdescriptor s d)) =
      semdescriptorptr s (sd_ptr (semdescriptor s d))"
    and "\<And>p. L' (SemDescriptors p) = L (SemDescriptors p)" and "\<And>m. L' (SemDescs m) = L (SemDescs m)"
    and "L' SemaphoresList = L SemaphoresList"
  shows "sem_ok s' L'"
  using assms unfolding sem_ok_def by auto

lemma wait_ok_queued:
  assumes c: "core_ok s L" and o: "wait_ok s L" and r: "running s \<notin> set (L WaitingList)"
    and d: "sd_pcb (semdescriptor s d) = running s" "d \<in> live s SemDescriptor_item"
    and n: "sint (sem_count (semaphore s m)) \<le> 0" "sint (sem_count (semaphore s m)) \<noteq> - (2 ^ 31)"
    and m: "m \<in> live s Semaphore_item"
    and w: "\<And>m. w \<notin> set (L (SemWaiting m))"
    and s': "semdescriptor s' = semdescriptor s" "semdescriptorptr s' = (semdescriptorptr s)(w := \<lparr>sp_descriptor = d\<rparr>)"
      "live s' Semaphore_item = live s Semaphore_item" "live s' SemDescriptor_item = live s SemDescriptor_item"
      "\<And>k. sem_count (semaphore s' k) = (if k = m then sem_count (semaphore s k) - 1 else sem_count (semaphore s k))"
  shows "wait_ok s' (queued s L m w)"
proof -
  let ?Q = "queued s L m w"
  have q: "set (?Q (SemWaiting k)) = (if k = m then insert w (set (L (SemWaiting k))) else set (L (SemWaiting k)))"
    "length (?Q (SemWaiting k)) = (if k = m then Suc (length (L (SemWaiting k))) else length (L (SemWaiting k)))"
    "set (?Q WaitingList) = insert (running s) (set (L WaitingList))" for k
    by (auto simp: queued_def)
  have e: "waiter s' w = running s" "sp_descriptor (semdescriptorptr s' w) = d"
    using d(1) by (simp_all add: s')
  have old: "waiter s' x = waiter s x" "sp_descriptor (semdescriptorptr s' x) = sp_descriptor (semdescriptorptr s x)"
    if "x \<in> set (L (SemWaiting k))" for x k
    using w [of k] that by (auto simp: s')
  have fresh: "waiter s x \<noteq> running s" if "x \<in> set (L (SemWaiting k))" for x k
  proof -
    have "waiter s x \<in> set (L WaitingList)" using o that unfolding wait_ok_def by blast
    with r show ?thesis by auto
  qed
  have "int (length (?Q (SemWaiting k))) = max 0 (- sint (sem_count (semaphore s' k)))"
    if "k \<in> live s' Semaphore_item" for k
    using o that n sint_dec [of "sem_count (semaphore s m)"] unfolding wait_ok_def q(2) s'(3,5) by auto
  moreover have "sp_descriptor (semdescriptorptr s' x) \<in> live s' SemDescriptor_item \<and> waiter s' x \<in> set (?Q WaitingList)"
    if "x \<in> set (?Q (SemWaiting k))" for x k
    using that o d(2) e old [of x k] unfolding q s'(4) wait_ok_def by (cases "x = w") (auto split: if_splits)
  moreover have "x = y" if "x \<in> set (?Q (SemWaiting k))" "y \<in> set (?Q (SemWaiting k'))"
    "waiter s' x = waiter s' y" for x y k k'
  proof -
    have "x = w \<or> x \<in> set (L (SemWaiting k))" "y = w \<or> y \<in> set (L (SemWaiting k'))"
      using that(1,2) unfolding q by (auto split: if_splits)
    then show ?thesis
      using that(3) e(1) old(1) fresh o unfolding wait_ok_def by metis
  qed
  ultimately show ?thesis unfolding wait_ok_def by blast
qed

lemma semWait_queued:
  assumes c: "core_ok s L" and k: "sem_ok s L" and o: "wait_ok s L" and r: "idle s L PCB_item (running s)"
    and d: "sem_of_fd s L (ucast (run_arg s 0)) = d" "d \<noteq> NULL"
    and m: "sd_semaphore (semdescriptor s d) = m"
    and n: "sint (sem_count (semaphore s m)) \<le> 0" "sint (sem_count (semaphore s m)) \<noteq> - (2 ^ 31)"
    and sp: "spare s SemDescriptorPtr_item \<noteq> {}"
  shows "\<exists>s' w. internal_semWait s = Inr s' \<and> w \<in> spare s SemDescriptorPtr_item \<and>
    core_ok s' (queued s L m w) \<and> sem_ok s' (queued s L m w) \<and> wait_ok s' (queued s L m w) \<and>
    running s' = running s \<and> pcb_syscall_retvalue (pcb s' (running s)) = 0 \<and>
    (\<forall>p. pcb_status (pcb s' p) = (if p = running s then Waiting else pcb_status (pcb s p))) \<and>
    (\<forall>k. sem_count (semaphore s' k) = (if k = m then sem_count (semaphore s k) - 1 else sem_count (semaphore s k))) \<and>
    semdescriptorptr s' = (semdescriptorptr s)(w := \<lparr>sp_descriptor = d\<rparr>) \<and>
    semdescriptor s' = semdescriptor s \<and> live s' PCB_item = live s PCB_item \<and>
    live s' SemDescriptorPtr_item = insert w (live s SemDescriptorPtr_item)"
proof -
  have live: "running s \<in> live s PCB_item" by (rule idleD(1) [OF r])
  have dm: "d \<in> set (L (SemDescriptors (running s)))"
    using sem_of_fd_mem [where s = s and L = L and fd = "ucast (run_arg s 0)"] d by simp
  have ml: "m \<in> live s Semaphore_item" "m \<noteq> NULL" using sem_ok_live [OF c k dm] m by simp_all
  let ?s1 = "upd_semaphore m (\<lambda>c. c\<lparr>sem_count := sem_count c - 1\<rparr>) s"
  have c1: "core_ok ?s1 L" "idle ?s1 L PCB_item (running s)" using c r by simp_all
  have neg: "sem_count (semaphore s m) - 1 <s 0"
    using n sint_dec [of "sem_count (semaphore s m)"] by (simp add: word_sless_alt)
  from c1(1) show ?thesis
  proof (cases rule: SemDescriptorPtr_alloc_cases [of ?s1 L d])
    case exhausted
    with sp show ?thesis by (simp add: upd_semaphore_def)
  next
    case (block w A)
    let ?s2 = "?s1\<lparr>semdescriptorptr_mem := A\<rparr>"
    note c2 = allocd_core [OF c1(1) block(2)]
    have w: "w \<in> spare s SemDescriptorPtr_item" "w \<notin> live s SemDescriptorPtr_item"
      using block(2) by (simp_all add: allocd_def upd_semaphore_def)
    have h: "SemWaiting m \<in> heads ?s2" using ml(1) by (simp add: upd_semaphore_def)
    let ?L3 = "L(SemWaiting m := L (SemWaiting m) @ [w])"
    obtain a b where i3: "k_append ?s2 (SemWaiting m) w = Inr (w, put_list (SemWaiting m) a b ?s2)"
        "core_ok (put_list (SemWaiting m) a b ?s2) ?L3"
        "\<And>k y. idle ?s2 L k y \<Longrightarrow> (k = SemDescriptorPtr_item \<Longrightarrow> y \<noteq> w) \<Longrightarrow>
          idle (put_list (SemWaiting m) a b ?s2) ?L3 k y"
      by (rule core_appendE [OF c2(1,2) h, of ?L3]) (simp, simp, blast)
    let ?s4 = "set_status (running s) Waiting (put_list (SemWaiting m) a b ?s2)"
    have c4: "core_ok ?s4 ?L3" "idle ?s4 ?L3 PCB_item (running s)"
      using i3(2) i3(3) [OF c2(3) [OF c1(2)]] by simp_all
    obtain a' b' where i5: "k_append ?s4 WaitingList (running s) = Inr (running s, put_list WaitingList a' b' ?s4)"
        "core_ok (put_list WaitingList a' b' ?s4) (queued s L m w)"
      by (rule core_appendE [OF c4, of WaitingList "queued s L m w"]) (simp, simp, simp add: queued_def, blast)
    let ?s6 = "set_retvalue (running s) 0 (put_list WaitingList a' b' ?s4)"
    have "internal_semWait s = Inr ?s6"
      using live_nonnull [OF c live] sem_lookup [OF c live] d m ml(2) neg block(1) i3(1) i5(1)
      by (simp add: internal_semWait_def Let_def del: put_list_lists)
        (simp add: upd_semaphore_def set_status_def upd_pcb_def)
    moreover have s6: "semdescriptor ?s6 = semdescriptor s"
        "semdescriptorptr ?s6 = (semdescriptorptr s)(w := \<lparr>sp_descriptor = d\<rparr>)"
        "live ?s6 Semaphore_item = live s Semaphore_item" "live ?s6 SemDescriptor_item = live s SemDescriptor_item"
        "\<And>k. sem_count (semaphore ?s6 k) = (if k = m then sem_count (semaphore s k) - 1 else sem_count (semaphore s k))"
      using block(3)
      by (simp_all add: set_retvalue_def set_status_def upd_pcb_def upd_semaphore_def)
        (cases "semdescriptorptr s w", simp)
    moreover have "wait_ok ?s6 (queued s L m w)"
    proof (rule wait_ok_queued [OF c o _ _ _ n ml(1) _ s6])
      show "d \<in> live s SemDescriptor_item" using core_mem [OF c dm] by (simp del: pool_of.simps)
      show "running s \<notin> set (L WaitingList)" using idleD(3) [OF r, of WaitingList] by simp
      show "sd_pcb (semdescriptor s d) = running s" using k dm unfolding sem_ok_def by blast
      show "w \<notin> set (L (SemWaiting k))" for k using core_mem [OF c, of w "SemWaiting k"] w(2) by auto
    qed
    moreover have "sem_ok ?s6 (queued s L m w)"
    proof (rule sem_ok_cong [OF k s6(1)])
      fix x p
      assume x: "x \<in> set (L (SemDescriptors p))"
      then have "sd_ptr (semdescriptor s x) \<in> set (L (SemDescs (sd_semaphore (semdescriptor s x))))"
        using k unfolding sem_ok_def by blast
      then have "sd_ptr (semdescriptor s x) \<noteq> w" using core_mem [OF c] w(2) by fastforce
      then show "semdescriptorptr ?s6 (sd_ptr (semdescriptor s x)) = semdescriptorptr s (sd_ptr (semdescriptor s x))"
        unfolding s6(2) by simp
    qed (simp_all add: queued_def)
    moreover have "core_ok ?s6 (queued s L m w)" using i5(2) by simp
    moreover have "running ?s6 = running s" "pcb_syscall_retvalue (pcb ?s6 (running s)) = 0"
      "pcb_status (pcb ?s6 p) = (if p = running s then Waiting else pcb_status (pcb s p))"
      "live ?s6 PCB_item = live s PCB_item" for p
      by (simp_all add: set_retvalue_def set_status_def upd_pcb_def upd_semaphore_def)
    moreover have "live ?s6 SemDescriptorPtr_item = insert w (live s SemDescriptorPtr_item)"
      using block(2) by (simp add: allocd_def set_retvalue_def set_status_def upd_pcb_def upd_semaphore_def)
    ultimately show ?thesis using w(1) by blast
  qed
qed

lemma semWait_queue:
  assumes c: "core_ok s L" and k: "sem_ok s L" and o: "wait_ok s L" and r: "idle s L PCB_item (running s)"
    and d: "sem_of_fd s L (ucast (run_arg s 0)) = d" "d \<noteq> NULL"
    and m: "sd_semaphore (semdescriptor s d) = m"
    and n: "sint (sem_count (semaphore s m)) \<le> 0" "sint (sem_count (semaphore s m)) \<noteq> - (2 ^ 31)"
    and sp: "spare s SemDescriptorPtr_item \<noteq> {}"
  shows "\<exists>s' w. internal_semWait s = Inr s' \<and> w \<in> spare s SemDescriptorPtr_item \<and>
    core_ok s' (queued s L m w) \<and> sem_ok s' (queued s L m w) \<and> wait_ok s' (queued s L m w) \<and>
    running s' = running s \<and> pcb_syscall_retvalue (pcb s' (running s)) = 0 \<and>
    (\<forall>p. pcb_status (pcb s' p) = (if p = running s then Waiting else pcb_status (pcb s p))) \<and>
    (\<forall>k. sem_count (semaphore s' k) = (if k = m then sem_count (semaphore s k) - 1 else sem_count (semaphore s k))) \<and>
    semdescriptorptr s' = (semdescriptorptr s)(w := \<lparr>sp_descriptor = d\<rparr>)"
  using semWait_queued [OF assms] by blast

lemma semWait_exhausted:
  assumes c: "core_ok s L" and k: "sem_ok s L" and r: "running s \<in> live s PCB_item"
    and d: "sem_of_fd s L (ucast (run_arg s 0)) = d" "d \<noteq> NULL"
    and m: "sd_semaphore (semdescriptor s d) = m"
    and n: "sint (sem_count (semaphore s m)) \<le> 0" "sint (sem_count (semaphore s m)) \<noteq> - (2 ^ 31)"
    and sp: "spare s SemDescriptorPtr_item = {}"
  shows "internal_semWait s = Inl NullDeref"
proof -
  have dm: "d \<in> set (L (SemDescriptors (running s)))"
    using sem_of_fd_mem [where s = s and L = L and fd = "ucast (run_arg s 0)"] d by simp
  have ml: "m \<noteq> NULL" using sem_ok_live [OF c k dm] m by simp
  let ?s1 = "upd_semaphore m (\<lambda>c. c\<lparr>sem_count := sem_count c - 1\<rparr>) s"
  have neg: "sem_count (semaphore s m) - 1 <s 0"
    using n sint_dec [of "sem_count (semaphore s m)"] by (simp add: word_sless_alt)
  have "core_ok ?s1 L" using c by simp
  then show ?thesis
  proof (cases rule: SemDescriptorPtr_alloc_cases [of ?s1 L d])
    case exhausted
    then show ?thesis
      using live_nonnull [OF c r] sem_lookup [OF c r] d m ml neg
      by (simp add: internal_semWait_def Let_def k_append_def k_insert_def List_insert_def)
        (simp add: upd_semaphore_def)
  next
    case (block w A)
    with sp show ?thesis by (simp add: allocd_def upd_semaphore_def)
  qed
qed

subsection \<open>post\<close>

definition unqueued :: "kernel \<Rightarrow> (list_loc \<Rightarrow> ptr list) \<Rightarrow> ptr \<Rightarrow> list_loc \<Rightarrow> ptr list" where
  "unqueued s L m =
     (let p = waiter s (hd (L (SemWaiting m))) in
      L(SemWaiting m := tl (L (SemWaiting m)), WaitingList := remove1 p (L WaitingList),
        ReadyList := L ReadyList @ [p]))"

lemma semPost_free:
  assumes c: "core_ok s L" and k: "sem_ok s L" and r: "running s \<in> live s PCB_item"
    and d: "sem_of_fd s L (ucast (run_arg s 0)) = d" "d \<noteq> NULL"
    and m: "sd_semaphore (semdescriptor s d) = m"
    and n: "0 \<le> sint (sem_count (semaphore s m))" "sint (sem_count (semaphore s m)) \<noteq> 2 ^ 31 - 1"
  shows "internal_semPost s = Inr (set_retvalue (running s) 0
    (upd_semaphore m (\<lambda>c. c\<lparr>sem_count := sem_count c + 1\<rparr>) s))"
proof -
  have "m \<noteq> NULL"
    using sem_ok_live(2) [OF c k] sem_of_fd_mem [where s = s and L = L and fd = "ucast (run_arg s 0)"] d m
    by auto
  moreover have "\<not> sem_count (semaphore s m) + 1 \<le>s 0"
    using n sint_inc [of "sem_count (semaphore s m)"] by (simp add: word_sle_eq)
  ultimately show ?thesis
    using live_nonnull [OF c r] sem_lookup [OF c r] d m
    by (simp add: internal_semPost_def Let_def, simp add: upd_semaphore_def)
qed

lemma wait_ok_unqueued:
  assumes c: "core_ok s L" and o: "wait_ok s L" and n: "sint (sem_count (semaphore s m)) < 0"
    and m: "m \<in> live s Semaphore_item" and w: "L (SemWaiting m) = w # ws"
    and s': "semdescriptor s' = semdescriptor s" "semdescriptorptr s' = semdescriptorptr s"
      "live s' Semaphore_item = live s Semaphore_item" "live s' SemDescriptor_item = live s SemDescriptor_item"
      "\<And>k. sem_count (semaphore s' k) = (if k = m then sem_count (semaphore s k) + 1 else sem_count (semaphore s k))"
  shows "wait_ok s' (unqueued s L m)"
proof -
  let ?U = "unqueued s L m"
  have q: "?U (SemWaiting k) = (if k = m then ws else L (SemWaiting k))"
    "?U WaitingList = remove1 (waiter s w) (L WaitingList)" for k
    using w by (simp_all add: unqueued_def Let_def)
  have sub: "x \<in> set (L (SemWaiting k)) \<and> x \<noteq> w" if "x \<in> set (?U (SemWaiting k))" for x k
    using that w core_distinct [OF c, of "SemWaiting m"] core_apart [OF c, of w "SemWaiting m" "SemWaiting k"]
    unfolding q by (auto split: if_splits)
  have "int (length (?U (SemWaiting k))) = max 0 (- sint (sem_count (semaphore s' k)))"
    if "k \<in> live s' Semaphore_item" for k
    using o that n w m sint_inc [of "sem_count (semaphore s m)"] unfolding wait_ok_def q s'(3,5) by auto
  moreover have "sp_descriptor (semdescriptorptr s' x) \<in> live s' SemDescriptor_item \<and> waiter s' x \<in> set (?U WaitingList)"
    if "x \<in> set (?U (SemWaiting k))" for x k
  proof -
    have "w \<in> set (L (SemWaiting m))" using w by simp
    then have "waiter s x \<noteq> waiter s w" "waiter s x \<in> set (L WaitingList)"
        "sp_descriptor (semdescriptorptr s x) \<in> live s SemDescriptor_item"
      using o sub [OF that] unfolding wait_ok_def by blast+
    then show ?thesis unfolding s'(4) by (simp add: q s'(1,2) del: pool_of.simps)
  qed
  moreover have "x = y" if "x \<in> set (?U (SemWaiting k))" "y \<in> set (?U (SemWaiting k'))"
    "waiter s' x = waiter s' y" for x y k k'
    using o sub [OF that(1)] sub [OF that(2)] that(3) unfolding wait_ok_def s'(1,2) by blast
  ultimately show ?thesis unfolding wait_ok_def by blast
qed

lemma semPost_woken:
  assumes c: "core_ok s L" and k: "sem_ok s L" and o: "wait_ok s L" and r: "running s \<in> live s PCB_item"
    and d: "sem_of_fd s L (ucast (run_arg s 0)) = d" "d \<noteq> NULL"
    and m: "sd_semaphore (semdescriptor s d) = m" and n: "sint (sem_count (semaphore s m)) < 0"
  shows "\<exists>s'. internal_semPost s = Inr s' \<and> L (SemWaiting m) \<noteq> [] \<and>
    core_ok s' (unqueued s L m) \<and> sem_ok s' (unqueued s L m) \<and> wait_ok s' (unqueued s L m) \<and>
    (\<forall>y. idle s L PCB_item y \<longrightarrow> idle s' (unqueued s L m) PCB_item y) \<and>
    running s' = running s \<and> pcb_syscall_retvalue (pcb s' (running s)) = 0 \<and>
    (\<forall>p. pcb_status (pcb s' p) =
      (if p = waiter s (hd (L (SemWaiting m))) then Ready else pcb_status (pcb s p))) \<and>
    (\<forall>k. sem_count (semaphore s' k) = (if k = m then sem_count (semaphore s k) + 1 else sem_count (semaphore s k))) \<and>
    (\<forall>k. pool_of s' k = pool_of s k) \<and> semdescriptor s' = semdescriptor s"
proof -
  have dm: "d \<in> set (L (SemDescriptors (running s)))"
    using sem_of_fd_mem [where s = s and L = L and fd = "ucast (run_arg s 0)"] d by simp
  have ml: "m \<in> live s Semaphore_item" "m \<noteq> NULL" using sem_ok_live [OF c k dm] m by simp_all
  have "int (length (L (SemWaiting m))) > 0" using o n ml(1) by (simp add: wait_ok_def)
  then obtain w ws where w: "L (SemWaiting m) = w # ws" by (cases "L (SemWaiting m)") auto
  then have wm: "w \<in> set (L (SemWaiting m))" by simp
  have wn: "w \<noteq> NULL" "sp_descriptor (semdescriptorptr s w) \<noteq> NULL" "waiter s w \<in> set (L WaitingList)"
    using core_nonnull [OF c wm] live_nonnull [OF c] o wm unfolding wait_ok_def by blast+
  let ?p = "waiter s w"
  obtain as bs where ab: "L WaitingList = as @ ?p # bs" "?p \<notin> set as"
    using wn(3) by (blast dest: split_list_first)
  have U: "unqueued s L m = L(SemWaiting m := ws, WaitingList := as @ bs, ReadyList := L ReadyList @ [?p])"
    using w ab by (simp add: unqueued_def Let_def remove1_append)
  let ?s1 = "upd_semaphore m (\<lambda>c. c\<lparr>sem_count := sem_count c + 1\<rparr>) s"
  have c1: "core_ok ?s1 L" using c by simp
  obtain a b where d2: "k_detach ?s1 (SemWaiting m) (k_first ?s1 (SemWaiting m)) = Inr (w, put_list (SemWaiting m) a b ?s1)"
      "core_ok (put_list (SemWaiting m) a b ?s1) (L(SemWaiting m := ws))"
      "\<And>k y. idle ?s1 L k y \<Longrightarrow> idle (put_list (SemWaiting m) a b ?s1) (L(SemWaiting m := ws)) k y"
    by (rule core_popE [OF c1 w]) (simp, simp, blast)
  let ?s2 = "put_list (SemWaiting m) a b ?s1"
  have "(L(SemWaiting m := ws)) WaitingList = as @ ?p # bs" using ab by simp
  then obtain a' b' where d3: "k_detach ?s2 WaitingList ?p = Inr (?p, put_list WaitingList a' b' ?s2)"
      "core_ok (put_list WaitingList a' b' ?s2) (L(SemWaiting m := ws, WaitingList := as @ bs))"
      "idle (put_list WaitingList a' b' ?s2) (L(SemWaiting m := ws, WaitingList := as @ bs)) PCB_item ?p"
      "\<And>k y. idle ?s2 (L(SemWaiting m := ws)) k y \<Longrightarrow>
        idle (put_list WaitingList a' b' ?s2) (L(SemWaiting m := ws, WaitingList := as @ bs)) k y"
    by (rule core_detachE [OF d2(2)]) (simp, simp, blast)
  let ?s3 = "set_status ?p Ready (put_list WaitingList a' b' ?s2)"
  have c3: "core_ok ?s3 (L(SemWaiting m := ws, WaitingList := as @ bs))"
      "idle ?s3 (L(SemWaiting m := ws, WaitingList := as @ bs)) PCB_item ?p"
    using d3(2,3) by simp_all
  obtain a'' b'' where d4: "k_append ?s3 ReadyList ?p = Inr (?p, put_list ReadyList a'' b'' ?s3)"
      "core_ok (put_list ReadyList a'' b'' ?s3) (unqueued s L m)"
      "\<And>k y. idle ?s3 (L(SemWaiting m := ws, WaitingList := as @ bs)) k y \<Longrightarrow> (k = PCB_item \<Longrightarrow> y \<noteq> ?p) \<Longrightarrow>
        idle (put_list ReadyList a'' b'' ?s3) (unqueued s L m) k y"
    by (rule core_appendE [OF c3, of ReadyList "unqueued s L m"]) (simp, simp, simp add: U, blast)
  let ?s5 = "set_retvalue (running s) 0 (put_list ReadyList a'' b'' ?s3)"
  have "?p \<noteq> NULL" using core_nonnull [OF c wn(3)] .
  moreover have "sem_count (semaphore s m) + 1 \<le>s 0"
    using n sint_inc [of "sem_count (semaphore s m)"] by (simp add: word_sle_eq)
  ultimately have "internal_semPost s = Inr ?s5"
    using live_nonnull [OF c r] sem_lookup [OF c r] d m ml(2) wn(1,2) d2(1) d3(1) d4(1)
    by (simp add: internal_semPost_def Let_def del: put_list_lists)
      (simp add: upd_semaphore_def set_status_def upd_pcb_def)
  moreover have s5: "semdescriptor ?s5 = semdescriptor s" "semdescriptorptr ?s5 = semdescriptorptr s"
      "live ?s5 Semaphore_item = live s Semaphore_item" "live ?s5 SemDescriptor_item = live s SemDescriptor_item"
      "\<And>k. sem_count (semaphore ?s5 k) = (if k = m then sem_count (semaphore s k) + 1 else sem_count (semaphore s k))"
    by (simp_all add: set_retvalue_def set_status_def upd_pcb_def upd_semaphore_def)
  moreover have "wait_ok ?s5 (unqueued s L m)" by (rule wait_ok_unqueued [OF c o n ml(1) w s5])
  moreover have "sem_ok ?s5 (unqueued s L m)"
    by (rule sem_ok_cong [OF k s5(1)]) (simp_all only: s5(2), simp_all add: U)
  moreover have "core_ok ?s5 (unqueued s L m)" using d4(2) by simp
  moreover have "idle ?s5 (unqueued s L m) PCB_item y" if "idle s L PCB_item y" for y
  proof -
    have "y \<noteq> ?p" using idleD(3) [OF that, of WaitingList] wn(3) by auto
    moreover have "idle ?s1 L PCB_item y" using that by simp
    then have "idle ?s3 (L(SemWaiting m := ws, WaitingList := as @ bs)) PCB_item y" using d3(4) [OF d2(3)] by simp
    ultimately have "idle (put_list ReadyList a'' b'' ?s3) (unqueued s L m) PCB_item y" by (intro d4(3))
    then show ?thesis by simp
  qed
  moreover have "pool_of ?s5 k = pool_of s k" for k
    by (cases k) (simp_all add: set_retvalue_def set_status_def upd_pcb_def upd_semaphore_def)
  moreover have "running ?s5 = running s" "pcb_syscall_retvalue (pcb ?s5 (running s)) = 0"
      "pcb_status (pcb ?s5 q) = (if q = ?p then Ready else pcb_status (pcb s q))" for q
    by (simp_all add: set_retvalue_def set_status_def upd_pcb_def upd_semaphore_def)
  ultimately show ?thesis using w by (intro exI [of _ ?s5]) (simp only: list.sel, blast)
qed

lemma semPost_wake:
  assumes c: "core_ok s L" and k: "sem_ok s L" and o: "wait_ok s L" and r: "running s \<in> live s PCB_item"
    and d: "sem_of_fd s L (ucast (run_arg s 0)) = d" "d \<noteq> NULL"
    and m: "sd_semaphore (semdescriptor s d) = m" and n: "sint (sem_count (semaphore s m)) < 0"
  shows "\<exists>s'. internal_semPost s = Inr s' \<and> L (SemWaiting m) \<noteq> [] \<and>
    core_ok s' (unqueued s L m) \<and> sem_ok s' (unqueued s L m) \<and> wait_ok s' (unqueued s L m) \<and>
    (\<forall>y. idle s L PCB_item y \<longrightarrow> idle s' (unqueued s L m) PCB_item y) \<and>
    running s' = running s \<and> pcb_syscall_retvalue (pcb s' (running s)) = 0 \<and>
    (\<forall>p. pcb_status (pcb s' p) =
      (if p = waiter s (hd (L (SemWaiting m))) then Ready else pcb_status (pcb s p))) \<and>
    (\<forall>k. sem_count (semaphore s' k) = (if k = m then sem_count (semaphore s k) + 1 else sem_count (semaphore s k))) \<and>
    (\<forall>k. pool_of s' k = pool_of s k)"
  using semPost_woken [OF assms] by blast

subsection \<open>Properties of wait and post\<close>

text \<open>
  C5: \<open>internal_semWait\<close> on every branch. A descriptor number that is not open gives
  \<open>DSOS_ESEMAPHOREWAIT\<close>; a positive count is decremented and nothing else happens; otherwise the
  count is decremented, the descriptor is queued at the semaphore and the process, marked as
  waiting, is appended to the waiting list, with all invariants kept. But also then \<open>running\<close> is
  the same process: the caller is resumed as if it had obtained the semaphore. When the list items
  are used up the call writes through a null pointer.
\<close>

theorem semWait_branches:
  assumes "core_ok s L" and "sem_ok s L" and "wait_ok s L" and "idle s L PCB_item (running s)"
    and "d = sem_of_fd s L (ucast (run_arg s 0))" and "m = sd_semaphore (semdescriptor s d)"
    and "sint (sem_count (semaphore s m)) \<noteq> - (2 ^ 31)"
  shows "if d = NULL then internal_semWait s = Inr (set_retvalue (running s) DSOS_ESEMAPHOREWAIT s)
    else if 0 < sint (sem_count (semaphore s m)) then internal_semWait s = Inr (set_retvalue (running s) 0
      (upd_semaphore m (\<lambda>c. c\<lparr>sem_count := sem_count c - 1\<rparr>) s))
    else if spare s SemDescriptorPtr_item = {} then internal_semWait s = Inl NullDeref
    else \<exists>s' w. internal_semWait s = Inr s' \<and> w \<in> spare s SemDescriptorPtr_item \<and>
      core_ok s' (queued s L m w) \<and> sem_ok s' (queued s L m w) \<and> wait_ok s' (queued s L m w) \<and>
      running s' = running s \<and> pcb_syscall_retvalue (pcb s' (running s)) = 0 \<and>
      (\<forall>p. pcb_status (pcb s' p) = (if p = running s then Waiting else pcb_status (pcb s p))) \<and>
      (\<forall>k. sem_count (semaphore s' k) = (if k = m then sem_count (semaphore s k) - 1 else sem_count (semaphore s k))) \<and>
      semdescriptorptr s' = (semdescriptorptr s)(w := \<lparr>sp_descriptor = d\<rparr>)"
proof -
  note live = idleD(1) [OF assms(4)]
  have "d = NULL \<Longrightarrow> internal_semWait s = Inr (set_retvalue (running s) DSOS_ESEMAPHOREWAIT s)"
    using live_nonnull [OF assms(1) live] sem_lookup [OF assms(1) live] assms(5)
    by (simp add: internal_semWait_def Let_def)
  then show ?thesis
    using semWait_free [OF assms(1,2) live assms(5) [symmetric] _ assms(6) [symmetric]]
      semWait_exhausted [OF assms(1,2) live assms(5) [symmetric] _ assms(6) [symmetric] _ assms(7)]
      semWait_queue [OF assms(1-4) assms(5) [symmetric] _ assms(6) [symmetric] _ assms(7)]
    by (intro if_intro) (simp_all only: not_less simp_thms)
qed

lemma ex_sem_ok: "sem_ok ex_state ex_lists"
  by (simp add: sem_ok_def ex_mem_defs)

lemma ex_wait_ok: "wait_ok ex_state ex_lists"
proof -
  have "waiter ex_state 36912 = 4144" "sp_descriptor (semdescriptorptr ex_state 36912) = 32800"
      "sint (sem_count (semaphore ex_state 28672)) = 1" "sint (sem_count (semaphore ex_state 28688)) = -1"
    by (simp_all add: ex_mem_defs)
  then show ?thesis unfolding wait_ok_def ex_state_live by simp
qed

lemma ex_args_ok: "core_ok (ex_args f) ex_lists" "sem_ok (ex_args f) ex_lists" "wait_ok (ex_args f) ex_lists"
proof -
  show "core_ok (ex_args f) ex_lists" using ex_core by simp
  show "sem_ok (ex_args f) ex_lists" by (rule sem_ok_cong [OF ex_sem_ok]) simp_all
  show "wait_ok (ex_args f) ex_lists" using ex_wait_ok unfolding wait_ok_def ex_args_fields .
qed

theorem semWait_branches_witness:
  "\<exists>s' w. internal_semWait (ex_call 1) = Inr s' \<and> core_ok s' (queued (ex_call 1) ex_lists 28688 w) \<and>
    running s' = 4096 \<and> pcb_status (pcb s' 4096) = Waiting \<and> sem_count (semaphore s' 28688) = -2"
proof -
  have d: "sem_of_fd (ex_call 1) ex_lists (ucast (run_arg (ex_call 1) 0)) = 32784"
      "sd_semaphore (semdescriptor (ex_call 1) 32784) = 28688" "sem_count (semaphore (ex_call 1) 28688) = -1"
    by (simp_all add: ex_mem_defs)
  have sp: "spare (ex_call 1) SemDescriptorPtr_item \<noteq> {}" by (simp add: ex_pool_blocks del: pool_of.simps) (simp add: ex_pool_blocks)
  have i: "idle (ex_call 1) ex_lists PCB_item (running (ex_call 1))" using ex_running by simp
  have c: "sint (sem_count (semaphore (ex_call 1) 28688)) = -1" unfolding d(3) by simp
  have "sint (sem_count (semaphore (ex_call 1) 28688)) \<noteq> - (2 ^ 31)" unfolding c by simp
  from semWait_branches [OF ex_args_ok i d(1) [symmetric] d(2) [symmetric] this]
  have "\<exists>s' w. internal_semWait (ex_call 1) = Inr s' \<and> core_ok s' (queued (ex_call 1) ex_lists 28688 w) \<and>
      running s' = running (ex_call 1) \<and>
      (\<forall>p. pcb_status (pcb s' p) = (if p = running (ex_call 1) then Waiting else pcb_status (pcb (ex_call 1) p))) \<and>
      (\<forall>k. sem_count (semaphore s' k) =
        (if k = 28688 then sem_count (semaphore (ex_call 1) k) - 1 else sem_count (semaphore (ex_call 1) k)))"
    unfolding c using sp by (simp del: ex_args_fields split del: if_split) blast
  then show ?thesis using d(3) by auto
qed

text \<open>
  C8: \<open>internal_semPost\<close> on every branch. A count that is not negative is incremented and nothing
  else happens. A negative count is incremented and the process that has waited longest leaves the
  queue of the semaphore and the waiting list and becomes the last ready process; the list item
  that queued it is not given back, since no pool changes. A descriptor number that is not open is
  not reported: the null descriptor is dereferenced.
\<close>

theorem semPost_branches:
  assumes "core_ok s L" and "sem_ok s L" and "wait_ok s L" and "running s \<in> live s PCB_item"
    and "d = sem_of_fd s L (ucast (run_arg s 0))" and "m = sd_semaphore (semdescriptor s d)"
    and "sint (sem_count (semaphore s m)) \<noteq> 2 ^ 31 - 1"
  shows "if d = NULL then internal_semPost s = Inl NullDeref
    else if 0 \<le> sint (sem_count (semaphore s m)) then internal_semPost s = Inr (set_retvalue (running s) 0
      (upd_semaphore m (\<lambda>c. c\<lparr>sem_count := sem_count c + 1\<rparr>) s))
    else \<exists>s'. internal_semPost s = Inr s' \<and> L (SemWaiting m) \<noteq> [] \<and>
      core_ok s' (unqueued s L m) \<and> sem_ok s' (unqueued s L m) \<and> wait_ok s' (unqueued s L m) \<and>
      (\<forall>y. idle s L PCB_item y \<longrightarrow> idle s' (unqueued s L m) PCB_item y) \<and>
      running s' = running s \<and> pcb_syscall_retvalue (pcb s' (running s)) = 0 \<and>
      (\<forall>p. pcb_status (pcb s' p) =
        (if p = waiter s (hd (L (SemWaiting m))) then Ready else pcb_status (pcb s p))) \<and>
      (\<forall>k. sem_count (semaphore s' k) = (if k = m then sem_count (semaphore s k) + 1 else sem_count (semaphore s k))) \<and>
      (\<forall>k. pool_of s' k = pool_of s k)"
proof -
  have "d = NULL \<Longrightarrow> internal_semPost s = Inl NullDeref"
    using live_nonnull [OF assms(1,4)] sem_lookup [OF assms(1,4)] assms(5)
    by (simp add: internal_semPost_def Let_def)
  then show ?thesis
    using semPost_free [OF assms(1,2,4) assms(5) [symmetric] _ assms(6) [symmetric] _ assms(7)]
      semPost_wake [OF assms(1-4) assms(5) [symmetric] _ assms(6) [symmetric]]
    by (intro if_intro) (simp_all only: not_le simp_thms)
qed

theorem semPost_branches_witness:
  "\<exists>s'. internal_semPost (ex_call 1) = Inr s' \<and> core_ok s' (unqueued (ex_call 1) ex_lists 28688) \<and>
    unqueued (ex_call 1) ex_lists 28688 ReadyList = [4112, 4144] \<and> pcb_status (pcb s' 4144) = Ready"
proof -
  have d: "sem_of_fd (ex_call 1) ex_lists (ucast (run_arg (ex_call 1) 0)) = 32784"
      "sd_semaphore (semdescriptor (ex_call 1) 32784) = 28688" "sem_count (semaphore (ex_call 1) 28688) = -1"
      "waiter (ex_call 1) 36912 = 4144"
    by (simp_all add: ex_mem_defs)
  have i: "running (ex_call 1) \<in> live (ex_call 1) PCB_item" unfolding ex_args_fields ex_state_live by simp
  have c: "sint (sem_count (semaphore (ex_call 1) 28688)) = -1" unfolding d(3) by simp
  have "sint (sem_count (semaphore (ex_call 1) 28688)) \<noteq> 2 ^ 31 - 1" unfolding c by simp
  from semPost_branches [OF ex_args_ok i d(1) [symmetric] d(2) [symmetric] this]
  have "\<exists>s'. internal_semPost (ex_call 1) = Inr s' \<and> core_ok s' (unqueued (ex_call 1) ex_lists 28688) \<and>
      (\<forall>p. pcb_status (pcb s' p) =
        (if p = waiter (ex_call 1) (hd (ex_lists (SemWaiting 28688))) then Ready else pcb_status (pcb (ex_call 1) p)))"
    unfolding c by (simp del: ex_args_fields split del: if_split) blast
  moreover have "unqueued (ex_call 1) ex_lists 28688 ReadyList = [4112, 4144]"
    using d(4) by (simp add: unqueued_def Let_def)
  ultimately show ?thesis using d(4) by auto
qed

lemma retvalue_over_count:
  "set_retvalue r v (upd_semaphore m (\<lambda>c. c\<lparr>sem_count := sem_count c + 1\<rparr>)
     (set_retvalue r u (upd_semaphore m (\<lambda>c. c\<lparr>sem_count := sem_count c - 1\<rparr>) s))) = set_retvalue r v s"
  by (rule kernel.equality)
    (simp_all add: set_retvalue_def upd_pcb_def upd_semaphore_def ar_upd_def)

text \<open>
  Post undoes wait. When the semaphore is free, a process that waits on it and then posts on
  the same descriptor leaves the whole system as it was, up to the return value 0 of the calls.
\<close>

theorem semWait_semPost_roundtrip:
  assumes "core_ok s L" and "sem_ok s L" and "running s \<in> live s PCB_item"
    and "sem_of_fd s L (ucast (run_arg s 0)) \<noteq> NULL"
    and "0 < sint (sem_count (semaphore s (sd_semaphore (semdescriptor s (sem_of_fd s L (ucast (run_arg s 0)))))))"
  shows "bindE (internal_semWait s) internal_semPost = Inr (set_retvalue (running s) 0 s)"
proof -
  let ?d = "sem_of_fd s L (ucast (run_arg s 0))" and ?r = "running s"
  let ?m = "sd_semaphore (semdescriptor s ?d)"
  let ?s1 = "set_retvalue ?r 0 (upd_semaphore ?m (\<lambda>c. c\<lparr>sem_count := sem_count c - 1\<rparr>) s)"
  have w: "internal_semWait s = Inr ?s1" by (rule semWait_free [OF assms(1-3) refl assms(4) refl assms(5)])
  have f: "running ?s1 = ?r" "semdescriptor ?s1 = semdescriptor s" "semdescriptorptr ?s1 = semdescriptorptr s"
      "run_arg ?s1 0 = run_arg s 0" "live ?s1 PCB_item = live s PCB_item"
      "sem_count (semaphore ?s1 ?m) = sem_count (semaphore s ?m) - 1"
    by (simp_all add: set_retvalue_def upd_pcb_def upd_semaphore_def)
  have c1: "core_ok ?s1 L" using assms(1) by simp
  have r1: "running ?s1 \<in> live ?s1 PCB_item" unfolding f(1,5) by (rule assms(3))
  have k1: "sem_ok ?s1 L" by (rule sem_ok_cong [OF assms(2) f(2)]) (simp_all only: f(3))
  have n: "sint (sem_count (semaphore ?s1 ?m)) = sint (sem_count (semaphore s ?m)) - 1"
    unfolding f(6) using assms(5) by (intro sint_dec) auto
  have "internal_semPost ?s1 = Inr (set_retvalue (running ?s1) 0
      (upd_semaphore ?m (\<lambda>c. c\<lparr>sem_count := sem_count c + 1\<rparr>) ?s1))"
  proof (rule semPost_free [OF c1 k1 r1])
    show "sem_of_fd ?s1 L (ucast (run_arg ?s1 0)) = ?d" unfolding f(4) unfolding f(1,2) ..
    show "sd_semaphore (semdescriptor ?s1 ?d) = ?m" unfolding f(2) ..
    show "0 \<le> sint (sem_count (semaphore ?s1 ?m))" "sint (sem_count (semaphore ?s1 ?m)) \<noteq> 2 ^ 31 - 1"
      unfolding n using assms(5) sint_range32(2) [of "sem_count (semaphore s ?m)"] by simp_all
  qed (rule assms(4))
  also have "\<dots> = Inr (set_retvalue ?r 0 s)" unfolding f(1) retvalue_over_count ..
  finally show ?thesis unfolding w by simp
qed

theorem semWait_semPost_roundtrip_witness:
  "bindE (internal_semWait (ex_call 0)) internal_semPost = Inr (set_retvalue 4096 0 (ex_call 0))"
proof -
  have d: "sem_of_fd (ex_call 0) ex_lists (ucast (run_arg (ex_call 0) 0)) = 32768"
      "sd_semaphore (semdescriptor (ex_call 0) 32768) = 28672" "sem_count (semaphore (ex_call 0) 28672) = 1"
    by (simp_all add: ex_mem_defs)
  have i: "running (ex_call 0) \<in> live (ex_call 0) PCB_item" unfolding ex_args_fields ex_state_live by simp
  from semWait_semPost_roundtrip [OF ex_args_ok(1,2) i] show ?thesis unfolding d by simp
qed

end
