(* ===== verification/Kernel.thy ===== *)
theory Kernel
  imports Process_Calls Resource_Calls Semaphore_Calls
begin

text \<open>
  \<open>disastrOS.c\<close>: the start of the system, the system call trap and the functions that processes
  call. \<open>swapcontext\<close> and \<open>setcontext\<close> are the points where control leaves a function; what is
  resumed is the result (\<open>resume\<close>).
\<close>

datatype resume = ResumeProcess ptr | ReturnToMain

text \<open>\<open>Returned v\<close>: the call returned without trapping; \<open>Trapped r\<close>: the trap resumed \<open>r\<close>.\<close>

datatype syscall_outcome = Returned cint | Trapped resume

subsection \<open>Start\<close>

definition syscall_table :: "(cint \<times> handler \<times> cint) list" where
  "syscall_table =
     [(DSOS_CALL_PREEMPT, internal_preempt_h, 0),
      (DSOS_CALL_FORK, internal_fork_h, 0),
      (DSOS_CALL_SPAWN, internal_spawn_h, 2),
      (DSOS_CALL_WAIT, internal_wait_h, 2),
      (DSOS_CALL_EXIT, internal_exit_h, 1),
      (DSOS_CALL_SLEEP, internal_sleep_h, 1),
      (DSOS_CALL_OPEN_RESOURCE, internal_openResource_h, 3),
      (DSOS_CALL_CLOSE_RESOURCE, internal_closeResource_h, 1),
      (DSOS_CALL_DESTROY_RESOURCE, internal_destroyResource_h, 1),
      (DSOS_CALL_SHUTDOWN, internal_shutdown_h, 0),
      (DSOS_CALL_SEMOPEN, internal_semOpen_h, 3),
      (DSOS_CALL_SEMCLOSE, internal_semClose_h, 1),
      (DSOS_CALL_SEMPOST, internal_semPost_h, 1),
      (DSOS_CALL_SEMWAIT, internal_semWait_h, 1)]"

text \<open>
  The tables are filled entry by entry. \<open>syscall_vector\<close> is cleared first; the entries of
  \<open>syscall_numarg\<close> that are not set keep the zero of static memory.
\<close>

fun fill_table :: "(cint \<times> handler \<times> cint) list \<Rightarrow> handler option list \<times> cint list \<Rightarrow>
    handler option list \<times> cint list" where
  "fill_table [] t = t"
| "fill_table ((n, h, k) # es) (vec, numarg) =
     fill_table es (vec[nat (sint n) := Some h], numarg[nat (sint n) := k])"

definition start_structures :: "static_mem \<Rightarrow> kernel \<Rightarrow> kernel result" where
  "start_structures st s =
     bindE (PCB_init st s) (\<lambda>s.
     bindE (Timer_init st s) (\<lambda>s.
     bindE (Resource_init st s) (\<lambda>s.
     bindE (Descriptor_init st s) (\<lambda>s.
     bindE (Semaphore_init st s) (\<lambda>s.
     bindE (SemDescriptor_init st s) (\<lambda>s.
     let (vec, numarg) = fill_table syscall_table
           (replicate (nat (sint DSOS_MAX_SYSCALLS)) None, syscall_numarg s) in
     Inr (s\<lparr>init_pcb := NULL, syscall_vector := vec, syscall_numarg := numarg, running := NULL,
       ready_list := List_init, waiting_list := List_init, zombie_list := List_init,
       resources_list := List_init, semaphores_list := List_init, timer_list := List_init\<rparr>)))))))"

text \<open>
  The rest of \<open>disastrOS_start\<close> follows \<open>getcontext(&main_context)\<close>: it runs once at the start and
  again whenever control returns to the main context. \<open>None\<close> is \<open>exit(0)\<close>.
\<close>

definition start_first :: "clong \<Rightarrow> clong \<Rightarrow> kernel \<Rightarrow> (resume \<times> kernel) option result" where
  "start_first f f_args s =
     (if shutdown_now s \<noteq> 0 then Inr None
      else
        bindE (PCB_alloc s) (\<lambda>(p, s).
        Inr (Some (ResumeProcess p,
          (upd_pcb p (\<lambda>c. c\<lparr>pcb_status := Running, pcb_cpu_state := EntryContext f f_args\<rparr>) s)
            \<lparr>running := p, init_pcb := p\<rparr>))))"

definition disastrOS_start ::
    "static_mem \<Rightarrow> clong \<Rightarrow> clong \<Rightarrow> kernel \<Rightarrow> (resume \<times> kernel) option result" where
  "disastrOS_start st f f_args s = bindE (start_structures st s) (start_first f f_args)"

subsection \<open>The trap\<close>

fun call_handler :: "handler \<Rightarrow> kernel \<Rightarrow> kernel result" where
  "call_handler internal_preempt_h s = internal_preempt s"
| "call_handler internal_fork_h s = internal_fork s"
| "call_handler internal_wait_h s = internal_wait s"
| "call_handler internal_exit_h s = internal_exit s"
| "call_handler internal_spawn_h s = internal_spawn s"
| "call_handler internal_sleep_h s = internal_sleep s"
| "call_handler internal_openResource_h s = internal_openResource s"
| "call_handler internal_closeResource_h s = internal_closeResource s"
| "call_handler internal_destroyResource_h s = internal_destroyResource s"
| "call_handler internal_shutdown_h s = Inr (internal_shutdown s)"
| "call_handler internal_semOpen_h s = internal_semOpen s"
| "call_handler internal_semClose_h s = internal_semClose s"
| "call_handler internal_semWait_h s = internal_semWait s"
| "call_handler internal_semPost_h s = internal_semPost s"

text \<open>
  After the handler the running process is resumed; without one the trap function returns, which
  resumes \<open>main_context\<close>. \<open>internal_shutdown\<close> jumps there itself.
\<close>

definition disastrOS_trap :: "kernel \<Rightarrow> (resume \<times> kernel) result" where
  "disastrOS_trap s =
     check (running s \<noteq> NULL) NullDeref
     (let syscall_num = pcb_syscall_num (pcb s (running s)) in
      if syscall_num <s 0 \<or> DSOS_MAX_SYSCALLS <s syscall_num
      then Inr (ResumeProcess (running s), set_retvalue (running s) DSOS_ESYSCALL_OUT_OF_RANGE s)
      else
        bindE (arr_get (syscall_vector s) syscall_num) (\<lambda>my_syscall.
        case my_syscall of
          None \<Rightarrow> Inr (ResumeProcess (running s), set_retvalue (running s) DSOS_ESYSCALL_NOT_IMPLEMENTED s)
        | Some h \<Rightarrow>
            bindE (call_handler h s) (\<lambda>s.
            if h = internal_shutdown_h then Inr (ReturnToMain, s)
            else if running s \<noteq> NULL then Inr (ResumeProcess (running s), s)
            else Inr (ReturnToMain, s))))"

text \<open>
  The loop that copies the arguments into the registers of the process; reading an argument that
  was not passed and writing behind the registers are faults.
\<close>

fun copy_args :: "nat \<Rightarrow> nat \<Rightarrow> clong list \<Rightarrow> (nat \<Rightarrow> clong) \<Rightarrow> (nat \<Rightarrow> clong) result" where
  "copy_args i 0 args regs = Inr regs"
| "copy_args i (Suc n) [] regs = Inl OutOfBounds"
| "copy_args i (Suc n) (a # args) regs =
     check (i < DSOS_MAX_SYSCALLS_ARGS) OutOfBounds (copy_args (Suc i) n args (regs(i := a)))"

definition disastrOS_syscall :: "kernel \<Rightarrow> cint \<Rightarrow> clong list \<Rightarrow> (syscall_outcome \<times> kernel) result" where
  "disastrOS_syscall s syscall_num args =
     check (running s \<noteq> NULL) AssertFailed
     (if syscall_num <s 0 \<or> DSOS_MAX_SYSCALLS <s syscall_num
      then Inr (Returned DSOS_ESYSCALL_OUT_OF_RANGE, s)
      else
        bindE (arr_get (syscall_numarg s) syscall_num) (\<lambda>nargs.
        bindE (copy_args 0 (nat (sint nargs)) args (pcb_syscall_args (pcb s (running s)))) (\<lambda>regs.
        bindE (disastrOS_trap (upd_pcb (running s) (\<lambda>c. c\<lparr>pcb_syscall_args := regs,
          pcb_syscall_num := syscall_num, pcb_cpu_state := SavedContext\<rparr>) s)) (\<lambda>(r, s).
        Inr (Trapped r, s)))))"

subsection \<open>The functions that processes call\<close>

text \<open>
  \<open>int\<close> arguments are passed on as \<open>long int\<close>; a value returned to the caller is its
  \<open>syscall_retvalue\<close> when it is resumed.
\<close>

definition disastrOS_fork :: "kernel \<Rightarrow> (syscall_outcome \<times> kernel) result" where
  "disastrOS_fork s = disastrOS_syscall s DSOS_CALL_FORK []"

definition disastrOS_wait :: "kernel \<Rightarrow> cint \<Rightarrow> ptr \<Rightarrow> (syscall_outcome \<times> kernel) result" where
  "disastrOS_wait s pid retval = disastrOS_syscall s DSOS_CALL_WAIT [scast pid, retval]"

definition disastrOS_exit :: "kernel \<Rightarrow> cint \<Rightarrow> (syscall_outcome \<times> kernel) result" where
  "disastrOS_exit s exitval = disastrOS_syscall s DSOS_CALL_EXIT [scast exitval]"

definition disastrOS_preempt :: "kernel \<Rightarrow> (syscall_outcome \<times> kernel) result" where
  "disastrOS_preempt s = disastrOS_syscall s DSOS_CALL_PREEMPT []"

definition disastrOS_spawn :: "kernel \<Rightarrow> clong \<Rightarrow> clong \<Rightarrow> (syscall_outcome \<times> kernel) result" where
  "disastrOS_spawn s f args = disastrOS_syscall s DSOS_CALL_SPAWN [f, args]"

definition disastrOS_shutdown :: "kernel \<Rightarrow> (syscall_outcome \<times> kernel) result" where
  "disastrOS_shutdown s = disastrOS_syscall s DSOS_CALL_SHUTDOWN []"

definition disastrOS_sleep :: "kernel \<Rightarrow> cint \<Rightarrow> (syscall_outcome \<times> kernel) result" where
  "disastrOS_sleep s sleep_time = disastrOS_syscall s DSOS_CALL_SLEEP [scast sleep_time]"

definition disastrOS_getpid :: "kernel \<Rightarrow> cint" where
  "disastrOS_getpid s = (if running s = NULL then - 1 else pcb_pid (pcb s (running s)))"

definition disastrOS_openResource ::
    "kernel \<Rightarrow> cint \<Rightarrow> cint \<Rightarrow> cint \<Rightarrow> (syscall_outcome \<times> kernel) result" where
  "disastrOS_openResource s resource_id type mode =
     disastrOS_syscall s DSOS_CALL_OPEN_RESOURCE [scast resource_id, scast type, scast mode]"

definition disastrOS_closeResource :: "kernel \<Rightarrow> cint \<Rightarrow> (syscall_outcome \<times> kernel) result" where
  "disastrOS_closeResource s fd = disastrOS_syscall s DSOS_CALL_CLOSE_RESOURCE [scast fd]"

definition disastrOS_destroyResource :: "kernel \<Rightarrow> cint \<Rightarrow> (syscall_outcome \<times> kernel) result" where
  "disastrOS_destroyResource s resource_id =
     disastrOS_syscall s DSOS_CALL_DESTROY_RESOURCE [scast resource_id]"

definition disastrOS_openSemaphore ::
    "kernel \<Rightarrow> cint \<Rightarrow> cint \<Rightarrow> cint \<Rightarrow> (syscall_outcome \<times> kernel) result" where
  "disastrOS_openSemaphore s sid oflag cnt =
     disastrOS_syscall s DSOS_CALL_SEMOPEN [scast sid, scast oflag, scast cnt]"

definition disastrOS_waitSemaphore :: "kernel \<Rightarrow> cint \<Rightarrow> (syscall_outcome \<times> kernel) result" where
  "disastrOS_waitSemaphore s sem_fd = disastrOS_syscall s DSOS_CALL_SEMWAIT [scast sem_fd]"

definition disastrOS_postSemaphore :: "kernel \<Rightarrow> cint \<Rightarrow> (syscall_outcome \<times> kernel) result" where
  "disastrOS_postSemaphore s sid = disastrOS_syscall s DSOS_CALL_SEMPOST [scast sid]"

definition disastrOS_closeSemaphore :: "kernel \<Rightarrow> cint \<Rightarrow> (syscall_outcome \<times> kernel) result" where
  "disastrOS_closeSemaphore s sid = disastrOS_syscall s DSOS_CALL_SEMCLOSE [scast sid]"

end
