(* ===== verification/Kernel_Frame.thy ===== *)
theory Kernel_Frame
  imports Kernel
begin

text \<open>
  What the system calls leave alone, whatever the state they are called in: every operation of the
  kernel keeps the parts of the state that it does not deal with. The parts are the identities of
  the processes, the blocks in use for them, the processor, the saved contexts, the timers, the
  descriptors of resources, the semaphores, their descriptors, and the blocks in use for the two kinds
  of descriptors. The blocks that a pool manages
  never change.
\<close>

subsection \<open>Parts of the state\<close>

datatype part = IdPart | ProcPart | SchedPart | ContextPart | TimerPart | DescPart | SemPart | SemCellPart |
  DescBlockPart | SemBlockPart

definition pool_shape :: "PoolAllocator \<Rightarrow> ptr \<times> cint \<times> nat" where
  "pool_shape a = (pa_buffer a, pa_item_size a, length (pa_free_list a))"

definition pool_shapes :: "kernel \<Rightarrow> (ptr \<times> cint \<times> nat) list" where
  "pool_shapes s = map pool_shape [ar_pool (pcb_mem s), ar_pool (pcbptr_mem s), ar_pool (timer_mem s),
     ar_pool (resource_mem s), ar_pool (descriptor_mem s), ar_pool (descriptorptr_mem s),
     ar_pool (semaphore_mem s), ar_pool (semdescriptor_mem s), ar_pool (semdescriptorptr_mem s)]"

lemma pool_shapes_of: "pool_shapes s' = pool_shapes s \<Longrightarrow> pool_shape (pool_of s' k) = pool_shape (pool_of s k)"
  by (cases k) (simp_all add: pool_shapes_def)

lemma shape_blocks:
  assumes "pool_shape a = pool_shape b"
  shows "pool_blocks a = pool_blocks b"
proof -
  have "pool_blocks a = block_at a ` {j. j < length (pa_free_list a)}" for a
    by (auto simp: pool_live_def pool_spare_def)
  moreover have "block_at a = block_at b" "length (pa_free_list a) = length (pa_free_list b)"
    using assms by (simp_all add: pool_shape_def block_at_def [abs_def])
  ultimately show ?thesis by simp
qed

text \<open>No block is taken from a pool.\<close>

definition no_more :: "PoolAllocator \<Rightarrow> PoolAllocator \<Rightarrow> bool" where
  "no_more b a \<longleftrightarrow> pool_live b \<subseteq> pool_live a"

lemma no_more_refl [simp]: "no_more a a"
  by (simp add: no_more_def)

lemma no_more_trans: "no_more c b \<Longrightarrow> no_more b a \<Longrightarrow> no_more c a"
  by (auto simp: no_more_def)

definition keeps :: "part set \<Rightarrow> kernel \<Rightarrow> kernel \<Rightarrow> bool" where
  "keeps A s' s \<longleftrightarrow>
     syscall_vector s' = syscall_vector s \<and> syscall_numarg s' = syscall_numarg s \<and>
     init_pcb s' = init_pcb s \<and> shutdown_now s' = shutdown_now s \<and>
     (\<forall>p. pcb_syscall_num (pcb s' p) = pcb_syscall_num (pcb s p)) \<and>
     ((\<forall>p. pcb_timer (pcb s p) = NULL) \<longrightarrow> (\<forall>p. pcb_timer (pcb s' p) = NULL)) \<and>
     (IdPart \<in> A \<longrightarrow> last_pid s' = last_pid s \<and> pcbptr s' = pcbptr s \<and>
       (\<forall>p. pcb_pid (pcb s' p) = pcb_pid (pcb s p) \<and> pcb_parent (pcb s' p) = pcb_parent (pcb s p))) \<and>
     (ProcPart \<in> A \<longrightarrow> ar_pool (pcb_mem s') = ar_pool (pcb_mem s) \<and> ar_pool (pcbptr_mem s') = ar_pool (pcbptr_mem s)) \<and>
     pool_shapes s' = pool_shapes s \<and>
     (ContextPart \<in> A \<longrightarrow> (\<forall>p. pcb_cpu_state (pcb s' p) = pcb_cpu_state (pcb s p))) \<and>
     (SchedPart \<in> A \<longrightarrow> running s' = running s \<and> (\<forall>p. pcb_status (pcb s' p) = pcb_status (pcb s p))) \<and>
     (TimerPart \<in> A \<longrightarrow> timer_item s' = timer_item s) \<and>
     (DescPart \<in> A \<longrightarrow> descriptor s' = descriptor s \<and> descriptorptr s' = descriptorptr s \<and>
       no_more (ar_pool (descriptorptr_mem s')) (ar_pool (descriptorptr_mem s))) \<and>
     (SemCellPart \<in> A \<longrightarrow> semdescriptor s' = semdescriptor s \<and> semdescriptorptr s' = semdescriptorptr s \<and>
       no_more (ar_pool (semdescriptorptr_mem s')) (ar_pool (semdescriptorptr_mem s))) \<and>
     (DescBlockPart \<in> A \<longrightarrow> ar_pool (descriptor_mem s') = ar_pool (descriptor_mem s)) \<and>
     (SemBlockPart \<in> A \<longrightarrow> ar_pool (semdescriptor_mem s') = ar_pool (semdescriptor_mem s)) \<and>
     (SemPart \<in> A \<longrightarrow> semdescriptor s' = semdescriptor s \<and> semdescriptorptr s' = semdescriptorptr s \<and>
       (\<forall>m. sem_count (semaphore s' m) = sem_count (semaphore s m) \<and> sem_id (semaphore s' m) = sem_id (semaphore s m)))"

lemma keeps_refl: "keeps A s s"
  by (simp add: keeps_def)

lemma keeps_no_more:
  assumes "keeps A t s"
  shows "DescPart \<in> A \<Longrightarrow> no_more X (ar_pool (descriptorptr_mem t)) \<Longrightarrow> no_more X (ar_pool (descriptorptr_mem s))"
    and "SemCellPart \<in> A \<Longrightarrow> no_more X (ar_pool (semdescriptorptr_mem t)) \<Longrightarrow> no_more X (ar_pool (semdescriptorptr_mem s))"
proof -
  have "DescPart \<in> A \<Longrightarrow> no_more (ar_pool (descriptorptr_mem t)) (ar_pool (descriptorptr_mem s))"
      "SemCellPart \<in> A \<Longrightarrow> no_more (ar_pool (semdescriptorptr_mem t)) (ar_pool (semdescriptorptr_mem s))"
    using assms by (simp_all add: keeps_def)
  then show "DescPart \<in> A \<Longrightarrow> no_more X (ar_pool (descriptorptr_mem t)) \<Longrightarrow> no_more X (ar_pool (descriptorptr_mem s))"
    and "SemCellPart \<in> A \<Longrightarrow> no_more X (ar_pool (semdescriptorptr_mem t)) \<Longrightarrow> no_more X (ar_pool (semdescriptorptr_mem s))"
    by (auto intro: no_more_trans)
qed

lemma keeps_trans:
  assumes "keeps A u t" and "keeps A t s"
  shows "keeps A u s"
proof -
  have "DescPart \<in> A \<Longrightarrow> no_more (ar_pool (descriptorptr_mem u)) (ar_pool (descriptorptr_mem t))"
      "SemCellPart \<in> A \<Longrightarrow> no_more (ar_pool (semdescriptorptr_mem u)) (ar_pool (semdescriptorptr_mem t))"
    using assms(1) by (simp_all add: keeps_def)
  with assms keeps_no_more [OF assms(2)] show ?thesis by (simp add: keeps_def)
qed

text \<open>\<open>gives P m\<close>: if the computation \<open>m\<close> does not fault, its result satisfies \<open>P\<close>.\<close>

definition gives :: "('a \<Rightarrow> bool) \<Rightarrow> 'a result \<Rightarrow> bool" where
  "gives P m \<longleftrightarrow> (\<forall>y. m = Inr y \<longrightarrow> P y)"

named_theorems frame "what an operation keeps"

lemma gives_basic [frame]:
  "gives P (Inl e)"
  "gives P m \<Longrightarrow> gives P (check b e m)"
  "(b \<Longrightarrow> gives P m) \<Longrightarrow> (\<not> b \<Longrightarrow> gives P m') \<Longrightarrow> gives P (if b then m else m')"
  by (simp_all add: gives_def check_def)

lemma gives_Inr [frame]:
  "keeps A t s \<Longrightarrow> gives (\<lambda>u. keeps A u s) (Inr t)"
  "keeps A t s \<Longrightarrow> gives (\<lambda>(x, u). keeps A u s) (Inr (x, t))"
  by (simp_all add: gives_def)

lemma gives_bindE [frame]:
  fixes m :: "kernel result" and m2 :: "('a \<times> kernel) result" and m3 :: "ptr result" and m4 :: "(ptr \<times> ptr) result"
  shows "gives (\<lambda>t. keeps A t s) m \<Longrightarrow> (\<And>t. keeps A t s \<Longrightarrow> gives (\<lambda>u. keeps A u s) (f t)) \<Longrightarrow>
      gives (\<lambda>u. keeps A u s) (bindE m f)"
    and "gives (\<lambda>(x, t). keeps A t s) m2 \<Longrightarrow> (\<And>x t. keeps A t s \<Longrightarrow> gives (\<lambda>u. keeps A u s) (g x t)) \<Longrightarrow>
      gives (\<lambda>u. keeps A u s) (bindE m2 (\<lambda>(x, t). g x t))"
    and "gives (\<lambda>t. keeps A t s) m \<Longrightarrow> (\<And>t. keeps A t s \<Longrightarrow> gives (\<lambda>(x, u). keeps A u s) (f' t)) \<Longrightarrow>
      gives (\<lambda>(x, u). keeps A u s) (bindE m f')"
    and "gives (\<lambda>(x, t). keeps A t s) m2 \<Longrightarrow> (\<And>x t. keeps A t s \<Longrightarrow> gives (\<lambda>(x, u). keeps A u s) (g' x t)) \<Longrightarrow>
      gives (\<lambda>(x, u). keeps A u s) (bindE m2 (\<lambda>(x, t). g' x t))"
    and "(\<And>x. gives P (h x)) \<Longrightarrow> gives P (bindE m3 h)"
    and "(\<And>x y. gives P (k x y)) \<Longrightarrow> gives P (bindE m4 (\<lambda>(x, y). k x y))"
  by (auto simp: gives_def bindE_Inr_iff)

subsection \<open>List operations and field updates\<close>

lemma keeps_put_list: "keeps A t s \<Longrightarrow> keeps A (put_list l m h t) s"
  by (simp add: keeps_def pool_shapes_def)

lemma keeps_list_ops [frame]:
  assumes "keeps A t s"
  shows "gives (\<lambda>(x, u). keeps A u s) (k_insert t l p x)"
    and "gives (\<lambda>(x, u). keeps A u s) (k_append t l x)"
    and "gives (\<lambda>(x, u). keeps A u s) (k_detach t l x)"
  using keeps_put_list [OF assms]
  by (auto simp: gives_def k_append_def k_insert_def k_detach_def bindE_Inr_iff)

lemma keeps_updates [frame]:
  assumes "keeps A t s"
  shows "keeps A (set_retvalue p v t) s"
    and "SchedPart \<notin> A \<Longrightarrow> keeps A (set_status p st t) s"
    and "SchedPart \<notin> A \<Longrightarrow> keeps A (t\<lparr>running := p\<rparr>) s"
    and "keeps A (t\<lparr>user_mem := um\<rparr>) s"
    and "keeps A (t\<lparr>disastrOS_time := n\<rparr>) s"
    and "DescPart \<notin> A \<Longrightarrow> keeps A (upd_descriptor d f t) s"
    and "SemPart \<notin> A \<Longrightarrow> SemCellPart \<notin> A \<Longrightarrow> keeps A (upd_semdescriptor d g t) s"
    and "SemPart \<notin> A \<Longrightarrow> keeps A (upd_semaphore m h t) s"
  using assms
  by (simp_all add: keeps_def pool_shapes_def set_retvalue_def set_status_def upd_pcb_def upd_descriptor_def
    upd_semdescriptor_def upd_semaphore_def)

lemma keeps_if [frame]: "keeps A t s \<Longrightarrow> keeps A u s \<Longrightarrow> keeps A (if b then t else u) s"
  by simp

lemma keeps_pcb_updates [frame]:
  assumes "keeps A t s"
  shows "keeps A (upd_pcb p (\<lambda>c. c\<lparr>pcb_last_fd := f1 c\<rparr>) t) s"
    and "keeps A (upd_pcb p (\<lambda>c. c\<lparr>pcb_last_sem_fd := f1 c\<rparr>) t) s"
    and "keeps A (upd_pcb p (\<lambda>c. c\<lparr>pcb_signals := f1 c\<rparr>) t) s"
    and "keeps A (upd_pcb p (\<lambda>c. c\<lparr>pcb_return_value := f1 c\<rparr>) t) s"
    and "ContextPart \<notin> A \<Longrightarrow> keeps A (upd_pcb p (\<lambda>c. c\<lparr>pcb_cpu_state := f2 c\<rparr>) t) s"
    and "SchedPart \<notin> A \<Longrightarrow> keeps A (upd_pcb p (\<lambda>c. c\<lparr>pcb_status := st, pcb_timer := NULL\<rparr>) t) s"
    and "SchedPart \<notin> A \<Longrightarrow> IdPart \<notin> A \<Longrightarrow> keeps A (upd_pcb p (\<lambda>c. c\<lparr>pcb_status := st, pcb_parent := q\<rparr>) t) s"
  using assms by (simp_all add: keeps_def pool_shapes_def upd_pcb_def)

subsection \<open>Allocation\<close>

lemma pool_ops_shape:
  "PoolAllocator_getBlock a = Inr (p, b) \<Longrightarrow> pool_shape b = pool_shape a"
  "PoolAllocator_releaseBlock a p = Inr (r, b) \<Longrightarrow> pool_shape b = pool_shape a"
  by (auto simp: PoolAllocator_getBlock_def PoolAllocator_releaseBlock_def Let_def bindE_Inr_iff arr_set_def
    check_Inr_iff pool_shape_def split: if_splits)

lemma release_live:
  assumes "PoolAllocator_releaseBlock a p = Inr (r, b)"
  shows "no_more b a"
proof -
  have "length (pa_free_list b) = length (pa_free_list a)" "block_at b = block_at a"
    using pool_ops_shape(2) [OF assms] by (simp_all add: pool_shape_def block_at_def [abs_def])
  moreover have "pa_free_list a ! j = DetachedIdx" if "j < length (pa_free_list a)" "pa_free_list b ! j = DetachedIdx" for j
    using assms that by (auto simp: PoolAllocator_releaseBlock_def Let_def bindE_Inr_iff arr_set_def arr_get_def
      check_Inr_iff nth_list_update split: if_splits)
  ultimately show ?thesis by (auto simp: no_more_def pool_live_def)
qed

lemma gives_ar [frame]:
  "(\<And>p Y. ar_cells Y = ar_cells X \<Longrightarrow> pool_shape (ar_pool Y) = pool_shape (ar_pool X) \<Longrightarrow> gives P (f p Y)) \<Longrightarrow>
    gives P (bindE (ar_get X) (\<lambda>(p, Y). f p Y))"
  "(\<And>r Y. ar_cells Y = ar_cells X \<Longrightarrow> pool_shape (ar_pool Y) = pool_shape (ar_pool X) \<Longrightarrow>
      no_more (ar_pool Y) (ar_pool X) \<Longrightarrow> gives P (g r Y)) \<Longrightarrow>
    gives P (bindE (ar_free X q) (\<lambda>(r, Y). g r Y))"
proof -
  assume a: "\<And>p Y. ar_cells Y = ar_cells X \<Longrightarrow> pool_shape (ar_pool Y) = pool_shape (ar_pool X) \<Longrightarrow> gives P (f p Y)"
  then have "gives P (f p (X\<lparr>ar_pool := b\<rparr>))" if "pool_shape b = pool_shape (ar_pool X)" for p b using that by simp
  then show "gives P (bindE (ar_get X) (\<lambda>(p, Y). f p Y))"
    by (auto simp: gives_def bindE_Inr_iff ar_get_def dest: pool_ops_shape)
next
  assume "\<And>r Y. ar_cells Y = ar_cells X \<Longrightarrow> pool_shape (ar_pool Y) = pool_shape (ar_pool X) \<Longrightarrow>
    no_more (ar_pool Y) (ar_pool X) \<Longrightarrow> gives P (g r Y)"
  then have "gives P (g r (X\<lparr>ar_pool := b\<rparr>))" if "pool_shape b = pool_shape (ar_pool X)" "no_more b (ar_pool X)"
    for r b using that by simp
  then show "gives P (bindE (ar_free X q) (\<lambda>(r, Y). g r Y))"
    by (auto simp: gives_def bindE_Inr_iff ar_free_def dest: pool_ops_shape release_live)
qed

lemma keeps_mem:
  assumes "keeps A t s"
  shows "IdPart \<notin> A \<Longrightarrow> ProcPart \<notin> A \<Longrightarrow> SchedPart \<notin> A \<Longrightarrow> (\<And>p. pcb_syscall_num (ar_cells X1 p) = pcb_syscall_num (pcb t p)) \<Longrightarrow>
      (\<And>p. pcb_timer (pcb t p) = NULL \<Longrightarrow> pcb_timer (ar_cells X1 p) = NULL) \<Longrightarrow>
      (\<And>p. pcb_cpu_state (ar_cells X1 p) = pcb_cpu_state (pcb t p)) \<Longrightarrow>
      pool_shape (ar_pool X1) = pool_shape (ar_pool (pcb_mem t)) \<Longrightarrow>
      keeps A (t\<lparr>pcb_mem := X1, last_pid := n\<rparr>) s"
    and "ProcPart \<notin> A \<Longrightarrow> ar_cells X1 = pcb t \<Longrightarrow> pool_shape (ar_pool X1) = pool_shape (ar_pool (pcb_mem t)) \<Longrightarrow>
      keeps A (t\<lparr>pcb_mem := X1\<rparr>) s"
    and "ProcPart \<notin> A \<Longrightarrow> IdPart \<notin> A \<or> ar_cells X2 = pcbptr t \<Longrightarrow> pool_shape (ar_pool X2) = pool_shape (ar_pool (pcbptr_mem t)) \<Longrightarrow>
      keeps A (t\<lparr>pcbptr_mem := X2\<rparr>) s"
    and "TimerPart \<notin> A \<or> ar_cells X3 = timer_item t \<Longrightarrow> pool_shape (ar_pool X3) = pool_shape (ar_pool (timer_mem t)) \<Longrightarrow>
      keeps A (t\<lparr>timer_mem := X3\<rparr>) s"
    and "pool_shape (ar_pool X4) = pool_shape (ar_pool (resource_mem t)) \<Longrightarrow>
      keeps A (t\<lparr>resource_mem := X4\<rparr>) s"
    and "DescPart \<notin> A \<or> ar_cells X5 = descriptor t \<Longrightarrow> DescBlockPart \<notin> A \<Longrightarrow> pool_shape (ar_pool X5) = pool_shape (ar_pool (descriptor_mem t)) \<Longrightarrow>
      keeps A (t\<lparr>descriptor_mem := X5\<rparr>) s"
    and "SemPart \<notin> A \<Longrightarrow> pool_shape (ar_pool X7) = pool_shape (ar_pool (semaphore_mem t)) \<Longrightarrow>
      keeps A (t\<lparr>semaphore_mem := X7\<rparr>) s"
    and "SemPart \<notin> A \<and> SemCellPart \<notin> A \<or> ar_cells X8 = semdescriptor t \<Longrightarrow> SemBlockPart \<notin> A \<Longrightarrow> pool_shape (ar_pool X8) = pool_shape (ar_pool (semdescriptor_mem t)) \<Longrightarrow>
      keeps A (t\<lparr>semdescriptor_mem := X8\<rparr>) s"
    and "DescPart \<notin> A \<or> ar_cells X6 = descriptorptr t \<and> no_more (ar_pool X6) (ar_pool (descriptorptr_mem t)) \<Longrightarrow>
      pool_shape (ar_pool X6) = pool_shape (ar_pool (descriptorptr_mem t)) \<Longrightarrow>
      keeps A (t\<lparr>descriptorptr_mem := X6\<rparr>) s"
    and "SemPart \<notin> A \<and> SemCellPart \<notin> A \<or>
        ar_cells X9 = semdescriptorptr t \<and> no_more (ar_pool X9) (ar_pool (semdescriptorptr_mem t)) \<Longrightarrow> pool_shape (ar_pool X9) = pool_shape (ar_pool (semdescriptorptr_mem t)) \<Longrightarrow>
      keeps A (t\<lparr>semdescriptorptr_mem := X9\<rparr>) s"
  by (rule keeps_trans [OF _ assms]; fastforce simp: keeps_def pool_shapes_def)+

lemma keeps_alloc [frame]:
  assumes "keeps A t s"
  shows "IdPart \<notin> A \<Longrightarrow> ProcPart \<notin> A \<Longrightarrow> SchedPart \<notin> A \<Longrightarrow> gives (\<lambda>(x, u). keeps A u s) (PCB_alloc t)"
    and "IdPart \<notin> A \<Longrightarrow> ProcPart \<notin> A \<Longrightarrow> gives (\<lambda>(x, u). keeps A u s) (PCBPtr_alloc t p)"
    and "TimerPart \<notin> A \<Longrightarrow> gives (\<lambda>(x, u). keeps A u s) (TimerItem_alloc t w p)"
    and "gives (\<lambda>(x, u). keeps A u s) (Resource_alloc t rid ty)"
    and "DescPart \<notin> A \<Longrightarrow> DescBlockPart \<notin> A \<Longrightarrow> gives (\<lambda>(x, u). keeps A u s) (Descriptor_alloc t fd res p)"
    and "DescPart \<notin> A \<Longrightarrow> gives (\<lambda>(x, u). keeps A u s) (DescriptorPtr_alloc t d)"
    and "SemPart \<notin> A \<Longrightarrow> gives (\<lambda>(x, u). keeps A u s) (Semaphore_alloc t sid cnt)"
    and "SemPart \<notin> A \<Longrightarrow> SemCellPart \<notin> A \<Longrightarrow> SemBlockPart \<notin> A \<Longrightarrow> gives (\<lambda>(x, u). keeps A u s) (SemDescriptor_alloc t fd m p)"
    and "SemPart \<notin> A \<Longrightarrow> SemCellPart \<notin> A \<Longrightarrow> gives (\<lambda>(x, u). keeps A u s) (SemDescriptorPtr_alloc t d)"
  unfolding PCB_alloc_def PCBPtr_alloc_def TimerItem_alloc_def Resource_alloc_def Descriptor_alloc_def
    DescriptorPtr_alloc_def Semaphore_alloc_def SemDescriptor_alloc_def SemDescriptorPtr_alloc_def
  by (intro frame keeps_mem assms; simp)+

lemma keeps_free [frame]:
  assumes "keeps A t s"
  shows "ProcPart \<notin> A \<Longrightarrow> gives (\<lambda>(x, u). keeps A u s) (PCB_free t p)"
    and "ProcPart \<notin> A \<Longrightarrow> gives (\<lambda>(x, u). keeps A u s) (PCBPtr_free t p)"
    and "gives (\<lambda>(x, u). keeps A u s) (TimerItem_free t p)"
    and "gives (\<lambda>(x, u). keeps A u s) (Resource_free t p)"
    and "DescBlockPart \<notin> A \<Longrightarrow> gives (\<lambda>(x, u). keeps A u s) (Descriptor_free t p)"
    and "gives (\<lambda>(x, u). keeps A u s) (DescriptorPtr_free t p)"
    and "SemBlockPart \<notin> A \<Longrightarrow> gives (\<lambda>(x, u). keeps A u s) (SemDescriptor_free t p)"
    and "gives (\<lambda>(x, u). keeps A u s) (SemDescriptorPtr_free t p)"
  unfolding PCB_free_def PCBPtr_free_def TimerItem_free_def Resource_free_def Descriptor_free_def
    DescriptorPtr_free_def SemDescriptor_free_def SemDescriptorPtr_free_def
  by (intro frame keeps_mem assms; simp)+

lemma keeps_TimerList [frame]:
  assumes "keeps A t s"
  shows "TimerPart \<notin> A \<Longrightarrow> gives (\<lambda>(x, u). keeps A u s) (TimerList_add t w p)"
    and "gives (\<lambda>(x, u). keeps A u s) (TimerList_removeCurrent t)"
  unfolding TimerList_add_def TimerList_removeCurrent_def
  by (intro frame keeps_mem assms; simp)+

subsection \<open>Calls on resources and semaphores\<close>

lemma keeps_resource_calls [frame]:
  assumes "keeps A s s0"
  shows "DescPart \<notin> A \<Longrightarrow> DescBlockPart \<notin> A \<Longrightarrow> gives (\<lambda>u. keeps A u s0) (internal_openResource s)"
    and "DescBlockPart \<notin> A \<Longrightarrow> gives (\<lambda>u. keeps A u s0) (internal_closeResource s)"
    and "gives (\<lambda>u. keeps A u s0) (internal_destroyResource s)"
  unfolding internal_openResource_def add_descriptor_def internal_closeResource_def
    internal_destroyResource_def Let_def
  by (intro frame assms; simp)+

lemma keeps_semaphore_calls [frame]:
  assumes "keeps A s s0" and "SemPart \<notin> A"
  shows "SemCellPart \<notin> A \<Longrightarrow> SemBlockPart \<notin> A \<Longrightarrow> gives (\<lambda>u. keeps A u s0) (internal_semOpen s)"
    and "SemBlockPart \<notin> A \<Longrightarrow> gives (\<lambda>u. keeps A u s0) (internal_semClose s)"
    and "SemCellPart \<notin> A \<Longrightarrow> SchedPart \<notin> A \<Longrightarrow> gives (\<lambda>u. keeps A u s0) (internal_semWait s)"
    and "SchedPart \<notin> A \<Longrightarrow> gives (\<lambda>u. keeps A u s0) (internal_semPost s)"
  unfolding internal_semOpen_def add_semdescriptor_def internal_semClose_def
    internal_semWait_def internal_semPost_def Let_def
  by (intro frame assms; simp add: assms)+

subsection \<open>Calls on processes\<close>

text \<open>Loops: what every turn keeps is kept by the loop.\<close>

lemma keeps_wake_one [frame]:
  assumes "keeps A s s0" and "SchedPart \<notin> A"
  shows "gives (\<lambda>(x, u). keeps A u s0) (wake_one s t p)"
  unfolding wake_one_def Let_def by (intro frame assms)

lemma gives_run_loopE: "gives P (run_loopE r) \<longleftrightarrow> (\<forall>y. r = Some y \<longrightarrow> gives P y)"
  by (cases r) (simp_all add: gives_def)

lemma wake_loop_keeps:
  assumes "wake_loop s p = Some y" and "SchedPart \<notin> A" and "keeps A s s0"
  shows "gives (\<lambda>u. keeps A u s0) y"
  using assms(3)
proof (induction rule: wake_loop.raw_induct [OF _ assms(1)])
  case (1 loop t q z)
  show ?case
  proof (cases "TimerList_current t (disastrOS_time t) = NULL")
    case True
    with 1 show ?thesis by (auto simp: gives_def)
  next
    case False
    with 1 keeps_wake_one [of A t s0 "TimerList_current t (disastrOS_time t)" q] assms(2) show ?thesis
      by (auto simp: gives_def split: sum.splits)
  qed
qed

lemma keeps_wake_loop [frame]:
  "SchedPart \<notin> A \<Longrightarrow> keeps A s s0 \<Longrightarrow> gives (\<lambda>u. keeps A u s0) (run_loopE (wake_loop s p))"
  using wake_loop_keeps by (simp add: gives_run_loopE)

lemma keeps_schedule [frame]:
  assumes "SchedPart \<notin> A" and "keeps A s s0"
  shows "gives (\<lambda>u. keeps A u s0) (internal_schedule s)"
  unfolding internal_schedule_def switch_process_def Let_def by (intro frame assms)

lemma keeps_timer_calls [frame]:
  assumes "SchedPart \<notin> A" and "keeps A s s0"
  shows "gives (\<lambda>u. keeps A u s0) (internal_preempt s)"
    and "ContextPart \<notin> A \<Longrightarrow> gives (\<lambda>u. keeps A u s0) (timerHandler s)"
    and "TimerPart \<notin> A \<Longrightarrow> gives (\<lambda>u. keeps A u s0) (internal_sleep s)"
  unfolding internal_preempt_def timerHandler_def timerInterrupt_def internal_sleep_def Let_def
  subgoal by (intro frame assms)
  subgoal by (intro frame assms)
  subgoal by (intro frame assms)
  done

lemma keeps_make_child [frame]:
  assumes "IdPart \<notin> A" and "ProcPart \<notin> A" and "SchedPart \<notin> A" and "keeps A s s0"
  shows "gives (\<lambda>(x, u). keeps A u s0) (make_child s)"
  unfolding make_child_def Let_def by (intro frame assms)

lemma keeps_fork [frame]:
  assumes "IdPart \<notin> A" and "ProcPart \<notin> A" and "SchedPart \<notin> A" and "keeps A s s0"
  shows "gives (\<lambda>u. keeps A u s0) (internal_fork s)"
    and "ContextPart \<notin> A \<Longrightarrow> gives (\<lambda>u. keeps A u s0) (internal_spawn s)"
  unfolding internal_fork_def internal_spawn_def
  subgoal by (intro frame assms)
  subgoal by (intro frame assms)
  done

lemma keeps_wait [frame]:
  assumes "ProcPart \<notin> A" and "SchedPart \<notin> A" and "keeps A s s0"
  shows "gives (\<lambda>u. keeps A u s0) (internal_wait s)"
  unfolding internal_wait_def reap_def block_in_wait_def Let_def by (intro frame assms)

lemma keeps_exit_steps [frame]:
  assumes "keeps A s s0"
  shows "gives (\<lambda>u. keeps A u s0) (reparent_one s)"
    and "DescBlockPart \<notin> A \<Longrightarrow> gives (\<lambda>u. keeps A u s0) (release_one_descriptor s)"
  unfolding reparent_one_def release_one_descriptor_def Let_def
  subgoal by (intro frame assms)
  subgoal by (intro frame assms)
  done

lemma reparent_children_keeps:
  assumes "reparent_children s = Some y" and "keeps A s s0"
  shows "gives (\<lambda>u. keeps A u s0) y"
  using assms(2)
proof (induction rule: reparent_children.raw_induct [OF _ assms(1)])
  case (1 loop t z)
  with keeps_exit_steps(1) [of A t s0] show ?case
    by (auto simp: gives_def split: sum.splits if_splits)
qed

lemma release_descriptors_keeps:
  assumes "release_descriptors s = Some y" and "keeps A s s0" and "DescBlockPart \<notin> A"
  shows "gives (\<lambda>u. keeps A u s0) y"
  using assms(2)
proof (induction rule: release_descriptors.raw_induct [OF _ assms(1)])
  case (1 loop t z)
  with keeps_exit_steps(2) [of A t s0] assms(3) show ?case
    by (auto simp: gives_def split: sum.splits if_splits)
qed

lemma release_timers_keeps:
  assumes "release_timers s p = Some y" and "keeps A s s0"
  shows "gives (\<lambda>u. keeps A u s0) y"
  using assms(2)
proof (induction rule: release_timers.raw_induct [OF _ assms(1)])
  case (1 loop t q z)
  have "gives (\<lambda>u. keeps A u s0) (bindE (k_detach t TimerList q) (\<lambda>(detach_result, u).
      check (detach_result \<noteq> NULL) AssertFailed (bindE (TimerItem_free u q) (\<lambda>(_, u). Inr u))))"
    using 1(3) by (intro frame)
  with 1 show ?case
    by (auto simp: gives_def Let_def split: sum.splits if_splits)
qed

lemma keeps_exit_loops [frame]:
  assumes "keeps A s s0"
  shows "gives (\<lambda>u. keeps A u s0) (run_loopE (reparent_children s))"
    and "DescBlockPart \<notin> A \<Longrightarrow> gives (\<lambda>u. keeps A u s0) (run_loopE (release_descriptors s))"
    and "gives (\<lambda>u. keeps A u s0) (run_loopE (release_timers s p))"
  using assms reparent_children_keeps release_descriptors_keeps release_timers_keeps
  by (simp_all add: gives_run_loopE)

lemma keeps_exit [frame]:
  assumes "ProcPart \<notin> A" and "SchedPart \<notin> A" and "DescBlockPart \<notin> A" and "keeps A s s0"
  shows "gives (\<lambda>u. keeps A u s0) (internal_exit s)"
  unfolding internal_exit_def die_to_parent_def perish_def run_next_def Let_def
  by (intro frame assms)

text \<open>The parts that a handler deals with.\<close>

fun touches :: "handler \<Rightarrow> part set" where
  "touches internal_preempt_h = {SchedPart}"
| "touches internal_sleep_h = {SchedPart, TimerPart}"
| "touches internal_fork_h = {IdPart, ProcPart, SchedPart}"
| "touches internal_spawn_h = {IdPart, ProcPart, SchedPart, ContextPart}"
| "touches internal_wait_h = {ProcPart, SchedPart}"
| "touches internal_exit_h = {ProcPart, SchedPart, DescBlockPart}"
| "touches internal_openResource_h = {DescPart, DescBlockPart}"
| "touches internal_closeResource_h = {DescBlockPart}"
| "touches internal_destroyResource_h = {}"
| "touches internal_shutdown_h = {}"
| "touches internal_semOpen_h = {SemPart, SemCellPart, SemBlockPart}"
| "touches internal_semClose_h = {SemPart, SemBlockPart}"
| "touches internal_semWait_h = {SemPart, SemCellPart, SchedPart}"
| "touches internal_semPost_h = {SemPart, SchedPart}"

text \<open>Every handler but that of shutdown keeps the other parts.\<close>

lemma handler_keeps:
  assumes "call_handler h s = Inr s'" and "h \<noteq> internal_shutdown_h"
  shows "keeps (- touches h) s' s"
proof -
  have "gives (\<lambda>u. keeps (- touches h) u s) (call_handler h s)"
    using assms(2) by (cases h) (simp_all add: frame keeps_refl)
  with assms(1) show ?thesis by (simp add: gives_def)
qed

text \<open>
  C19: non-interference of the system calls, from any state whatever. No handler but that of shutdown
  changes the dispatch tables, init, the shutdown flag or the call numbers of the processes. Only
  fork and spawn give out process ids and change parents; only they, wait and exit allocate or
  release process control blocks; only calls that schedule change statuses or the running process;
  only sleep changes timers; only openResource writes to descriptors of resources or takes a
  new item for one; only semOpen and semWait do that for semaphores; only openResource, closeResource
  and exit change which blocks are in use for descriptors of resources, only semOpen and semClose for
  those of semaphores; only the four semaphore calls change semaphores; only spawn sets a saved context; and
  no call changes which blocks a pool manages.
\<close>

theorem handler_frame:
  assumes "call_handler h s = Inr s'" and "h \<noteq> internal_shutdown_h"
  shows "syscall_vector s' = syscall_vector s \<and> syscall_numarg s' = syscall_numarg s \<and> init_pcb s' = init_pcb s \<and>
      shutdown_now s' = shutdown_now s \<and> (\<forall>p. pcb_syscall_num (pcb s' p) = pcb_syscall_num (pcb s p)) \<and>
    (h \<notin> {internal_fork_h, internal_spawn_h} \<longrightarrow> last_pid s' = last_pid s \<and> pcbptr s' = pcbptr s \<and>
      (\<forall>p. pcb_pid (pcb s' p) = pcb_pid (pcb s p) \<and> pcb_parent (pcb s' p) = pcb_parent (pcb s p))) \<and>
    (h \<notin> {internal_fork_h, internal_spawn_h, internal_wait_h, internal_exit_h} \<longrightarrow>
      pool_of s' PCB_item = pool_of s PCB_item \<and> pool_of s' PCBPtr_item = pool_of s PCBPtr_item) \<and>
    (h \<in> {internal_openResource_h, internal_closeResource_h, internal_destroyResource_h, internal_semOpen_h,
        internal_semClose_h} \<longrightarrow> running s' = running s \<and> (\<forall>p. pcb_status (pcb s' p) = pcb_status (pcb s p))) \<and>
    (h \<noteq> internal_sleep_h \<longrightarrow> timer_item s' = timer_item s) \<and>
    (h \<noteq> internal_openResource_h \<longrightarrow> descriptor s' = descriptor s \<and> descriptorptr s' = descriptorptr s \<and>
      live s' DescriptorPtr_item \<subseteq> live s DescriptorPtr_item) \<and>
    (h \<notin> {internal_semOpen_h, internal_semWait_h} \<longrightarrow> semdescriptor s' = semdescriptor s \<and>
      semdescriptorptr s' = semdescriptorptr s \<and> live s' SemDescriptorPtr_item \<subseteq> live s SemDescriptorPtr_item) \<and>
    (h \<notin> {internal_openResource_h, internal_closeResource_h, internal_exit_h} \<longrightarrow>
      pool_of s' Descriptor_item = pool_of s Descriptor_item) \<and>
    (h \<notin> {internal_semOpen_h, internal_semClose_h} \<longrightarrow>
      pool_of s' SemDescriptor_item = pool_of s SemDescriptor_item) \<and>
    (h \<notin> {internal_semOpen_h, internal_semClose_h, internal_semWait_h, internal_semPost_h} \<longrightarrow>
      (\<forall>m. sem_count (semaphore s' m) = sem_count (semaphore s m) \<and> sem_id (semaphore s' m) = sem_id (semaphore s m))) \<and>
    (h \<noteq> internal_spawn_h \<longrightarrow> (\<forall>p. pcb_cpu_state (pcb s' p) = pcb_cpu_state (pcb s p))) \<and>
    pool_blocks (pool_of s' k) = pool_blocks (pool_of s k)"
proof -
  note k = handler_keeps [OF assms]
  have "pool_blocks (pool_of s' k) = pool_blocks (pool_of s k)"
    using k shape_blocks [OF pool_shapes_of [of s' s k]] unfolding keeps_def by blast
  then show ?thesis using k assms(2) unfolding keeps_def no_more_def by (cases h) simp_all
qed

theorem handler_frame_witness:
  "\<exists>s'. call_handler internal_fork_h ex_state = Inr s' \<and> init_pcb s' = 4096 \<and> timer_item s' = timer_item ex_state"
proof -
  from make_child_made [OF ex_core ex_room(3,1,2)] obtain s' where
    s': "call_handler internal_fork_h ex_state = Inr s'" by (auto simp: internal_fork_def)
  from handler_frame [OF s'] s' show ?thesis by simp
qed

end
