(* ===== verification/Semaphore_Open.thy ===== *)
theory Semaphore_Open
  imports Semaphore_Calls
begin

text \<open>
  What opening and closing a semaphore do to a well-formed state: the functional behaviour of
  \<open>internal_semOpen\<close> and \<open>internal_semClose\<close> on every branch, and the round trip of the two.
\<close>

subsection \<open>close\<close>

definition sem_closed :: "kernel \<Rightarrow> (list_loc \<Rightarrow> ptr list) \<Rightarrow> ptr \<Rightarrow> list_loc \<Rightarrow> ptr list" where
  "sem_closed s L d =
     (let m = sd_semaphore (semdescriptor s d); rest = remove1 (sd_ptr (semdescriptor s d)) (L (SemDescs m)) in
      L(SemDescriptors (running s) := remove1 d (L (SemDescriptors (running s))),
        SemDescs m := rest,
        SemaphoresList := if rest = [] then remove1 m (L SemaphoresList) else L SemaphoresList))"

lemma sem_ok_closed:
  assumes c: "core_ok s L" and k: "sem_ok s L" and d: "d \<in> set (L (SemDescriptors (running s)))"
    and s': "semdescriptor s' = semdescriptor s" "semdescriptorptr s' = semdescriptorptr s"
  shows "sem_ok s' (sem_closed s L d)"
proof -
  let ?C = "sem_closed s L d" and ?m = "sd_semaphore (semdescriptor s d)" and ?w = "sd_ptr (semdescriptor s d)"
  have lists: "?C (SemDescriptors p) = (if p = running s then remove1 d (L (SemDescriptors p)) else L (SemDescriptors p))"
    "?C (SemDescs k) = (if k = ?m then remove1 ?w (L (SemDescs k)) else L (SemDescs k))"
    "?C SemaphoresList = (if remove1 ?w (L (SemDescs ?m)) = [] then remove1 ?m (L SemaphoresList) else L SemaphoresList)"
    for p k by (simp_all add: sem_closed_def Let_def)
  have dd: "distinct (L l)" for l by (rule core_distinct [OF c])
  have "x \<in> set (L (SemDescriptors p)) \<and> x \<noteq> d" if "x \<in> set (?C (SemDescriptors p))" for x p
    using that dd [of "SemDescriptors p"] core_apart [OF c d, of "SemDescriptors p"] unfolding lists
    by (auto split: if_splits)
  moreover have "sd_ptr (semdescriptor s x) \<in> set (?C (SemDescs (sd_semaphore (semdescriptor s x))))"
    if "x \<in> set (L (SemDescriptors p))" "x \<noteq> d" for x p
  proof -
    have "sp_descriptor (semdescriptorptr s (sd_ptr (semdescriptor s x))) = x"
      "sp_descriptor (semdescriptorptr s ?w) = d"
      "sd_ptr (semdescriptor s x) \<in> set (L (SemDescs (sd_semaphore (semdescriptor s x))))"
      using k that(1) d unfolding sem_ok_def by blast+
    then show ?thesis using that(2) dd unfolding lists by auto
  qed
  moreover have "m \<in> set (?C SemaphoresList)" if "?C (SemDescs m) \<noteq> []" for m
  proof -
    have "L (SemDescs m) \<noteq> []" using that unfolding lists by (auto split: if_splits)
    then have "m \<in> set (L SemaphoresList)" using k unfolding sem_ok_def by blast
    then show ?thesis using that dd [of SemaphoresList] unfolding lists by (auto split: if_splits)
  qed
  ultimately show ?thesis using k unfolding sem_ok_def s' by blast
qed

text \<open>The semaphore leaves the global list with its last descriptor.\<close>

lemma unlist_semaphore:
  assumes c: "core_ok s L" and m: "m \<in> live s Semaphore_item" "m \<in> set (L SemaphoresList)"
    and L': "L' = L(SemaphoresList := if L (SemDescs m) = [] then remove1 m (L SemaphoresList) else L SemaphoresList)"
  shows "\<exists>s'. (if lh_size (sem_descriptors (semaphore s m)) = 0
      then bindE (k_detach s SemaphoresList m) (\<lambda>(_, s). Inr s) else Inr s) = Inr s' \<and>
    core_ok s' L' \<and> (\<forall>k y. idle s L k y \<longrightarrow> idle s' L' k y) \<and> quiet s' s \<and> (\<forall>k. pool_of s' k = pool_of s k)"
proof -
  have z: "lh_size (sem_descriptors (semaphore s m)) = 0 \<longleftrightarrow> L (SemDescs m) = []"
    using core_size_zero [OF c, of "SemDescs m"] m(1) by simp
  obtain as bs where ab: "L SemaphoresList = as @ m # bs" "remove1 m (L SemaphoresList) = as @ bs"
    using remove1_split [OF m(2)] .
  show ?thesis
  proof (cases "L (SemDescs m) = []")
    case True
    then have f: "L' = L(SemaphoresList := as @ bs)" unfolding L' ab(2) by simp
    obtain a b where "k_detach s SemaphoresList m = Inr (m, put_list SemaphoresList a b s)"
        "core_ok (put_list SemaphoresList a b s) L'"
        "\<And>k y. idle s L k y \<Longrightarrow> idle (put_list SemaphoresList a b s) L' k y"
      by (rule core_detachE [OF c ab(1) refl f]) blast
    with True show ?thesis by (simp only: z if_True bindE_simps prod.case) simp
  next
    case False
    then have "L' = L" unfolding L' by (simp add: fun_eq_iff)
    with c False show ?thesis by (simp only: z if_False) simp
  qed
qed

text \<open>A descriptor and its pointer item, off their lists, are given back.\<close>

lemma free_semdescriptors:
  assumes c: "core_ok s L" and d: "idle s L SemDescriptor_item d" and w: "idle s L SemDescriptorPtr_item w"
  shows "\<exists>s4 s5. SemDescriptor_free s d = Inr (0, s4) \<and> SemDescriptorPtr_free s4 w = Inr (0, s5) \<and>
    core_ok s5 L \<and> quiet s5 s \<and> (\<forall>y. idle s L PCB_item y \<longrightarrow> idle s5 L PCB_item y) \<and>
    live s5 SemDescriptor_item = live s SemDescriptor_item - {d} \<and>
    live s5 SemDescriptorPtr_item = live s SemDescriptorPtr_item - {w} \<and>
    live s5 Semaphore_item = live s Semaphore_item \<and>
    (\<forall>k. k \<noteq> SemDescriptor_item \<longrightarrow> k \<noteq> SemDescriptorPtr_item \<longrightarrow> pool_of s5 k = pool_of s k)"
proof -
  obtain A where A: "SemDescriptor_free s d = Inr (0, s\<lparr>semdescriptor_mem := A\<rparr>)"
      "freed SemDescriptor_item d s (s\<lparr>semdescriptor_mem := A\<rparr>)" "ar_cells A = semdescriptor s"
    using SemDescriptor_free_live [OF c idleD(1) [OF d]] by blast
  let ?s4 = "s\<lparr>semdescriptor_mem := A\<rparr>"
  note f4 = freed_core_plain [OF c A(2) d born_other(5)]
  have i4: "idle ?s4 L SemDescriptorPtr_item w" by (rule f4(2) [OF w]) simp
  obtain B where B: "SemDescriptorPtr_free ?s4 w = Inr (0, ?s4\<lparr>semdescriptorptr_mem := B\<rparr>)"
      "freed SemDescriptorPtr_item w ?s4 (?s4\<lparr>semdescriptorptr_mem := B\<rparr>)" "ar_cells B = semdescriptorptr ?s4"
    using SemDescriptorPtr_free_live [OF f4(1) idleD(1) [OF i4]] by blast
  let ?s5 = "?s4\<lparr>semdescriptorptr_mem := B\<rparr>"
  note f5 = freed_core_plain [OF f4(1) B(2) i4 born_other(6)]
  have "idle ?s5 L PCB_item y" if "idle s L PCB_item y" for y using f5(2) [OF f4(2) [OF that]] by simp
  moreover have "quiet ?s5 s" using A(3) B(3) by (simp add: quiet_def)
  moreover have "live ?s5 SemDescriptor_item = live s SemDescriptor_item - {d}"
      "live ?s5 SemDescriptorPtr_item = live s SemDescriptorPtr_item - {w}"
      "live ?s5 Semaphore_item = live s Semaphore_item"
    using freedD(3) [OF A(2)] freedD(3) [OF B(2)] by simp_all
  moreover have "pool_of ?s5 k = pool_of s k" if "k \<noteq> SemDescriptor_item" "k \<noteq> SemDescriptorPtr_item" for k
    using that by (cases k) simp_all
  ultimately show ?thesis using A(1) B(1) f5(1) by blast
qed

lemma semClose_done:
  assumes c: "core_ok s L" and k: "sem_ok s L" and r: "running s \<in> live s PCB_item"
    and d: "sem_of_fd s L (ucast (run_arg s 0)) = d" "d \<noteq> NULL"
  shows "\<exists>s'. internal_semClose s = Inr s' \<and> core_ok s' (sem_closed s L d) \<and> sem_ok s' (sem_closed s L d) \<and>
    (\<forall>y. idle s L PCB_item y \<longrightarrow> idle s' (sem_closed s L d) PCB_item y) \<and>
    quiet (set_retvalue (running s) (pcb_syscall_retvalue (pcb s (running s))) s') s \<and>
    pcb_syscall_retvalue (pcb s' (running s)) = 0 \<and>
    live s' SemDescriptor_item = live s SemDescriptor_item - {d} \<and>
    live s' SemDescriptorPtr_item = live s SemDescriptorPtr_item - {sd_ptr (semdescriptor s d)} \<and>
    live s' Semaphore_item = live s Semaphore_item \<and>
    (\<forall>k. k \<noteq> SemDescriptor_item \<longrightarrow> k \<noteq> SemDescriptorPtr_item \<longrightarrow> pool_of s' k = pool_of s k)"
proof -
  let ?r = "running s" and ?m = "sd_semaphore (semdescriptor s d)" and ?w = "sd_ptr (semdescriptor s d)"
  have dm: "d \<in> set (L (SemDescriptors ?r))"
    using sem_of_fd_mem [where s = s and L = L and fd = "ucast (run_arg s 0)"] d by simp
  have ml: "?m \<in> live s Semaphore_item" "?m \<noteq> NULL" using sem_ok_live [OF c k dm] by simp_all
  have wm: "?w \<in> set (L (SemDescs ?m))" and ms: "?m \<in> set (L SemaphoresList)"
    using k dm unfolding sem_ok_def by (blast, force)
  have wn: "?w \<noteq> NULL" by (rule core_nonnull [OF c wm])
  obtain as bs where ab: "L (SemDescriptors ?r) = as @ d # bs" "remove1 d (L (SemDescriptors ?r)) = as @ bs"
    using remove1_split [OF dm] .
  obtain as' bs' where ab': "L (SemDescs ?m) = as' @ ?w # bs'" "remove1 ?w (L (SemDescs ?m)) = as' @ bs'"
    using remove1_split [OF wm] .
  let ?L1 = "L(SemDescriptors ?r := as @ bs)" and ?L2 = "L(SemDescriptors ?r := as @ bs, SemDescs ?m := as' @ bs')"
  let ?L3 = "sem_closed s L d"
  obtain a b where d1: "k_detach s (SemDescriptors ?r) d = Inr (d, put_list (SemDescriptors ?r) a b s)"
      "core_ok (put_list (SemDescriptors ?r) a b s) ?L1"
      "idle (put_list (SemDescriptors ?r) a b s) ?L1 SemDescriptor_item d"
      "\<And>k y. idle s L k y \<Longrightarrow> idle (put_list (SemDescriptors ?r) a b s) ?L1 k y"
    by (rule core_detachE [OF c ab(1)]) (simp, simp, blast)
  let ?s1 = "put_list (SemDescriptors ?r) a b s"
  have "?L1 (SemDescs ?m) = as' @ ?w # bs'" using ab'(1) by simp
  then obtain a' b' where d2: "k_detach ?s1 (SemDescs ?m) ?w = Inr (?w, put_list (SemDescs ?m) a' b' ?s1)"
      "core_ok (put_list (SemDescs ?m) a' b' ?s1) ?L2"
      "idle (put_list (SemDescs ?m) a' b' ?s1) ?L2 SemDescriptorPtr_item ?w"
      "\<And>k y. idle ?s1 ?L1 k y \<Longrightarrow> idle (put_list (SemDescs ?m) a' b' ?s1) ?L2 k y"
    by (rule core_detachE [OF d1(2)]) (simp, simp, blast)
  let ?s2 = "put_list (SemDescs ?m) a' b' ?s1"
  have m2: "?m \<in> live ?s2 Semaphore_item" "?m \<in> set (?L2 SemaphoresList)" using ml(1) ms by simp_all
  have f: "?L3 = ?L2(SemaphoresList := if ?L2 (SemDescs ?m) = [] then remove1 ?m (?L2 SemaphoresList) else ?L2 SemaphoresList)"
    unfolding sem_closed_def Let_def ab(2) ab'(2) by simp
  obtain s3 where s3: "(if lh_size (sem_descriptors (semaphore ?s2 ?m)) = 0
        then bindE (k_detach ?s2 SemaphoresList ?m) (\<lambda>(_, s). Inr s) else Inr ?s2) = Inr s3"
      "core_ok s3 ?L3" "\<And>k y. idle ?s2 ?L2 k y \<Longrightarrow> idle s3 ?L3 k y" "quiet s3 ?s2" "\<And>k. pool_of s3 k = pool_of ?s2 k"
    using unlist_semaphore [OF d2(2) m2 f] by blast
  have i3: "idle s3 ?L3 SemDescriptor_item d" "idle s3 ?L3 SemDescriptorPtr_item ?w"
    using s3(3) d2(3,4) d1(3) by blast+
  obtain s4 s5 where s5: "SemDescriptor_free s3 d = Inr (0, s4)" "SemDescriptorPtr_free s4 ?w = Inr (0, s5)"
      "core_ok s5 ?L3" "quiet s5 s3" "\<And>y. idle s3 ?L3 PCB_item y \<Longrightarrow> idle s5 ?L3 PCB_item y"
      "live s5 SemDescriptor_item = live s3 SemDescriptor_item - {d}"
      "live s5 SemDescriptorPtr_item = live s3 SemDescriptorPtr_item - {?w}"
      "live s5 Semaphore_item = live s3 Semaphore_item"
      "\<And>k. k \<noteq> SemDescriptor_item \<Longrightarrow> k \<noteq> SemDescriptorPtr_item \<Longrightarrow> pool_of s5 k = pool_of s3 k"
    using free_semdescriptors [OF s3(2) i3] by blast
  have q3: "quiet s3 s" using s3(4) by (simp add: quiet_def)
  have q: "quiet s5 s" by (rule quiet_trans [OF s5(4) q3])
  have run3: "running s3 = ?r" "running s5 = ?r" "semdescriptor s3 = semdescriptor s"
    using q3 q by (simp_all add: quiet_def)
  let ?s6 = "set_retvalue ?r 0 s5"
  have ret: "internal_semClose s = Inr ?s6"
    using live_nonnull [OF c r] sem_lookup [OF c r] d ml(2) wn d1(1) d2(1) s3(1) s5(1,2) run3
    by (simp add: internal_semClose_def Let_def del: put_list_lists split del: if_split cong: if_cong)
  have p3: "pool_of s3 k = pool_of s k" for k using s3(5) by simp
  have "live ?s6 SemDescriptor_item = live s SemDescriptor_item - {d}"
      "live ?s6 SemDescriptorPtr_item = live s SemDescriptorPtr_item - {?w}"
      "live ?s6 Semaphore_item = live s Semaphore_item"
    using s5(6-8) unfolding p3 core_updates by simp_all
  moreover have "pool_of ?s6 k = pool_of s k" if "k \<noteq> SemDescriptor_item" "k \<noteq> SemDescriptorPtr_item" for k
    using s5(9) [OF that] unfolding p3 core_updates .
  moreover have "core_ok ?s6 ?L3" using s5(3) by simp
  moreover have "sem_ok ?s6 ?L3"
    using q by (intro sem_ok_closed [OF c k dm]) (simp_all add: quiet_def set_retvalue_def upd_pcb_def)
  moreover have "idle ?s6 ?L3 PCB_item y" if "idle s L PCB_item y" for y
    using s5(5) [OF s3(3) [OF d2(4) [OF d1(4) [OF that]]]] by simp
  moreover have "quiet (set_retvalue ?r (pcb_syscall_retvalue (pcb s ?r)) ?s6) s"
    using q by (simp add: quiet_def set_retvalue_def upd_pcb_def)
  moreover have "pcb_syscall_retvalue (pcb ?s6 ?r) = 0" by (simp add: set_retvalue_def upd_pcb_def)
  ultimately show ?thesis using ret by blast
qed

subsection \<open>open\<close>

definition sem_opened :: "kernel \<Rightarrow> (list_loc \<Rightarrow> ptr list) \<Rightarrow> ptr \<Rightarrow> ptr \<Rightarrow> ptr \<Rightarrow> list_loc \<Rightarrow> ptr list" where
  "sem_opened s L m d w = L(SemDescriptors (running s) := L (SemDescriptors (running s)) @ [d],
     SemDescs m := L (SemDescs m) @ [w])"

text \<open>The state after the running process got the descriptor \<open>d\<close>, with pointer item \<open>w\<close>, on \<open>m\<close>.\<close>

definition has_opened :: "kernel \<Rightarrow> (list_loc \<Rightarrow> ptr list) \<Rightarrow> kernel \<Rightarrow> ptr \<Rightarrow> ptr \<Rightarrow> ptr \<Rightarrow> bool" where
  "has_opened s L s' m d w \<longleftrightarrow>
     d \<in> spare s SemDescriptor_item \<and> w \<in> spare s SemDescriptorPtr_item \<and>
     core_ok s' (sem_opened s L m d w) \<and> sem_ok s' (sem_opened s L m d w) \<and>
     (\<forall>y. idle s L PCB_item y \<longrightarrow> idle s' (sem_opened s L m d w) PCB_item y) \<and>
     running s' = running s \<and>
     pcb_syscall_retvalue (pcb s' (running s)) = pcb_last_sem_fd (pcb s (running s)) \<and>
     pcb_last_sem_fd (pcb s' (running s)) = pcb_last_sem_fd (pcb s (running s)) + 1 \<and>
     (\<forall>p. pcb_status (pcb s' p) = pcb_status (pcb s p)) \<and>
     semdescriptor s' = (semdescriptor s)(d := \<lparr>sd_pcb = running s, sd_semaphore = m,
       sd_fd = pcb_last_sem_fd (pcb s (running s)), sd_ptr = w\<rparr>) \<and>
     semdescriptorptr s' = (semdescriptorptr s)(w := \<lparr>sp_descriptor = d\<rparr>) \<and>
     live s' Semaphore_item = live s Semaphore_item \<and>
     live s' SemDescriptor_item = insert d (live s SemDescriptor_item) \<and>
     live s' SemDescriptorPtr_item = insert w (live s SemDescriptorPtr_item) \<and>
     live s' PCB_item = live s PCB_item \<and>
     (\<forall>k. k \<noteq> SemDescriptor_item \<longrightarrow> k \<noteq> SemDescriptorPtr_item \<longrightarrow> pool_of s' k = pool_of s k) \<and>
     (\<forall>k. sem_id (semaphore s' k) = sem_id (semaphore s k) \<and> sem_count (semaphore s' k) = sem_count (semaphore s k))"

lemma sem_ok_opened:
  assumes c: "core_ok s L" and k: "sem_ok s L" and m: "m \<in> set (L SemaphoresList)"
    and d: "d \<notin> live s SemDescriptor_item" and w: "w \<notin> live s SemDescriptorPtr_item"
    and s': "semdescriptor s' = (semdescriptor s)(d := \<lparr>sd_pcb = running s, sd_semaphore = m, sd_fd = f, sd_ptr = w\<rparr>)"
      "semdescriptorptr s' = (semdescriptorptr s)(w := \<lparr>sp_descriptor = d\<rparr>)"
  shows "sem_ok s' (sem_opened s L m d w)"
proof -
  let ?O = "sem_opened s L m d w"
  have old: "x \<noteq> d \<and> sd_pcb (semdescriptor s x) = p \<and>
      sd_ptr (semdescriptor s x) \<in> set (L (SemDescs (sd_semaphore (semdescriptor s x)))) \<and>
      sd_ptr (semdescriptor s x) \<noteq> w \<and>
      sp_descriptor (semdescriptorptr s (sd_ptr (semdescriptor s x))) = x"
    if "x \<in> set (L (SemDescriptors p))" for x p
  proof -
    have a: "sd_pcb (semdescriptor s x) = p"
      "sd_ptr (semdescriptor s x) \<in> set (L (SemDescs (sd_semaphore (semdescriptor s x))))"
      "sp_descriptor (semdescriptorptr s (sd_ptr (semdescriptor s x))) = x"
      using k that unfolding sem_ok_def by blast+
    moreover have "x \<in> live s SemDescriptor_item" using core_mem [OF c that] by (simp del: pool_of.simps)
    moreover have "sd_ptr (semdescriptor s x) \<in> live s SemDescriptorPtr_item"
      using core_mem [OF c a(2)] by (simp del: pool_of.simps)
    ultimately show ?thesis using d w by blast
  qed
  have "sd_pcb (semdescriptor s' x) = p \<and>
      sd_ptr (semdescriptor s' x) \<in> set (?O (SemDescs (sd_semaphore (semdescriptor s' x)))) \<and>
      sp_descriptor (semdescriptorptr s' (sd_ptr (semdescriptor s' x))) = x"
    if "x \<in> set (?O (SemDescriptors p))" for x p
  proof (cases "x = d")
    case True
    with that old [of d p] have "p = running s" by (auto simp: sem_opened_def split: if_splits)
    with True show ?thesis by (simp add: s' sem_opened_def)
  next
    case False
    with that have "x \<in> set (L (SemDescriptors p))" by (auto simp: sem_opened_def split: if_splits)
    from old [OF this] False show ?thesis by (auto simp: s' sem_opened_def)
  qed
  moreover have "n \<in> set (?O SemaphoresList)" if "?O (SemDescs n) \<noteq> []" for n
    using that m k unfolding sem_ok_def by (auto simp: sem_opened_def split: if_splits)
  ultimately show ?thesis unfolding sem_ok_def by blast
qed

lemma add_semdescriptor_done:
  assumes c: "core_ok s L" and k: "sem_ok s L" and r: "running s \<in> live s PCB_item"
    and m: "m \<in> set (L SemaphoresList)"
    and sp: "spare s SemDescriptor_item \<noteq> {}" "spare s SemDescriptorPtr_item \<noteq> {}"
  shows "\<exists>s' d w. add_semdescriptor s m = Inr s' \<and> has_opened s L s' m d w"
  using c
proof (cases rule: SemDescriptor_alloc_cases [of s L "pcb_last_sem_fd (pcb s (running s))" m "running s"])
  case exhausted
  with sp(1) show ?thesis by simp
next
  case (block d A)
  let ?r = "running s" and ?f = "pcb_last_sem_fd (pcb s (running s))"
  let ?s1 = "s\<lparr>semdescriptor_mem := A\<rparr>"
  let ?s2 = "upd_pcb ?r (\<lambda>c. c\<lparr>pcb_last_sem_fd := pcb_last_sem_fd c + 1\<rparr>) ?s1"
  let ?L3 = "L(SemDescriptors ?r := L (SemDescriptors ?r) @ [d])"
  note a1 = allocd_core [OF c block(2)]
  have d: "d \<noteq> NULL" "d \<in> spare s SemDescriptor_item" "d \<notin> live s SemDescriptor_item"
      "live ?s1 SemDescriptor_item = insert d (live s SemDescriptor_item)"
    using block(2) by (simp_all add: allocd_def)
  have c2: "core_ok ?s2 L" "idle ?s2 L SemDescriptor_item d" "\<And>k y. idle s L k y \<Longrightarrow> idle ?s2 L k y"
    using a1 by simp_all
  have h: "SemDescriptors ?r \<in> heads ?s2" using r by (simp add: upd_pcb_def)
  obtain a b where i3: "k_append ?s2 (SemDescriptors ?r) d = Inr (d, put_list (SemDescriptors ?r) a b ?s2)"
      "core_ok (put_list (SemDescriptors ?r) a b ?s2) ?L3"
      "\<And>k y. idle ?s2 L k y \<Longrightarrow> (k = SemDescriptor_item \<Longrightarrow> y \<noteq> d) \<Longrightarrow>
        idle (put_list (SemDescriptors ?r) a b ?s2) ?L3 k y"
    by (rule core_appendE [OF c2(1,2) h, of ?L3]) (simp, simp, blast)
  let ?s3 = "put_list (SemDescriptors ?r) a b ?s2"
  from i3(2) show ?thesis
  proof (cases rule: SemDescriptorPtr_alloc_cases [of ?s3 ?L3 d])
    case exhausted
    with sp(2) show ?thesis by (simp add: upd_pcb_def)
  next
    case b4: (block w B)
    let ?s4 = "upd_semdescriptor d (\<lambda>c. c\<lparr>sd_ptr := w\<rparr>) (?s3\<lparr>semdescriptorptr_mem := B\<rparr>)"
    note a4 = allocd_core [OF i3(2) b4(2)]
    have w: "w \<in> spare s SemDescriptorPtr_item" "w \<notin> live s SemDescriptorPtr_item"
        "live (?s3\<lparr>semdescriptorptr_mem := B\<rparr>) SemDescriptorPtr_item = insert w (live s SemDescriptorPtr_item)"
      using b4(2) by (simp_all add: allocd_def upd_pcb_def)
    have c4: "core_ok ?s4 ?L3" "idle ?s4 ?L3 SemDescriptorPtr_item w" using a4 by simp_all
    have "m \<in> live s Semaphore_item" using core_mem [OF c m] by (simp del: pool_of.simps)
    then have h5: "SemDescs m \<in> heads ?s4" by (simp add: upd_pcb_def upd_semdescriptor_def)
    obtain a' b' where i5: "k_append ?s4 (SemDescs m) w = Inr (w, put_list (SemDescs m) a' b' ?s4)"
        "core_ok (put_list (SemDescs m) a' b' ?s4) (sem_opened s L m d w)"
        "\<And>k y. idle ?s4 ?L3 k y \<Longrightarrow> (k = SemDescriptorPtr_item \<Longrightarrow> y \<noteq> w) \<Longrightarrow>
          idle (put_list (SemDescs m) a' b' ?s4) (sem_opened s L m d w) k y"
      by (rule core_appendE [OF c4 h5, of "sem_opened s L m d w"]) (simp, simp add: sem_opened_def, blast)
    let ?s6 = "set_retvalue ?r ?f (put_list (SemDescs m) a' b' ?s4)"
    note defs = set_retvalue_def upd_pcb_def upd_semdescriptor_def
    have cells: "semdescriptor ?s6 = (semdescriptor s)(d := \<lparr>sd_pcb = ?r, sd_semaphore = m, sd_fd = ?f, sd_ptr = w\<rparr>)"
        "semdescriptorptr ?s6 = (semdescriptorptr s)(w := \<lparr>sp_descriptor = d\<rparr>)"
      using block(3) b4(3)
      by (simp add: defs, cases "semdescriptor s d", simp) (simp add: defs b4(3), cases "semdescriptorptr s w", simp)
    have "add_semdescriptor s m = Inr ?s6"
      using d(1) block(1,3) i3(1) b4(1) i5(1)
      by (simp add: add_semdescriptor_def Let_def del: put_list_lists) (simp add: defs)
    moreover have "has_opened s L ?s6 m d w"
      unfolding has_opened_def
    proof (intro conjI)
      show "core_ok ?s6 (sem_opened s L m d w)" using i5(2) by simp
      show "sem_ok ?s6 (sem_opened s L m d w)" by (rule sem_ok_opened [OF c k m d(3) w(2) cells])
      show "\<forall>y. idle s L PCB_item y \<longrightarrow> idle ?s6 (sem_opened s L m d w) PCB_item y"
      proof (intro allI impI)
        fix y
        assume "idle s L PCB_item y"
        then have "idle ?s3 ?L3 PCB_item y" by (intro i3(3) c2(3)) simp_all
        then have "idle ?s4 ?L3 PCB_item y" using a4(3) by simp
        from i5(3) [OF this] show "idle ?s6 (sem_opened s L m d w) PCB_item y" by simp
      qed
      show "semdescriptor ?s6 = (semdescriptor s)(d := \<lparr>sd_pcb = ?r, sd_semaphore = m, sd_fd = ?f, sd_ptr = w\<rparr>)"
        "semdescriptorptr ?s6 = (semdescriptorptr s)(w := \<lparr>sp_descriptor = d\<rparr>)" by (rule cells)+
      show "live ?s6 SemDescriptor_item = insert d (live s SemDescriptor_item)"
        using d(4) by (simp add: defs)
      show "live ?s6 SemDescriptorPtr_item = insert w (live s SemDescriptorPtr_item)"
        using w(3) by (simp add: defs)
      show "\<forall>k. k \<noteq> SemDescriptor_item \<longrightarrow> k \<noteq> SemDescriptorPtr_item \<longrightarrow> pool_of ?s6 k = pool_of s k"
        by (intro allI impI, case_tac k) (simp_all add: defs)
    qed (use d(2) w(1) in \<open>simp_all add: defs\<close>)
    ultimately show ?thesis by blast
  qed
qed

lemma wait_ok_opened:
  assumes c: "core_ok s L" and o: "wait_ok s L" and h: "has_opened s L s' m d w"
  shows "wait_ok s' (sem_opened s L m d w)"
proof -
  have s': "semdescriptor s' = (semdescriptor s)(d := \<lparr>sd_pcb = running s, sd_semaphore = m,
       sd_fd = pcb_last_sem_fd (pcb s (running s)), sd_ptr = w\<rparr>)"
     "semdescriptorptr s' = (semdescriptorptr s)(w := \<lparr>sp_descriptor = d\<rparr>)"
     "live s' Semaphore_item = live s Semaphore_item"
     "live s' SemDescriptor_item = insert d (live s SemDescriptor_item)"
     "\<And>k. sem_count (semaphore s' k) = sem_count (semaphore s k)"
     "d \<in> spare s SemDescriptor_item" "w \<in> spare s SemDescriptorPtr_item"
    using h unfolding has_opened_def by blast+
  have dw: "d \<notin> live s SemDescriptor_item" "w \<notin> live s SemDescriptorPtr_item"
    using pool.apart [OF core_pool [OF c]] s'(6,7) by blast+
  have e: "sem_opened s L m d w (SemWaiting k) = L (SemWaiting k)" "sem_opened s L m d w WaitingList = L WaitingList" for k
    by (simp_all add: sem_opened_def)
  have old: "waiter s' x = waiter s x" "sp_descriptor (semdescriptorptr s' x) = sp_descriptor (semdescriptorptr s x)"
    if "x \<in> set (L (SemWaiting k))" for x k
  proof -
    have "x \<noteq> w" using core_mem [OF c that] dw(2) by auto
    moreover have "sp_descriptor (semdescriptorptr s x) \<noteq> d"
      using o that dw(1) unfolding wait_ok_def by blast
    ultimately show "waiter s' x = waiter s x"
      "sp_descriptor (semdescriptorptr s' x) = sp_descriptor (semdescriptorptr s x)" by (simp_all add: s'(1,2))
  qed
  show ?thesis
    using o old unfolding wait_ok_def e s'(3,4,5) by (metis insert_iff)
qed

lemma add_semdescriptor_nofd:
  assumes c: "core_ok s L" and sp: "spare s SemDescriptor_item = {}"
  shows "add_semdescriptor s m = Inr (set_retvalue (running s) DSOS_ERESOURCENOFD s)"
  using c
proof (cases rule: SemDescriptor_alloc_cases [of s L "pcb_last_sem_fd (pcb s (running s))" m "running s"])
  case exhausted
  then show ?thesis by (simp add: add_semdescriptor_def)
next
  case (block d A)
  with sp show ?thesis by (simp add: allocd_def)
qed

lemma add_semdescriptor_exhausted:
  assumes c: "core_ok s L" and r: "running s \<in> live s PCB_item"
    and sp: "spare s SemDescriptor_item \<noteq> {}" "spare s SemDescriptorPtr_item = {}"
  shows "add_semdescriptor s m = Inl NullDeref"
  using c
proof (cases rule: SemDescriptor_alloc_cases [of s L "pcb_last_sem_fd (pcb s (running s))" m "running s"])
  case exhausted
  with sp(1) show ?thesis by simp
next
  case (block d A)
  let ?r = "running s"
  let ?s2 = "upd_pcb ?r (\<lambda>c. c\<lparr>pcb_last_sem_fd := pcb_last_sem_fd c + 1\<rparr>) (s\<lparr>semdescriptor_mem := A\<rparr>)"
  let ?L3 = "L(SemDescriptors ?r := L (SemDescriptors ?r) @ [d])"
  have d: "d \<noteq> NULL" using block(2) by (simp add: allocd_def)
  have c2: "core_ok ?s2 L" "idle ?s2 L SemDescriptor_item d" using allocd_core [OF c block(2)] by simp_all
  have h: "SemDescriptors ?r \<in> heads ?s2" using r by (simp add: upd_pcb_def)
  obtain a b where i: "k_append ?s2 (SemDescriptors ?r) d = Inr (d, put_list (SemDescriptors ?r) a b ?s2)"
      "core_ok (put_list (SemDescriptors ?r) a b ?s2) ?L3"
    by (rule core_appendE [OF c2 h, of ?L3]) (simp, simp, blast)
  from i(2) show ?thesis
  proof (cases rule: SemDescriptorPtr_alloc_cases [of "put_list (SemDescriptors ?r) a b ?s2" ?L3 d])
    case exhausted
    then show ?thesis using d block(1) i(1)
      by (simp add: add_semdescriptor_def Let_def del: put_list_lists) (simp add: upd_pcb_def k_null)
  next
    case (block w B)
    with sp(2) show ?thesis by (simp add: allocd_def upd_pcb_def)
  qed
qed

text \<open>
  What opening the listed semaphore \<open>m\<close> amounts to, once it has been found: the lack of a descriptor
  is reported, the lack of a list item for it is not noticed.
\<close>

definition sem_opens :: "kernel \<Rightarrow> kernel \<Rightarrow> (list_loc \<Rightarrow> ptr list) \<Rightarrow> ptr \<Rightarrow> bool" where
  "sem_opens s s1 L m \<longleftrightarrow>
     (if spare s1 SemDescriptor_item = {}
      then internal_semOpen s = Inr (set_retvalue (running s) DSOS_ERESOURCENOFD s1)
      else if spare s1 SemDescriptorPtr_item = {} then internal_semOpen s = Inl NullDeref
      else \<exists>s' d w. internal_semOpen s = Inr s' \<and> has_opened s1 L s' m d w \<and>
        (wait_ok s1 L \<longrightarrow> wait_ok s' (sem_opened s1 L m d w)))"

lemma sem_opens_done:
  assumes "internal_semOpen s = add_semdescriptor s1 m" and "core_ok s1 L" and "sem_ok s1 L"
    and "running s1 \<in> live s1 PCB_item" and "m \<in> set (L SemaphoresList)" and "running s1 = running s"
  shows "sem_opens s s1 L m"
  unfolding sem_opens_def assms(1)
  using add_semdescriptor_nofd [OF assms(2), of m] add_semdescriptor_exhausted [OF assms(2,4), of m]
    add_semdescriptor_done [OF assms(2-5)] wait_ok_opened [OF assms(2)]
  unfolding assms(6) by (intro if_intro) blast+

abbreviation sem_named :: "kernel \<Rightarrow> (list_loc \<Rightarrow> ptr list) \<Rightarrow> cint \<Rightarrow> ptr" where
  "sem_named s L sid \<equiv> scan_result (\<lambda>x. sem_id (semaphore s x) = sid) (L SemaphoresList)"

lemma sem_by_id: "core_ok s L \<Longrightarrow> SemaphoreList_byId s (semaphores_list s) sid = Inr (sem_named s L sid)"
  using SemaphoreList_byId_scan [of s L SemaphoresList sid] by simp

lemma semOpen_existing_cases:
  assumes "core_ok s L" and "sem_ok s L" and "running s \<in> live s PCB_item"
    and "m = sem_named s L (ucast (run_arg s 0))" and "(ucast (run_arg s 1) :: cint) AND DSOS_CREATE = 0"
  shows "if m = NULL then internal_semOpen s = Inr (set_retvalue (running s) DSOS_ESEMAPHOREOPEN s)
    else if (ucast (run_arg s 1) :: cint) AND DSOS_EXCL \<noteq> 0 \<and> L (SemDescs m) \<noteq> []
    then internal_semOpen s = Inr (set_retvalue (running s) DSOS_ESEMAPHORENOEXCL s)
    else sem_opens s s L m"
proof -
  have nn: "running s \<noteq> NULL" by (rule live_nonnull [OF assms(1,3)])
  have z: "lh_size (sem_descriptors (semaphore s m)) = 0 \<longleftrightarrow> L (SemDescs m) = []" "m \<in> set (L SemaphoresList)"
    if "m \<noteq> NULL"
  proof -
    show mm: "m \<in> set (L SemaphoresList)" using scan_result_mem that assms(4) by blast
    have "SemDescs m \<in> heads s" using core_mem [OF assms(1) mm] by (simp del: pool_of.simps)
    from core_size_zero [OF assms(1) this]
    show "lh_size (sem_descriptors (semaphore s m)) = 0 \<longleftrightarrow> L (SemDescs m) = []" by simp
  qed
  have go: "internal_semOpen s = (if m = NULL then Inr (set_retvalue (running s) DSOS_ESEMAPHOREOPEN s)
      else if (ucast (run_arg s 1) :: cint) AND DSOS_EXCL \<noteq> 0 \<and> L (SemDescs m) \<noteq> []
      then Inr (set_retvalue (running s) DSOS_ESEMAPHORENOEXCL s) else add_semdescriptor s m)"
    using nn assms(5) z(1) sem_by_id [OF assms(1)] unfolding assms(4)
    by (simp add: internal_semOpen_def Let_def)
  show ?thesis
    using go sem_opens_done [OF _ assms(1-3) z(2) refl] by (intro if_intro) (simp_all only: if_True if_False simp_thms)
qed

text \<open>
  C20: opening an existing semaphore, on every branch: an unknown id, a semaphore that others hold
  when exclusive use is asked for, and the lack of a descriptor are reported and change nothing
  else, the lack of a list item makes the call fault; otherwise the process gets a new descriptor
  under its next descriptor number, and all invariants are kept.
\<close>

theorem semOpen_existing:
  assumes "core_ok s L" and "sem_ok s L" and "running s \<in> live s PCB_item"
    and "m = sem_named s L (ucast (run_arg s 0))" and "(ucast (run_arg s 1) :: cint) AND DSOS_CREATE = 0"
  shows "if m = NULL then internal_semOpen s = Inr (set_retvalue (running s) DSOS_ESEMAPHOREOPEN s)
    else if (ucast (run_arg s 1) :: cint) AND DSOS_EXCL \<noteq> 0 \<and> L (SemDescs m) \<noteq> []
    then internal_semOpen s = Inr (set_retvalue (running s) DSOS_ESEMAPHORENOEXCL s)
    else sem_opens s s L m"
  using assms by (rule semOpen_existing_cases)

lemma ex_sem_named: "sem_named (ex_args f) ex_lists 6 = 28672" "sem_named (ex_args f) ex_lists 9 = NULL"
  by (simp_all add: ex_mem_defs)

lemma ex_sem_room: "spare (ex_args f) SemDescriptor_item = {32816, 32832, 32848}"
    "spare (ex_args f) SemDescriptorPtr_item = {36928, 36944}" "spare (ex_args f) Semaphore_item = {28704, 28720, 28736, 28752}"
    "running (ex_args f) \<in> live (ex_args f) PCB_item"
  unfolding ex_args_fields ex_state_live by (simp_all add: ex_pool_blocks)

theorem semOpen_existing_witness:
  "\<exists>s' d w. internal_semOpen (ex_args (\<lambda>i. if i = 0 then 6 else 0)) = Inr s' \<and>
    core_ok s' (sem_opened (ex_args (\<lambda>i. if i = 0 then 6 else 0)) ex_lists 28672 d w) \<and>
    pcb_syscall_retvalue (pcb s' 4096) = 2"
proof -
  let ?f = "\<lambda>i :: nat. if i = 0 then 6 else (0 :: clong)"
  have a: "28672 = sem_named (ex_args ?f) ex_lists (ucast (run_arg (ex_args ?f) 0))"
    "(ucast (run_arg (ex_args ?f) 1) :: cint) AND DSOS_CREATE = 0"
    "(ucast (run_arg (ex_args ?f) 1) :: cint) AND DSOS_EXCL = 0"
    using ex_sem_named(1) [of ?f] by simp_all
  have "spare (ex_args ?f) SemDescriptorPtr_item \<noteq> {}" "spare (ex_args ?f) SemDescriptor_item \<noteq> {}"
    unfolding ex_sem_room by simp_all
  with semOpen_existing [OF ex_args_ok(1,2) ex_sem_room(4) a(1,2)] a(3)
  obtain s' d w where o: "internal_semOpen (ex_args ?f) = Inr s'"
      "has_opened (ex_args ?f) ex_lists s' 28672 d w" unfolding sem_opens_def by (simp del: ex_args_fields) blast
  moreover have "pcb_last_sem_fd (pcb (ex_args ?f) 4096) = 2"
    by (simp add: ex_args_def upd_pcb_def ex_mem_defs ex_pcb_def)
  ultimately show ?thesis unfolding has_opened_def by (intro exI [of _ s'] exI [of _ d] exI [of _ w]) simp
qed

text \<open>The state after the semaphore \<open>m\<close> was created with the id \<open>sid\<close> and the count \<open>n\<close>.\<close>

definition sem_listed :: "(list_loc \<Rightarrow> ptr list) \<Rightarrow> ptr \<Rightarrow> list_loc \<Rightarrow> ptr list" where
  "sem_listed L m = L(SemaphoresList := L SemaphoresList @ [m])"

definition sem_created :: "kernel \<Rightarrow> (list_loc \<Rightarrow> ptr list) \<Rightarrow> cint \<Rightarrow> cint \<Rightarrow> ptr \<Rightarrow> kernel \<Rightarrow> bool" where
  "sem_created s L sid n m s' \<longleftrightarrow>
     m \<in> spare s Semaphore_item \<and> m \<notin> live s Semaphore_item \<and>
     core_ok s' (sem_listed L m) \<and> (\<forall>y. idle s L PCB_item y \<longrightarrow> idle s' (sem_listed L m) PCB_item y) \<and>
     (\<forall>k. k \<noteq> Semaphore_item \<longrightarrow> pool_of s' k = pool_of s k) \<and>
     live s' Semaphore_item = insert m (live s Semaphore_item) \<and>
     running s' = running s \<and> pcb s' = pcb s \<and>
     semdescriptor s' = semdescriptor s \<and> semdescriptorptr s' = semdescriptorptr s \<and>
     (\<forall>k. sem_id (semaphore s' k) = (if k = m then sid else sem_id (semaphore s k)) \<and>
       sem_count (semaphore s' k) = (if k = m then n else sem_count (semaphore s k)))"

lemma sem_ok_created: "sem_ok s L \<Longrightarrow> sem_created s L sid n m s' \<Longrightarrow> sem_ok s' (sem_listed L m)"
  by (auto simp: sem_ok_def sem_created_def sem_listed_def)

text \<open>
  The queues of the semaphores agree with the counts as long as the initial count is not negative:
  a negative one would have to be matched by processes that wait.
\<close>

lemma wait_ok_created:
  assumes c: "core_ok s L" and o: "wait_ok s L" and h: "sem_created s L sid n m s'"
  shows "wait_ok s' (sem_listed L m) \<longleftrightarrow> 0 \<le> sint n"
proof -
  have f: "m \<notin> live s Semaphore_item" "live s' Semaphore_item = insert m (live s Semaphore_item)"
      "live s' SemDescriptor_item = live s SemDescriptor_item"
      "semdescriptor s' = semdescriptor s" "semdescriptorptr s' = semdescriptorptr s"
      "\<And>k. sem_count (semaphore s' k) = (if k = m then n else sem_count (semaphore s k))"
    using h unfolding sem_created_def by (simp_all del: pool_of.simps)
  have e: "sem_listed L m (SemWaiting k) = L (SemWaiting k)" "sem_listed L m WaitingList = L WaitingList" for k
    by (simp_all add: sem_listed_def)
  have "SemWaiting m \<notin> heads s" using f(1) by simp
  then have "L (SemWaiting m) = []" by (rule core_dead [OF c])
  then show ?thesis using o f(1) unfolding wait_ok_def e f(2-6) by (auto simp del: pool_of.simps)
qed

lemma create_semaphore:
  assumes c: "core_ok s L"
  obtains (exhausted) "spare s Semaphore_item = {}"
      "bindE (Semaphore_alloc s sid n) (\<lambda>(m, s). bindE (k_append s SemaphoresList m) (\<lambda>(_, s). Inr (m, s))) = Inl NullDeref"
  | (created) m s' where "sem_created s L sid n m s'" "m \<noteq> NULL"
      "bindE (Semaphore_alloc s sid n) (\<lambda>(m, s). bindE (k_append s SemaphoresList m) (\<lambda>(_, s). Inr (m, s))) = Inr (m, s')"
  using c
proof (cases rule: Semaphore_alloc_cases [of s L sid n])
  case exhausted
  then show ?thesis by (intro that(1)) (simp_all add: k_append_def k_insert_def List_insert_def)
next
  case (block m A)
  let ?s1 = "s\<lparr>semaphore_mem := A\<rparr>"
  note a1 = allocd_core [OF c block(2)]
  have m: "m \<noteq> NULL" "m \<in> spare s Semaphore_item" "m \<notin> live s Semaphore_item"
      "live ?s1 Semaphore_item = insert m (live s Semaphore_item)"
    using block(2) by (simp_all add: allocd_def)
  obtain a b where i: "k_append ?s1 SemaphoresList m = Inr (m, put_list SemaphoresList a b ?s1)"
      "core_ok (put_list SemaphoresList a b ?s1) (sem_listed L m)"
      "\<And>k y. idle ?s1 L k y \<Longrightarrow> (k = Semaphore_item \<Longrightarrow> y \<noteq> m) \<Longrightarrow>
        idle (put_list SemaphoresList a b ?s1) (sem_listed L m) k y"
    by (rule core_appendE [OF a1(1,2), of SemaphoresList "sem_listed L m"]) (simp, simp, simp add: sem_listed_def, blast)
  let ?s2 = "put_list SemaphoresList a b ?s1"
  have "pool_of ?s2 k = pool_of s k" if "k \<noteq> Semaphore_item" for k
    using that by (cases k) simp_all
  moreover have "pcb ?s2 = pcb s" by (simp add: put_list_def)
  moreover have "idle ?s2 (sem_listed L m) PCB_item y" if "idle s L PCB_item y" for y
    by (rule i(3) [OF a1(3) [OF that]]) simp
  ultimately have "sem_created s L sid n m ?s2"
    unfolding sem_created_def using i(2) m block(3) by (simp del: pool_of.simps)
  moreover have "bindE (Semaphore_alloc s sid n) (\<lambda>(m, s). bindE (k_append s SemaphoresList m) (\<lambda>(_, s). Inr (m, s))) = Inr (m, ?s2)"
    using block(1) i(1) by (simp del: put_list_lists)
  ultimately show ?thesis using m(1) that(2) by blast
qed

lemma semOpen_create_cases:
  assumes "core_ok s L" and "sem_ok s L" and "running s \<in> live s PCB_item"
    and "(ucast (run_arg s 1) :: cint) AND DSOS_CREATE \<noteq> 0"
  shows "if sem_named s L (ucast (run_arg s 0)) \<noteq> NULL
    then internal_semOpen s = Inr (set_retvalue (running s) DSOS_ESEMAPHORECREATE s)
    else if spare s Semaphore_item = {} then internal_semOpen s = Inl NullDeref
    else \<exists>m s1. sem_created s L (ucast (run_arg s 0)) (ucast (run_arg s 2)) m s1 \<and>
      sem_opens s s1 (sem_listed L m) m \<and>
      (wait_ok s L \<longrightarrow> (wait_ok s1 (sem_listed L m) \<longleftrightarrow> 0 \<le> sint (ucast (run_arg s 2) :: cint)))"
  using assms(1)
proof (cases rule: create_semaphore [of s L "ucast (run_arg s 0)" "ucast (run_arg s 2)"])
  case exhausted
  then show ?thesis
    using live_nonnull [OF assms(1,3)] assms(4) sem_by_id [OF assms(1), of "ucast (run_arg s 0)"]
    by (simp add: internal_semOpen_def Let_def)
next
  case (created m s1)
  have c1: "core_ok s1 (sem_listed L m)" "running s1 = running s" "m \<in> set (sem_listed L m SemaphoresList)"
      "m \<in> spare s Semaphore_item" "live s1 PCB_item = live s PCB_item"
    using created(1) unfolding sem_created_def by (simp_all add: sem_listed_def del: pool_of.simps)
  have "SemDescs m \<notin> heads s" using created(1) unfolding sem_created_def by (simp del: pool_of.simps)
  then have "sem_listed L m (SemDescs m) = []" using core_dead [OF assms(1)] by (simp add: sem_listed_def)
  moreover have "SemDescs m \<in> heads s1" using core_mem [OF c1(1,3)] by (simp del: pool_of.simps)
  ultimately have z: "lh_size (sem_descriptors (semaphore s1 m)) = 0"
    using core_size_zero [OF c1(1), of "SemDescs m"] by simp
  have r1: "running s1 \<in> live s1 PCB_item" using assms(3) unfolding c1(2,5) .
  have go: "internal_semOpen s = (if sem_named s L (ucast (run_arg s 0)) \<noteq> NULL
      then Inr (set_retvalue (running s) DSOS_ESEMAPHORECREATE s) else add_semdescriptor s1 m)"
    using live_nonnull [OF assms(1,3)] assms(4) created(2,3) z sem_by_id [OF assms(1), of "ucast (run_arg s 0)"]
    by (simp add: internal_semOpen_def Let_def)
  show ?thesis
  proof (intro if_intro)
    assume "sem_named s L (ucast (run_arg s 0)) \<noteq> NULL"
    then show "internal_semOpen s = Inr (set_retvalue (running s) DSOS_ESEMAPHORECREATE s)" using go by simp
  next
    assume "spare s Semaphore_item = {}"
    with c1(4) show "internal_semOpen s = Inl NullDeref" by blast
  next
    assume "\<not> sem_named s L (ucast (run_arg s 0)) \<noteq> NULL"
    with go have "internal_semOpen s = add_semdescriptor s1 m" by simp
    from sem_opens_done [OF this c1(1) sem_ok_created [OF assms(2) created(1)] r1 c1(3,2)]
      created(1) wait_ok_created [OF assms(1) _ created(1)]
    show "\<exists>m s1. sem_created s L (ucast (run_arg s 0)) (ucast (run_arg s 2)) m s1 \<and>
      sem_opens s s1 (sem_listed L m) m \<and>
      (wait_ok s L \<longrightarrow> (wait_ok s1 (sem_listed L m) \<longleftrightarrow> 0 \<le> sint (ucast (run_arg s 2) :: cint)))" by blast
  qed
qed

text \<open>
  C21: opening with \<open>DSOS_CREATE\<close>, on every branch: an id that is taken is reported; when the
  semaphores are used up the null pointer that the allocator returned is linked into the list; else
  the semaphore exists under its id with the given count, and the process has a descriptor of it,
  unless the descriptors are used up, in which case the new semaphore stays behind without one.
\<close>

theorem semOpen_create:
  assumes "core_ok s L" and "sem_ok s L" and "running s \<in> live s PCB_item"
    and "(ucast (run_arg s 1) :: cint) AND DSOS_CREATE \<noteq> 0"
  shows "if sem_named s L (ucast (run_arg s 0)) \<noteq> NULL
    then internal_semOpen s = Inr (set_retvalue (running s) DSOS_ESEMAPHORECREATE s)
    else if spare s Semaphore_item = {} then internal_semOpen s = Inl NullDeref
    else \<exists>m s1. sem_created s L (ucast (run_arg s 0)) (ucast (run_arg s 2)) m s1 \<and>
      sem_opens s s1 (sem_listed L m) m \<and>
      (wait_ok s L \<longrightarrow> (wait_ok s1 (sem_listed L m) \<longleftrightarrow> 0 \<le> sint (ucast (run_arg s 2) :: cint)))"
  using assms by (rule semOpen_create_cases)

theorem semOpen_create_witness:
  "\<exists>s' m. internal_semOpen (ex_args (\<lambda>i. if i = 0 then 9 else 1)) = Inr s' \<and>
    m \<in> {28704, 28720, 28736, 28752} \<and> sem_id (semaphore s' m) = 9 \<and> sem_count (semaphore s' m) = 1"
proof -
  let ?s = "ex_args (\<lambda>i. if i = 0 then 9 else (1 :: clong))"
  have a: "(ucast (run_arg ?s 1) :: cint) AND DSOS_CREATE \<noteq> 0" "ucast (run_arg ?s 0) = (9 :: cint)"
    "ucast (run_arg ?s 2) = (1 :: cint)"
    by (simp_all add: DSOS_CREATE_def)
  have r: "spare ?s SemDescriptorPtr_item \<noteq> {}" "spare ?s SemDescriptor_item \<noteq> {}" "spare ?s Semaphore_item \<noteq> {}"
    unfolding ex_sem_room by simp_all
  from semOpen_create [OF ex_args_ok(1,2) ex_sem_room(4) a(1)]
  obtain m s1 where m: "sem_created ?s ex_lists 9 1 m s1" "sem_opens ?s s1 (sem_listed ex_lists m) m"
    unfolding a(2,3) ex_sem_named(2) using r by (simp del: ex_args_fields pool_of.simps) blast
  have "spare s1 SemDescriptor_item \<noteq> {}" "spare s1 SemDescriptorPtr_item \<noteq> {}"
    using m(1) r(1,2) unfolding sem_created_def by (simp_all del: ex_args_fields pool_of.simps)
  with m obtain s' d w where o: "sem_created ?s ex_lists 9 1 m s1"
      "internal_semOpen ?s = Inr s'" "has_opened s1 (sem_listed ex_lists m) s' m d w"
    unfolding sem_opens_def by (simp only: if_False) blast
  have "m \<in> {28704, 28720, 28736, 28752}" "sem_id (semaphore s1 m) = 9" "sem_count (semaphore s1 m) = 1"
    using o(1) unfolding sem_created_def ex_sem_room by simp_all
  with o show ?thesis unfolding has_opened_def by (intro exI [of _ s'] exI [of _ m]) simp
qed

lemma semClose_cases:
  assumes "core_ok s L" and "sem_ok s L" and "wait_ok s L" and "running s \<in> live s PCB_item"
    and "d = sem_of_fd s L (ucast (run_arg s 0))"
  shows "if d = NULL then internal_semClose s = Inr (set_retvalue (running s) DSOS_ESEMAPHORECLOSE s)
    else \<exists>s'. internal_semClose s = Inr s' \<and> core_ok s' (sem_closed s L d) \<and> sem_ok s' (sem_closed s L d) \<and>
      (wait_ok s' (sem_closed s L d) \<longleftrightarrow>
        (\<forall>m. \<forall>w\<in>set (L (SemWaiting m)). sp_descriptor (semdescriptorptr s w) \<noteq> d)) \<and>
      running s' = running s \<and> pcb_syscall_retvalue (pcb s' (running s)) = 0 \<and>
      live s' SemDescriptor_item = live s SemDescriptor_item - {d} \<and>
      live s' SemDescriptorPtr_item = live s SemDescriptorPtr_item - {sd_ptr (semdescriptor s d)} \<and>
      live s' Semaphore_item = live s Semaphore_item"
proof (rule if_intro)
  assume "d = NULL"
  then show "internal_semClose s = Inr (set_retvalue (running s) DSOS_ESEMAPHORECLOSE s)"
    using live_nonnull [OF assms(1,4)] sem_lookup [OF assms(1,4)] assms(5)
    by (simp add: internal_semClose_def Let_def)
next
  assume "d \<noteq> NULL"
  from semClose_done [OF assms(1,2,4) assms(5) [symmetric] this] obtain s' where
    s': "internal_semClose s = Inr s'" "core_ok s' (sem_closed s L d)" "sem_ok s' (sem_closed s L d)"
      "quiet (set_retvalue (running s) (pcb_syscall_retvalue (pcb s (running s))) s') s"
      "pcb_syscall_retvalue (pcb s' (running s)) = 0"
      "live s' SemDescriptor_item = live s SemDescriptor_item - {d}"
      "live s' SemDescriptorPtr_item = live s SemDescriptorPtr_item - {sd_ptr (semdescriptor s d)}"
      "live s' Semaphore_item = live s Semaphore_item" by blast
  have q: "running s' = running s" "semdescriptor s' = semdescriptor s" "semdescriptorptr s' = semdescriptorptr s"
      "\<And>m. sem_count (semaphore s' m) = sem_count (semaphore s m)"
    using s'(4) unfolding quiet_def by (simp_all add: set_retvalue_def upd_pcb_def)
  have e: "sem_closed s L d (SemWaiting m) = L (SemWaiting m)" "sem_closed s L d WaitingList = L WaitingList" for m
    by (simp_all add: sem_closed_def Let_def)
  have "wait_ok s' (sem_closed s L d) \<longleftrightarrow>
      (\<forall>m. \<forall>w\<in>set (L (SemWaiting m)). sp_descriptor (semdescriptorptr s w) \<noteq> d)"
    using assms(3) unfolding wait_ok_def e q(2-4) s'(6,8) by blast
  then show "\<exists>s'. internal_semClose s = Inr s' \<and> core_ok s' (sem_closed s L d) \<and> sem_ok s' (sem_closed s L d) \<and>
      (wait_ok s' (sem_closed s L d) \<longleftrightarrow>
        (\<forall>m. \<forall>w\<in>set (L (SemWaiting m)). sp_descriptor (semdescriptorptr s w) \<noteq> d)) \<and>
      running s' = running s \<and> pcb_syscall_retvalue (pcb s' (running s)) = 0 \<and>
      live s' SemDescriptor_item = live s SemDescriptor_item - {d} \<and>
      live s' SemDescriptorPtr_item = live s SemDescriptorPtr_item - {sd_ptr (semdescriptor s d)} \<and>
      live s' Semaphore_item = live s Semaphore_item"
    using s' q(1) by blast
qed

text \<open>
  C22: closing a semaphore descriptor, on both branches. The descriptor leaves the lists of the
  process and of the semaphore and is given back with its list item; a semaphore that lost its last
  descriptor leaves the global list, but its block stays in use for ever. The queues of the
  semaphores stay sound unless the descriptor is itself queued, which a process can do since wait
  does not stop it: then the queue is left with a descriptor that does not exist.
\<close>

theorem semClose_branches:
  assumes "core_ok s L" and "sem_ok s L" and "wait_ok s L" and "running s \<in> live s PCB_item"
    and "d = sem_of_fd s L (ucast (run_arg s 0))"
  shows "if d = NULL then internal_semClose s = Inr (set_retvalue (running s) DSOS_ESEMAPHORECLOSE s)
    else \<exists>s'. internal_semClose s = Inr s' \<and> core_ok s' (sem_closed s L d) \<and> sem_ok s' (sem_closed s L d) \<and>
      (wait_ok s' (sem_closed s L d) \<longleftrightarrow>
        (\<forall>m. \<forall>w\<in>set (L (SemWaiting m)). sp_descriptor (semdescriptorptr s w) \<noteq> d)) \<and>
      running s' = running s \<and> pcb_syscall_retvalue (pcb s' (running s)) = 0 \<and>
      live s' SemDescriptor_item = live s SemDescriptor_item - {d} \<and>
      live s' SemDescriptorPtr_item = live s SemDescriptorPtr_item - {sd_ptr (semdescriptor s d)} \<and>
      live s' Semaphore_item = live s Semaphore_item"
  using assms by (rule semClose_cases)

theorem semClose_branches_witness:
  "\<exists>s'. internal_semClose (ex_call 0) = Inr s' \<and>
    sem_closed (ex_call 0) ex_lists 32768 SemaphoresList = [28688] \<and>
    core_ok s' (sem_closed (ex_call 0) ex_lists 32768) \<and> wait_ok s' (sem_closed (ex_call 0) ex_lists 32768) \<and>
    28672 \<in> live s' Semaphore_item"
proof -
  have d: "32768 = sem_of_fd (ex_call 0) ex_lists (ucast (run_arg (ex_call 0) 0))"
    "sd_semaphore (semdescriptor (ex_call 0) 32768) = 28672" "sd_ptr (semdescriptor (ex_call 0) 32768) = 36864"
    "\<forall>m. \<forall>w\<in>set (ex_lists (SemWaiting m)). sp_descriptor (semdescriptorptr (ex_call 0) w) \<noteq> 32768"
    by (simp_all add: ex_mem_defs)
  have l: "sem_closed (ex_call 0) ex_lists 32768 SemaphoresList = [28688]"
    using d(2,3) by (simp add: sem_closed_def Let_def)
  from semClose_branches [OF ex_args_ok ex_sem_room(4) d(1)] d(4)
  obtain s' where "internal_semClose (ex_call 0) = Inr s'" "core_ok s' (sem_closed (ex_call 0) ex_lists 32768)"
      "wait_ok s' (sem_closed (ex_call 0) ex_lists 32768)"
      "live s' Semaphore_item = live (ex_call 0) Semaphore_item"
    by (simp del: ex_args_fields pool_of.simps) blast
  moreover have "28672 \<in> live (ex_call 0) Semaphore_item" unfolding ex_args_fields ex_state_live by simp
  ultimately show ?thesis using l by (simp del: pool_of.simps)
qed

subsection \<open>open and close\<close>

lemma sem_ok_with_args [simp]: "sem_ok (with_args f s) L \<longleftrightarrow> sem_ok s L"
  by (simp add: sem_ok_def)

lemma sem_closed_opened:
  assumes "d \<notin> set (L (SemDescriptors (running s)))" and "w \<notin> set (L (SemDescs m))" and "L (SemDescs m) \<noteq> []"
    and "semdescriptor s' d = \<lparr>sd_pcb = running s, sd_semaphore = m, sd_fd = f, sd_ptr = w\<rparr>"
    and "running s' = running s"
  shows "sem_closed s' (sem_opened s L m d w) d = L"
  using assms by (simp add: sem_closed_def sem_opened_def Let_def remove1_append fun_eq_iff)

text \<open>The file descriptor that open returned leads to the new descriptor.\<close>

lemma opened_found:
  assumes c: "core_ok s L" and o: "has_opened s L s1 m d w"
    and n: "\<forall>x\<in>set (L (SemDescriptors (running s))). sd_fd (semdescriptor s x) \<noteq> pcb_last_sem_fd (pcb s (running s))"
    and s': "s' = with_args (\<lambda>_. scast (pcb_syscall_retvalue (pcb s1 (running s1)))) s1"
  shows "sem_of_fd s' (sem_opened s L m d w) (ucast (run_arg s' 0)) = d"
proof -
  let ?fd = "pcb_last_sem_fd (pcb s (running s))" and ?O = "sem_opened s L m d w"
  have o1: "core_ok s' ?O" "running s' = running s" "running s1 = running s"
      "semdescriptor s' = (semdescriptor s)(d := \<lparr>sd_pcb = running s, sd_semaphore = m, sd_fd = ?fd, sd_ptr = w\<rparr>)"
      "pcb_syscall_retvalue (pcb s1 (running s)) = ?fd" "d \<in> spare s SemDescriptor_item"
    using o unfolding has_opened_def s' by (simp_all del: pool_of.simps)
  have "d \<notin> live s SemDescriptor_item" using pool.apart [OF core_pool [OF c]] o1(6) by blast
  then have dn: "d \<notin> set (L (SemDescriptors (running s)))" using core_mem [OF c] by fastforce
  have "?O (SemDescriptors (running s)) = L (SemDescriptors (running s)) @ [d]" by (simp add: sem_opened_def)
  moreover have "sd_fd (semdescriptor s' x) \<noteq> ?fd" if "x \<in> set (L (SemDescriptors (running s)))" for x
    using n dn that unfolding o1(4) by auto
  moreover have "NULL \<notin> set (?O (SemDescriptors (running s)))" using core_nonnull [OF o1(1)] by blast
  ultimately have "scan_result (\<lambda>x. sd_fd (semdescriptor s' x) = ?fd) (?O (SemDescriptors (running s))) = d"
    by (intro scan_result_unique) (auto simp: o1(4))
  moreover have "ucast (run_arg s' 0) = ?fd" unfolding s' by (simp only: with_args_simps(2) o1(3,5) ucast_scast)
  ultimately show ?thesis by (simp only: o1(2))
qed

text \<open>
  C27: closing undoes opening, for a semaphore that somebody holds. Let the semaphore named by the
  argument exist and have a descriptor already, and let the running process open it without CREATE and
  EXCL, while both pools of semaphore descriptors have a spare block and the file descriptor it will
  get is none that it holds. Then open and a close of the file descriptor it returned both succeed,
  and afterwards every list has the contents it had before, every pool has the same blocks in use, and
  the identifiers and counts of all semaphores are as they were. (Only the next file descriptor of the
  process has moved on. For a semaphore that open created itself this is false: its block stays in use.)
\<close>

theorem semOpen_semClose_roundtrip:
  assumes "core_ok s L" and "sem_ok s L" and "running s \<in> live s PCB_item"
    and "m = sem_named s L (ucast (run_arg s 0))" and "m \<noteq> NULL"
    and "(ucast (run_arg s 1) :: cint) AND DSOS_CREATE = 0" and "(ucast (run_arg s 1) :: cint) AND DSOS_EXCL = 0"
    and "spare s SemDescriptor_item \<noteq> {}" and "spare s SemDescriptorPtr_item \<noteq> {}" and "L (SemDescs m) \<noteq> []"
    and "\<forall>x\<in>set (L (SemDescriptors (running s))). sd_fd (semdescriptor s x) \<noteq> pcb_last_sem_fd (pcb s (running s))"
  shows "\<exists>s1 s2. internal_semOpen s = Inr s1 \<and>
    internal_semClose (with_args (\<lambda>_. scast (pcb_syscall_retvalue (pcb s1 (running s1)))) s1) = Inr s2 \<and>
    core_ok s2 L \<and> sem_ok s2 L \<and> running s2 = running s \<and>
    (\<forall>k. live s2 k = live s k) \<and>
    (\<forall>k. sem_id (semaphore s2 k) = sem_id (semaphore s k) \<and> sem_count (semaphore s2 k) = sem_count (semaphore s k))"
proof -
  let ?fd = "pcb_last_sem_fd (pcb s (running s))"
  have ml: "m \<in> set (L SemaphoresList)" using scan_result_mem assms(4,5) by blast
  have "internal_semOpen s = add_semdescriptor s m"
    using live_nonnull [OF assms(1,3)] assms(5-7) sem_by_id [OF assms(1)] unfolding assms(4)
    by (simp add: internal_semOpen_def Let_def)
  with add_semdescriptor_done [OF assms(1-3) ml assms(8,9)] obtain s1 d w where
    o: "internal_semOpen s = Inr s1" "has_opened s L s1 m d w" by auto
  let ?O = "sem_opened s L m d w" and ?s = "with_args (\<lambda>_. scast (pcb_syscall_retvalue (pcb s1 (running s1)))) s1"
  have o1: "core_ok ?s ?O" "sem_ok ?s ?O" "running ?s = running s" "live ?s PCB_item = live s PCB_item"
      "semdescriptor ?s = (semdescriptor s)(d := \<lparr>sd_pcb = running s, sd_semaphore = m, sd_fd = ?fd, sd_ptr = w\<rparr>)"
      "d \<in> spare s SemDescriptor_item" "w \<in> spare s SemDescriptorPtr_item"
      "live ?s SemDescriptor_item = insert d (live s SemDescriptor_item)"
      "live ?s SemDescriptorPtr_item = insert w (live s SemDescriptorPtr_item)"
      "\<And>k. k \<noteq> SemDescriptor_item \<Longrightarrow> k \<noteq> SemDescriptorPtr_item \<Longrightarrow> pool_of ?s k = pool_of s k"
      "\<And>k. sem_id (semaphore ?s k) = sem_id (semaphore s k) \<and> sem_count (semaphore ?s k) = sem_count (semaphore s k)"
    using o(2) unfolding has_opened_def by (simp_all del: pool_of.simps)
  have dw: "d \<notin> live s SemDescriptor_item" "w \<notin> live s SemDescriptorPtr_item"
    using pool.apart [OF core_pool [OF assms(1)]] o1(6,7) by blast+
  have dn: "d \<notin> set (L (SemDescriptors (running s)))" "w \<notin> set (L (SemDescs m))"
    using core_mem [OF assms(1)] dw by fastforce+
  note f = opened_found [OF assms(1) o(2) assms(11) refl]
  have "running ?s \<in> live ?s PCB_item" unfolding o1(3,4) by (rule assms(3))
  moreover have "d \<noteq> NULL" using live_nonnull [OF o1(1), of d SemDescriptor_item] o1(8) by blast
  moreover have "sem_closed ?s ?O d = L"
    by (rule sem_closed_opened [OF dn assms(10)]) (simp_all only: o1(3,5) fun_upd_same)
  moreover have "sd_ptr (semdescriptor ?s d) = w" by (simp only: o1(5) fun_upd_same SemDescriptor.simps)
  ultimately obtain s2 where s2: "internal_semClose ?s = Inr s2" "core_ok s2 L" "sem_ok s2 L"
      "quiet (set_retvalue (running ?s) (pcb_syscall_retvalue (pcb ?s (running ?s))) s2) ?s"
      "live s2 SemDescriptor_item = live ?s SemDescriptor_item - {d}"
      "live s2 SemDescriptorPtr_item = live ?s SemDescriptorPtr_item - {w}"
      "\<And>k. k \<noteq> SemDescriptor_item \<Longrightarrow> k \<noteq> SemDescriptorPtr_item \<Longrightarrow> pool_of s2 k = pool_of ?s k"
    using semClose_done [OF o1(1,2) _ f] by (simp only:) blast
  have "running s2 = running s" using s2(4) o1(3) unfolding quiet_def by (simp add: set_retvalue_def upd_pcb_def)
  moreover have "sem_id (semaphore s2 k) = sem_id (semaphore s k) \<and> sem_count (semaphore s2 k) = sem_count (semaphore s k)" for k
    using s2(4) o1(11) [of k] unfolding quiet_def by (simp add: set_retvalue_def upd_pcb_def)
  moreover have "live s2 k = live s k" for k
    using s2(5,6) s2(7) [of k] o1(10) [of k] dw unfolding o1(8,9)
    by (cases "k = SemDescriptor_item"; cases "k = SemDescriptorPtr_item") (simp_all del: pool_of.simps)
  ultimately show ?thesis using o(1) s2(1-3) by blast
qed

theorem semOpen_semClose_roundtrip_witness:
  "\<exists>s1 s2. internal_semOpen (ex_args (\<lambda>i. if i = 0 then 6 else 0)) = Inr s1 \<and>
    internal_semClose (with_args (\<lambda>_. scast (pcb_syscall_retvalue (pcb s1 (running s1)))) s1) = Inr s2 \<and>
    core_ok s2 ex_lists \<and> (\<forall>k. live s2 k = live (ex_args (\<lambda>i. if i = 0 then 6 else 0)) k)"
proof -
  let ?s = "ex_args (\<lambda>i. if i = 0 then 6 else (0 :: clong))"
  have a: "28672 = sem_named ?s ex_lists (ucast (run_arg ?s 0))" "(28672 :: ptr) \<noteq> NULL"
    "(ucast (run_arg ?s 1) :: cint) AND DSOS_CREATE = 0" "(ucast (run_arg ?s 1) :: cint) AND DSOS_EXCL = 0"
    using ex_sem_named(1) [of "\<lambda>i. if i = 0 then 6 else (0 :: clong)"] by simp_all
  have b: "spare ?s SemDescriptor_item \<noteq> {}" "spare ?s SemDescriptorPtr_item \<noteq> {}" "ex_lists (SemDescs 28672) \<noteq> []"
    unfolding ex_sem_room by simp_all
  have "pcb_last_sem_fd (pcb ?s 4096) = 2" by (simp add: ex_args_def upd_pcb_def ex_mem_defs ex_pcb_def)
  then have "\<forall>x\<in>set (ex_lists (SemDescriptors (running ?s))).
      sd_fd (semdescriptor ?s x) \<noteq> pcb_last_sem_fd (pcb ?s (running ?s))"
    by (simp add: ex_mem_defs)
  from semOpen_semClose_roundtrip [OF ex_args_ok(1,2) ex_sem_room(4) a b this] show ?thesis by blast
qed

end
