(* ===== verification/Process_Wait.thy ===== *)
theory Process_Wait
  imports Process_Calls
begin

text \<open>
  What \<open>internal_wait\<close> does on a well-formed state: the choice of the awaited child, the removal of
  a zombie, and blocking.
\<close>

subsection \<open>The invariant of the family tree\<close>

abbreviation item_pcb :: "kernel \<Rightarrow> ptr \<Rightarrow> ptr" where
  "item_pcb s q \<equiv> pp_pcb (pcbptr s q)"

text \<open>
  Every child in a list of children is a process in use, listed once, and the children that are
  zombies are in the zombie list.
\<close>

definition family_ok :: "kernel \<Rightarrow> (list_loc \<Rightarrow> ptr list) \<Rightarrow> bool" where
  "family_ok s L \<longleftrightarrow>
     (\<forall>p. \<forall>q\<in>set (L (Children p)). item_pcb s q \<in> live s PCB_item \<and>
        (pcb_status (pcb s (item_pcb s q)) = Zombie \<longrightarrow> item_pcb s q \<in> set (L ZombieList))) \<and>
     (\<forall>p p'. \<forall>q\<in>set (L (Children p)). \<forall>q'\<in>set (L (Children p')). item_pcb s q = item_pcb s q' \<longrightarrow> q = q')"

lemma family_child:
  assumes "core_ok s L" and "family_ok s L" and "q \<in> set (L (Children p))"
  shows "item_pcb s q \<in> live s PCB_item" and "item_pcb s q \<noteq> NULL"
    and "pcb_status (pcb s (item_pcb s q)) = Zombie \<Longrightarrow> item_pcb s q \<in> set (L ZombieList)"
proof -
  show "item_pcb s q \<in> live s PCB_item" using assms(2,3) unfolding family_ok_def by blast
  then show "item_pcb s q \<noteq> NULL" by (rule live_nonnull [OF assms(1)])
  show "pcb_status (pcb s (item_pcb s q)) = Zombie \<Longrightarrow> item_pcb s q \<in> set (L ZombieList)"
    using assms(2,3) unfolding family_ok_def by blast
qed

subsection \<open>The awaited child\<close>

text \<open>The child that \<open>wait\<close> looks for: any zombie for pid 0, the child with the pid otherwise.\<close>

definition awaited :: "kernel \<Rightarrow> cint \<Rightarrow> ptr \<Rightarrow> bool" where
  "awaited s pid q \<longleftrightarrow>
     (if pid = 0 then pcb_status (pcb s (item_pcb s q)) = Zombie else pcb_pid (pcb s (item_pcb s q)) = pid)"

text \<open>
  The child that the scan ends with: the first one that is looked for, but the last child when
  there is none.
\<close>

definition wait_choice :: "kernel \<Rightarrow> cint \<Rightarrow> ptr list \<Rightarrow> ptr" where
  "wait_choice s pid qs = (case List.find (awaited s pid) qs of None \<Rightarrow> last qs | Some q \<Rightarrow> q)"

lemma wait_choice_mem: "qs \<noteq> [] \<Longrightarrow> wait_choice s pid qs \<in> set qs"
  by (auto simp: wait_choice_def find_Some_iff split: option.split)

lemma wait_choice_Cons:
  "wait_choice s pid (q # qs) = (if awaited s pid q \<or> qs = [] then q else wait_choice s pid qs)"
  by (cases qs) (simp_all add: wait_choice_def split: option.split)

lemma wait_scan_dseg:
  assumes "dseg (ar_links (pcbptr_mem s)) p qs NULL" and "\<And>q. q \<in> set qs \<Longrightarrow> item_pcb s q \<noteq> NULL"
    and "qs \<noteq> []"
  shows "wait_scan s pid a (first_of qs NULL) =
    Some (Inr (item_pcb s (wait_choice s pid qs), wait_choice s pid qs))"
  using assms
proof (induction qs arbitrary: p a)
  case (Cons q qs)
  show ?case
  proof (cases qs)
    case Nil
    with Cons.prems show ?thesis
      by (simp add: wait_scan.simps [of s pid _ q] wait_scan.simps [of s pid _ NULL] wait_choice_Cons Let_def)
  next
    case (Cons r rs)
    have "wait_scan s pid a' (first_of qs NULL) =
        Some (Inr (item_pcb s (wait_choice s pid qs), wait_choice s pid qs))" for a'
      using Cons.IH [of q a'] Cons.prems Cons by simp
    with Cons.prems Cons show ?thesis
      by (simp add: wait_scan.simps [of s pid a q] wait_choice_Cons [of s pid q] awaited_def Let_def)
  qed
qed simp

lemma wait_scan_children:
  assumes "core_ok s L" and "family_ok s L" and "p \<in> live s PCB_item" and "L (Children p) \<noteq> []"
  shows "wait_scan s pid a (lh_first (pcb_children (pcb s p))) =
    Some (Inr (item_pcb s (wait_choice s pid (L (Children p))), wait_choice s pid (L (Children p))))"
proof -
  have "klist s (Children p) (L (Children p))" using core_klist [OF assms(1), of "Children p"] assms(3) by simp
  then have "dseg (ar_links (pcbptr_mem s)) NULL (L (Children p)) NULL"
      "lh_first (pcb_children (pcb s p)) = first_of (L (Children p)) NULL"
    by (simp_all add: klist_def dlist_def)
  note e = this
  have "item_pcb s q \<noteq> NULL" if "q \<in> set (L (Children p))" for q
    by (rule family_child(2) [OF assms(1,2) that])
  from wait_scan_dseg [OF e(1) this assms(4)] show ?thesis by (simp only: e(2))
qed

subsection \<open>Removing a zombie\<close>

text \<open>The lists of the dead process \<open>p\<close>, child item \<open>q\<close>, disappear with it.\<close>

definition reaped :: "kernel \<Rightarrow> (list_loc \<Rightarrow> ptr list) \<Rightarrow> ptr \<Rightarrow> list_loc \<Rightarrow> ptr list" where
  "reaped s L q =
     (\<lambda>l. if born PCB_item (item_pcb s q) l then []
      else (L(Children (running s) := remove1 q (L (Children (running s))),
              ZombieList := remove1 (item_pcb s q) (L ZombieList))) l)"

definition store_result :: "kernel \<Rightarrow> ptr \<Rightarrow> cint \<Rightarrow> ptr \<Rightarrow> cint" where
  "store_result s a v = (if a \<noteq> NULL then (user_mem s)(a := v) else user_mem s)"

lemma store_result_update:
  assumes "user_mem t = user_mem s"
  shows "(if a \<noteq> NULL then t\<lparr>user_mem := (user_mem t)(a := v)\<rparr> else t) = t\<lparr>user_mem := store_result s a v\<rparr>"
  using assms by (cases t) (simp add: store_result_def)

lemma set_retvalue_fields [simp]:
  "user_mem (set_retvalue r v s) = user_mem s" "running (set_retvalue r v s) = running s"
  "pcb_pid (pcb (set_retvalue r v s) p) = pcb_pid (pcb s p)"
  "pcb_return_value (pcb (set_retvalue r v s) p) = pcb_return_value (pcb s p)"
  by (simp_all add: set_retvalue_def upd_pcb_def)

lemma family_ok_reaped:
  assumes c: "core_ok s L" and f: "family_ok s L" and q: "q \<in> set (L (Children (running s)))"
    and s': "pcbptr s' = pcbptr s" "\<And>p. pcb_status (pcb s' p) = pcb_status (pcb s p)"
      "live s' PCB_item = live s PCB_item - {item_pcb s q}"
  shows "family_ok s' (reaped s L q)"
proof -
  have old: "x \<in> set (L (Children p)) \<and> x \<noteq> q" if "x \<in> set (reaped s L q (Children p))" for x p
    using that core_distinct [OF c, of "Children (running s)"] core_apart [OF c q, of "Children p"]
    unfolding reaped_def by (auto split: if_splits)
  then have "item_pcb s x \<noteq> item_pcb s q" if "x \<in> set (reaped s L q (Children p))" for x p
    using that f q unfolding family_ok_def by blast
  moreover have "y \<in> set (reaped s L q ZombieList)" if "y \<in> set (L ZombieList)" "y \<noteq> item_pcb s q" for y
    using that unfolding reaped_def by simp
  ultimately show ?thesis using old f unfolding family_ok_def s' by blast
qed

lemma reap_done:
  assumes c: "core_ok s L" and f: "family_ok s L" and r: "idle s L PCB_item (running s)"
    and q: "q \<in> set (L (Children (running s)))" and z: "pcb_status (pcb s (item_pcb s q)) = Zombie"
  shows "\<exists>s'. reap s (item_pcb s q) q a = Inr s' \<and> core_ok s' (reaped s L q) \<and> family_ok s' (reaped s L q) \<and>
    idle s' (reaped s L q) PCB_item (running s) \<and>
    quiet ((set_retvalue (running s) (pcb_syscall_retvalue (pcb s (running s))) s')\<lparr>user_mem := user_mem s\<rparr>) s \<and>
    pcb_syscall_retvalue (pcb s' (running s)) = pcb_pid (pcb s (item_pcb s q)) \<and>
    user_mem s' = store_result s a (pcb_return_value (pcb s (item_pcb s q))) \<and>
    (\<forall>p. pcb_status (pcb s' p) = pcb_status (pcb s p)) \<and>
    live s' PCB_item = live s PCB_item - {item_pcb s q} \<and> live s' PCBPtr_item = live s PCBPtr_item - {q}"
proof -
  let ?r = "running s" and ?p = "item_pcb s q"
  have zl: "?p \<in> set (L ZombieList)" by (rule family_child(3) [OF c f q z])
  have pr: "?p \<noteq> ?r" using idleD(3) [OF r, of ZombieList] zl by auto
  obtain as bs where ab: "L (Children ?r) = as @ q # bs" "remove1 q (L (Children ?r)) = as @ bs"
    using remove1_split [OF q] .
  obtain as' bs' where ab': "L ZombieList = as' @ ?p # bs'" "remove1 ?p (L ZombieList) = as' @ bs'"
    using remove1_split [OF zl] .
  let ?L1 = "L(Children ?r := as @ bs)" and ?L3 = "L(Children ?r := as @ bs, ZombieList := as' @ bs')"
  obtain m h where d1: "k_detach s (Children ?r) q = Inr (q, put_list (Children ?r) m h s)"
      "core_ok (put_list (Children ?r) m h s) ?L1" "idle (put_list (Children ?r) m h s) ?L1 PCBPtr_item q"
      "\<And>k y. idle s L k y \<Longrightarrow> idle (put_list (Children ?r) m h s) ?L1 k y"
    by (rule core_detachE [OF c ab(1)]) (simp, simp, blast)
  let ?s1 = "put_list (Children ?r) m h s"
  obtain A where A: "PCBPtr_free ?s1 q = Inr (0, ?s1\<lparr>pcbptr_mem := A\<rparr>)"
      "freed PCBPtr_item q ?s1 (?s1\<lparr>pcbptr_mem := A\<rparr>)" "ar_cells A = pcbptr ?s1"
    using PCBPtr_free_live [OF d1(2) idleD(1) [OF d1(3)]] by blast
  let ?s2 = "?s1\<lparr>pcbptr_mem := A\<rparr>"
  note f2 = freed_core_plain [OF d1(2) A(2) d1(3) born_other(1)]
  have e: "?L1 ZombieList = as' @ ?p # bs'" using ab'(1) by simp
  obtain m' h' where d3: "k_detach ?s2 ZombieList ?p = Inr (?p, put_list ZombieList m' h' ?s2)"
      "core_ok (put_list ZombieList m' h' ?s2) ?L3" "idle (put_list ZombieList m' h' ?s2) ?L3 PCB_item ?p"
      "\<And>k y. idle ?s2 ?L1 k y \<Longrightarrow> idle (put_list ZombieList m' h' ?s2) ?L3 k y"
    by (rule core_detachE [OF f2(1) e _ refl, of PCB_item]) (simp, blast)
  let ?s4 = "(set_retvalue ?r (pcb_pid (pcb s ?p)) (put_list ZombieList m' h' ?s2))
      \<lparr>user_mem := store_result s a (pcb_return_value (pcb s ?p))\<rparr>"
  have c4: "core_ok ?s4 ?L3" "idle ?s4 ?L3 PCB_item ?p" using d3(2,3) by simp_all
  obtain B where B: "PCB_free ?s4 ?p = Inr (0, ?s4\<lparr>pcb_mem := B\<rparr>)"
      "freed PCB_item ?p ?s4 (?s4\<lparr>pcb_mem := B\<rparr>)" "ar_cells B = pcb ?s4"
    using PCB_free_live [OF c4(1) idleD(1) [OF c4(2)]] by blast
  let ?s5 = "?s4\<lparr>pcb_mem := B\<rparr>"
  have R: "reaped s L q = (\<lambda>l. if born PCB_item ?p l then [] else ?L3 l)"
    unfolding reaped_def ab(2) ab'(2) ..
  note f5 = freed_core [OF c4(1) B(2) c4(2), folded R]
  have "reap s ?p q a = Inr ?s5"
    using d1(1) A(1) d3(1) B(1) pr
    by (simp add: reap_def Let_def store_result_update [of _ s] del: put_list_lists split del: if_split)
  moreover have "idle ?s5 (reaped s L q) PCB_item ?r"
  proof (rule f5(2))
    show "idle ?s4 ?L3 PCB_item ?r" using d3(4) [OF f2(2) [OF d1(4) [OF r]]] by simp
  qed (use pr in simp)
  moreover have v: "pcbptr ?s5 = pcbptr s" "pcb_status (pcb ?s5 p) = pcb_status (pcb s p)"
      "live ?s5 PCB_item = live s PCB_item - {?p}" for p
    using A(3) B(3) freedD(3) [OF B(2)] by (simp_all add: set_retvalue_def upd_pcb_def)
  moreover have "live ?s5 PCBPtr_item = live s PCBPtr_item - {q}"
    using freedD(3) [OF A(2)] by (simp add: set_retvalue_def upd_pcb_def)
  moreover have "quiet ((set_retvalue ?r (pcb_syscall_retvalue (pcb s ?r)) ?s5)\<lparr>user_mem := user_mem s\<rparr>) s"
      "pcb_syscall_retvalue (pcb ?s5 ?r) = pcb_pid (pcb s ?p)"
    using A(3) B(3) by (simp_all add: quiet_def set_retvalue_def upd_pcb_def)
  moreover have "family_ok ?s5 (reaped s L q)" by (rule family_ok_reaped [OF c f q v])
  ultimately show ?thesis using f5(1) by (intro exI [of _ ?s5]) simp
qed

subsection \<open>Blocking\<close>

definition blocked :: "kernel \<Rightarrow> (list_loc \<Rightarrow> ptr list) \<Rightarrow> list_loc \<Rightarrow> ptr list" where
  "blocked s L = L(WaitingList := L WaitingList @ [running s], ReadyList := tl (L ReadyList))"

lemma family_ok_cong:
  assumes "family_ok s L" and "pcbptr s' = pcbptr s" and "live s' PCB_item = live s PCB_item"
    and "\<And>p. pcb_status (pcb s' p) = Zombie \<Longrightarrow> p \<in> set (L ZombieList) \<Longrightarrow> p \<in> set (L' ZombieList)"
    and "\<And>p. pcb_status (pcb s' p) = Zombie \<Longrightarrow> pcb_status (pcb s p) = Zombie"
    and "\<And>p. L' (Children p) = L (Children p)"
  shows "family_ok s' L'"
  using assms(1,4,5) unfolding family_ok_def assms(2,3,6) by blast

lemma block_next:
  assumes c: "core_ok s L" and f: "family_ok s L" and r: "idle s L PCB_item (running s)"
    and n: "L ReadyList = p # ps"
  shows "\<exists>s'. block_in_wait s = Inr s' \<and> core_ok s' (blocked s L) \<and> family_ok s' (blocked s L) \<and>
    running s' = p \<and> idle s' (blocked s L) PCB_item p \<and> quiet (s'\<lparr>running := running s\<rparr>) s \<and>
    (\<forall>k. pool_of s' k = pool_of s k) \<and>
    (\<forall>q. pcb_status (pcb s' q) = (if q = running s then Waiting else pcb_status (pcb s q)))"
proof -
  let ?s1 = "set_status (running s) Waiting s" and ?L2 = "L(WaitingList := L WaitingList @ [running s])"
  have c1: "core_ok ?s1 L" "idle ?s1 L PCB_item (running s)" using c r by simp_all
  obtain m h where a: "k_append ?s1 WaitingList (running s) = Inr (running s, put_list WaitingList m h ?s1)"
      "core_ok (put_list WaitingList m h ?s1) ?L2"
    by (rule core_appendE [OF c1, of WaitingList ?L2]) (simp, simp, simp, blast)
  let ?s2 = "put_list WaitingList m h ?s1"
  have e: "?L2 ReadyList = p # ps" using n by simp
  have B: "blocked s L = ?L2(ReadyList := ps)" using n by (simp add: blocked_def)
  obtain m' h' where d: "k_detach ?s2 ReadyList (k_first ?s2 ReadyList) = Inr (p, put_list ReadyList m' h' ?s2)"
      "core_ok (put_list ReadyList m' h' ?s2) (blocked s L)"
      "idle (put_list ReadyList m' h' ?s2) (blocked s L) PCB_item p"
    by (rule core_popE [OF a(2) e _ B, of PCB_item]) (simp, blast)
  let ?s3 = "(put_list ReadyList m' h' ?s2)\<lparr>running := p\<rparr>"
  have "block_in_wait s = Inr ?s3"
    using a(1) d(1) by (simp add: block_in_wait_def Let_def) (simp add: set_status_def upd_pcb_def)
  moreover have "pcb_status (pcb ?s3 q) = (if q = running s then Waiting else pcb_status (pcb s q))" for q
    by (simp add: set_status_def upd_pcb_def)
  moreover have "pool_of ?s3 k = pool_of s k" for k by simp
  moreover have "quiet (?s3\<lparr>running := running s\<rparr>) s"
    by (simp add: quiet_def set_status_def upd_pcb_def)
  moreover have "family_ok ?s3 (blocked s L)"
    by (rule family_ok_cong [OF f]) (simp_all add: set_status_def upd_pcb_def blocked_def split: if_splits)
  ultimately show ?thesis using d(2,3) by (intro exI [of _ ?s3]) simp
qed

lemma block_alone:
  assumes c: "core_ok s L" and r: "idle s L PCB_item (running s)" and n: "L ReadyList = []"
  shows "block_in_wait s = Inl NullDeref"
proof -
  let ?s1 = "set_status (running s) Waiting s" and ?L2 = "L(WaitingList := L WaitingList @ [running s])"
  have c1: "core_ok ?s1 L" "idle ?s1 L PCB_item (running s)" using c r by simp_all
  obtain m h where a: "k_append ?s1 WaitingList (running s) = Inr (running s, put_list WaitingList m h ?s1)"
      "core_ok (put_list WaitingList m h ?s1) ?L2"
    by (rule core_appendE [OF c1, of WaitingList ?L2]) (simp, simp, simp, blast)
  have "k_first (put_list WaitingList m h ?s1) ReadyList = NULL"
    using core_first_null [OF a(2), of ReadyList] n by simp
  then show ?thesis
    using a(1) by (simp add: block_in_wait_def Let_def k_detach_def List_detach_def)
      (simp add: set_status_def upd_pcb_def k_detach_def List_detach_def)
qed

lemma internal_wait_choice:
  assumes "core_ok s L" and "family_ok s L" and "running s \<in> live s PCB_item" and "L (Children (running s)) \<noteq> []"
    and "q = wait_choice s (ucast (run_arg s 0)) (L (Children (running s)))"
  shows "internal_wait s = (if pcb_status (pcb s (item_pcb s q)) = Zombie
    then reap s (item_pcb s q) q (run_arg s 1) else block_in_wait s)"
proof -
  have q: "q \<in> set (L (Children (running s)))" using wait_choice_mem [OF assms(4)] assms(5) by simp
  have "lh_first (pcb_children (pcb s (running s))) \<noteq> NULL"
    using core_first_null [OF assms(1), of "Children (running s)"] assms(3,4) by simp
  then show ?thesis
    using wait_scan_children [OF assms(1-4)] live_nonnull [OF assms(1,3)] family_child(2) [OF assms(1,2) q]
    unfolding assms(5) by (simp add: internal_wait_def Let_def run_loopE_def)
qed

lemma wait_cases:
  assumes "core_ok s L" and "family_ok s L" and "idle s L PCB_item (running s)"
    and "q = wait_choice s (ucast (run_arg s 0)) (L (Children (running s)))"
  shows "if L (Children (running s)) = [] then internal_wait s = Inr (set_retvalue (running s) DSOS_EWAIT s)
    else if pcb_status (pcb s (item_pcb s q)) = Zombie
    then \<exists>s'. internal_wait s = Inr s' \<and> core_ok s' (reaped s L q) \<and> family_ok s' (reaped s L q) \<and>
      running s' = running s \<and> idle s' (reaped s L q) PCB_item (running s) \<and>
      pcb_syscall_retvalue (pcb s' (running s)) = pcb_pid (pcb s (item_pcb s q)) \<and>
      user_mem s' = store_result s (run_arg s 1) (pcb_return_value (pcb s (item_pcb s q))) \<and>
      live s' PCB_item = live s PCB_item - {item_pcb s q} \<and> live s' PCBPtr_item = live s PCBPtr_item - {q}
    else if L ReadyList = [] then internal_wait s = Inl NullDeref
    else \<exists>s'. internal_wait s = Inr s' \<and> core_ok s' (blocked s L) \<and> family_ok s' (blocked s L) \<and>
      running s' = hd (L ReadyList) \<and> idle s' (blocked s L) PCB_item (running s') \<and>
      quiet (s'\<lparr>running := running s\<rparr>) s \<and>
      (\<forall>p. pcb_status (pcb s' p) = (if p = running s then Waiting else pcb_status (pcb s p)))"
proof (intro if_intro)
  note c = assms(1) and live = idleD(1) [OF assms(3)]
  show "internal_wait s = Inr (set_retvalue (running s) DSOS_EWAIT s)" if "L (Children (running s)) = []"
    using that core_first_null [OF c, of "Children (running s)"] live live_nonnull [OF c live]
    by (simp add: internal_wait_def Let_def)
  assume ne: "L (Children (running s)) \<noteq> []"
  have q: "q \<in> set (L (Children (running s)))" using wait_choice_mem [OF ne] assms(4) by simp
  note go = internal_wait_choice [OF c assms(2) live ne assms(4)]
  show "\<exists>s'. internal_wait s = Inr s' \<and> core_ok s' (reaped s L q) \<and> family_ok s' (reaped s L q) \<and>
      running s' = running s \<and> idle s' (reaped s L q) PCB_item (running s) \<and>
      pcb_syscall_retvalue (pcb s' (running s)) = pcb_pid (pcb s (item_pcb s q)) \<and>
      user_mem s' = store_result s (run_arg s 1) (pcb_return_value (pcb s (item_pcb s q))) \<and>
      live s' PCB_item = live s PCB_item - {item_pcb s q} \<and> live s' PCBPtr_item = live s PCBPtr_item - {q}"
    if z: "pcb_status (pcb s (item_pcb s q)) = Zombie"
  proof -
    from reap_done [OF c assms(2,3) q z, of "run_arg s 1"] obtain s' where
      s': "reap s (item_pcb s q) q (run_arg s 1) = Inr s'" "core_ok s' (reaped s L q)" "family_ok s' (reaped s L q)"
        "idle s' (reaped s L q) PCB_item (running s)"
        "quiet ((set_retvalue (running s) (pcb_syscall_retvalue (pcb s (running s))) s')\<lparr>user_mem := user_mem s\<rparr>) s"
        "pcb_syscall_retvalue (pcb s' (running s)) = pcb_pid (pcb s (item_pcb s q))"
        "user_mem s' = store_result s (run_arg s 1) (pcb_return_value (pcb s (item_pcb s q)))"
        "live s' PCB_item = live s PCB_item - {item_pcb s q}" "live s' PCBPtr_item = live s PCBPtr_item - {q}"
      by blast
    moreover have "running s' = running s" using s'(5) unfolding quiet_def by simp
    ultimately show ?thesis using z go by (intro exI [of _ s']) simp
  qed
  assume z: "pcb_status (pcb s (item_pcb s q)) \<noteq> Zombie"
  then show "internal_wait s = Inl NullDeref" if "L ReadyList = []"
    using go block_alone [OF c assms(3) that] by simp
  show "\<exists>s'. internal_wait s = Inr s' \<and> core_ok s' (blocked s L) \<and> family_ok s' (blocked s L) \<and>
      running s' = hd (L ReadyList) \<and> idle s' (blocked s L) PCB_item (running s') \<and>
      quiet (s'\<lparr>running := running s\<rparr>) s \<and>
      (\<forall>p. pcb_status (pcb s' p) = (if p = running s then Waiting else pcb_status (pcb s p)))"
    if "L ReadyList \<noteq> []"
  proof -
    from that obtain p ps where n: "L ReadyList = p # ps" by (cases "L ReadyList") auto
    have "internal_wait s = block_in_wait s" using go z by simp
    with block_next [OF c assms(2,3) n] show ?thesis unfolding n list.sel by metis
  qed
qed

text \<open>
  C11: \<open>internal_wait\<close> on every branch. Without children the call fails. Otherwise the child it
  settles on is the first that matches (any zombie for pid 0, the process with the pid otherwise),
  but when none matches it is the last child, whatever its pid is. If that child is a zombie, its
  return value is stored, its pid is returned, and its block and list item are given back. If not,
  the process is queued as waiting, and the next ready process runs, with its status unchanged; with
  no ready process the call dereferences null. All invariants are kept.
\<close>

theorem internal_wait_branches:
  assumes "core_ok s L" and "family_ok s L" and "idle s L PCB_item (running s)"
    and "q = wait_choice s (ucast (run_arg s 0)) (L (Children (running s)))"
  shows "if L (Children (running s)) = [] then internal_wait s = Inr (set_retvalue (running s) DSOS_EWAIT s)
    else if pcb_status (pcb s (item_pcb s q)) = Zombie
    then \<exists>s'. internal_wait s = Inr s' \<and> core_ok s' (reaped s L q) \<and> family_ok s' (reaped s L q) \<and>
      running s' = running s \<and> idle s' (reaped s L q) PCB_item (running s) \<and>
      pcb_syscall_retvalue (pcb s' (running s)) = pcb_pid (pcb s (item_pcb s q)) \<and>
      user_mem s' = store_result s (run_arg s 1) (pcb_return_value (pcb s (item_pcb s q))) \<and>
      live s' PCB_item = live s PCB_item - {item_pcb s q} \<and> live s' PCBPtr_item = live s PCBPtr_item - {q}
    else if L ReadyList = [] then internal_wait s = Inl NullDeref
    else \<exists>s'. internal_wait s = Inr s' \<and> core_ok s' (blocked s L) \<and> family_ok s' (blocked s L) \<and>
      running s' = hd (L ReadyList) \<and> idle s' (blocked s L) PCB_item (running s') \<and>
      quiet (s'\<lparr>running := running s\<rparr>) s \<and>
      (\<forall>p. pcb_status (pcb s' p) = (if p = running s then Waiting else pcb_status (pcb s p)))"
  using assms by (rule wait_cases)

lemma ex_family: "family_ok ex_state ex_lists"
  unfolding family_ok_def ex_state_live by (auto simp: ex_mem_defs ex_pcb_def)

lemma ex_args_family: "family_ok (ex_args f) ex_lists"
  by (rule family_ok_cong [OF ex_family]) (simp_all add: ex_args_def upd_pcb_def split: if_splits)

lemma ex_wait_choice: "wait_choice (ex_args f) 0 [8192, 8208, 8224, 8240] = 8240"
    "wait_choice (ex_args f) 77 [8192, 8208, 8224, 8240] = 8240" "item_pcb (ex_args f) 8240 = 4160"
    "pcb_status (pcb (ex_args f) 4160) = Zombie" "pcb_pid (pcb (ex_args f) 4160) = 4"
  by (simp_all add: wait_choice_Cons awaited_def ex_args_def upd_pcb_def ex_mem_defs ex_pcb_def)

text \<open>Waiting for a pid that no child has reaps the last child, here the zombie with pid 4.\<close>

theorem internal_wait_branches_witness:
  "\<exists>s'. internal_wait (ex_args (\<lambda>i. if i = 0 then 77 else 0)) = Inr s' \<and>
    pcb_syscall_retvalue (pcb s' 4096) = 4 \<and>
    core_ok s' (reaped (ex_args (\<lambda>i. if i = 0 then 77 else 0)) ex_lists 8240)"
proof -
  let ?s = "ex_args (\<lambda>i. if i = 0 then 77 else (0 :: clong))"
  have c: "core_ok ?s ex_lists" "idle ?s ex_lists PCB_item (running ?s)" using ex_core ex_running by simp_all
  have q: "8240 = wait_choice ?s (ucast (run_arg ?s 0)) (ex_lists (Children (running ?s)))"
    using ex_wait_choice(2) by simp
  from internal_wait_branches [OF c(1) ex_args_family c(2) q] show ?thesis
    unfolding ex_wait_choice(3,4,5) by (simp del: ex_args_fields(13) pool_of.simps) blast
qed

end
