(* ===== verification/Process_Exit.thy ===== *)
theory Process_Exit
  imports Process_Wait Resource_Calls
begin

text \<open>
  What \<open>internal_exit\<close> does on a well-formed state: the children are given to init, the process
  becomes a zombie, and either the next ready process runs or the waiting parent takes the exit
  value and the process disappears.
\<close>

subsection \<open>Signals\<close>

text \<open>The state \<open>s'\<close> with the pending signals of \<open>s\<close>.\<close>

definition unsignal :: "kernel \<Rightarrow> kernel \<Rightarrow> kernel" where
  "unsignal s s' = s'\<lparr>pcb_mem := (pcb_mem s')\<lparr>ar_cells :=
     (\<lambda>p. (pcb s' p)\<lparr>pcb_signals := pcb_signals (pcb s p)\<rparr>)\<rparr>\<rparr>"

abbreviation hup :: "PCB \<Rightarrow> cint" where
  "hup c \<equiv> pcb_signals c OR (DSOS_SIGHUP AND pcb_signals_mask c)"

text \<open>Nothing but the lists and the pending signals differ, and the processes of \<open>P\<close> got a SIGHUP.\<close>

definition hung_up :: "ptr set \<Rightarrow> kernel \<Rightarrow> kernel \<Rightarrow> bool" where
  "hung_up P s' s \<longleftrightarrow> quiet (unsignal s s') s \<and>
     (\<forall>p. pcb_signals (pcb s' p) = (if p \<in> P then hup (pcb s p) else pcb_signals (pcb s p))) \<and>
     (\<forall>p. pcb_status (pcb s' p) = pcb_status (pcb s p)) \<and> (\<forall>p. pcb_timer (pcb s' p) = pcb_timer (pcb s p)) \<and>
     (\<forall>k. pool_of s' k = pool_of s k)"

lemma hung_up_empty [simp]: "hung_up {} s s"
  by (simp add: hung_up_def quiet_def unsignal_def)

lemma hung_up_fields:
  assumes "hung_up P s' s"
  shows "running s' = running s" "init_pcb s' = init_pcb s" "pcbptr s' = pcbptr s" "descriptor s' = descriptor s"
    "descriptorptr s' = descriptorptr s" "timer_item s' = timer_item s" "user_mem s' = user_mem s"
    "disastrOS_time s' = disastrOS_time s"
    "pool_of s' k = pool_of s k" "pcb_pid (pcb s' p) = pcb_pid (pcb s p)" "pcb_parent (pcb s' p) = pcb_parent (pcb s p)"
    "pcb_return_value (pcb s' p) = pcb_return_value (pcb s p)" "pcb_status (pcb s' p) = pcb_status (pcb s p)"
    "pcb_syscall_num (pcb s' p) = pcb_syscall_num (pcb s p)" "pcb_syscall_args (pcb s' p) = pcb_syscall_args (pcb s p)"
    "pcb_signals_mask (pcb s' p) = pcb_signals_mask (pcb s p)"
    "pcb_signals (pcb s' p) = (if p \<in> P then hup (pcb s p) else pcb_signals (pcb s p))"
  using assms unfolding hung_up_def quiet_def by (simp_all add: unsignal_def del: pool_of.simps)

lemma hung_up_trans:
  assumes a: "hung_up P s1 s" and b: "hung_up Q s2 s1" and d: "P \<inter> Q = {}"
  shows "hung_up (P \<union> Q) s2 s"
proof -
  have "pcb_signals (pcb s2 p) = (if p \<in> P \<union> Q then hup (pcb s p) else pcb_signals (pcb s p))" for p
    using d hung_up_fields(17) [OF a] hung_up_fields(17) [OF b] hung_up_fields(16) [OF a] by auto
  then show ?thesis using a b unfolding hung_up_def quiet_def
    by (simp add: unsignal_def del: pool_of.simps)
qed

subsection \<open>The children go to init\<close>

definition orphaned :: "kernel \<Rightarrow> (list_loc \<Rightarrow> ptr list) \<Rightarrow> list_loc \<Rightarrow> ptr list" where
  "orphaned s L = L(Children (running s) := [],
     Children (init_pcb s) := L (Children (init_pcb s)) @ L (Children (running s)))"

text \<open>One child \<open>q\<close>, before \<open>qs\<close>, has moved. Init may be the dying process.\<close>

definition moved :: "kernel \<Rightarrow> (list_loc \<Rightarrow> ptr list) \<Rightarrow> ptr \<Rightarrow> ptr list \<Rightarrow> list_loc \<Rightarrow> ptr list" where
  "moved s L q qs =
     (let L1 = L(Children (running s) := qs) in L1(Children (init_pcb s) := L1 (Children (init_pcb s)) @ [q]))"

lemma reparent_one_step:
  assumes c: "core_ok s L" and f: "family_ok s L" and r: "running s \<in> live s PCB_item"
    and i: "init_pcb s \<in> live s PCB_item" and q: "L (Children (running s)) = q # qs"
  shows "\<exists>s'. reparent_one s = Inr s' \<and> core_ok s' (moved s L q qs) \<and> hung_up {item_pcb s q} s' s \<and>
    (\<forall>y. idle s L PCB_item y \<longrightarrow> idle s' (moved s L q qs) PCB_item y)"
proof -
  let ?r = "running s" and ?i = "init_pcb s"
  let ?L1 = "L(Children ?r := qs)" and ?L2 = "moved s L q qs"
  obtain m h where d1: "k_detach s (Children ?r) (k_first s (Children ?r)) = Inr (q, put_list (Children ?r) m h s)"
      "core_ok (put_list (Children ?r) m h s) ?L1" "idle (put_list (Children ?r) m h s) ?L1 PCBPtr_item q"
      "\<And>k y. idle s L k y \<Longrightarrow> idle (put_list (Children ?r) m h s) ?L1 k y"
    by (rule core_popE [OF c q]) (simp, simp, blast)
  let ?s1 = "put_list (Children ?r) m h s"
  have h1: "Children ?i \<in> heads ?s1" using i by simp
  obtain m' h' where a2: "k_append ?s1 (Children ?i) q = Inr (q, put_list (Children ?i) m' h' ?s1)"
      "core_ok (put_list (Children ?i) m' h' ?s1) ?L2"
      "\<And>k y. idle ?s1 ?L1 k y \<Longrightarrow> (k = PCBPtr_item \<Longrightarrow> y \<noteq> q) \<Longrightarrow> idle (put_list (Children ?i) m' h' ?s1) ?L2 k y"
    by (rule core_appendE [OF d1(2,3) h1, of ?L2]) (simp, simp only: moved_def Let_def, blast)
  let ?p = "item_pcb s q"
  let ?s3 = "upd_pcb ?p (\<lambda>c. c\<lparr>pcb_signals := hup c\<rparr>) (put_list (Children ?i) m' h' ?s1)"
  have qm: "q \<in> set (L (Children ?r))" using q by simp
  have "reparent_one s = Inr ?s3"
    using d1(1) a2(1) family_child(2) [OF c f qm] core_nonnull [OF c qm]
    by (simp add: reparent_one_def Let_def)
  moreover have "hung_up {?p} ?s3 s"
    by (simp add: hung_up_def quiet_def unsignal_def upd_pcb_def all_kinds)
  moreover have "idle ?s3 ?L2 PCB_item y" if "idle s L PCB_item y" for y
    using a2(3) [OF d1(4) [OF that]] by simp
  ultimately show ?thesis using a2(2) by (intro exI [of _ ?s3]) simp
qed

lemma orphaned_moved:
  assumes "L (Children (running s)) = q # qs" and "init_pcb s \<noteq> running s"
    and "running s' = running s" and "init_pcb s' = init_pcb s"
  shows "orphaned s' (moved s L q qs) = orphaned s L" and "moved s L q qs (Children (running s)) = qs"
  using assms by (simp_all add: orphaned_def moved_def Let_def fun_eq_iff)

lemma family_ok_moved:
  assumes f: "family_ok s L" and h: "hung_up P s' s" and q: "L (Children (running s)) = q # qs"
  shows "family_ok s' (moved s L q qs)"
proof -
  have "\<exists>p'. x \<in> set (L (Children p'))" if "x \<in> set (moved s L q qs (Children p))" for x p
    using that q unfolding moved_def Let_def
    by (cases "p = init_pcb s"; cases "p = running s"; cases "init_pcb s = running s")
      (auto split: if_splits intro: exI [of _ "running s"])
  moreover have "moved s L q qs ZombieList = L ZombieList" by (simp add: moved_def Let_def)
  ultimately show ?thesis
    using f unfolding family_ok_def hung_up_fields(3,9,13) [OF h] by (metis (no_types, lifting))
qed

lemma reparent_loop:
  assumes "core_ok s L" and "family_ok s L" and "running s \<in> live s PCB_item"
    and "init_pcb s \<in> live s PCB_item" and "init_pcb s \<noteq> running s"
  shows "\<exists>s'. reparent_children s = Some (Inr s') \<and> core_ok s' (orphaned s L) \<and> family_ok s' (orphaned s L) \<and>
    hung_up (item_pcb s ` set (L (Children (running s)))) s' s \<and>
    (\<forall>y. idle s L PCB_item y \<longrightarrow> idle s' (orphaned s L) PCB_item y)"
  using assms
proof (induction "L (Children (running s))" arbitrary: s L)
  case Nil
  then have "k_first s (Children (running s)) = NULL"
    using core_first_null [of s L "Children (running s)"] by simp
  moreover have "orphaned s L = L" using Nil.hyps by (simp add: orphaned_def fun_eq_iff)
  ultimately show ?case
    using Nil by (intro exI [of _ s]) (simp add: reparent_children.simps [of s])
next
  case (Cons q qs)
  note q = Cons.hyps(2) [symmetric]
  let ?M = "moved s L q qs"
  obtain s1 where s1: "reparent_one s = Inr s1" "core_ok s1 ?M" "hung_up {item_pcb s q} s1 s"
      "\<And>y. idle s L PCB_item y \<Longrightarrow> idle s1 ?M PCB_item y"
    using reparent_one_step [OF Cons.prems(1-4) q] by blast
  note h = hung_up_fields [OF s1(3)]
  note om = orphaned_moved [where s = s and s' = s1 and L = L and q = q and qs = qs, OF q Cons.prems(5) h(1,2)]
  have e: "?M (Children (running s1)) = qs" unfolding h(1) by (rule om(2))
  have f1: "family_ok s1 ?M" by (rule family_ok_moved [OF Cons.prems(2) s1(3) q])
  have lv: "running s1 \<in> live s1 PCB_item" "init_pcb s1 \<in> live s1 PCB_item" "init_pcb s1 \<noteq> running s1"
    unfolding h(1,2,9) by (rule Cons.prems)+
  obtain s2 where s2: "reparent_children s1 = Some (Inr s2)" "core_ok s2 (orphaned s L)" "family_ok s2 (orphaned s L)"
      "hung_up (item_pcb s ` set qs) s2 s1" "\<And>y. idle s1 ?M PCB_item y \<Longrightarrow> idle s2 (orphaned s L) PCB_item y"
    using Cons.hyps(1) [OF e [symmetric] s1(2) f1 lv]
    unfolding om(1) e h(3) by blast
  have "distinct (q # qs)" using core_distinct [OF Cons.prems(1), of "Children (running s)"] q by simp
  moreover have "item_pcb s x = item_pcb s q \<Longrightarrow> x = q" if "x \<in> set qs" for x
    using Cons.prems(2) q that unfolding family_ok_def by (metis list.set_intros)
  ultimately have "{item_pcb s q} \<inter> item_pcb s ` set qs = {}" by auto
  from hung_up_trans [OF s1(3) s2(4) this]
  have "hung_up (item_pcb s ` set (L (Children (running s)))) s2 s" unfolding q by simp
  moreover have "k_first s (Children (running s)) \<noteq> NULL"
    using core_first_null [OF Cons.prems(1), of "Children (running s)"] q Cons.prems(3) by simp
  ultimately show ?case
    using s1(1,4) s2 by (intro exI [of _ s2]) (simp add: reparent_children.simps [of s])
qed

text \<open>Init gives its children to itself, without end.\<close>

lemma reparent_init:
  assumes "core_ok s L" and "family_ok s L" and "init_pcb s \<in> live s PCB_item" and "running s = init_pcb s"
    and "L (Children (init_pcb s)) \<noteq> []"
  shows "reparent_children s = None"
proof -
  let ?stuck = "\<lambda>s. \<exists>L. core_ok s L \<and> family_ok s L \<and> init_pcb s \<in> live s PCB_item \<and>
      running s = init_pcb s \<and> L (Children (init_pcb s)) \<noteq> []"
  have "\<not> ?stuck s" if "reparent_children s = Some y" for y s
  proof (rule reparent_children.raw_induct [OF _ that])
    fix f :: "kernel \<Rightarrow> kernel result option" and s y
    assume IH: "\<And>s y. f s = Some y \<Longrightarrow> \<not> ?stuck s"
      and body: "(if lh_first (pcb_children (pcb s (running s))) = NULL then Some (Inr s)
        else case reparent_one s of Inl e \<Rightarrow> Some (Inl e) | Inr s' \<Rightarrow> f s') = Some y"
    show "\<not> ?stuck s"
    proof
      assume "?stuck s"
      then obtain L where a: "core_ok s L" "family_ok s L" "init_pcb s \<in> live s PCB_item" "running s = init_pcb s"
          "L (Children (init_pcb s)) \<noteq> []" by blast
      have r: "running s \<in> live s PCB_item" unfolding a(4) by (rule a(3))
      from a(4,5) obtain q qs where q: "L (Children (running s)) = q # qs" by (cases "L (Children (running s))") auto
      obtain s1 where s1: "reparent_one s = Inr s1" "core_ok s1 (moved s L q qs)" "hung_up {item_pcb s q} s1 s"
        using reparent_one_step [OF a(1,2) r a(3) q] by blast
      note h = hung_up_fields [OF s1(3)]
      have "k_first s (Children (running s)) \<noteq> NULL"
        using core_first_null [OF a(1), of "Children (running s)"] q r by simp
      then have "f s1 = Some y" using body s1(1) by simp
      moreover have "init_pcb s1 \<in> live s1 PCB_item" "running s1 = init_pcb s1" unfolding h(1,2,9) by (rule a(3), rule a(4))
      moreover have "moved s L q qs (Children (init_pcb s1)) \<noteq> []" unfolding h(2) by (simp add: moved_def Let_def)
      ultimately show False using IH s1(2) family_ok_moved [OF a(2) s1(3) q] by blast
    qed
  qed
  then show ?thesis using assms by (cases "reparent_children s") auto
qed

subsection \<open>Becoming a zombie\<close>

definition dead :: "kernel \<Rightarrow> (list_loc \<Rightarrow> ptr list) \<Rightarrow> list_loc \<Rightarrow> ptr list" where
  "dead s L = (orphaned s L)(ZombieList := L ZombieList @ [running s])"

text \<open>
  \<open>died s' s\<close>: what the running process of \<open>s\<close> has done by the time it is a zombie, lists apart. The
  recorded parents of its children do not change.
\<close>

definition died :: "(list_loc \<Rightarrow> ptr list) \<Rightarrow> kernel \<Rightarrow> kernel \<Rightarrow> bool" where
  "died L s' s \<longleftrightarrow>
     (\<forall>k. pool_of s' k = pool_of s k) \<and> running s' = running s \<and> init_pcb s' = init_pcb s \<and>
     pcbptr s' = pcbptr s \<and> descriptor s' = descriptor s \<and> descriptorptr s' = descriptorptr s \<and>
     timer_item s' = timer_item s \<and> user_mem s' = user_mem s \<and>
     (\<forall>p. pcb_pid (pcb s' p) = pcb_pid (pcb s p) \<and> pcb_parent (pcb s' p) = pcb_parent (pcb s p) \<and>
       pcb_syscall_num (pcb s' p) = pcb_syscall_num (pcb s p) \<and>
       pcb_syscall_args (pcb s' p) = pcb_syscall_args (pcb s p) \<and>
       pcb_timer (pcb s' p) = pcb_timer (pcb s p) \<and>
       pcb_return_value (pcb s' p) = (if p = running s then ucast (run_arg s 0) else pcb_return_value (pcb s p)) \<and>
       pcb_status (pcb s' p) = (if p = running s then Zombie else pcb_status (pcb s p)) \<and>
       pcb_signals (pcb s' p) =
         (let c = (if p \<in> item_pcb s ` set (L (Children (running s))) then hup (pcb s p) else pcb_signals (pcb s p)) in
          if p = pcb_parent (pcb s (running s)) then c OR (DSOS_SIGCHLD AND pcb_signals_mask (pcb s p)) else c))"

lemma diedD:
  assumes "died L s' s"
  shows "pool_of s' k = pool_of s k" "running s' = running s" "init_pcb s' = init_pcb s" "pcbptr s' = pcbptr s"
    "descriptor s' = descriptor s" "descriptorptr s' = descriptorptr s" "timer_item s' = timer_item s"
    "user_mem s' = user_mem s" "pcb_pid (pcb s' p) = pcb_pid (pcb s p)"
    "pcb_parent (pcb s' p) = pcb_parent (pcb s p)" "pcb_syscall_num (pcb s' p) = pcb_syscall_num (pcb s p)"
    "pcb_syscall_args (pcb s' p) = pcb_syscall_args (pcb s p)"
    "pcb_return_value (pcb s' p) = (if p = running s then ucast (run_arg s 0) else pcb_return_value (pcb s p))"
    "pcb_status (pcb s' p) = (if p = running s then Zombie else pcb_status (pcb s p))"
  using assms unfolding died_def by (simp_all del: pool_of.simps)

lemma exit_start:
  assumes c: "core_ok s L" and f: "family_ok s L" and r: "idle s L PCB_item (running s)"
    and i: "init_pcb s \<in> live s PCB_item" "init_pcb s \<noteq> running s"
    and par: "pcb_parent (pcb s (running s)) = par" "par \<noteq> NULL" "par \<noteq> running s"
  shows "\<exists>s'. internal_exit s = (if parent_awaits s par then die_to_parent s' else run_next s') \<and>
    core_ok s' (dead s L) \<and> family_ok s' (dead s L) \<and> died L s' s \<and>
    (\<forall>y. idle s L PCB_item y \<longrightarrow> y \<noteq> running s \<longrightarrow> idle s' (dead s L) PCB_item y)"
proof -
  let ?r = "running s" and ?c = "(\<lambda>c. c\<lparr>pcb_return_value := ucast (pcb_syscall_args c 0)\<rparr>)"
  let ?s0 = "upd_pcb ?r ?c s"
  have k0: "core_ok ?s0 L" "idle ?s0 L k y \<longleftrightarrow> idle s L k y" for k y using c by simp_all
  have g0: "running ?s0 = ?r" "init_pcb ?s0 = init_pcb s" "live ?s0 PCB_item = live s PCB_item" "pcbptr ?s0 = pcbptr s"
    by (simp_all add: upd_pcb_def)
  have f0: "family_ok ?s0 L" by (rule family_ok_cong [OF f]) (simp_all add: upd_pcb_def split: if_splits)
  have o0: "orphaned ?s0 L = orphaned s L" by (simp add: orphaned_def g0)
  obtain s1 where s1: "reparent_children ?s0 = Some (Inr s1)" "core_ok s1 (orphaned s L)" "family_ok s1 (orphaned s L)"
      "hung_up (item_pcb s ` set (L (Children ?r))) s1 ?s0"
      "\<And>y. idle s L PCB_item y \<Longrightarrow> idle s1 (orphaned s L) PCB_item y"
    using reparent_loop [OF k0(1) f0] idleD(1) [OF r] i unfolding g0 o0 k0(2) by blast
  note h = hung_up_fields [OF s1(4)]
  let ?s2 = "set_status ?r Zombie s1"
  have c2: "core_ok ?s2 (orphaned s L)" "idle ?s2 (orphaned s L) PCB_item ?r" using s1(2) s1(5) [OF r] by simp_all
  obtain a b where a3: "k_append ?s2 ZombieList ?r = Inr (?r, put_list ZombieList a b ?s2)"
      "core_ok (put_list ZombieList a b ?s2) (dead s L)"
      "\<And>k y. idle ?s2 (orphaned s L) k y \<Longrightarrow> (k = PCB_item \<Longrightarrow> y \<noteq> ?r) \<Longrightarrow>
        idle (put_list ZombieList a b ?s2) (dead s L) k y"
    by (rule core_appendE [OF c2, of ZombieList "dead s L"])
      (simp, simp, simp add: dead_def orphaned_def, blast)
  let ?s4 = "upd_pcb par (\<lambda>c. c\<lparr>pcb_signals := pcb_signals c OR (DSOS_SIGCHLD AND pcb_signals_mask c)\<rparr>)
      (put_list ZombieList a b ?s2)"
  have lv: "init_pcb s \<noteq> NULL" "?r \<noteq> NULL" using live_nonnull [OF c] i(1) idleD(1) [OF r] by blast+
  have v0: "pcb_pid (pcb ?s0 p) = pcb_pid (pcb s p)" "pcb_parent (pcb ?s0 p) = pcb_parent (pcb s p)"
      "pcb_syscall_num (pcb ?s0 p) = pcb_syscall_num (pcb s p)" "pcb_syscall_args (pcb ?s0 p) = pcb_syscall_args (pcb s p)"
      "pcb_return_value (pcb ?s0 p) = (if p = ?r then ucast (run_arg s 0) else pcb_return_value (pcb s p))"
      "pcb_status (pcb ?s0 p) = pcb_status (pcb s p)" "pcb_signals_mask (pcb ?s0 p) = pcb_signals_mask (pcb s p)"
      "pcb_signals (pcb ?s0 p) = pcb_signals (pcb s p)" "pcb_timer (pcb ?s0 p) = pcb_timer (pcb s p)"
      "descriptor ?s0 = descriptor s" "descriptorptr ?s0 = descriptorptr s" "timer_item ?s0 = timer_item s"
      "user_mem ?s0 = user_mem s" for p
    by (simp_all add: upd_pcb_def)
  have t: "pcb_timer (pcb s1 p) = pcb_timer (pcb s p)" for p
    using s1(4) unfolding hung_up_def v0(9) by blast
  note h1 = h(1-8,10-17) [unfolded v0 g0] t
  note defs = set_status_def upd_pcb_def
  have d: "died L ?s4 s"
    unfolding died_def
  proof (intro conjI allI)
    show "pool_of ?s4 k = pool_of s k" for k using h(9) by (simp del: pool_of.simps)
    show "pcb_signals (pcb ?s4 p) =
         (let c = (if p \<in> item_pcb s ` set (L (Children (running s))) then hup (pcb s p) else pcb_signals (pcb s p)) in
          if p = pcb_parent (pcb s (running s)) then c OR (DSOS_SIGCHLD AND pcb_signals_mask (pcb s p)) else c)" for p
      using par by (simp add: defs h1 Let_def)
  qed (simp_all add: defs h1)
  have aw: "parent_awaits ?s4 par \<longleftrightarrow> parent_awaits s par"
    using par(3) by (simp add: parent_awaits_def diedD [OF d])
  have "internal_exit s = (if parent_awaits s par then die_to_parent ?s4 else run_next ?s4)"
    unfolding aw [symmetric] using s1(1) a3(1) lv par
    by (simp add: internal_exit_def Let_def run_loopE_def h1(1) g0) (simp add: defs h1 run_loopE_def)
  moreover have "core_ok ?s4 (dead s L)" using a3(2) by simp
  moreover have "family_ok ?s4 (dead s L)"
  proof -
    have "dead s L (Children p) = orphaned s L (Children p)" "set (dead s L ZombieList) = insert ?r (set (L ZombieList))"
        "orphaned s L ZombieList = L ZombieList" for p
      by (auto simp: dead_def orphaned_def)
    then show ?thesis
      using s1(3) unfolding family_ok_def diedD(1,4,14) [OF d] h(9,13,3) g0 v0 core_updates by simp
  qed
  moreover have "idle ?s4 (dead s L) PCB_item y" if "idle s L PCB_item y" "y \<noteq> ?r" for y
  proof -
    have "idle ?s2 (orphaned s L) PCB_item y" using s1(5) [OF that(1)] by simp
    then have "idle (put_list ZombieList a b ?s2) (dead s L) PCB_item y" using that(2) by (intro a3(3))
    then show ?thesis by simp
  qed
  ultimately show ?thesis using d by blast
qed

lemma run_next_ready:
  assumes c: "core_ok s L" and f: "family_ok s L" and n: "L ReadyList = p # ps"
    and z: "pcb_status (pcb s p) \<noteq> Zombie"
  shows "\<exists>s'. run_next s = Inr s' \<and> core_ok s' (L(ReadyList := ps)) \<and> family_ok s' (L(ReadyList := ps)) \<and>
    running s' = p \<and> idle s' (L(ReadyList := ps)) PCB_item p \<and> quiet (s'\<lparr>running := running s\<rparr>) s \<and>
    (\<forall>k. pool_of s' k = pool_of s k) \<and>
    (\<forall>q. pcb_status (pcb s' q) = (if q = p then Running else pcb_status (pcb s q)))"
proof -
  obtain a b where d: "k_detach s ReadyList (k_first s ReadyList) = Inr (p, put_list ReadyList a b s)"
      "core_ok (put_list ReadyList a b s) (L(ReadyList := ps))"
      "idle (put_list ReadyList a b s) (L(ReadyList := ps)) PCB_item p"
    by (rule core_popE [OF c n _ refl, of PCB_item]) (simp, blast)
  let ?s = "(set_status p Running (put_list ReadyList a b s))\<lparr>running := p\<rparr>"
  have "p \<noteq> NULL" using core_nonnull [OF c, of p ReadyList] n by simp
  then have "run_next s = Inr ?s" using d(1) by (simp add: run_next_def)
  moreover have "family_ok ?s (L(ReadyList := ps))"
    by (rule family_ok_cong [OF f]) (simp_all add: set_status_def upd_pcb_def split: if_splits)
  moreover have "quiet (?s\<lparr>running := running s\<rparr>) s"
    by (simp add: quiet_def set_status_def upd_pcb_def)
  moreover have "pcb_status (pcb ?s q) = (if q = p then Running else pcb_status (pcb s q))" for q
    by (simp add: set_status_def upd_pcb_def)
  moreover have "pool_of ?s k = pool_of s k" for k by simp
  ultimately show ?thesis using d(2,3) by (intro exI [of _ ?s]) simp
qed

lemma run_next_alone: "core_ok s L \<Longrightarrow> L ReadyList = [] \<Longrightarrow> run_next s = Inl NullDeref"
  using core_first_null [of s L ReadyList] by (simp add: run_next_def k_detach_def List_detach_def)

lemma exit_to_zombie:
  assumes "core_ok s L" and "family_ok s L" and "idle s L PCB_item (running s)"
    and "init_pcb s \<in> live s PCB_item" and "init_pcb s \<noteq> running s"
    and "par = pcb_parent (pcb s (running s))" and "par \<noteq> NULL" and "par \<noteq> running s"
    and "\<not> parent_awaits s par" and "\<forall>p\<in>set (L ReadyList). pcb_status (pcb s p) \<noteq> Zombie"
  shows "if L ReadyList = [] then internal_exit s = Inl NullDeref
    else \<exists>s1 s'. died L s1 s \<and> internal_exit s = Inr s' \<and>
      core_ok s' ((dead s L)(ReadyList := tl (L ReadyList))) \<and>
      family_ok s' ((dead s L)(ReadyList := tl (L ReadyList))) \<and>
      running s' = hd (L ReadyList) \<and> idle s' ((dead s L)(ReadyList := tl (L ReadyList))) PCB_item (running s') \<and>
      quiet (s'\<lparr>running := running s\<rparr>) s1 \<and> (\<forall>k. pool_of s' k = pool_of s k) \<and>
      (\<forall>q. pcb_status (pcb s' q) = (if q = hd (L ReadyList) then Running
        else if q = running s then Zombie else pcb_status (pcb s q)))"
proof -
  from exit_start [OF assms(1-5) assms(6) [symmetric] assms(7,8)] assms(9) obtain s1 where
    s1: "internal_exit s = run_next s1" "core_ok s1 (dead s L)" "family_ok s1 (dead s L)" "died L s1 s" by auto
  have rl: "dead s L ReadyList = L ReadyList" by (simp add: dead_def orphaned_def)
  show ?thesis
  proof (cases "L ReadyList")
    case Nil
    with s1(1) run_next_alone [OF s1(2)] rl show ?thesis by simp
  next
    case (Cons p ps)
    with idleD(3) [OF assms(3), of ReadyList] have "p \<noteq> running s" by auto
    with Cons assms(10) diedD(14) [OF s1(4)] have "pcb_status (pcb s1 p) \<noteq> Zombie" by simp
    from run_next_ready [OF s1(2,3) rl [unfolded Cons] this] show ?thesis
      using s1(1,4) Cons diedD(1,2,14) [OF s1(4)] by (simp del: pool_of.simps) metis
  qed
qed

text \<open>
  C12: exit, when the parent is not waiting for the process. The exit value is kept, every child gets
  a SIGHUP and becomes a child of init, although the parent it records stays the dead process, the
  parent gets a SIGCHLD, the process is a zombie at the end of the zombie list, and the first ready
  process runs; with no ready process the call dereferences null. No block of any pool is given
  back: the descriptors of the process stay open.
\<close>

theorem internal_exit_zombie:
  assumes "core_ok s L" and "family_ok s L" and "idle s L PCB_item (running s)"
    and "init_pcb s \<in> live s PCB_item" and "init_pcb s \<noteq> running s"
    and "par = pcb_parent (pcb s (running s))" and "par \<noteq> NULL" and "par \<noteq> running s"
    and "\<not> parent_awaits s par" and "\<forall>p\<in>set (L ReadyList). pcb_status (pcb s p) \<noteq> Zombie"
  shows "if L ReadyList = [] then internal_exit s = Inl NullDeref
    else \<exists>s1 s'. died L s1 s \<and> internal_exit s = Inr s' \<and>
      core_ok s' ((dead s L)(ReadyList := tl (L ReadyList))) \<and>
      family_ok s' ((dead s L)(ReadyList := tl (L ReadyList))) \<and>
      running s' = hd (L ReadyList) \<and> idle s' ((dead s L)(ReadyList := tl (L ReadyList))) PCB_item (running s') \<and>
      quiet (s'\<lparr>running := running s\<rparr>) s1 \<and> (\<forall>k. pool_of s' k = pool_of s k) \<and>
      (\<forall>q. pcb_status (pcb s' q) = (if q = hd (L ReadyList) then Running
        else if q = running s then Zombie else pcb_status (pcb s q)))"
  using assms by (rule exit_to_zombie)

text \<open>The example, but with the child 4112 running and its parent 4096 ready.\<close>

definition ex_child :: kernel where
  "ex_child = ex_state\<lparr>running := 4112, ready_list := ex_list [4096]\<rparr>"

abbreviation ex_child_lists :: "list_loc \<Rightarrow> ptr list" where
  "ex_child_lists \<equiv> ex_lists(ReadyList := [4096])"

lemma ex_child_same:
  "pool_of ex_child k = pool_of ex_state k" "links_of ex_child k = links_of ex_state k"
  "head_of ex_child l = (if l = ReadyList then ex_list [4096] else head_of ex_state l)"
  "pcb ex_child = pcb ex_state" "pcbptr ex_child = pcbptr ex_state" "running ex_child = 4112" "init_pcb ex_child = 4096"
proof -
  show "pool_of ex_child k = pool_of ex_state k" "links_of ex_child k = links_of ex_state k"
    by (cases k; simp add: ex_child_def)+
  show "head_of ex_child l = (if l = ReadyList then ex_list [4096] else head_of ex_state l)"
    by (cases l) (simp_all add: ex_child_def)
qed (simp_all add: ex_child_def)

lemma ex_child_core: "core_ok ex_child ex_child_lists"
proof -
  have idle: "4096 \<notin> set (ex_lists l)" if "kind_of l = PCB_item" for l
    using idleD(3) [OF ex_running that] .
  have "klist ex_child l (ex_child_lists l)" for l
  proof (cases "l = ReadyList")
    case True
    then show ?thesis
      by (simp add: klist_def ex_child_def dlist_def) (simp add: ex_list_def ex_mem_defs ex_links_def)
  next
    case False
    then show ?thesis using ex_klist [of l] by (simp add: klist_def ex_child_same del: links_of.simps)
  qed
  moreover have "heads ex_child = heads ex_state" by (rule heads_cong) (rule ex_child_same)
  moreover have "set (ex_child_lists l) \<inter> set (ex_child_lists k) = {}" if "l \<noteq> k" "kind_of l = kind_of k" for l k
    using ex_apart [OF that] idle [of l] idle [of k] that by (auto split: if_splits)
  ultimately show ?thesis
    using ex_items ex_state_pools ex_state_live(1)
    unfolding core_ok_def layout_def ex_child_same by (auto simp del: pool_of.simps split: if_splits)
qed

lemma ex_child_family: "family_ok ex_child ex_child_lists"
  by (rule family_ok_cong [OF ex_family]) (simp_all add: ex_child_same del: pool_of.simps)

lemma ex_child_running: "idle ex_child ex_child_lists PCB_item 4112"
proof -
  have "4112 \<notin> set (ex_child_lists l)" if "kind_of l = PCB_item" for l using that by (cases l) simp_all
  moreover have "kspare ex_child PCB_item 4112"
    by (simp add: kspare_def ex_child_def unlinked_def) (simp add: ex_mem_defs ex_links_def)
  ultimately show ?thesis unfolding idle_def ex_child_same ex_state_live by simp
qed

theorem internal_exit_zombie_witness:
  "\<exists>s'. internal_exit ex_child = Inr s' \<and> running s' = 4096 \<and> pcb_status (pcb s' 4112) = Zombie \<and>
    core_ok s' (ex_child_lists(ZombieList := [4160, 4112], ReadyList := []))"
proof -
  have p: "4096 = pcb_parent (pcb ex_child (running ex_child))" "(4096 :: ptr) \<noteq> NULL" "4096 \<noteq> running ex_child"
      "\<not> parent_awaits ex_child 4096" "\<forall>p\<in>set (ex_child_lists ReadyList). pcb_status (pcb ex_child p) \<noteq> Zombie"
    by (simp_all add: ex_child_same parent_awaits_def) (simp_all add: ex_mem_defs ex_pcb_def)
  have i: "init_pcb ex_child \<in> live ex_child PCB_item" "init_pcb ex_child \<noteq> running ex_child"
      "idle ex_child ex_child_lists PCB_item (running ex_child)"
    using ex_child_running unfolding ex_child_same ex_state_live by simp_all
  have d: "(dead ex_child ex_child_lists)(ReadyList := tl (ex_child_lists ReadyList)) =
      ex_child_lists(ZombieList := [4160, 4112], ReadyList := [])"
    by (auto simp: dead_def orphaned_def ex_child_same fun_eq_iff)
  from internal_exit_zombie [OF ex_child_core ex_child_family i(3,1,2) p] obtain s' where
    "internal_exit ex_child = Inr s'" "core_ok s' (ex_child_lists(ZombieList := [4160, 4112], ReadyList := []))"
    "running s' = 4096" "\<forall>q. pcb_status (pcb s' q) = (if q = 4096 then Running
        else if q = running ex_child then Zombie else pcb_status (pcb ex_child q))"
    unfolding d by auto
  then show ?thesis by (simp add: ex_child_same)
qed

subsection \<open>Releasing what the process holds\<close>

lemma release_timers_dseg:
  assumes "dseg (ar_links (timer_mem s)) p ts NULL" and "\<And>t. t \<in> set ts \<Longrightarrow> ti_pcb (timer_item s t) \<noteq> running s"
  shows "release_timers s (first_of ts NULL) = Some (Inr s)"
  using assms
proof (induction ts arbitrary: p)
  case Nil
  then show ?case by (simp add: release_timers.simps [of s NULL])
next
  case (Cons t ts)
  have "release_timers s (first_of ts NULL) = Some (Inr s)" using Cons.IH [of t] Cons.prems by simp
  with Cons.prems show ?case by (simp add: release_timers.simps [of s t] Let_def)
qed

lemma release_timers_none:
  assumes "core_ok s L" and "\<And>t. t \<in> set (L TimerList) \<Longrightarrow> ti_pcb (timer_item s t) \<noteq> running s"
  shows "release_timers s (lh_first (timer_list s)) = Some (Inr s)"
  using core_klist [OF assms(1), of TimerList] release_timers_dseg [of s NULL "L TimerList"] assms(2)
  by (simp add: klist_def dlist_def)

text \<open>The lists without the descriptors \<open>ds\<close>.\<close>

definition released :: "kernel \<Rightarrow> (list_loc \<Rightarrow> ptr list) \<Rightarrow> ptr list \<Rightarrow> list_loc \<Rightarrow> ptr list" where
  "released s L ds = fold (\<lambda>d L. res_closed s L d) ds L"

lemma released_other:
  "kind_of l \<noteq> Descriptor_item \<Longrightarrow> kind_of l \<noteq> DescriptorPtr_item \<Longrightarrow> released s L ds l = L l"
proof (induction ds arbitrary: L)
  case (Cons d ds)
  have "res_closed s L d l = L l" using Cons.prems by (cases l) (simp_all add: res_closed_def Let_def)
  with Cons show ?case by (simp add: released_def)
qed (simp add: released_def)

lemma released_cong: "descriptor s' = descriptor s \<Longrightarrow> released s' L ds = released s L ds"
  by (simp add: released_def res_closed_def)

text \<open>What the releases leave alone: \<open>let_go D s' s\<close>, the blocks of the descriptors \<open>D\<close> are given back.\<close>

definition let_go :: "ptr set \<Rightarrow> kernel \<Rightarrow> kernel \<Rightarrow> bool" where
  "let_go D s' s \<longleftrightarrow> quiet s' s \<and> (\<forall>p. pcb_status (pcb s' p) = pcb_status (pcb s p)) \<and>
     live s' Descriptor_item = live s Descriptor_item - D \<and>
     live s' DescriptorPtr_item = live s DescriptorPtr_item - (\<lambda>d. des_ptr (descriptor s d)) ` D \<and>
     (\<forall>k. k \<noteq> Descriptor_item \<and> k \<noteq> DescriptorPtr_item \<longrightarrow> pool_of s' k = pool_of s k)"

lemma let_go_trans:
  assumes "let_go D s1 s" and "let_go E s2 s1"
  shows "let_go (D \<union> E) s2 s"
proof -
  have "descriptor s1 = descriptor s" using assms(1) by (simp add: let_go_def quiet_def)
  then show ?thesis
    using assms quiet_trans [of s2 s1 s] unfolding let_go_def by (auto simp del: pool_of.simps)
qed

lemma release_one_step:
  assumes c: "core_ok s L" and k: "desc_ok s L" and r: "running s \<in> live s PCB_item"
    and d: "L (Descriptors (running s)) = d # ds"
  shows "\<exists>s'. release_one_descriptor s = Inr s' \<and> core_ok s' (res_closed s L d) \<and> desc_ok s' (res_closed s L d) \<and>
    let_go {d} s' s \<and> (\<forall>y. idle s L PCB_item y \<longrightarrow> idle s' (res_closed s L d) PCB_item y) \<and>
    res_closed s L d (Descriptors (running s)) = ds"
proof -
  let ?r = "running s" and ?w = "des_ptr (descriptor s d)" and ?C = "res_closed s L d"
  have dm: "d \<in> set (L (Descriptors ?r))" using d by simp
  have p: "des_pcb (descriptor s d) = ?r" using k dm unfolding desc_ok_def by blast
  have f: "lh_first (pcb_descriptors (pcb s ?r)) = d"
    using core_first [OF c, of "Descriptors ?r"] r d by simp
  obtain s1 s2 where d2: "k_detach s (Descriptors ?r) d = Inr (d, s1)"
    "k_detach s1 (ResDescriptors (des_resource (descriptor s d))) ?w = Inr (?w, s2)"
    "des_resource (descriptor s d) \<noteq> NULL" "?w \<noteq> NULL" "core_ok s2 ?C" "idle s2 ?C Descriptor_item d"
    "idle s2 ?C DescriptorPtr_item ?w" "\<And>k y. idle s L k y \<Longrightarrow> idle s2 ?C k y"
    "quiet s2 s" "descriptor s1 = descriptor s" "\<And>k. pool_of s2 k = pool_of s k"
    "\<And>q. pcb_status (pcb s2 q) = pcb_status (pcb s q)"
    by (rule detach_descriptor [OF c k dm]) blast
  obtain s3 where s3: "bindE (DescriptorPtr_free s2 ?w) (\<lambda>(_, s). Descriptor_free s d) = Inr (0, s3)"
      "pcb s3 = pcb s2" "core_ok s3 ?C" "quiet s3 s2"
      "\<forall>k y. k \<noteq> Descriptor_item \<longrightarrow> k \<noteq> DescriptorPtr_item \<longrightarrow> idle s2 ?C k y \<longrightarrow> idle s3 ?C k y"
      "\<forall>k. k \<noteq> Descriptor_item \<and> k \<noteq> DescriptorPtr_item \<longrightarrow> pool_of s3 k = pool_of s2 k"
      "live s3 Descriptor_item = live s2 Descriptor_item - {d}"
      "live s3 DescriptorPtr_item = live s2 DescriptorPtr_item - {?w}"
    using free_descriptors [OF d2(5-7)] by blast
  have q: "quiet s3 s" by (rule quiet_trans [OF s3(4) d2(9)])
  from s3(1) obtain v s' where g: "DescriptorPtr_free s2 ?w = Inr (v, s')" "Descriptor_free s' d = Inr (0, s3)"
    by (auto simp: bindE_def split: sum.splits)
  have "descriptor s2 = descriptor s" using d2(9) by (simp add: quiet_def)
  then have "release_one_descriptor s = Inr s3"
    using f d2(1-3,10) g by (simp add: release_one_descriptor_def Let_def)
  moreover have "desc_ok s3 ?C"
    using q by (intro desc_ok_closed [OF c k dm]) (simp_all add: quiet_def)
  moreover have "pcb_status (pcb s3 p) = pcb_status (pcb s p)" for p
    unfolding s3(2) using d2(12) by simp
  then have "let_go {d} s3 s"
    unfolding let_go_def image_insert image_empty
    by (intro conjI q allI s3(7,8) [unfolded d2(11)] s3(6) [unfolded d2(11)])
  moreover have "idle s3 ?C PCB_item y" if "idle s L PCB_item y" for y
    using s3(5) d2(8) [OF that] by simp
  moreover have "?C (Descriptors ?r) = ds" using d p by (simp add: res_closed_def Let_def)
  ultimately show ?thesis using s3(3) by blast
qed

lemma release_loop:
  assumes "core_ok s L" and "desc_ok s L" and "running s \<in> live s PCB_item"
  shows "\<exists>s'. release_descriptors s = Some (Inr s') \<and> core_ok s' (released s L (L (Descriptors (running s)))) \<and>
    desc_ok s' (released s L (L (Descriptors (running s)))) \<and> let_go (set (L (Descriptors (running s)))) s' s \<and>
    (\<forall>y. idle s L PCB_item y \<longrightarrow> idle s' (released s L (L (Descriptors (running s)))) PCB_item y) \<and>
    released s L (L (Descriptors (running s))) (Descriptors (running s)) = []"
  using assms
proof (induction "L (Descriptors (running s))" arbitrary: s L)
  case Nil
  then have "k_first s (Descriptors (running s)) = NULL"
    using core_first_null [of s L "Descriptors (running s)"] by simp
  then show ?case
    using Nil by (intro exI [of _ s])
      (simp add: release_descriptors.simps [of s] Nil.hyps [symmetric] released_def let_go_def)
next
  case (Cons d ds)
  note d = Cons.hyps(2) [symmetric]
  let ?C = "res_closed s L d"
  obtain s1 where s1: "release_one_descriptor s = Inr s1" "core_ok s1 ?C" "desc_ok s1 ?C" "let_go {d} s1 s"
      "\<And>y. idle s L PCB_item y \<Longrightarrow> idle s1 ?C PCB_item y" "?C (Descriptors (running s)) = ds"
    using release_one_step [OF Cons.prems d] by blast
  have e: "running s1 = running s" "descriptor s1 = descriptor s" "pool_of s1 PCB_item = pool_of s PCB_item"
    using s1(4) by (simp_all add: let_go_def quiet_def del: pool_of.simps)
  have r1: "running s1 \<in> live s1 PCB_item" unfolding e(1,3) by (rule Cons.prems(3))
  have R: "released s1 ?C ds = released s L (L (Descriptors (running s)))"
    unfolding d by (simp add: released_def res_closed_def [abs_def] e(2))
  have "ds = ?C (Descriptors (running s1))" unfolding e(1) s1(6) ..
  from Cons.hyps(1) [OF this s1(2,3) r1]
  obtain s2 where s2: "release_descriptors s1 = Some (Inr s2)" "core_ok s2 (released s L (L (Descriptors (running s))))"
      "desc_ok s2 (released s L (L (Descriptors (running s))))" "let_go (set ds) s2 s1"
      "\<And>y. idle s1 ?C PCB_item y \<Longrightarrow> idle s2 (released s L (L (Descriptors (running s)))) PCB_item y"
      "released s L (L (Descriptors (running s))) (Descriptors (running s)) = []"
    unfolding e(1) s1(6) R by blast
  have "let_go (set (L (Descriptors (running s)))) s2 s" using let_go_trans [OF s1(4) s2(4)] unfolding d by simp
  moreover have "k_first s (Descriptors (running s)) \<noteq> NULL"
    using core_first_null [OF Cons.prems(1), of "Descriptors (running s)"] d Cons.prems(3) by simp
  ultimately show ?case
    using s1(1,5) s2 by (intro exI [of _ s2]) (simp add: release_descriptors.simps [of s])
qed

subsection \<open>Dying for the parent\<close>

text \<open>The lists after the zombie \<open>p\<close> released its descriptors and its block.\<close>

definition perished :: "kernel \<Rightarrow> (list_loc \<Rightarrow> ptr list) \<Rightarrow> ptr \<Rightarrow> list_loc \<Rightarrow> ptr list" where
  "perished s L p = (released s L (L (Descriptors p)))(ZombieList := remove1 p (L ZombieList))"

lemma perish_done:
  assumes c: "core_ok s L" and k: "desc_ok s L" and r: "running s \<in> set (L ZombieList)" and ch: "L (Children (running s)) = []"
    and t: "\<And>t. t \<in> set (L TimerList) \<Longrightarrow> ti_pcb (timer_item s t) \<noteq> running s"
    and par: "idle s L PCB_item par"
  shows "\<exists>s'. perish s par = Inr s' \<and> core_ok s' (perished s L (running s)) \<and> desc_ok s' (perished s L (running s)) \<and>
    idle s' (perished s L (running s)) PCB_item par \<and> quiet (s'\<lparr>running := running s\<rparr>) s \<and> running s' = par \<and>
    (\<forall>p. pcb_status (pcb s' p) = pcb_status (pcb s p)) \<and>
    live s' PCB_item = live s PCB_item - {running s} \<and>
    live s' Descriptor_item = live s Descriptor_item - set (L (Descriptors (running s))) \<and>
    live s' DescriptorPtr_item = live s DescriptorPtr_item - (\<lambda>d. des_ptr (descriptor s d)) ` set (L (Descriptors (running s))) \<and>
    (\<forall>k. k \<notin> {PCB_item, Descriptor_item, DescriptorPtr_item} \<longrightarrow> pool_of s' k = pool_of s k)"
proof -
  let ?r = "running s" and ?R = "released s L (L (Descriptors (running s)))" and ?P = "perished s L (running s)"
  have rl: "?r \<in> live s PCB_item" using core_mem [OF c r] by (simp del: pool_of.simps)
  obtain s1 where s1: "release_descriptors s = Some (Inr s1)" "core_ok s1 ?R" "desc_ok s1 ?R"
      "let_go (set (L (Descriptors ?r))) s1 s" "\<And>y. idle s L PCB_item y \<Longrightarrow> idle s1 ?R PCB_item y"
      "?R (Descriptors ?r) = []"
    using release_loop [OF c k rl] by blast
  have e: "running s1 = ?r" "pool_of s1 PCB_item = pool_of s PCB_item" "quiet s1 s"
      "\<And>p. pcb_status (pcb s1 p) = pcb_status (pcb s p)"
      "\<And>k. k \<notin> {PCB_item, Descriptor_item, DescriptorPtr_item} \<Longrightarrow> pool_of s1 k = pool_of s k"
      "live s1 Descriptor_item = live s Descriptor_item - set (L (Descriptors ?r))"
      "live s1 DescriptorPtr_item = live s DescriptorPtr_item - (\<lambda>d. des_ptr (descriptor s d)) ` set (L (Descriptors ?r))"
    using s1(4) by (simp_all add: let_go_def quiet_def del: pool_of.simps)
  have z: "?R ZombieList = L ZombieList" "?R (Children p) = L (Children p)" for p by (simp_all add: released_other)
  obtain as bs where ab: "L ZombieList = as @ ?r # bs" "remove1 ?r (L ZombieList) = as @ bs"
    using remove1_split [OF r] .
  have P: "?P = ?R(ZombieList := as @ bs)" by (simp only: perished_def ab(2))
  obtain m h where d: "k_detach s1 ZombieList ?r = Inr (?r, put_list ZombieList m h s1)"
      "core_ok (put_list ZombieList m h s1) ?P" "idle (put_list ZombieList m h s1) ?P PCB_item ?r"
      "\<And>k y. idle s1 ?R k y \<Longrightarrow> idle (put_list ZombieList m h s1) ?P k y"
    by (rule core_detachE [OF s1(2) z(1) [unfolded ab(1)] _ P, of PCB_item]) (simp, blast)
  let ?s2 = "put_list ZombieList m h s1"
  obtain A where A: "PCB_free ?s2 ?r = Inr (0, ?s2\<lparr>pcb_mem := A\<rparr>)"
      "freed PCB_item ?r ?s2 (?s2\<lparr>pcb_mem := A\<rparr>)" "ar_cells A = pcb ?s2"
    using PCB_free_live [OF d(2) idleD(1) [OF d(3)]] by blast
  let ?s3 = "?s2\<lparr>pcb_mem := A, running := par\<rparr>"
  have "(\<lambda>l. if born PCB_item ?r l then [] else ?P l) = ?P"
  proof
    fix l
    show "(if born PCB_item ?r l then [] else ?P l) = ?P l"
      using s1(6) ch z(2) [of ?r] by (cases l) (simp_all add: P)
  qed
  note f = freed_core [OF d(2) A(2) d(3), unfolded this]
  have pr: "par \<noteq> ?r" using idleD(3) [OF par, of ZombieList] r by auto
  have "perish s par = Inr ?s3"
    using release_timers_none [OF c t] s1(1) d(1) A(1) e(1)
    by (simp add: perish_def run_loopE_def)
  moreover have "core_ok ?s3 ?P" using f(1) by simp
  moreover have "idle ?s3 ?P PCB_item par" using f(2) [OF d(4) [OF s1(5) [OF par]]] pr by simp
  moreover have "desc_ok ?s3 ?P" by (rule desc_ok_cong [OF s1(3)]) (simp_all add: P)
  moreover have "quiet (?s3\<lparr>running := ?r\<rparr>) s" using e(3) A(3) by (simp add: quiet_def)
  moreover have "pcb_status (pcb ?s3 p) = pcb_status (pcb s p)" for p using A(3) e(4) by simp
  moreover have "live ?s3 PCB_item = live s PCB_item - {?r}" using freedD(3) [OF A(2)] e(2) by simp
  moreover have "live ?s3 Descriptor_item = live s Descriptor_item - set (L (Descriptors ?r))" using e(6) by simp
  moreover have "live ?s3 DescriptorPtr_item = live s DescriptorPtr_item - (\<lambda>d. des_ptr (descriptor s d)) ` set (L (Descriptors ?r))" using e(7) by simp
  moreover have "pool_of ?s3 k = pool_of s k" if "k \<notin> {PCB_item, Descriptor_item, DescriptorPtr_item}" for k
    using e(5) [OF that] that by (cases k) simp_all
  ultimately show ?thesis by (intro exI [of _ ?s3]) simp
qed

text \<open>The parent \<open>par\<close> no longer waits, and no longer has the child of the item \<open>q\<close>.\<close>

definition bereaved :: "(list_loc \<Rightarrow> ptr list) \<Rightarrow> ptr \<Rightarrow> ptr \<Rightarrow> list_loc \<Rightarrow> ptr list" where
  "bereaved L par q = L(WaitingList := remove1 par (L WaitingList), Children par := remove1 q (L (Children par)))"

lemma hand_over:
  assumes c: "core_ok s L" and f: "family_ok s L" and k: "desc_ok s L" and r: "running s \<in> set (L ZombieList)"
    and par: "pcb_parent (pcb s (running s)) = par" "par \<in> set (L WaitingList)"
    and q: "q \<in> set (L (Children par))" "item_pcb s q = running s"
    and pid: "\<And>x. x \<in> set (L (Children par)) \<Longrightarrow>
      pcb_pid (pcb s (item_pcb s x)) = pcb_pid (pcb s (running s)) \<Longrightarrow> item_pcb s x = running s"
  shows "\<exists>s'. die_to_parent s = perish s' par \<and> core_ok s' (bereaved L par q) \<and> desc_ok s' (bereaved L par q) \<and>
    idle s' (bereaved L par q) PCB_item par \<and>
    quiet ((set_retvalue par (pcb_syscall_retvalue (pcb s par)) s')\<lparr>user_mem := user_mem s\<rparr>) s \<and>
    pcb_syscall_retvalue (pcb s' par) = pcb_pid (pcb s (running s)) \<and>
    user_mem s' = store_result s (pcb_syscall_args (pcb s par) 1) (pcb_return_value (pcb s (running s))) \<and>
    (\<forall>p. pcb_status (pcb s' p) = (if p = par then Running else pcb_status (pcb s p))) \<and>
    (\<forall>k. pool_of s' k = pool_of s k)"
proof -
  let ?r = "running s" and ?B = "bereaved L par q"
  have pl: "par \<in> live s PCB_item" using core_mem [OF c par(2)] by (simp del: pool_of.simps)
  have pn: "par \<noteq> NULL" by (rule live_nonnull [OF c pl])
  obtain as bs where ab: "L WaitingList = as @ par # bs" "remove1 par (L WaitingList) = as @ bs"
    using remove1_split [OF par(2)] .
  obtain as' bs' where ab': "L (Children par) = as' @ q # bs'" "remove1 q (L (Children par)) = as' @ bs'"
    using remove1_split [OF q(1)] .
  let ?L1 = "L(WaitingList := as @ bs)"
  obtain a b where d1: "k_detach s WaitingList par = Inr (par, put_list WaitingList a b s)"
      "core_ok (put_list WaitingList a b s) ?L1" "idle (put_list WaitingList a b s) ?L1 PCB_item par"
    by (rule core_detachE [OF c ab(1) _ refl, of PCB_item]) (simp, blast)
  let ?s2 = "set_status par Running (put_list WaitingList a b s)"
  have c2: "core_ok ?s2 ?L1" "idle ?s2 ?L1 PCB_item par" "Children par \<in> heads ?s2" "?L1 (Children par) = L (Children par)"
    using d1(2,3) pl by simp_all
  have g2: "pcbptr ?s2 = pcbptr s" "pcb_pid (pcb ?s2 p) = pcb_pid (pcb s p)" for p by (simp_all add: set_status_def upd_pcb_def)
  have "pp_pcb (pcbptr ?s2 x) \<noteq> NULL" if "x \<in> set (?L1 (Children par))" for x
    using family_child(2) [OF c f, of x par] that unfolding g2 by simp
  from PCBPtr_byPID_scan [OF c2(1,3) _ this, of "pcb_pid (pcb s ?r)"]
  have "PCBPtr_byPID ?s2 (pcb_children (pcb ?s2 par)) (pcb_pid (pcb s ?r)) =
      Inr (scan_result (\<lambda>x. pcb_pid (pcb s (item_pcb s x)) = pcb_pid (pcb s ?r)) (L (Children par)))"
    unfolding g2 c2(4) by simp
  moreover have "scan_result (\<lambda>x. pcb_pid (pcb s (item_pcb s x)) = pcb_pid (pcb s ?r)) (L (Children par)) = q"
  proof (rule scan_result_unique [OF q(1)])
    show "NULL \<notin> set (L (Children par))" using core_nonnull [OF c] by blast
    show "x = q" if "x \<in> set (L (Children par))" "pcb_pid (pcb s (item_pcb s x)) = pcb_pid (pcb s ?r)" for x
      using pid [OF that] f that(1) q unfolding family_ok_def by metis
  qed (simp add: q(2))
  ultimately have look: "PCBPtr_byPID ?s2 (pcb_children (pcb ?s2 par)) (pcb_pid (pcb s ?r)) = Inr q" by simp
  have B: "?B = ?L1(Children par := as' @ bs')" by (simp only: bereaved_def ab(2) ab'(2))
  have e: "?L1 (Children par) = as' @ q # bs'" using ab'(1) by simp
  obtain a' b' where d3: "k_detach ?s2 (Children par) q = Inr (q, put_list (Children par) a' b' ?s2)"
      "core_ok (put_list (Children par) a' b' ?s2) ?B"
      "\<And>k y. idle ?s2 ?L1 k y \<Longrightarrow> idle (put_list (Children par) a' b' ?s2) ?B k y"
    by (rule core_detachE [OF c2(1) e _ B, of PCBPtr_item]) (simp, blast)
  let ?s3 = "set_retvalue par (pcb_pid (pcb s ?r)) (put_list (Children par) a' b' ?s2)"
  let ?s4 = "?s3\<lparr>user_mem := store_result s (pcb_syscall_args (pcb s par) 1) (pcb_return_value (pcb s ?r))\<rparr>"
  note defs = set_retvalue_def set_status_def upd_pcb_def
  have u: "user_mem ?s3 = user_mem s" "pcb_syscall_args (pcb ?s3 par) = pcb_syscall_args (pcb s par)"
      "pcb_return_value (pcb ?s2 ?r) = pcb_return_value (pcb s ?r)" "running ?s3 = ?r" "running ?s2 = ?r"
      "user_mem ?s2 = user_mem s"
    by (simp_all add: defs)
  note store = store_result_update [OF u(1), unfolded u(1)]
  have "die_to_parent s = perish ?s4 par"
    using d1(1) par(1) pn look d3(1)
    by (simp add: die_to_parent_def Let_def u g2 store del: put_list_lists split del: if_split cong del: if_weak_cong)
  moreover have "idle ?s4 ?B PCB_item par" using d3(3) [OF c2(2)] by simp
  moreover have "core_ok ?s4 ?B" using d3(2) by simp
  moreover have "desc_ok ?s4 ?B" by (rule desc_ok_cong [OF k]) (simp_all add: defs bereaved_def)
  moreover have "quiet ((set_retvalue par (pcb_syscall_retvalue (pcb s par)) ?s4)\<lparr>user_mem := user_mem s\<rparr>) s"
      "pcb_syscall_retvalue (pcb ?s4 par) = pcb_pid (pcb s ?r)"
      "user_mem ?s4 = store_result s (pcb_syscall_args (pcb s par) 1) (pcb_return_value (pcb s ?r))"
    by (simp_all add: quiet_def defs)
  moreover have "pcb_status (pcb ?s4 p) = (if p = par then Running else pcb_status (pcb s p))" for p
    by (simp add: defs)
  moreover have "pool_of ?s4 k = pool_of s k" for k by simp
  ultimately show ?thesis by (intro exI [of _ ?s4]) simp
qed

lemma perished_simps:
  "perished s L p ZombieList = remove1 p (L ZombieList)" "perished s L p ReadyList = L ReadyList"
  "perished s L p WaitingList = L WaitingList" "perished s L p TimerList = L TimerList"
  "perished s L p (Children c) = L (Children c)"
  by (simp_all add: perished_def released_other)

lemma family_ok_heir:
  assumes c: "core_ok s L" and f: "family_ok s L"
    and q: "q \<in> set (L (Children par))" "item_pcb s q = running s"
    and s': "pcbptr s' = pcbptr s" "live s' PCB_item = live s PCB_item - {running s}"
      "\<And>p. pcb_status (pcb s' p) = Zombie \<Longrightarrow> pcb_status (pcb s p) = Zombie"
  shows "family_ok s' (perished s (bereaved L par q) (running s))"
proof -
  let ?H = "perished s (bereaved L par q) (running s)"
  have old: "x \<in> set (L (Children p)) \<and> x \<noteq> q" if "x \<in> set (?H (Children p))" for x p
    using that core_distinct [OF c, of "Children par"] core_apart [OF c q(1), of "Children p"]
    unfolding perished_simps bereaved_def by (auto split: if_splits)
  then have new: "item_pcb s x \<noteq> running s" if "x \<in> set (?H (Children p))" for x p
    using that f q unfolding family_ok_def by metis
  have z: "y \<in> set (?H ZombieList)" if "y \<in> set (L ZombieList)" "y \<noteq> running s" for y
    using that by (simp add: perished_simps bereaved_def)
  show ?thesis
    unfolding family_ok_def s'(1,2)
  proof (intro conjI allI ballI impI)
    fix p x
    assume x: "x \<in> set (?H (Children p))"
    note xl = conjunct1 [OF old [OF x]]
    show "item_pcb s x \<in> live s PCB_item - {running s}" using family_child(1) [OF c f xl] new [OF x] by blast
    show "item_pcb s x \<in> set (?H ZombieList)" if "pcb_status (pcb s' (item_pcb s x)) = Zombie"
      by (rule z [OF family_child(3) [OF c f xl s'(3) [OF that]] new [OF x]])
    show "x = y" if "y \<in> set (?H (Children p'))" "item_pcb s x = item_pcb s y" for p' y
      using f xl conjunct1 [OF old [OF that(1)]] that(2) unfolding family_ok_def by blast
  qed
qed

lemma perished_cong:
  assumes "descriptor s' = descriptor s"
  shows "perished s' L p = perished s L p"
  unfolding perished_def released_cong [OF assms] ..

lemma die_to_parent_done:
  assumes c: "core_ok s L" and f: "family_ok s L" and k: "desc_ok s L" and r: "running s \<in> set (L ZombieList)"
    and ch: "L (Children (running s)) = []" and t: "\<And>t. t \<in> set (L TimerList) \<Longrightarrow> ti_pcb (timer_item s t) \<noteq> running s"
    and par: "pcb_parent (pcb s (running s)) = par" "par \<in> set (L WaitingList)" "par \<noteq> running s"
    and q: "q \<in> set (L (Children par))" "item_pcb s q = running s"
    and pid: "\<And>x. x \<in> set (L (Children par)) \<Longrightarrow>
      pcb_pid (pcb s (item_pcb s x)) = pcb_pid (pcb s (running s)) \<Longrightarrow> item_pcb s x = running s"
    and H: "H = perished s (bereaved L par q) (running s)"
  shows "\<exists>s'. die_to_parent s = Inr s' \<and> core_ok s' H \<and> desc_ok s' H \<and> idle s' H PCB_item par \<and> running s' = par \<and>
    pcbptr s' = pcbptr s \<and> pcb_syscall_retvalue (pcb s' par) = pcb_pid (pcb s (running s)) \<and>
    user_mem s' = store_result s (pcb_syscall_args (pcb s par) 1) (pcb_return_value (pcb s (running s))) \<and>
    (\<forall>p. pcb_status (pcb s' p) = (if p = par then Running else pcb_status (pcb s p))) \<and>
    live s' PCB_item = live s PCB_item - {running s} \<and>
    live s' Descriptor_item = live s Descriptor_item - set (L (Descriptors (running s))) \<and>
    live s' DescriptorPtr_item = live s DescriptorPtr_item - (\<lambda>d. des_ptr (descriptor s d)) ` set (L (Descriptors (running s))) \<and>
    (\<forall>k. k \<notin> {PCB_item, Descriptor_item, DescriptorPtr_item} \<longrightarrow> pool_of s' k = pool_of s k)"
proof -
  let ?r = "running s" and ?B = "bereaved L par q"
  obtain s2 where s2: "die_to_parent s = perish s2 par" "core_ok s2 ?B" "desc_ok s2 ?B" "idle s2 ?B PCB_item par"
      "quiet ((set_retvalue par (pcb_syscall_retvalue (pcb s par)) s2)\<lparr>user_mem := user_mem s\<rparr>) s"
      "pcb_syscall_retvalue (pcb s2 par) = pcb_pid (pcb s ?r)"
      "user_mem s2 = store_result s (pcb_syscall_args (pcb s par) 1) (pcb_return_value (pcb s ?r))"
      "\<And>p. pcb_status (pcb s2 p) = (if p = par then Running else pcb_status (pcb s p))"
      "\<And>k. pool_of s2 k = pool_of s k"
    using hand_over [OF c f k r par(1,2) q pid] by blast
  have e2: "running s2 = ?r" "timer_item s2 = timer_item s" "pcbptr s2 = pcbptr s" "descriptor s2 = descriptor s"
    using s2(5) unfolding quiet_def by (simp_all add: set_retvalue_def upd_pcb_def)
  have B: "?B ZombieList = L ZombieList" "?B TimerList = L TimerList" "?B (Children ?r) = []"
      "?B (Descriptors ?r) = L (Descriptors ?r)"
    using ch par(3) by (simp_all add: bereaved_def)
  have H2: "perished s2 ?B ?r = H" unfolding H by (rule perished_cong [OF e2(4)])
  have t2: "ti_pcb (timer_item s2 x) \<noteq> running s2" if "x \<in> set (?B TimerList)" for x
    using that t unfolding B(2) e2(1,2) by blast
  have r2: "running s2 \<in> set (?B ZombieList)" "?B (Children (running s2)) = []" unfolding e2(1) B by (rule r, rule refl)
  obtain s3 where s3: "perish s2 par = Inr s3" "core_ok s3 H" "desc_ok s3 H" "idle s3 H PCB_item par"
      "quiet (s3\<lparr>running := ?r\<rparr>) s2" "running s3 = par" "\<And>p. pcb_status (pcb s3 p) = pcb_status (pcb s2 p)"
      "live s3 PCB_item = live s2 PCB_item - {?r}"
      "live s3 Descriptor_item = live s2 Descriptor_item - set (L (Descriptors ?r))"
      "live s3 DescriptorPtr_item = live s2 DescriptorPtr_item - (\<lambda>d. des_ptr (descriptor s2 d)) ` set (L (Descriptors ?r))"
      "\<And>k. k \<notin> {PCB_item, Descriptor_item, DescriptorPtr_item} \<Longrightarrow> pool_of s3 k = pool_of s2 k"
    using perish_done [OF s2(2,3) r2 t2 s2(4)] unfolding e2(1) H2 B(4) by blast
  have "pcbptr s3 = pcbptr s" "pcb_syscall_retvalue (pcb s3 par) = pcb_syscall_retvalue (pcb s2 par)"
      "user_mem s3 = user_mem s2"
    using s3(5) e2(3) unfolding quiet_def by simp_all
  then show ?thesis
    using s2(1,6-9) s3 [unfolded e2(4)] by (intro exI [of _ s3]) (simp del: pool_of.simps)
qed

text \<open>The lists after the running process died for its parent \<open>par\<close>, which had it as the item \<open>q\<close>.\<close>

definition heir_lists :: "kernel \<Rightarrow> (list_loc \<Rightarrow> ptr list) \<Rightarrow> ptr \<Rightarrow> ptr \<Rightarrow> list_loc \<Rightarrow> ptr list" where
  "heir_lists s L par q = perished s (bereaved (dead s L) par q) (running s)"

lemma dead_children: "q \<in> set (L (Children p)) \<Longrightarrow> p \<noteq> running s \<Longrightarrow> q \<in> set (dead s L (Children p))"
  by (auto simp: dead_def orphaned_def)

lemma exit_to_heir:
  assumes c: "core_ok s L" and f: "family_ok s L" and k: "desc_ok s L" and t: "timers_ok s L"
    and r: "idle s L PCB_item (running s)"
    and i: "init_pcb s \<in> live s PCB_item" "init_pcb s \<noteq> running s"
    and par: "pcb_parent (pcb s (running s)) = par" "parent_awaits s par" "par \<in> set (L WaitingList)"
    and q: "q \<in> set (dead s L (Children par))" "item_pcb s q = running s"
    and pid: "\<And>x. x \<in> live s PCB_item \<Longrightarrow> pcb_pid (pcb s x) = pcb_pid (pcb s (running s)) \<Longrightarrow> x = running s"
  shows "\<exists>s'. internal_exit s = Inr s' \<and> core_ok s' (heir_lists s L par q) \<and> family_ok s' (heir_lists s L par q) \<and>
    desc_ok s' (heir_lists s L par q) \<and> idle s' (heir_lists s L par q) PCB_item par \<and> running s' = par \<and>
    pcb_syscall_retvalue (pcb s' par) = pcb_pid (pcb s (running s)) \<and>
    user_mem s' = store_result s (pcb_syscall_args (pcb s par) 1) (ucast (run_arg s 0)) \<and>
    (\<forall>p. pcb_status (pcb s' p) = (if p = par then Running else if p = running s then Zombie else pcb_status (pcb s p))) \<and>
    live s' PCB_item = live s PCB_item - {running s} \<and>
    live s' Descriptor_item = live s Descriptor_item - set (L (Descriptors (running s))) \<and>
    live s' DescriptorPtr_item = live s DescriptorPtr_item - (\<lambda>d. des_ptr (descriptor s d)) ` set (L (Descriptors (running s))) \<and>
    (\<forall>k. k \<notin> {PCB_item, Descriptor_item, DescriptorPtr_item} \<longrightarrow> pool_of s' k = pool_of s k)"
proof -
  let ?r = "running s" and ?D = "dead s L" and ?H = "heir_lists s L par q"
  have pr: "par \<noteq> ?r" using idleD(3) [OF r, of WaitingList] par(3) by auto
  have "par \<noteq> NULL" by (rule core_nonnull [OF c par(3)])
  from exit_start [OF c f r i par(1) this pr] par(2) obtain s1 where
    s1: "internal_exit s = die_to_parent s1" "core_ok s1 ?D" "family_ok s1 ?D" "died L s1 s" by auto
  note d = diedD [OF s1(4)]
  have D: "?D WaitingList = L WaitingList" "?D TimerList = L TimerList" "?D (Descriptors p) = L (Descriptors p)"
      "?D (ResDescriptors m) = L (ResDescriptors m)" "?D ResourcesList = L ResourcesList"
      "set (?D ZombieList) = insert ?r (set (L ZombieList))" "?D (Children ?r) = []" for p m
    using i(2) by (auto simp: dead_def orphaned_def)
  have k1: "desc_ok s1 ?D" by (rule desc_ok_cong [OF k d(5,6) D(3,4)]) (simp only: D(5) order.refl)
  have q1: "q \<in> set (?D (Children par))" "item_pcb s1 q = running s1"
    using q unfolding d(2,4) .
  have pid1: "item_pcb s1 x = running s1"
    if "x \<in> set (?D (Children par))" "pcb_pid (pcb s1 (item_pcb s1 x)) = pcb_pid (pcb s1 (running s1))" for x
  proof -
    have "item_pcb s1 x \<in> live s1 PCB_item" by (rule family_child(1) [OF s1(2,3) that(1)])
    then show ?thesis using pid that(2) unfolding d(1,2,9) by blast
  qed
  have t1: "ti_pcb (timer_item s1 x) \<noteq> running s1" if "x \<in> set (?D TimerList)" for x
    using that t idleD(3) [OF r, of WaitingList] unfolding D(2) d(2,7) timers_ok_def by auto
  have r1: "running s1 \<in> set (?D ZombieList)" "?D (Children (running s1)) = []"
      "pcb_parent (pcb s1 (running s1)) = par" "par \<in> set (?D WaitingList)" "par \<noteq> running s1"
    using D(6,7) par(1,3) pr unfolding D(1) d(2,10) by simp_all
  have H: "?H = perished s1 (bereaved ?D par q) (running s1)"
    unfolding heir_lists_def d(2) by (rule perished_cong [OF d(5), symmetric])
  from die_to_parent_done [OF s1(2,3) k1 r1(1,2) t1 r1(3-5) q1 pid1 H] obtain s2 where
    s2: "die_to_parent s1 = Inr s2" "core_ok s2 ?H" "desc_ok s2 ?H" "idle s2 ?H PCB_item par" "running s2 = par"
      "pcbptr s2 = pcbptr s1" "pcb_syscall_retvalue (pcb s2 par) = pcb_pid (pcb s ?r)"
      "user_mem s2 = store_result s1 (pcb_syscall_args (pcb s par) 1) (ucast (run_arg s 0))"
      "\<And>p. pcb_status (pcb s2 p) = (if p = par then Running else pcb_status (pcb s1 p))"
      "live s2 PCB_item = live s PCB_item - {?r}"
      "live s2 Descriptor_item = live s Descriptor_item - set (L (Descriptors ?r))"
      "live s2 DescriptorPtr_item = live s DescriptorPtr_item - (\<lambda>d. des_ptr (descriptor s d)) ` set (L (Descriptors ?r))"
      "\<And>k. k \<notin> {PCB_item, Descriptor_item, DescriptorPtr_item} \<Longrightarrow> pool_of s2 k = pool_of s k"
    unfolding d(1,2,5,9,12,13) D(3) if_P [OF refl] by blast
  have "family_ok s2 ?H"
    unfolding H by (rule family_ok_heir [OF s1(2,3) q1 s2(6)]) (simp_all only: s2(9,10) d(1,2), simp split: if_splits)
  moreover have "user_mem s2 = store_result s (pcb_syscall_args (pcb s par) 1) (ucast (run_arg s 0))"
    unfolding s2(8) store_result_def d(8) ..
  moreover have "pcb_status (pcb s2 p) = (if p = par then Running else if p = ?r then Zombie else pcb_status (pcb s p))" for p
    unfolding s2(9) d(14) ..
  ultimately show ?thesis using s1(1) s2(1-5,7,10-13) by (intro exI [of _ s2]) (simp del: pool_of.simps)
qed

lemma exit_to_parent:
  assumes c: "core_ok s L" and f: "family_ok s L" and k: "desc_ok s L" and t: "timers_ok s L"
    and r: "idle s L PCB_item (running s)"
    and i: "init_pcb s \<in> live s PCB_item" "init_pcb s \<noteq> running s"
    and par: "pcb_parent (pcb s (running s)) = par" "parent_awaits s par" "par \<in> set (L WaitingList)"
    and q: "q \<in> set (L (Children par))" "item_pcb s q = running s"
    and pid: "\<And>x. x \<in> live s PCB_item \<Longrightarrow> pcb_pid (pcb s x) = pcb_pid (pcb s (running s)) \<Longrightarrow> x = running s"
  shows "\<exists>s'. internal_exit s = Inr s' \<and> core_ok s' (heir_lists s L par q) \<and> family_ok s' (heir_lists s L par q) \<and>
    desc_ok s' (heir_lists s L par q) \<and> idle s' (heir_lists s L par q) PCB_item par \<and> running s' = par \<and>
    pcb_syscall_retvalue (pcb s' par) = pcb_pid (pcb s (running s)) \<and>
    user_mem s' = store_result s (pcb_syscall_args (pcb s par) 1) (ucast (run_arg s 0)) \<and>
    (\<forall>p. pcb_status (pcb s' p) = (if p = par then Running else if p = running s then Zombie else pcb_status (pcb s p))) \<and>
    live s' PCB_item = live s PCB_item - {running s} \<and>
    live s' Descriptor_item = live s Descriptor_item - set (L (Descriptors (running s))) \<and>
    live s' DescriptorPtr_item = live s DescriptorPtr_item - (\<lambda>d. des_ptr (descriptor s d)) ` set (L (Descriptors (running s))) \<and>
    (\<forall>k. k \<notin> {PCB_item, Descriptor_item, DescriptorPtr_item} \<longrightarrow> pool_of s' k = pool_of s k)"
proof -
  have "par \<noteq> running s" using idleD(3) [OF r, of WaitingList] par(3) by auto
  with q(1) have "q \<in> set (dead s L (Children par))" by (rule dead_children)
  from exit_to_heir [OF c f k t r i par this q(2) pid] show ?thesis .
qed

text \<open>
  The parent that a process records can be a block that was given back and used again, since the
  record is not updated when the parent dies. When a process in that block is asleep in \<open>wait\<close>, its
  list of children is searched for a child it does not have, and a null item is detached.
\<close>

lemma die_to_stranger:
  assumes c: "core_ok s L" and f: "family_ok s L"
    and par: "pcb_parent (pcb s (running s)) = par" "par \<in> set (L WaitingList)"
    and no: "\<And>x. x \<in> set (L (Children par)) \<Longrightarrow> pcb_pid (pcb s (item_pcb s x)) \<noteq> pcb_pid (pcb s (running s))"
  shows "die_to_parent s = Inl NullDeref"
proof -
  have pl: "par \<in> live s PCB_item" using core_mem [OF c par(2)] by (simp del: pool_of.simps)
  have pn: "par \<noteq> NULL" by (rule live_nonnull [OF c pl])
  obtain as bs where ab: "L WaitingList = as @ par # bs" using par(2) by (auto dest: split_list)
  let ?L1 = "L(WaitingList := as @ bs)"
  obtain a b where d1: "k_detach s WaitingList par = Inr (par, put_list WaitingList a b s)"
      "core_ok (put_list WaitingList a b s) ?L1"
    by (rule core_detachE [OF c ab _ refl, of PCB_item]) (simp, blast)
  let ?s2 = "set_status par Running (put_list WaitingList a b s)"
  have c2: "core_ok ?s2 ?L1" "Children par \<in> heads ?s2" "?L1 (Children par) = L (Children par)"
    using d1(2) pl by simp_all
  have g2: "pcbptr ?s2 = pcbptr s" "pcb_pid (pcb ?s2 p) = pcb_pid (pcb s p)" "running ?s2 = running s" for p
    by (simp_all add: set_status_def upd_pcb_def)
  have "pp_pcb (pcbptr ?s2 x) \<noteq> NULL" if "x \<in> set (?L1 (Children par))" for x
    using family_child(2) [OF c f, of x par] that unfolding g2 by simp
  from PCBPtr_byPID_scan [OF c2(1,2) _ this, of "pcb_pid (pcb s (running s))"]
  have "PCBPtr_byPID ?s2 (pcb_children (pcb ?s2 par)) (pcb_pid (pcb s (running s))) =
      Inr (scan_result (\<lambda>x. pcb_pid (pcb s (item_pcb s x)) = pcb_pid (pcb s (running s))) (L (Children par)))"
    unfolding g2 c2(3) by simp
  also have "scan_result (\<lambda>x. pcb_pid (pcb s (item_pcb s x)) = pcb_pid (pcb s (running s))) (L (Children par)) = NULL"
    using no by (intro scan_result_none)
  finally show ?thesis
    using d1(1) par(1) pn by (simp add: die_to_parent_def Let_def g2 k_null del: put_list_lists)
qed

lemma exit_to_stranger:
  assumes c: "core_ok s L" and f: "family_ok s L" and r: "idle s L PCB_item (running s)"
    and i: "init_pcb s \<in> live s PCB_item" "init_pcb s \<noteq> running s"
    and par: "pcb_parent (pcb s (running s)) = par" "parent_awaits s par" "par \<in> set (L WaitingList)"
    and q: "\<And>q. q \<in> set (dead s L (Children par)) \<Longrightarrow> item_pcb s q \<noteq> running s"
    and pid: "\<And>x. x \<in> live s PCB_item \<Longrightarrow> pcb_pid (pcb s x) = pcb_pid (pcb s (running s)) \<Longrightarrow> x = running s"
  shows "internal_exit s = Inl NullDeref"
proof -
  have pr: "par \<noteq> running s" using idleD(3) [OF r, of WaitingList] par(3) by auto
  have "par \<noteq> NULL" by (rule core_nonnull [OF c par(3)])
  from exit_start [OF c f r i par(1) this pr] par(2) obtain s1 where
    s1: "internal_exit s = die_to_parent s1" "core_ok s1 (dead s L)" "family_ok s1 (dead s L)" "died L s1 s" by auto
  note d = diedD [OF s1(4)]
  have "pcb_pid (pcb s1 (item_pcb s1 x)) \<noteq> pcb_pid (pcb s1 (running s1))"
    if "x \<in> set (dead s L (Children par))" for x
  proof -
    have "item_pcb s1 x \<in> live s1 PCB_item" by (rule family_child(1) [OF s1(2,3) that])
    then show ?thesis using pid q [OF that] unfolding d(1,2,4,9) by blast
  qed
  moreover have "par \<in> set (dead s L WaitingList)" using par(3) by (simp add: dead_def orphaned_def)
  moreover have "pcb_parent (pcb s1 (running s1)) = par" unfolding d(2,10) by (rule par(1))
  ultimately show ?thesis unfolding s1(1) by (intro die_to_stranger [OF s1(2,3)])
qed

text \<open>A process that records no parent: only init, and the inits of earlier rounds.\<close>

lemma exit_orphan:
  assumes c: "core_ok s L" and f: "family_ok s L" and r: "idle s L PCB_item (running s)"
    and i: "init_pcb s \<in> live s PCB_item" "init_pcb s \<noteq> running s"
    and par: "pcb_parent (pcb s (running s)) = NULL"
  shows "internal_exit s = Inl NullDeref"
proof -
  let ?r = "running s"
  let ?s0 = "upd_pcb ?r (\<lambda>c. c\<lparr>pcb_return_value := ucast (pcb_syscall_args c 0)\<rparr>) s"
  have k0: "core_ok ?s0 L" "idle ?s0 L PCB_item ?r" using c r by simp_all
  have g0: "running ?s0 = ?r" "init_pcb ?s0 = init_pcb s" "live ?s0 PCB_item = live s PCB_item"
      "pcb_parent (pcb ?s0 ?r) = NULL" "orphaned ?s0 L = orphaned s L"
    using par by (simp_all add: upd_pcb_def orphaned_def)
  have f0: "family_ok ?s0 L" by (rule family_ok_cong [OF f]) (simp_all add: upd_pcb_def split: if_splits)
  obtain s1 P where s1: "reparent_children ?s0 = Some (Inr s1)" "core_ok s1 (orphaned s L)" "hung_up P s1 ?s0"
      "idle s1 (orphaned s L) PCB_item ?r"
    using reparent_loop [OF k0(1) f0] idleD(1) [OF r] i k0(2) unfolding g0 by blast
  note h = hung_up_fields [OF s1(3)]
  let ?s2 = "set_status ?r Zombie s1"
  have c2: "core_ok ?s2 (orphaned s L)" "idle ?s2 (orphaned s L) PCB_item ?r" using s1(2,4) by simp_all
  obtain a b where "k_append ?s2 ZombieList ?r = Inr (?r, put_list ZombieList a b ?s2)"
    by (rule core_appendE [OF c2, of ZombieList "dead s L"]) (simp, simp, simp add: dead_def orphaned_def, blast)
  moreover have "init_pcb s \<noteq> NULL" "?r \<noteq> NULL" using live_nonnull [OF c] i(1) idleD(1) [OF r] by blast+
  moreover have "running s1 = ?r" "pcb_parent (pcb ?s2 ?r) = NULL" "running ?s2 = ?r"
    using h(1,11) g0 by (simp_all add: set_status_def upd_pcb_def)
  ultimately show ?thesis
    using s1(1) g0(1,2) by (simp add: internal_exit_def Let_def)
qed

subsection \<open>Properties of exit\<close>

text \<open>
  C9: exit, when the parent is asleep in \<open>wait\<close> for the process (or for any child). The parent runs
  again at once, its call returns the pid of the process, the exit value is stored where the parent
  asked for it, the descriptors of resources and the PCB of the process are given back, and the
  lists, the family tree and the descriptors stay well formed. The list item by which the parent listed the process is not given back.
\<close>

theorem internal_exit_heir:
  assumes "core_ok s L" and "family_ok s L" and "desc_ok s L" and "timers_ok s L" and "idle s L PCB_item (running s)"
    and "init_pcb s \<in> live s PCB_item" and "init_pcb s \<noteq> running s"
    and "pcb_parent (pcb s (running s)) = par" and "parent_awaits s par" and "par \<in> set (L WaitingList)"
    and "q \<in> set (L (Children par))" and "item_pcb s q = running s"
    and "\<And>x. x \<in> live s PCB_item \<Longrightarrow> pcb_pid (pcb s x) = pcb_pid (pcb s (running s)) \<Longrightarrow> x = running s"
  shows "\<exists>s'. internal_exit s = Inr s' \<and> core_ok s' (heir_lists s L par q) \<and> family_ok s' (heir_lists s L par q) \<and>
    desc_ok s' (heir_lists s L par q) \<and> idle s' (heir_lists s L par q) PCB_item par \<and> running s' = par \<and>
    heir_lists s L par q WaitingList = remove1 par (L WaitingList) \<and> heir_lists s L par q ZombieList = L ZombieList \<and>
    pcb_syscall_retvalue (pcb s' par) = pcb_pid (pcb s (running s)) \<and>
    user_mem s' = store_result s (pcb_syscall_args (pcb s par) 1) (ucast (run_arg s 0)) \<and>
    (\<forall>p. pcb_status (pcb s' p) = (if p = par then Running else if p = running s then Zombie else pcb_status (pcb s p))) \<and>
    live s' PCB_item = live s PCB_item - {running s} \<and> live s' PCBPtr_item = live s PCBPtr_item \<and>
    live s' Descriptor_item = live s Descriptor_item - set (L (Descriptors (running s)))"
proof -
  from exit_to_parent [OF assms] obtain s' where s':
    "internal_exit s = Inr s'" "core_ok s' (heir_lists s L par q)" "family_ok s' (heir_lists s L par q)"
    "desc_ok s' (heir_lists s L par q)" "idle s' (heir_lists s L par q) PCB_item par" "running s' = par"
    "pcb_syscall_retvalue (pcb s' par) = pcb_pid (pcb s (running s))"
    "user_mem s' = store_result s (pcb_syscall_args (pcb s par) 1) (ucast (run_arg s 0))"
    "\<forall>p. pcb_status (pcb s' p) = (if p = par then Running else if p = running s then Zombie else pcb_status (pcb s p))"
    "live s' PCB_item = live s PCB_item - {running s}"
    "live s' Descriptor_item = live s Descriptor_item - set (L (Descriptors (running s)))"
    "\<forall>k. k \<notin> {PCB_item, Descriptor_item, DescriptorPtr_item} \<longrightarrow> pool_of s' k = pool_of s k" by blast
  have "live s' PCBPtr_item = live s PCBPtr_item" using s'(12) by (simp del: pool_of.simps)
  moreover have "running s \<notin> set (L ZombieList)" using idleD(3) [OF assms(5), of ZombieList] by simp
  then have "heir_lists s L par q WaitingList = remove1 par (L WaitingList)" "heir_lists s L par q ZombieList = L ZombieList"
    by (simp_all add: heir_lists_def perished_simps) (simp_all add: bereaved_def dead_def orphaned_def remove1_append)
  ultimately show ?thesis using s'(1-11) by blast
qed

text \<open>A process waits, and the ready process \<open>c\<close> runs.\<close>

lemma wait_runs_next:
  assumes c: "core_ok s L" and f: "family_ok s L" and k: "desc_ok s L" and t: "timers_ok s L"
    and r: "idle s L PCB_item (running s)" and ch: "L (Children (running s)) \<noteq> []"
    and z: "pcb_status (pcb s (item_pcb s (wait_choice s (ucast (run_arg s 0)) (L (Children (running s)))))) \<noteq> Zombie"
    and n: "L ReadyList = c # cs"
  shows "\<exists>s1. internal_wait s = Inr s1 \<and> core_ok s1 (blocked s L) \<and> family_ok s1 (blocked s L) \<and>
    desc_ok s1 (blocked s L) \<and> timers_ok s1 (blocked s L) \<and> running s1 = c \<and> idle s1 (blocked s L) PCB_item c \<and>
    quiet (s1\<lparr>running := running s\<rparr>) s \<and> (\<forall>k. pool_of s1 k = pool_of s k) \<and>
    (\<forall>q. pcb_status (pcb s1 q) = (if q = running s then Waiting else pcb_status (pcb s q)))"
proof -
  have "internal_wait s = block_in_wait s" using internal_wait_choice [OF c f idleD(1) [OF r] ch refl] z by simp
  moreover from block_next [OF c f r n] obtain s1 where
    s1: "block_in_wait s = Inr s1" "core_ok s1 (blocked s L)" "family_ok s1 (blocked s L)"
      "running s1 = c" "idle s1 (blocked s L) PCB_item c" "quiet (s1\<lparr>running := running s\<rparr>) s"
      "\<forall>k. pool_of s1 k = pool_of s k"
      "\<forall>q. pcb_status (pcb s1 q) = (if q = running s then Waiting else pcb_status (pcb s q))" by blast
  moreover have e: "descriptor s1 = descriptor s" "descriptorptr s1 = descriptorptr s" "timer_item s1 = timer_item s"
    using s1(6) by (simp_all add: quiet_def)
  have "desc_ok s1 (blocked s L)" by (rule desc_ok_cong [OF k e(1,2)]) (simp_all add: blocked_def)
  moreover have "timers_ok s1 (blocked s L)"
    using t unfolding timers_ok_def timers_sorted_def e by (auto simp: blocked_def)
  ultimately show ?thesis by (intro exI [of _ s1]) simp
qed

lemma with_call_invariants [simp]:
  "family_ok (with_call n f s) L \<longleftrightarrow> family_ok s L" "desc_ok (with_call n f s) L \<longleftrightarrow> desc_ok s L"
  "timers_ok (with_call n f s) L \<longleftrightarrow> timers_ok s L"
  by (simp_all add: timers_ok_def timers_sorted_def desc_ok_def family_ok_def del: pool_of.simps)

text \<open>
  C10: the meeting of a parent and a child. A process that waits for a child (or for any) which is not
  dead yet goes to sleep; when the child, that runs next, exits with a value, the parent is resumed:
  its \<open>wait\<close> returns the child's pid and has stored the exit value, the child is gone, and the
  parent is in no queue.
\<close>

theorem wait_exit_rendezvous:
  assumes "core_ok s L" and "family_ok s L" and "desc_ok s L" and "timers_ok s L" and "idle s L PCB_item (running s)"
    and "pcb_syscall_num (pcb s (running s)) = DSOS_CALL_WAIT"
    and "run_arg s 0 = 0 \<or> run_arg s 0 = scast (pcb_pid (pcb s c))"
    and "pcb_status (pcb s (item_pcb s (wait_choice s (ucast (run_arg s 0)) (L (Children (running s)))))) \<noteq> Zombie"
    and "q \<in> set (L (Children (running s)))" and "item_pcb s q = c" and "pcb_parent (pcb s c) = running s"
    and "L ReadyList = c # cs" and "init_pcb s \<in> live s PCB_item" and "init_pcb s \<noteq> c"
    and "\<And>x. x \<in> live s PCB_item \<Longrightarrow> pcb_pid (pcb s x) = pcb_pid (pcb s c) \<Longrightarrow> x = c"
  shows "\<exists>s1 s2 L2. internal_wait s = Inr s1 \<and> running s1 = c \<and>
    internal_exit (with_call DSOS_CALL_EXIT (\<lambda>_. v) s1) = Inr s2 \<and> running s2 = running s \<and>
    core_ok s2 L2 \<and> family_ok s2 L2 \<and> desc_ok s2 L2 \<and> idle s2 L2 PCB_item (running s) \<and>
    L2 ReadyList = cs \<and> L2 WaitingList = L WaitingList \<and>
    pcb_status (pcb s2 (running s)) = Running \<and>
    pcb_syscall_retvalue (pcb s2 (running s)) = pcb_pid (pcb s c) \<and>
    user_mem s2 = store_result s (run_arg s 1) (ucast v) \<and>
    live s2 PCB_item = live s PCB_item - {c}"
proof -
  have ch: "L (Children (running s)) \<noteq> []" using assms(9) by auto
  obtain s1 where s1: "internal_wait s = Inr s1" "core_ok s1 (blocked s L)" "family_ok s1 (blocked s L)"
      "desc_ok s1 (blocked s L)" "timers_ok s1 (blocked s L)" "running s1 = c" "idle s1 (blocked s L) PCB_item c"
      "quiet (s1\<lparr>running := running s\<rparr>) s" "\<And>k. pool_of s1 k = pool_of s k"
      "\<And>q. pcb_status (pcb s1 q) = (if q = running s then Waiting else pcb_status (pcb s q))"
    using wait_runs_next [OF assms(1-5) ch assms(8,12)] by blast
  let ?r = "running s" and ?s = "with_call DSOS_CALL_EXIT (\<lambda>_. v) s1" and ?M = "blocked s L"
  let ?H = "heir_lists ?s ?M ?r q"
  have e: "init_pcb s1 = init_pcb s" "pcbptr s1 = pcbptr s" "user_mem s1 = user_mem s"
      "pcb_pid (pcb s1 p) = pcb_pid (pcb s p)" "pcb_parent (pcb s1 p) = pcb_parent (pcb s p)"
      "pcb_syscall_num (pcb s1 p) = pcb_syscall_num (pcb s p)"
      "pcb_syscall_args (pcb s1 p) = pcb_syscall_args (pcb s p)" for p
    using s1(8) by (simp_all add: quiet_def)
  have rc: "?r \<noteq> c" using idleD(3) [OF assms(5), of ReadyList] assms(12) by auto
  have w: "?r \<in> set (?M WaitingList)" "?r \<notin> set (L WaitingList)" "?M (Children ?r) = L (Children ?r)"
    using idleD(3) [OF assms(5), of WaitingList] by (simp_all add: blocked_def)
  have inv: "core_ok ?s ?M" "family_ok ?s ?M" "desc_ok ?s ?M" "timers_ok ?s ?M" "idle ?s ?M PCB_item (running ?s)"
    using s1(2-7) by simp_all
  have init: "init_pcb ?s \<in> live ?s PCB_item" "init_pcb ?s \<noteq> running ?s"
    using assms(13,14) s1(9) [of PCB_item] by (simp_all add: e(1) s1(6) del: pool_of.simps)
  have par: "pcb_parent (pcb ?s (running ?s)) = ?r" "parent_awaits ?s ?r"
    using assms(6,7,11) rc by (simp_all add: s1(6,10) e parent_awaits_def DSOS_CALL_EXIT_def)
  have qs: "q \<in> set (?M (Children ?r))" "item_pcb ?s q = running ?s"
    using assms(9,10) w(3) by (simp_all add: e(2) s1(6))
  have "x = running ?s" if "x \<in> live ?s PCB_item" "pcb_pid (pcb ?s x) = pcb_pid (pcb ?s (running ?s))" for x
    using that assms(15) [of x] s1(9) [of PCB_item] by (simp add: e(4) s1(6) del: pool_of.simps)
  from exit_to_parent [OF inv init par w(1) qs this] obtain s2 where
    s2: "internal_exit ?s = Inr s2" "core_ok s2 ?H" "family_ok s2 ?H" "desc_ok s2 ?H" "idle s2 ?H PCB_item ?r"
      "running s2 = ?r" "pcb_syscall_retvalue (pcb s2 ?r) = pcb_pid (pcb ?s (running ?s))"
      "user_mem s2 = store_result ?s (pcb_syscall_args (pcb ?s ?r) 1) (ucast (run_arg ?s 0))"
      "\<And>p. pcb_status (pcb s2 p) = (if p = ?r then Running else if p = running ?s then Zombie else pcb_status (pcb ?s p))"
      "live s2 PCB_item = live ?s PCB_item - {running ?s}"
    by blast
  have "?H ReadyList = cs" "?H WaitingList = L WaitingList"
    using w(2) assms(12) unfolding heir_lists_def perished_simps
    by (simp_all add: bereaved_def dead_def orphaned_def blocked_def remove1_append)
  moreover have "user_mem s2 = store_result s (run_arg s 1) (ucast v)"
    using rc unfolding s2(8) with_call_simps(3) by (simp add: s1(6) e store_result_def)
  moreover have "pcb_syscall_retvalue (pcb s2 ?r) = pcb_pid (pcb s c)" using s2(7) by (simp add: s1(6) e(4))
  moreover have "live s2 PCB_item = live s PCB_item - {c}" using s2(10) s1(9) [of PCB_item] by (simp add: s1(6) del: pool_of.simps)
  moreover have "pcb_status (pcb s2 ?r) = Running" unfolding s2(9) by simp
  ultimately show ?thesis using s1(1,6) s2(1-6) by blast
qed

lemma ex_wait_family:
  "wait_choice (with_call n f ex_state) 1 [8192, 8208, 8224, 8240] = 8192" "item_pcb (with_call n f ex_state) 8192 = 4112"
  "pcb_status (pcb ex_state 4112) = Ready" "pcb_pid (pcb ex_state 4112) = 1" "pcb_parent (pcb ex_state 4112) = 4096"
  "\<And>x. x \<in> live ex_state PCB_item \<Longrightarrow> pcb_pid (pcb ex_state x) = 1 \<Longrightarrow> x = 4112"
proof -
  show "x = 4112" if "x \<in> live ex_state PCB_item" "pcb_pid (pcb ex_state x) = 1" for x
    using that unfolding ex_state_live by (auto simp: ex_mem_defs ex_pcb_def)
  show p: "item_pcb (with_call n f ex_state) 8192 = 4112" "pcb_pid (pcb ex_state 4112) = 1"
    by (simp_all add: ex_mem_defs ex_pcb_def)
  show "wait_choice (with_call n f ex_state) 1 [8192, 8208, 8224, 8240] = 8192"
    by (simp add: wait_choice_Cons awaited_def ex_mem_defs ex_pcb_def)
  show "pcb_status (pcb ex_state 4112) = Ready" "pcb_parent (pcb ex_state 4112) = 4096"
    by (simp_all add: ex_mem_defs ex_pcb_def)
qed

abbreviation ex_wait :: kernel where
  "ex_wait \<equiv> with_call DSOS_CALL_WAIT (\<lambda>i. if i = 0 then 1 else 77) ex_state"

lemma ex_wait_inv:
  "core_ok ex_wait ex_lists" "family_ok ex_wait ex_lists" "desc_ok ex_wait ex_lists" "timers_ok ex_wait ex_lists"
  "idle ex_wait ex_lists PCB_item (running ex_wait)" "ex_lists (Children (running ex_wait)) \<noteq> []"
  "pcb_status (pcb ex_wait (item_pcb ex_wait (wait_choice ex_wait (ucast (run_arg ex_wait 0)) (ex_lists (Children (running ex_wait)))))) \<noteq> Zombie"
  "ex_lists ReadyList = 4112 # []"
proof -
  have "ucast (run_arg ex_wait 0) = (1 :: cint)" by (simp only: with_call_simps(3)) simp
  moreover have "ex_lists (Children (running ex_wait)) = [8192, 8208, 8224, 8240]" by simp
  ultimately show "pcb_status (pcb ex_wait (item_pcb ex_wait (wait_choice ex_wait (ucast (run_arg ex_wait 0)) (ex_lists (Children (running ex_wait)))))) \<noteq> Zombie"
    using ex_wait_family by (simp only:) simp
qed (use ex_core ex_family ex_desc_ok ex_timers ex_running in simp_all)

theorem wait_exit_rendezvous_witness:
  "\<exists>s1 s2 L2. internal_wait ex_wait = Inr s1 \<and> internal_exit (with_call DSOS_CALL_EXIT (\<lambda>_. 42) s1) = Inr s2 \<and>
    core_ok s2 L2 \<and> running s2 = 4096 \<and> pcb_syscall_retvalue (pcb s2 4096) = 1 \<and> user_mem s2 77 = 42"
proof -
  have "run_arg ex_wait 0 = 1" "run_arg ex_wait 1 = 77" by (simp_all only: with_call_simps(3)) simp_all
  moreover have "running ex_wait = 4096" "init_pcb ex_wait = 4096" "pcb_pid (pcb ex_wait 4112) = 1"
    using ex_wait_family(4) by (simp_all only: with_call_simps ex_state_fields)
  ultimately have r: "running ex_wait = 4096" "init_pcb ex_wait = 4096" "run_arg ex_wait 0 = 1" "run_arg ex_wait 1 = 77"
    "pcb_pid (pcb ex_wait 4112) = 1" by blast+
  have n: "pcb_syscall_num (pcb ex_wait (running ex_wait)) = DSOS_CALL_WAIT"
    using with_call_simps(4) [of DSOS_CALL_WAIT "\<lambda>i. if i = 0 then 1 else 77" ex_state]
    by (simp only: with_call_simps(1))
  have a: "run_arg ex_wait 0 = 0 \<or> run_arg ex_wait 0 = scast (pcb_pid (pcb ex_wait 4112))"
    "8192 \<in> set (ex_lists (Children (running ex_wait)))" "item_pcb ex_wait 8192 = 4112"
    "pcb_parent (pcb ex_wait 4112) = running ex_wait" "init_pcb ex_wait \<in> live ex_wait PCB_item" "init_pcb ex_wait \<noteq> 4112"
    using ex_wait_family(2,5) r unfolding r(3,5) by (simp_all only: with_call_simps ex_state_live) simp_all
  have "x = 4112" if "x \<in> live ex_wait PCB_item" "pcb_pid (pcb ex_wait x) = pcb_pid (pcb ex_wait 4112)" for x
    using that ex_wait_family(4,6) by (simp only: with_call_simps)
  from wait_exit_rendezvous [OF ex_wait_inv(1-5) n a(1) ex_wait_inv(7) a(2-4) ex_wait_inv(8) a(5,6) this, of 42]
  obtain s1 s2 L2 where "internal_wait ex_wait = Inr s1" "internal_exit (with_call DSOS_CALL_EXIT (\<lambda>_. 42) s1) = Inr s2"
    "core_ok s2 L2" "running s2 = running ex_wait"
    "pcb_syscall_retvalue (pcb s2 (running ex_wait)) = pcb_pid (pcb ex_wait 4112)"
    "user_mem s2 = store_result ex_wait (run_arg ex_wait 1) (ucast (42 :: clong))"
    by blast
  note m = this [unfolded r(4,5), unfolded r(1)]
  have "user_mem s2 77 = 42" using m(6) by (simp add: store_result_def)
  with m(1-5) show ?thesis by blast
qed

theorem internal_exit_heir_witness:
  "\<exists>s1 s2. internal_wait ex_wait = Inr s1 \<and> internal_exit (with_call DSOS_CALL_EXIT (\<lambda>_. 42) s1) = Inr s2 \<and>
    4112 \<notin> live s2 PCB_item \<and> 20496 \<notin> live s2 Descriptor_item \<and> 8192 \<in> live s2 PCBPtr_item"
proof -
  obtain s1 where s1: "internal_wait ex_wait = Inr s1" "core_ok s1 (blocked ex_wait ex_lists)"
      "family_ok s1 (blocked ex_wait ex_lists)" "desc_ok s1 (blocked ex_wait ex_lists)"
      "timers_ok s1 (blocked ex_wait ex_lists)" "running s1 = 4112" "idle s1 (blocked ex_wait ex_lists) PCB_item 4112"
      "quiet (s1\<lparr>running := running ex_wait\<rparr>) ex_wait" "\<And>k. pool_of s1 k = pool_of ex_wait k"
      "\<And>q. pcb_status (pcb s1 q) = (if q = running ex_wait then Waiting else pcb_status (pcb ex_wait q))"
    using wait_runs_next [OF ex_wait_inv] by blast
  let ?s = "with_call DSOS_CALL_EXIT (\<lambda>_. 42) s1" and ?M = "blocked ex_wait ex_lists"
  have e: "init_pcb s1 = 4096" "pcbptr s1 = pcbptr ex_state"
      "pcb_pid (pcb s1 p) = pcb_pid (pcb ex_state p)" "pcb_parent (pcb s1 p) = pcb_parent (pcb ex_state p)"
      "pcb_syscall_num (pcb s1 p) = pcb_syscall_num (pcb ex_wait p)"
      "pcb_syscall_args (pcb s1 p) = pcb_syscall_args (pcb ex_wait p)" for p
    using s1(8) by (simp_all add: quiet_def)
  have lv: "live ?s k = live ex_state k" for k using s1(9) by simp
  have inv: "core_ok ?s ?M" "family_ok ?s ?M" "desc_ok ?s ?M" "timers_ok ?s ?M" "idle ?s ?M PCB_item (running ?s)"
    using s1(2-7) by simp_all
  have par: "init_pcb ?s \<in> live ?s PCB_item" "init_pcb ?s \<noteq> running ?s" "pcb_parent (pcb ?s (running ?s)) = 4096"
      "4096 \<in> set (?M WaitingList)" "8192 \<in> set (?M (Children 4096))" "item_pcb ?s 8192 = running ?s"
    using ex_wait_family(2,5) unfolding lv ex_state_live by (simp_all add: e s1(6) blocked_def)
  have "pcb_syscall_num (pcb ex_wait (running ex_state)) = DSOS_CALL_WAIT" "pcb_syscall_args (pcb ex_wait (running ex_state)) 0 = 1"
    by (rule with_call_simps(4)) (simp add: with_call_def upd_pcb_def)
  then have aw: "parent_awaits ?s 4096"
    using ex_wait_family(4) by (simp add: parent_awaits_def s1(6,10) e del: pool_of.simps)
  have "x = running ?s" if "x \<in> live ?s PCB_item" "pcb_pid (pcb ?s x) = pcb_pid (pcb ?s (running ?s))" for x
    using that ex_wait_family(4,6) unfolding lv by (simp add: s1(6) e del: pool_of.simps)
  from internal_exit_heir [OF inv par(1-3) aw par(4-6) this] obtain s2 where
    s2: "internal_exit ?s = Inr s2" "live s2 PCB_item = live ?s PCB_item - {running ?s}"
      "live s2 PCBPtr_item = live ?s PCBPtr_item"
      "live s2 Descriptor_item = live ?s Descriptor_item - set (?M (Descriptors (running ?s)))" by blast
  have "running ?s = 4112" by (simp add: s1(6))
  then have "4112 \<notin> live s2 PCB_item" "20496 \<notin> live s2 Descriptor_item" "8192 \<in> live s2 PCBPtr_item"
    unfolding s2(2-4) lv ex_state_live by (simp_all add: blocked_def)
  with s1(1) s2(1) show ?thesis by blast
qed

lemma exit_init:
  assumes "core_ok s L" and "family_ok s L" and "idle s L PCB_item (running s)"
    and "running s = init_pcb s" and "pcb_parent (pcb s (init_pcb s)) = NULL"
  shows "internal_exit s = Inl (if L (Children (init_pcb s)) = [] then NullDeref else Hang)"
proof -
  let ?r = "init_pcb s" and ?s0 = "upd_pcb (init_pcb s) (\<lambda>c. c\<lparr>pcb_return_value := ucast (pcb_syscall_args c 0)\<rparr>) s"
  have rl: "?r \<in> live s PCB_item" using idleD(1) [OF assms(3)] unfolding assms(4) .
  have n: "?r \<noteq> NULL" by (rule live_nonnull [OF assms(1) rl])
  have c0: "core_ok ?s0 L" "idle ?s0 L PCB_item ?r" using assms(1,3,4) by simp_all
  have g0: "running ?s0 = ?r" "init_pcb ?s0 = ?r" "pcb_parent (pcb ?s0 ?r) = NULL" "live ?s0 PCB_item = live s PCB_item"
    using assms(4,5) by (simp_all add: upd_pcb_def)
  have f0: "family_ok ?s0 L" by (rule family_ok_cong [OF assms(2)]) (simp_all add: upd_pcb_def split: if_splits)
  show ?thesis
  proof (cases "L (Children ?r) = []")
    case False
    have "init_pcb ?s0 \<in> live ?s0 PCB_item" "running ?s0 = init_pcb ?s0" "L (Children (init_pcb ?s0)) \<noteq> []"
      unfolding g0 using rl False by blast+
    from reparent_init [OF c0(1) f0 this] have "reparent_children ?s0 = None" .
    then show ?thesis using False n assms(4) g0 by (simp add: internal_exit_def Let_def run_loopE_def)
  next
    case True
    have "k_first ?s0 (Children ?r) = NULL"
      using core_first_null [OF c0(1), of "Children ?r"] True rl unfolding owned_heads g0(4) by blast
    then have h: "reparent_children ?s0 = Some (Inr ?s0)"
      using g0 by (simp add: reparent_children.simps [of ?s0])
    let ?s1 = "set_status ?r Zombie ?s0" and ?L2 = "L(ZombieList := L ZombieList @ [?r])"
    have c1: "core_ok ?s1 L" "idle ?s1 L PCB_item ?r" using c0 by simp_all
    obtain a b where "k_append ?s1 ZombieList ?r = Inr (?r, put_list ZombieList a b ?s1)"
      by (rule core_appendE [OF c1, of ZombieList ?L2]) (simp, simp, simp, blast)
    then show ?thesis
      using h True n assms(4) g0 by (simp add: internal_exit_def Let_def run_loopE_def) (simp add: set_status_def upd_pcb_def)
  qed
qed

text \<open>
  C29: init cannot exit. With children it gives them to itself for ever; without, the null parent is
  dereferenced.
\<close>

theorem internal_exit_init:
  assumes "core_ok s L" and "family_ok s L" and "idle s L PCB_item (running s)"
    and "running s = init_pcb s" and "pcb_parent (pcb s (init_pcb s)) = NULL"
  shows "internal_exit s = Inl (if L (Children (init_pcb s)) = [] then NullDeref else Hang)"
  using assms by (rule exit_init)

theorem internal_exit_init_witness: "internal_exit (ex_call 0) = Inl Hang"
proof -
  have a: "idle (ex_call 0) ex_lists PCB_item (running (ex_call 0))" "running (ex_call 0) = init_pcb (ex_call 0)"
      "core_ok (ex_call 0) ex_lists" "pcb_parent (pcb (ex_call 0) (init_pcb (ex_call 0))) = NULL"
      "ex_lists (Children (init_pcb (ex_call 0))) \<noteq> []"
    using ex_running ex_core by (simp_all, simp add: ex_args_def upd_pcb_def ex_mem_defs ex_pcb_def)
  from internal_exit_init [OF a(3) ex_args_family a(1,2,4)] a(5) show ?thesis by simp
qed

end
