(* ===== verification/Kernel_Trap.thy ===== *)
theory Kernel_Trap
  imports Kernel Semaphore_Open Process_Exit
begin

text \<open>
  Properties of the system call mechanism: the dispatch table as \<open>disastrOS_start\<close> fills it, the call
  registers, and what the trap does for every call number.
\<close>

subsection \<open>Dispatch\<close>

text \<open>The tables as \<open>disastrOS_start\<close> leaves them.\<close>

definition booted :: "kernel \<Rightarrow> bool" where
  "booted s \<longleftrightarrow> (syscall_vector s, syscall_numarg s) =
     fill_table syscall_table (replicate (nat (sint DSOS_MAX_SYSCALLS)) None, replicate (nat (sint DSOS_MAX_SYSCALLS)) 0)"

text \<open>The call registers of the running process at the trap.\<close>

definition entered :: "cint \<Rightarrow> clong list \<Rightarrow> kernel \<Rightarrow> kernel" where
  "entered n args s = upd_pcb (running s) (\<lambda>c. c\<lparr>pcb_syscall_args := (\<lambda>i. if i < length args then args ! i
     else pcb_syscall_args c i), pcb_syscall_num := n, pcb_cpu_state := SavedContext\<rparr>) s"

lemma booted_vector:
  assumes "booted s"
  shows "length (syscall_vector s) = 32" "length (syscall_numarg s) = 32"
    "j < 32 \<Longrightarrow> syscall_vector s ! j = map_of (map (\<lambda>(n, h, k). (nat (sint n), h)) syscall_table) j"
    "j < 32 \<Longrightarrow> syscall_numarg s ! j = (case map_of (map (\<lambda>(n, h, k). (nat (sint n), k)) syscall_table) j of None \<Rightarrow> 0 | Some k \<Rightarrow> k)"
  using assms unfolding booted_def
  by (simp_all add: syscall_table_def syscall_numbers nth_list_update)

lemma copy_args_done:
  assumes "length args = n" and "j + n \<le> DSOS_MAX_SYSCALLS_ARGS"
  shows "copy_args j n args regs = Inr (\<lambda>i. if j \<le> i \<and> i < j + n then args ! (i - j) else regs i)"
  using assms
proof (induction n arbitrary: j args regs)
  case 0
  then show ?case by (auto simp: fun_eq_iff)
next
  case (Suc n)
  then obtain a as where a: "args = a # as" "length as = n" by (cases args) auto
  have "(if Suc j \<le> i \<and> i < Suc j + n then as ! (i - Suc j) else (regs(j := a)) i) =
      (if j \<le> i \<and> i < j + Suc n then args ! (i - j) else regs i)" for i
    using a by (cases "i = j") (auto simp: nth_Cons' Suc_diff_Suc)
  moreover have "copy_args (Suc j) n as (regs(j := a)) =
      Inr (\<lambda>i. if Suc j \<le> i \<and> i < Suc j + n then as ! (i - Suc j) else (regs(j := a)) i)"
    using Suc a by (intro Suc.IH) simp_all
  ultimately show ?case using Suc.prems a by (simp del: fun_upd_apply)
qed

text \<open>What the trap returns to after the handler of a system call.\<close>

definition after_handler :: "handler \<Rightarrow> kernel \<Rightarrow> (syscall_outcome \<times> kernel) result" where
  "after_handler h s = Inr (Trapped (if h = internal_shutdown_h \<or> running s = NULL then ReturnToMain
     else ResumeProcess (running s)), s)"

lemma entered_simps:
  "running (entered n args s) = running s" "syscall_vector (entered n args s) = syscall_vector s"
  "pcb_syscall_num (pcb (entered n args s) (running s)) = n"
  by (simp_all add: entered_def upd_pcb_def)

lemma syscall_enters:
  assumes "booted s" and "running s \<noteq> NULL" and "0 \<le> sint n" and "sint n < 32"
    and "length args = nat (sint (syscall_numarg s ! nat (sint n)))" and "length args \<le> DSOS_MAX_SYSCALLS_ARGS"
  shows "disastrOS_syscall s n args = (case syscall_vector s ! nat (sint n) of
      None \<Rightarrow> Inr (Trapped (ResumeProcess (running s)),
        set_retvalue (running s) DSOS_ESYSCALL_NOT_IMPLEMENTED (entered n args s))
    | Some h \<Rightarrow> bindE (call_handler h (entered n args s)) (after_handler h))"
proof -
  have "copy_args 0 (length args) args (pcb_syscall_args (pcb s (running s))) =
      Inr (\<lambda>i. if i < length args then args ! i else pcb_syscall_args (pcb s (running s)) i)"
    using copy_args_done [OF refl, of 0 args "pcb_syscall_args (pcb s (running s))"] assms(6)
    by (simp cong: if_cong)
  moreover have "upd_pcb (running s) (\<lambda>c. c\<lparr>pcb_syscall_args :=
        (\<lambda>i. if i < length args then args ! i else pcb_syscall_args (pcb s (running s)) i),
        pcb_syscall_num := n, pcb_cpu_state := SavedContext\<rparr>) s = entered n args s"
    by (simp add: entered_def upd_pcb_def ar_upd_def)
  moreover have "\<not> (n <s 0 \<or> DSOS_MAX_SYSCALLS <s n)"
    using assms(3,4) by (simp add: word_sless_alt DSOS_MAX_SYSCALLS_def)
  ultimately have "disastrOS_syscall s n args = bindE (disastrOS_trap (entered n args s)) (\<lambda>(r, s). Inr (Trapped r, s))"
    using assms(2-5) booted_vector(2) [OF assms(1)] by (simp add: disastrOS_syscall_def arr_get_def)
  also have "\<dots> = (case syscall_vector s ! nat (sint n) of
      None \<Rightarrow> Inr (Trapped (ResumeProcess (running s)),
        set_retvalue (running s) DSOS_ESYSCALL_NOT_IMPLEMENTED (entered n args s))
    | Some h \<Rightarrow> bindE (call_handler h (entered n args s)) (after_handler h))"
    using assms(2-4) booted_vector(1) [OF assms(1)] \<open>\<not> (n <s 0 \<or> DSOS_MAX_SYSCALLS <s n)\<close>
    by (cases "syscall_vector s ! nat (sint n)")
      (simp_all add: disastrOS_trap_def entered_simps arr_get_def Let_def bindE_def after_handler_def split: sum.split option.split)
  finally show ?thesis .
qed

text \<open>
  C28: the system call mechanism of a started system. A call whose number has an entry in the
  dispatch table, with the number of arguments of the entry, stores them in the registers of the
  caller, runs the handler of the entry and then resumes the running process, or the main context
  when there is none or on shutdown. A number below 0 or above 32 is refused without a trap; 32,
  which the range test lets through, reads behind the table; every other number only sets the
  return value \<open>DSOS_ESYSCALL_NOT_IMPLEMENTED\<close>.
\<close>

theorem syscall_dispatch:
  assumes "booted s" and "running s \<noteq> NULL"
  shows "((n, h, k) \<in> set syscall_table \<longrightarrow> length args = nat (sint k) \<longrightarrow>
      disastrOS_syscall s n args = bindE (call_handler h (entered n args s)) (after_handler h)) \<and>
    (sint n < 0 \<or> 32 < sint n \<longrightarrow> disastrOS_syscall s n args = Inr (Returned DSOS_ESYSCALL_OUT_OF_RANGE, s)) \<and>
    (sint n = 32 \<longrightarrow> disastrOS_syscall s n args = Inl OutOfBounds) \<and>
    (sint n \<in> {0..31} \<longrightarrow> n \<notin> fst ` set syscall_table \<longrightarrow> args = [] \<longrightarrow>
      disastrOS_syscall s n args = Inr (Trapped (ResumeProcess (running s)),
        set_retvalue (running s) DSOS_ESYSCALL_NOT_IMPLEMENTED (entered n [] s)))"
proof (intro conjI impI)
  note vec = booted_vector [OF assms(1)]
  show "disastrOS_syscall s n args = bindE (call_handler h (entered n args s)) (after_handler h)"
    if "(n, h, k) \<in> set syscall_table" "length args = nat (sint k)"
  proof -
    have "0 \<le> sint n \<and> sint n < 32 \<and> syscall_vector s ! nat (sint n) = Some h \<and> syscall_numarg s ! nat (sint n) = k \<and>
        nat (sint k) \<le> DSOS_MAX_SYSCALLS_ARGS"
      using that(1) vec(3,4)
      by (auto simp: syscall_table_def syscall_numbers DSOS_MAX_SYSCALLS_ARGS_def)
    then show ?thesis using syscall_enters [OF assms, of n args] that(2) by simp
  qed
  show "disastrOS_syscall s n args = Inr (Returned DSOS_ESYSCALL_OUT_OF_RANGE, s)" if "sint n < 0 \<or> 32 < sint n"
    using that assms(2) by (simp add: disastrOS_syscall_def word_sless_alt DSOS_MAX_SYSCALLS_def)
  show "disastrOS_syscall s n args = Inl OutOfBounds" if "sint n = 32"
    using that assms(2) vec(2) by (simp add: disastrOS_syscall_def word_sless_alt DSOS_MAX_SYSCALLS_def arr_get_def)
  show "disastrOS_syscall s n args = Inr (Trapped (ResumeProcess (running s)),
      set_retvalue (running s) DSOS_ESYSCALL_NOT_IMPLEMENTED (entered n [] s))"
    if "sint n \<in> {0..31}" "n \<notin> fst ` set syscall_table" "args = []"
  proof -
    have num: "m = n" if "nat (sint m) = nat (sint n)" "0 \<le> sint m" for m :: cint
      using that \<open>sint n \<in> {0..31}\<close> by (auto simp: eq_nat_nat_iff dest: signed_word_eqI)
    have "0 \<le> sint m" if "(m, e) \<in> set syscall_table" for m e
      using that by (auto simp: syscall_table_def syscall_numbers)
    then have "nat (sint n) \<notin> (\<lambda>e. nat (sint (fst e))) ` set syscall_table"
      using that(2) num by force
    then have "map_of (map (\<lambda>(n, h, k). (nat (sint n), h)) syscall_table) (nat (sint n)) = None"
      "map_of (map (\<lambda>(n, h, k). (nat (sint n), k)) syscall_table) (nat (sint n)) = None"
      by (force simp: map_of_eq_None_iff)+
    then show ?thesis
      using syscall_enters [OF assms, of n "[]"] that(1,3) vec(3,4) [of "nat (sint n)"] by simp
  qed
qed

text \<open>The example system with the dispatch tables in place.\<close>

definition ex_booted :: kernel where
  "ex_booted = (let (vec, numarg) = fill_table syscall_table (replicate 32 None, replicate 32 0) in
     ex_state\<lparr>syscall_vector := vec, syscall_numarg := numarg\<rparr>)"

lemma ex_booted: "booted ex_booted" "running ex_booted = 4096"
  by (simp_all add: booted_def ex_booted_def DSOS_MAX_SYSCALLS_def split: prod.splits)

theorem syscall_dispatch_witness:
  "disastrOS_syscall ex_booted DSOS_CALL_SEMWAIT [1] =
      bindE (call_handler internal_semWait_h (entered DSOS_CALL_SEMWAIT [1] ex_booted)) (after_handler internal_semWait_h) \<and>
    disastrOS_syscall ex_booted (- 1) [] = Inr (Returned DSOS_ESYSCALL_OUT_OF_RANGE, ex_booted) \<and>
    disastrOS_syscall ex_booted 32 [] = Inl OutOfBounds"
proof -
  have r: "running ex_booted \<noteq> NULL" by (simp add: ex_booted)
  have "(DSOS_CALL_SEMWAIT, internal_semWait_h, 1) \<in> set syscall_table" by (simp add: syscall_table_def)
  then have "disastrOS_syscall ex_booted DSOS_CALL_SEMWAIT [1] =
      bindE (call_handler internal_semWait_h (entered DSOS_CALL_SEMWAIT [1] ex_booted)) (after_handler internal_semWait_h)"
    using syscall_dispatch [OF ex_booted(1) r, of DSOS_CALL_SEMWAIT internal_semWait_h 1 "[1]"] by simp
  moreover have "disastrOS_syscall ex_booted (- 1) [] = Inr (Returned DSOS_ESYSCALL_OUT_OF_RANGE, ex_booted)"
    using syscall_dispatch [OF ex_booted(1) r, of "- 1" internal_semWait_h 1 "[]"] by simp
  moreover have "disastrOS_syscall ex_booted 32 [] = Inl OutOfBounds"
    using syscall_dispatch [OF ex_booted(1) r, of 32 internal_semWait_h 1 "[]"] by simp
  ultimately show ?thesis by blast
qed

end
