(* ===== verification/Kernel_Safe.thy ===== *)
theory Kernel_Safe
  imports Kernel_Frame Kernel_Trap
begin

text \<open>
  The invariant of the whole kernel and its preservation by every handler: pools and lists, the
  family tree with its process ids, the queues and the timers, the descriptors of resources and the
  semaphores. It is kept by every call but two kinds: a wait on a semaphore that is not free, and the
  creation of a semaphore with a negative count.
\<close>

subsection \<open>The invariant\<close>

text \<open>
  Process ids are given out once; no process is its own parent; init is there and has no parent. (A
  recorded parent may well be a block that is no longer in use.)
\<close>

definition lineage_ok :: "kernel \<Rightarrow> bool" where
  "lineage_ok s \<longleftrightarrow>
     (\<forall>p\<in>live s PCB_item. pcb_parent (pcb s p) \<noteq> p \<and> sint (pcb_pid (pcb s p)) < sint (last_pid s)) \<and>
     (\<forall>p\<in>live s PCB_item. \<forall>q\<in>live s PCB_item. pcb_pid (pcb s p) = pcb_pid (pcb s q) \<longrightarrow> p = q) \<and>
     init_pcb s \<in> live s PCB_item \<and> pcb_parent (pcb s (init_pcb s)) = NULL"

text \<open>
  Processes with the status \<open>Waiting\<close> are in the waiting list, no ready process is a zombie, the
  timers belong to processes whose call was sleep, and the timer of a process is never set.
\<close>

definition sched_ok :: "kernel \<Rightarrow> (list_loc \<Rightarrow> ptr list) \<Rightarrow> bool" where
  "sched_ok s L \<longleftrightarrow> timers_ok s L \<and>
     (\<forall>p. pcb_status (pcb s p) = Waiting \<longrightarrow> p \<in> set (L WaitingList)) \<and>
     (\<forall>p\<in>set (L ReadyList). pcb_status (pcb s p) \<noteq> Zombie) \<and>
     (\<forall>t\<in>set (L TimerList). pcb_syscall_num (pcb s (timer_pcb s t)) = DSOS_CALL_SLEEP) \<and>
     (\<forall>p. pcb_timer (pcb s p) = NULL) \<and> pcb_status (pcb s (init_pcb s)) \<noteq> Zombie"

text \<open>Nobody is queued at a semaphore, and no count is negative.\<close>

definition sems_free :: "kernel \<Rightarrow> (list_loc \<Rightarrow> ptr list) \<Rightarrow> bool" where
  "sems_free s L \<longleftrightarrow> sem_ok s L \<and> (\<forall>m. L (SemWaiting m) = []) \<and> (\<forall>m. 0 \<le> sint (sem_count (semaphore s m)))"

definition kernel_inv :: "kernel \<Rightarrow> (list_loc \<Rightarrow> ptr list) \<Rightarrow> bool" where
  "kernel_inv s L \<longleftrightarrow> core_ok s L \<and> lineage_ok s \<and> family_ok s L \<and> sched_ok s L \<and> desc_ok s L \<and>
     sems_free s L \<and> booted s"

definition sys_ok :: "kernel \<Rightarrow> bool" where
  "sys_ok s \<longleftrightarrow> (\<exists>L. kernel_inv s L \<and> (running s \<noteq> NULL \<longrightarrow> idle s L PCB_item (running s)))"

lemma kernel_invD:
  assumes "kernel_inv s L"
  shows "core_ok s L" "lineage_ok s" "family_ok s L" "sched_ok s L" "desc_ok s L" "sems_free s L" "booted s"
    "timers_ok s L" "sem_ok s L"
  using assms by (simp_all add: kernel_inv_def sched_ok_def sems_free_def)

lemma sys_okI: "kernel_inv s L \<Longrightarrow> idle s L PCB_item (running s) \<Longrightarrow> sys_ok s"
  by (auto simp: sys_ok_def)

subsection \<open>What is kept with the parts of the state\<close>

fun part_of :: "list_loc \<Rightarrow> part" where
  "part_of ReadyList = SchedPart"
| "part_of WaitingList = SchedPart"
| "part_of TimerList = TimerPart"
| "part_of ZombieList = ProcPart"
| "part_of (Children p) = ProcPart"
| "part_of ResourcesList = DescPart"
| "part_of (Descriptors p) = DescPart"
| "part_of (ResDescriptors r) = DescPart"
| "part_of SemaphoresList = SemPart"
| "part_of (SemDescriptors p) = SemPart"
| "part_of (SemDescs m) = SemPart"
| "part_of (SemWaiting m) = SemPart"

definition agree :: "part set \<Rightarrow> (list_loc \<Rightarrow> ptr list) \<Rightarrow> (list_loc \<Rightarrow> ptr list) \<Rightarrow> bool" where
  "agree A L' L \<longleftrightarrow> (\<forall>l. part_of l \<in> A \<longrightarrow> L' l = L l)"

lemma agreeD: "agree A L' L \<Longrightarrow> part_of l \<in> A \<Longrightarrow> L' l = L l"
  by (simp add: agree_def)

lemma agree_refl [simp]: "agree A L L"
  by (simp add: agree_def)

lemma keepsD:
  assumes "keeps A s' s"
  shows "syscall_vector s' = syscall_vector s" "syscall_numarg s' = syscall_numarg s" "init_pcb s' = init_pcb s"
    "shutdown_now s' = shutdown_now s" "pcb_syscall_num (pcb s' p) = pcb_syscall_num (pcb s p)"
    "(\<And>p. pcb_timer (pcb s p) = NULL) \<Longrightarrow> pcb_timer (pcb s' p) = NULL"
    "IdPart \<in> A \<Longrightarrow> last_pid s' = last_pid s" "IdPart \<in> A \<Longrightarrow> pcbptr s' = pcbptr s"
    "ProcPart \<in> A \<Longrightarrow> live s' PCB_item = live s PCB_item"
    "IdPart \<in> A \<Longrightarrow> pcb_pid (pcb s' p) = pcb_pid (pcb s p)"
    "IdPart \<in> A \<Longrightarrow> pcb_parent (pcb s' p) = pcb_parent (pcb s p)"
    "SchedPart \<in> A \<Longrightarrow> running s' = running s" "TimerPart \<in> A \<Longrightarrow> timer_item s' = timer_item s"
    "SchedPart \<in> A \<Longrightarrow> pcb_status (pcb s' p) = pcb_status (pcb s p)"
    "DescPart \<in> A \<Longrightarrow> descriptor s' = descriptor s" "DescPart \<in> A \<Longrightarrow> descriptorptr s' = descriptorptr s"
    "SemPart \<in> A \<Longrightarrow> semdescriptor s' = semdescriptor s" "SemPart \<in> A \<Longrightarrow> semdescriptorptr s' = semdescriptorptr s"
    "SemPart \<in> A \<Longrightarrow> sem_count (semaphore s' m) = sem_count (semaphore s m)"
  using assms by (simp_all add: keeps_def)

lemma lineage_less:
  assumes "lineage_ok s" and k: "keeps A s' s" "IdPart \<in> A"
    and "live s' PCB_item \<subseteq> live s PCB_item" and "init_pcb s \<in> live s' PCB_item"
  shows "lineage_ok s'"
  using assms(1,4,5) unfolding lineage_ok_def keepsD(3) [OF k(1)] keepsD(7,10,11) [OF k] by blast

lemma lineage_keeps:
  assumes i: "lineage_ok s" and k: "keeps A s' s" "IdPart \<in> A" "ProcPart \<in> A"
  shows "lineage_ok s'"
proof (rule lineage_less [OF i k(1,2)])
  show "live s' PCB_item \<subseteq> live s PCB_item" unfolding keepsD(9) [OF k(1,3)] by (rule order.refl)
  show "init_pcb s \<in> live s' PCB_item" using i unfolding keepsD(9) [OF k(1,3)] lineage_ok_def by blast
qed

lemma family_keeps:
  assumes "family_ok s L" and k: "keeps A s' s" "IdPart \<in> A" "ProcPart \<in> A" and "agree A L' L"
    and "\<And>p. pcb_status (pcb s' p) = Zombie \<Longrightarrow> pcb_status (pcb s p) = Zombie"
  shows "family_ok s' L'"
proof -
  have "L' ZombieList = L ZombieList" "L' (Children p) = L (Children p)" for p
    using k(3) by (auto intro: agreeD [OF assms(5)])
  then show ?thesis
    using keepsD(8) [OF k(1,2)] keepsD(9) [OF k(1,3)] assms(6) by (intro family_ok_cong [OF assms(1)]) simp_all
qed

text \<open>Only the statuses have to be looked at when the calls and the timers are as they were.\<close>

lemma sched_statuses:
  assumes i: "sched_ok s L" and k: "keeps A s' s" "TimerPart \<in> A" and "timers_ok s' L'"
    and "set (L' TimerList) \<subseteq> set (L TimerList)"
    and "\<And>p. pcb_status (pcb s' p) = Waiting \<Longrightarrow> p \<in> set (L' WaitingList)"
    and "\<And>p. p \<in> set (L' ReadyList) \<Longrightarrow> pcb_status (pcb s' p) \<noteq> Zombie"
    and "pcb_status (pcb s' (init_pcb s)) \<noteq> Zombie"
  shows "sched_ok s' L'"
  unfolding sched_ok_def
proof (intro conjI allI impI ballI assms(4))
  show "pcb_syscall_num (pcb s' (timer_pcb s' t)) = DSOS_CALL_SLEEP" if "t \<in> set (L' TimerList)" for t
    using that i assms(5) by (auto simp: sched_ok_def keepsD(13) [OF k] keepsD(5) [OF k(1)])
  show "pcb_timer (pcb s' p) = NULL" for p
    using i by (intro keepsD(6) [OF k(1)]) (simp add: sched_ok_def)
qed (use assms(6-8) in \<open>simp_all add: keepsD(3) [OF k(1)]\<close>)

lemma sched_keeps:
  assumes i: "sched_ok s L" and k: "keeps A s' s" "SchedPart \<in> A" "TimerPart \<in> A" and "agree A L' L"
  shows "sched_ok s' L'"
proof -
  have l: "L' WaitingList = L WaitingList" "L' ReadyList = L ReadyList" "L' TimerList = L TimerList"
    using k(2,3) by (auto intro: agreeD [OF assms(5)])
  have "timers_ok s' L'"
    using i keepsD(13) [OF k(1,3)] l by (simp add: sched_ok_def timers_ok_def timers_sorted_def)
  with i show ?thesis
    by (intro sched_statuses [OF i k(1,3)]) (simp_all add: l sched_ok_def keepsD(14) [OF k(1,2)])
qed

lemma desc_keeps:
  assumes "desc_ok s L" and k: "keeps A s' s" "DescPart \<in> A" and "agree A L' L"
  shows "desc_ok s' L'"
proof -
  have "L' ResourcesList = L ResourcesList" "L' (Descriptors p) = L (Descriptors p)"
    "L' (ResDescriptors p) = L (ResDescriptors p)" for p
    using k(2) by (auto intro: agreeD [OF assms(4)])
  then show ?thesis using keepsD(15,16) [OF k] by (intro desc_ok_cong [OF assms(1)]) simp_all
qed

lemma sems_keeps:
  assumes "sems_free s L" and k: "keeps A s' s" "SemPart \<in> A" and "agree A L' L"
  shows "sems_free s' L'"
proof -
  have "L' SemaphoresList = L SemaphoresList" "L' (SemDescriptors p) = L (SemDescriptors p)"
    "L' (SemDescs p) = L (SemDescs p)" "L' (SemWaiting p) = L (SemWaiting p)" for p
    using k(2) by (auto intro: agreeD [OF assms(4)])
  then show ?thesis using assms(1) keepsD(17,18,19) [OF k] unfolding sems_free_def sem_ok_def by simp
qed

lemma booted_keeps: "booted s \<Longrightarrow> keeps A s' s \<Longrightarrow> booted s'"
  by (simp add: booted_def keepsD(1,2))

text \<open>
  The invariant after an operation: only the parts it touched have to be shown.
\<close>

lemma inv_transfer:
  assumes i: "kernel_inv s L" and k: "keeps A s' s" and a: "agree A L' L" and c: "core_ok s' L'"
    and "IdPart \<notin> A \<or> ProcPart \<notin> A \<Longrightarrow> lineage_ok s'"
    and "IdPart \<notin> A \<or> ProcPart \<notin> A \<or> SchedPart \<notin> A \<Longrightarrow> family_ok s' L'"
    and "SchedPart \<notin> A \<or> TimerPart \<notin> A \<Longrightarrow> sched_ok s' L'" and "DescPart \<notin> A \<Longrightarrow> desc_ok s' L'"
    and "SemPart \<notin> A \<Longrightarrow> sems_free s' L'"
  shows "kernel_inv s' L'"
  unfolding kernel_inv_def
proof (intro conjI c)
  note inv = kernel_invD [OF i]
  show "lineage_ok s'" using lineage_keeps [OF inv(2) k] assms(5) by blast
  show "family_ok s' L'"
    using family_keeps [OF inv(3) k _ _ a] keepsD(14) [OF k] assms(6) by (cases "SchedPart \<in> A") auto
  show "sched_ok s' L'" using sched_keeps [OF inv(4) k _ _ a] assms(7) by blast
  show "desc_ok s' L'" using desc_keeps [OF inv(5) k _ a] assms(8) by blast
  show "sems_free s' L'" using sems_keeps [OF inv(6) k _ a] assms(9) by blast
  show "booted s'" by (rule booted_keeps [OF inv(7) k])
qed

lemma inv_keeps:
  "kernel_inv s L \<Longrightarrow> keeps (- {ContextPart}) s' s \<Longrightarrow> core_ok s' L \<Longrightarrow> kernel_inv s' L"
  by (rule inv_transfer [OF _ _ agree_refl]) (assumption | simp)+

lemma keeps_retvalue: "keeps (- {ContextPart}) (set_retvalue p v s) s"
  by (intro frame keeps_refl)

lemma inv_retvalue:
  assumes "kernel_inv s L" and "idle s L PCB_item (running s)"
  shows "sys_ok (set_retvalue p v s)"
proof (rule sys_okI)
  show "kernel_inv (set_retvalue p v s) L"
    using kernel_invD(1) [OF assms(1)] by (intro inv_keeps [OF assms(1) keeps_retvalue]) simp
  show "idle (set_retvalue p v s) L PCB_item (running (set_retvalue p v s))"
    using assms(2) by simp
qed

subsection \<open>Scheduling\<close>

lemma gives_keeps: "gives (\<lambda>u. keeps A u s) m \<Longrightarrow> m = Inr s' \<Longrightarrow> keeps A s' s"
  by (simp add: gives_def)

lemma agree_scheduled: "agree {IdPart, ProcPart, DescPart, SemPart} (scheduled s L) L"
  unfolding agree_def
proof (intro allI impI)
  fix l
  assume "part_of l \<in> {IdPart, ProcPart, DescPart, SemPart}"
  then show "scheduled s L l = L l" by (cases l) (simp_all add: scheduled_def awake_def)
qed

lemma schedule_inv:
  assumes i: "kernel_inv s L" and r: "idle s L PCB_item (running s)" and e: "internal_schedule s = Inr s'"
  shows "kernel_inv s' (scheduled s L)" and "idle s' (scheduled s L) PCB_item (running s')"
proof -
  note inv = kernel_invD [OF i]
  let ?L = "scheduled s L" and ?n = "next_order s L"
  have w: "pcb_status (pcb s (running s)) \<noteq> Waiting"
    using inv(4) idleD(3) [OF r, of WaitingList] by (auto simp: sched_ok_def)
  have "internal_schedule s = Inr s' \<and> core_ok s' ?L \<and> timers_ok s' ?L \<and>
      running s' = hd ?n \<and> idle s' ?L PCB_item (running s') \<and> quiet (s'\<lparr>running := running s\<rparr>) s \<and>
      (\<forall>q. pcb_status (pcb s' q) =
        (if q \<in> set (tl ?n) \<and> (q = running s \<or> q \<in> set (due_procs s L)) then Ready
         else if q = running s' \<and> running s' \<noteq> running s then Running else pcb_status (pcb s q)))"
    using internal_schedule_total [OF inv(1,8) r] e by auto
  then have s': "core_ok s' ?L" "timers_ok s' ?L" "running s' = hd ?n" "idle s' ?L PCB_item (running s')"
      "quiet (s'\<lparr>running := running s\<rparr>) s"
    and st: "pcb_status (pcb s' q) = (if q \<in> set (tl ?n) \<and> (q = running s \<or> q \<in> set (due_procs s L)) then Ready
         else if q = running s' \<and> running s' \<noteq> running s then Running else pcb_status (pcb s q))" for q
    by blast+
  have k: "keeps (- {SchedPart}) s' s"
    by (rule gives_keeps [OF keeps_schedule e]) (simp_all add: keeps_refl)
  have k1: "keeps {IdPart, ProcPart, DescPart, SemPart} s' s" using k by (simp add: keeps_def)
  have so: "sched_ok s' ?L"
  proof (rule sched_statuses [OF inv(4) k _ s'(2)])
    show "set (?L TimerList) \<subseteq> set (L TimerList)" by (auto simp: scheduled_def awake_def dest: set_dropWhileD)
    fix p
    assume wp: "pcb_status (pcb s' p) = Waiting"
    then have "pcb_status (pcb s p) = Waiting" using st [of p] by (auto split: if_splits)
    then have p: "p \<in> set (L WaitingList)" "p \<noteq> running s" using inv(4) w by (auto simp: sched_ok_def)
    moreover have "p \<notin> set (due_procs s L)"
    proof
      assume d: "p \<in> set (due_procs s L)"
      then have "p \<in> set ?n" by (auto simp: next_order_def)
      then have "p = running s' \<or> p \<in> set (tl ?n)" unfolding s'(3) by (cases ?n) auto
      with d p(2) wp st [of p] show False by (auto split: if_splits)
    qed
    ultimately show "p \<in> set (?L WaitingList)" by (simp add: scheduled_def awake_def)
  next
    fix p
    assume "p \<in> set (?L ReadyList)"
    then have p: "p \<in> set (tl ?n)" by (simp add: scheduled_def awake_def)
    then have "p \<in> set ?n" by (cases ?n) auto
    then have "p = running s \<or> p \<in> set (due_procs s L) \<or> p \<in> set (L ReadyList)" by (auto simp: next_order_def)
    with p inv(4) show "pcb_status (pcb s' p) \<noteq> Zombie" using st [of p] by (auto simp: sched_ok_def)
  next
    show "pcb_status (pcb s' (init_pcb s)) \<noteq> Zombie"
      using inv(4) st [of "init_pcb s"] by (auto simp: sched_ok_def)
  qed simp
  have fo: "family_ok s' ?L"
    using st by (intro family_keeps [OF inv(3) k1 _ _ agree_scheduled]) (auto split: if_splits)
  show "kernel_inv s' ?L"
    using so fo by (intro inv_transfer [OF i k1 agree_scheduled s'(1)]) simp_all
  show "idle s' ?L PCB_item (running s')" by (rule s'(4))
qed

lemma preempt_inv:
  assumes "kernel_inv s L" and "idle s L PCB_item (running s)" and "internal_preempt s = Inr s'"
  shows "sys_ok s'"
  using schedule_inv [OF assms(1,2)] assms(3) unfolding internal_preempt_def by (blast intro: sys_okI)

lemma tick_inv:
  assumes i: "kernel_inv s L" and r: "idle s L PCB_item (running s)" and e: "timerHandler s = Inr s'"
  shows "sys_ok s'" and "running s' \<noteq> NULL"
proof -
  let ?s = "(upd_pcb (running s) (\<lambda>c. c\<lparr>pcb_cpu_state := SavedContext\<rparr>) s)\<lparr>disastrOS_time :=
    disastrOS_time (upd_pcb (running s) (\<lambda>c. c\<lparr>pcb_cpu_state := SavedContext\<rparr>) s) + 1\<rparr>"
  have "keeps (- {ContextPart}) ?s s" by (intro frame keeps_refl) simp
  then have "kernel_inv ?s L" using kernel_invD(1) [OF i] by (intro inv_keeps [OF i]) simp_all
  moreover have "running ?s = running s" by (simp add: upd_pcb_def)
  then have "idle ?s L PCB_item (running ?s)" using r by simp
  moreover have "internal_schedule ?s = Inr s'" "running s' \<noteq> NULL"
    using e by (auto simp: timerHandler_def timerInterrupt_def bindE_Inr_iff check_Inr_iff)
  ultimately show "sys_ok s'" "running s' \<noteq> NULL" using schedule_inv [of ?s L s'] by (blast intro: sys_okI)+
qed

lemma tick_total:
  assumes i: "kernel_inv s L" and r: "idle s L PCB_item (running s)"
  shows "\<exists>s'. timerHandler s = Inr s'"
proof -
  let ?s = "(upd_pcb (running s) (\<lambda>c. c\<lparr>pcb_cpu_state := SavedContext\<rparr>) s)\<lparr>disastrOS_time :=
    disastrOS_time (upd_pcb (running s) (\<lambda>c. c\<lparr>pcb_cpu_state := SavedContext\<rparr>) s) + 1\<rparr>"
  have k: "keeps (- {ContextPart}) ?s s" by (intro frame keeps_refl) simp
  have l: "kernel_inv ?s L" using kernel_invD(1) [OF i] by (intro inv_keeps [OF i k]) simp_all
  have x: "running ?s = running s" by (simp add: upd_pcb_def)
  have y: "idle ?s L PCB_item (running ?s)" unfolding x using r by simp
  obtain s' where s': "internal_schedule ?s = Inr s'" "idle s' (scheduled ?s L) PCB_item (running s')"
    using internal_schedule_total [OF kernel_invD(1,8) [OF l] y] by blast
  have "running s' \<noteq> NULL"
    by (rule live_nonnull [OF kernel_invD(1) [OF schedule_inv(1) [OF l y s'(1)]] idleD(1) [OF s'(2)]])
  with s'(1) live_nonnull [OF kernel_invD(1) [OF i] idleD(1) [OF r]] show ?thesis
    by (auto simp: timerHandler_def timerInterrupt_def)
qed

lemma agree_asleep: "agree {IdPart, ProcPart, DescPart, SemPart} (asleep s L t w) L"
  unfolding agree_def
proof (intro allI impI)
  fix l
  assume "part_of l \<in> {IdPart, ProcPart, DescPart, SemPart}"
  then show "asleep s L t w l = L l" by (cases l) (simp_all add: asleep_def)
qed

lemma sleep_inv:
  assumes i: "kernel_inv s L" and r: "idle s L PCB_item (running s)" and e: "internal_sleep s = Inr s'"
    and n: "pcb_syscall_num (pcb s (running s)) = DSOS_CALL_SLEEP"
  shows "sys_ok s'"
proof -
  note inv = kernel_invD [OF i]
  have "pcb_timer (pcb s (running s)) = NULL" using inv(4) by (simp add: sched_ok_def)
  note total = internal_sleep_total [OF inv(1,8) r this, unfolded e sum.inject]
  show ?thesis
  proof (cases "spare s Timer_item = {}")
    case True
    from total have "s' = set_retvalue (running s) DSOS_ESLEEP s" unfolding if_P [OF True] by blast
    with inv_retvalue [OF i r] show ?thesis by simp
  next
    case False
    from total obtain t w where t: "t \<in> spare s Timer_item" "core_ok s' (asleep s L t w)" "timers_ok s' (asleep s L t w)"
        "timer_item s' = (timer_item s)(t := \<lparr>ti_awakening_time = w, ti_pcb = running s\<rparr>)"
        "running s' = first_of (L ReadyList) NULL"
        "L ReadyList \<noteq> [] \<longrightarrow> idle s' (asleep s L t w) PCB_item (running s')"
      and st: "\<And>q. pcb_status (pcb s' q) = (if q = running s then Waiting else pcb_status (pcb s q))"
      unfolding if_not_P [OF False] by blast
    let ?L = "asleep s L t w"
    have k: "keeps {IdPart, ProcPart, DescPart, SemPart} s' s"
      by (rule gives_keeps [OF keeps_timer_calls(3) e]) (simp_all add: keeps_refl)
    have so: "sched_ok s' ?L"
      unfolding sched_ok_def
    proof (intro conjI allI impI ballI t(3))
      fix p
      assume "pcb_status (pcb s' p) = Waiting"
      with st [of p] inv(4) show "p \<in> set (?L WaitingList)" by (auto simp: sched_ok_def asleep_def split: if_splits)
    next
      fix p
      assume "p \<in> set (?L ReadyList)"
      then have "p \<in> set (L ReadyList)" by (cases "L ReadyList") (auto simp: asleep_def)
      with st [of p] inv(4) show "pcb_status (pcb s' p) \<noteq> Zombie" by (auto simp: sched_ok_def)
    next
      fix u
      assume "u \<in> set (?L TimerList)"
      then have "u = t \<or> u \<in> set (L TimerList)"
        by (auto simp: asleep_def dest: set_takeWhileD set_dropWhileD)
      with inv(4) n show "pcb_syscall_num (pcb s' (timer_pcb s' u)) = DSOS_CALL_SLEEP"
        by (auto simp: sched_ok_def t(4) keepsD(5) [OF k])
    next
      show "pcb_timer (pcb s' p) = NULL" for p
        using inv(4) by (intro keepsD(6) [OF k]) (simp add: sched_ok_def)
    next
      show "pcb_status (pcb s' (init_pcb s')) \<noteq> Zombie"
        using inv(4) st [of "init_pcb s"] by (auto simp: sched_ok_def keepsD(3) [OF k])
    qed
    have fo: "family_ok s' ?L"
      using st by (intro family_keeps [OF inv(3) k _ _ agree_asleep]) (auto split: if_splits)
    have "kernel_inv s' ?L"
      using so fo by (intro inv_transfer [OF i k agree_asleep t(2)]) simp_all
    moreover have "running s' \<noteq> NULL \<longrightarrow> L ReadyList \<noteq> []" using t(5) by auto
    ultimately show ?thesis using t(6) unfolding sys_ok_def by blast
  qed
qed

subsection \<open>fork and spawn\<close>

text \<open>The effect of fork and spawn on the parts of the invariant.\<close>

abbreviation child_lists :: "kernel \<Rightarrow> (list_loc \<Rightarrow> ptr list) \<Rightarrow> ptr \<Rightarrow> ptr \<Rightarrow> list_loc \<Rightarrow> ptr list" where
  "child_lists s L c q \<equiv> L(Children (running s) := L (Children (running s)) @ [q], ReadyList := L ReadyList @ [c])"

lemma childD:
  assumes "child_made s L s' c q"
  shows "c \<notin> live s PCB_item" "q \<in> spare s PCBPtr_item" "core_ok s' (child_lists s L c q)" "live s' PCB_item = insert c (live s PCB_item)"
    "\<And>y. idle s L PCB_item y \<Longrightarrow> idle s' (child_lists s L c q) PCB_item y"
    "running s' = running s" "last_pid s' = last_pid s + 1" "timer_item s' = timer_item s"
    "pcb_pid (pcb s' (running s)) = pcb_pid (pcb s (running s))"
    "pcb_parent (pcb s' (running s)) = pcb_parent (pcb s (running s))"
    "pcb_status (pcb s' (running s)) = pcb_status (pcb s (running s))"
    "pcbptr s' = (pcbptr s)(q := \<lparr>pp_pcb = c\<rparr>)" "pcb_pid (pcb s' c) = last_pid s"
    "pcb_status (pcb s' c) = Ready" "pcb_parent (pcb s' c) = running s"
    "\<And>p. p \<noteq> c \<Longrightarrow> p \<noteq> running s \<Longrightarrow> pcb s' p = pcb s p"
    "p \<noteq> c \<Longrightarrow> pcb_pid (pcb s' p) = pcb_pid (pcb s p)" "p \<noteq> c \<Longrightarrow> pcb_parent (pcb s' p) = pcb_parent (pcb s p)"
    "p \<noteq> c \<Longrightarrow> pcb_status (pcb s' p) = pcb_status (pcb s p)"
proof -
  show c: "c \<notin> live s PCB_item" "q \<in> spare s PCBPtr_item" "core_ok s' (child_lists s L c q)" "live s' PCB_item = insert c (live s PCB_item)"
      "\<And>y. idle s L PCB_item y \<Longrightarrow> idle s' (child_lists s L c q) PCB_item y"
      "running s' = running s" "last_pid s' = last_pid s + 1" "timer_item s' = timer_item s"
      "pcb_pid (pcb s' (running s)) = pcb_pid (pcb s (running s))"
      "pcb_parent (pcb s' (running s)) = pcb_parent (pcb s (running s))"
      "pcb_status (pcb s' (running s)) = pcb_status (pcb s (running s))"
      "pcbptr s' = (pcbptr s)(q := \<lparr>pp_pcb = c\<rparr>)" "pcb_pid (pcb s' c) = last_pid s"
      "pcb_status (pcb s' c) = Ready" "pcb_parent (pcb s' c) = running s"
      "\<And>p. p \<noteq> c \<Longrightarrow> p \<noteq> running s \<Longrightarrow> pcb s' p = pcb s p"
    using assms unfolding child_made_def by blast+
  show "p \<noteq> c \<Longrightarrow> pcb_pid (pcb s' p) = pcb_pid (pcb s p)" "p \<noteq> c \<Longrightarrow> pcb_parent (pcb s' p) = pcb_parent (pcb s p)"
    "p \<noteq> c \<Longrightarrow> pcb_status (pcb s' p) = pcb_status (pcb s p)"
    using c(9-11,16) by (cases "p = running s"; simp)+
qed

lemma child_lineage:
  assumes i: "kernel_inv s L" and r: "running s \<in> live s PCB_item" and m: "child_made s L s' c q"
    and n: "last_pid s \<noteq> 0x7FFFFFFF" and k: "init_pcb s' = init_pcb s"
  shows "lineage_ok s'"
proof -
  note inv = kernel_invD [OF i] and c = childD [OF m]
  note old = c(17-19)
  have rc: "running s \<noteq> c" using c(1) r by auto
  have "sint (last_pid s) \<noteq> sint (0x7FFFFFFF :: cint)" using n signed_word_eqI by blast
  then have lp: "sint (last_pid s') = sint (last_pid s) + 1" unfolding c(7) by (intro sint_inc) simp
  show ?thesis
    unfolding lineage_ok_def
  proof (intro conjI ballI impI)
    fix p
    assume "p \<in> live s' PCB_item"
    then have p: "p = c \<or> p \<in> live s PCB_item \<and> p \<noteq> c" using c(1,4) by (auto simp del: pool_of.simps)
    then show "pcb_parent (pcb s' p) \<noteq> p" using c(15) rc old(2) inv(2) by (auto simp: lineage_ok_def)
    show "sint (pcb_pid (pcb s' p)) < sint (last_pid s')"
    proof (cases "p = c")
      case False
      with p inv(2) have "sint (pcb_pid (pcb s p)) < sint (last_pid s)" by (simp add: lineage_ok_def)
      then show ?thesis using old(1) [OF False] lp by simp
    qed (simp add: c(13) lp)
    fix p'
    assume "p' \<in> live s' PCB_item" and e: "pcb_pid (pcb s' p) = pcb_pid (pcb s' p')"
    then have p': "p' = c \<or> p' \<in> live s PCB_item \<and> p' \<noteq> c" using c(1,4) by (auto simp del: pool_of.simps)
    have fresh: "pcb_pid (pcb s x) \<noteq> last_pid s" if "x \<in> live s PCB_item" for x
      using inv(2) that unfolding lineage_ok_def by fastforce
    have uniq: "x = y" if "x \<in> live s PCB_item" "y \<in> live s PCB_item" "pcb_pid (pcb s x) = pcb_pid (pcb s y)" for x y
      using inv(2) that unfolding lineage_ok_def by blast
    show "p = p'"
    proof (cases "p = c \<or> p' = c")
      case True
      with p p' e c(13) old(1) [of p] old(1) [of p'] fresh [of p] fresh [of p'] show ?thesis
        by (cases "p = c"; cases "p' = c") (simp_all del: pool_of.simps)
    next
      case False
      with p p' e old(1) [of p] old(1) [of p'] show ?thesis by (intro uniq) simp_all
    qed
  next
    have i0: "init_pcb s \<in> live s PCB_item" "pcb_parent (pcb s (init_pcb s)) = NULL"
      using inv(2) by (simp_all add: lineage_ok_def)
    then have ic: "init_pcb s \<noteq> c" using c(1) by auto
    show "init_pcb s' \<in> live s' PCB_item" unfolding k c(4) using i0(1) by (rule insertI2)
    show "pcb_parent (pcb s' (init_pcb s')) = NULL" unfolding k old(2) [OF ic] by (rule i0(2))
  qed
qed

lemma child_family:
  assumes i: "kernel_inv s L" and m: "child_made s L s' c q"
  shows "family_ok s' (child_lists s L c q)" (is "family_ok s' ?L")
proof -
  note inv = kernel_invD [OF i] and c = childD [OF m]
  note old = c(17-19)
  have qL: "q \<notin> set (L (Children p))" for p
    using core_mem [OF inv(1), of q "Children p"] c(2) pool.apart [OF core_pool [OF inv(1)], of PCBPtr_item]
    by (auto simp del: pool_of.simps)
  have cases: "x = q \<and> p = running s \<and> item_pcb s' x = c \<or>
      x \<noteq> q \<and> x \<in> set (L (Children p)) \<and> item_pcb s' x = item_pcb s x \<and> item_pcb s x \<noteq> c \<and> item_pcb s x \<in> live s PCB_item"
    if "x \<in> set (?L (Children p))" for x p
  proof (cases "x = q")
    case True
    with that qL [of p] show ?thesis by (auto simp: c(12) split: if_splits)
  next
    case False
    with that have x: "x \<in> set (L (Children p))" by (auto split: if_splits)
    from family_child(1) [OF inv(1,3) x] False x c(1) show ?thesis by (auto simp: c(12))
  qed
  have "item_pcb s' x \<in> live s' PCB_item \<and>
      (pcb_status (pcb s' (item_pcb s' x)) = Zombie \<longrightarrow> item_pcb s' x \<in> set (?L ZombieList))"
    if "x \<in> set (?L (Children p))" for x p
    using cases [OF that] c(4,14) old(3) family_child(3) [OF inv(1,3), of x p] by (auto simp del: pool_of.simps)
  moreover have "x = y" if "x \<in> set (?L (Children p))" "y \<in> set (?L (Children p'))" "item_pcb s' x = item_pcb s' y" for x y p p'
    using cases [OF that(1)] cases [OF that(2)] that(3) inv(3) unfolding family_ok_def by metis
  ultimately show ?thesis unfolding family_ok_def by blast
qed

lemma child_inv:
  assumes i: "kernel_inv s L" and r: "idle s L PCB_item (running s)" and m: "child_made s L s' c q"
    and n: "last_pid s \<noteq> 0x7FFFFFFF" and k: "keeps {DescPart, SemPart} s' s"
  shows "sys_ok s'"
proof -
  note inv = kernel_invD [OF i] and c = childD [OF m]
  note old = c(17-19)
  let ?L = "child_lists s L c q"
  have "sched_ok s' ?L"
    unfolding sched_ok_def
  proof (intro conjI allI impI ballI)
    show "timers_ok s' ?L" using inv(8) c(8) by (rule timers_ok_cong) simp_all
    show "p \<in> set (?L WaitingList)" if "pcb_status (pcb s' p) = Waiting" for p
      using that inv(4) c(14) old(3) [of p] by (cases "p = c") (auto simp: sched_ok_def)
    show "pcb_status (pcb s' p) \<noteq> Zombie" if "p \<in> set (?L ReadyList)" for p
      using that inv(4) c(14) old(3) [of p] by (cases "p = c") (auto simp: sched_ok_def)
    show "pcb_syscall_num (pcb s' (timer_pcb s' t)) = DSOS_CALL_SLEEP" if "t \<in> set (?L TimerList)" for t
      using that inv(4) by (simp add: sched_ok_def c(8) keepsD(5) [OF k])
    show "pcb_timer (pcb s' p) = NULL" for p
      using inv(4) by (intro keepsD(6) [OF k]) (simp add: sched_ok_def)
    show "pcb_status (pcb s' (init_pcb s')) \<noteq> Zombie"
      using inv(4) c(14) old(3) [of "init_pcb s"] unfolding keepsD(3) [OF k] by (cases "init_pcb s = c") (auto simp: sched_ok_def)
  qed
  moreover have "agree {DescPart, SemPart} ?L L"
    unfolding agree_def
  proof (intro allI impI)
    fix l
    assume "part_of l \<in> {DescPart, SemPart}"
    then show "?L l = L l" by (cases l) simp_all
  qed
  moreover have "lineage_ok s'" using child_lineage [OF i idleD(1) [OF r] m n keepsD(3) [OF k]] .
  ultimately have "kernel_inv s' ?L" using c(3) child_family [OF i m] by (intro inv_transfer [OF i k]) simp_all
  then show ?thesis using c(5) [OF r] by (intro sys_okI) (simp_all only: c(6))
qed

lemma fork_inv:
  assumes i: "kernel_inv s L" and r: "idle s L PCB_item (running s)" and n: "last_pid s \<noteq> 0x7FFFFFFF"
  shows "internal_fork s = Inr s' \<Longrightarrow> sys_ok s'" and "internal_spawn s = Inr s' \<Longrightarrow> sys_ok s'"
proof -
  note inv = kernel_invD [OF i]
  have made: "\<exists>c q. child_made s L t c q \<and> c \<noteq> running s \<and> c = p \<and> p \<noteq> NULL" if "make_child s = Inr (p, t)" for p t
  proof -
    have "spare s PCB_item \<noteq> {}" "spare s PCBPtr_item \<noteq> {}"
      using make_child_exhausted [OF inv(1) _ live_nonnull [OF inv(1) idleD(1) [OF r]]] that by auto
    from make_child_made [OF inv(1) idleD(1) [OF r] this] that show ?thesis by auto
  qed
  show "sys_ok s'" if e: "internal_fork s = Inr s'"
  proof -
    have k: "keeps {DescPart, SemPart} s' s"
      by (rule gives_keeps [OF keeps_fork(1) e]) (simp_all add: keeps_refl)
    from e obtain p where "make_child s = Inr (p, s')" by (auto simp: internal_fork_def bindE_Inr_iff)
    from made [OF this] show ?thesis using child_inv [OF i r _ n k] by blast
  qed
  show "sys_ok s'" if e: "internal_spawn s = Inr s'"
  proof -
    have k: "keeps {DescPart, SemPart} s' s"
      by (rule gives_keeps [OF keeps_fork(2) e]) (simp_all add: keeps_refl)
    from e obtain p t where p: "make_child s = Inr (p, t)" "s' = (if p = NULL then t
        else upd_pcb p (\<lambda>c. c\<lparr>pcb_cpu_state := EntryContext (run_arg t 0) (run_arg t 1)\<rparr>) t)"
      by (auto simp: internal_spawn_def bindE_Inr_iff split: if_splits)
    from made [OF p(1)] obtain q where q: "child_made s L t p q" "p \<noteq> running s" "p \<noteq> NULL" by blast
    from child_made_entry [OF q(1,2)] q(3) p(2) show ?thesis using child_inv [OF i r _ n k] by auto
  qed
qed

subsection \<open>wait\<close>

lemma desc_less:
  assumes "desc_ok s L" and "descriptor s' = descriptor s" and "descriptorptr s' = descriptorptr s"
    and "\<And>p. set (L' (Descriptors p)) \<subseteq> set (L (Descriptors p))" and "\<And>r. L' (ResDescriptors r) = L (ResDescriptors r)"
    and "L' ResourcesList = L ResourcesList"
  shows "desc_ok s' L'"
  using assms(1,4) unfolding desc_ok_def assms(2,3,5,6) by blast

lemma wait_childless:
  assumes "core_ok s L" and "running s \<in> live s PCB_item" and "L (Children (running s)) = []"
  shows "internal_wait s = Inr (set_retvalue (running s) DSOS_EWAIT s)"
  using core_first_null [OF assms(1), of "Children (running s)"] assms(2,3) live_nonnull [OF assms(1,2)]
  by (simp add: internal_wait_def Let_def)

lemma agree_blocked: "agree (- {SchedPart}) (blocked s L) L"
  unfolding agree_def
proof (intro allI impI)
  fix l
  assume "part_of l \<in> - {SchedPart}"
  then show "blocked s L l = L l" by (cases l) (simp_all add: blocked_def)
qed

lemma reap_inv:
  assumes i: "kernel_inv s L" and r: "idle s L PCB_item (running s)"
    and q: "q \<in> set (L (Children (running s)))" and z: "pcb_status (pcb s (item_pcb s q)) = Zombie"
    and e: "reap s (item_pcb s q) q a = Inr s'" and k: "keeps (- {ProcPart, SchedPart}) s' s"
  shows "sys_ok s'"
proof -
  note inv = kernel_invD [OF i]
  let ?L = "reaped s L q" and ?z = "item_pcb s q"
  let ?t = "(set_retvalue (running s) (pcb_syscall_retvalue (pcb s (running s))) s')\<lparr>user_mem := user_mem s\<rparr>"
  have R: "core_ok s' ?L" "family_ok s' ?L" "idle s' ?L PCB_item (running s)" "quiet ?t s"
      "\<And>p. pcb_status (pcb s' p) = pcb_status (pcb s p)" "live s' PCB_item = live s PCB_item - {?z}"
    using reap_done [OF inv(1,3) r q z, of a, unfolded e sum.inject] by blast+
  have "running ?t = running s" using R(4) unfolding quiet_def by blast
  then have u: "running s' = running s" by (simp add: set_retvalue_def upd_pcb_def)
  have iz: "init_pcb s \<noteq> ?z" using z inv(4) by (auto simp: sched_ok_def)
  have ii: "init_pcb s \<in> live s PCB_item" using inv(2) by (simp add: lineage_ok_def)
  have l1: "?L WaitingList = L WaitingList" "?L ReadyList = L ReadyList" "?L TimerList = L TimerList"
      "?L ResourcesList = L ResourcesList" "?L (ResDescriptors m) = L (ResDescriptors m)"
      "set (?L (Descriptors p)) \<subseteq> set (L (Descriptors p))" for m p
    by (simp_all add: reaped_def)
  have l: "lineage_ok s'"
    using iz ii by (intro lineage_less [OF inv(2) k]) (simp_all only: R(6), simp, blast+)
  have t: "timers_ok s' ?L" using keepsD(13) [OF k] by (intro timers_ok_cong [OF inv(8) _ l1(3,1)]) simp
  have h: "sched_ok s' ?L"
    using inv(4) by (intro sched_statuses [OF inv(4) k _ t]) (simp_all add: l1 R(5) sched_ok_def)
  have d: "desc_ok s' ?L" using keepsD(15,16) [OF k] l1 by (intro desc_less [OF inv(5)]) simp_all
  have a: "agree {SemPart} ?L L"
    unfolding agree_def
  proof (intro allI impI)
    fix l
    assume "part_of l \<in> {SemPart}"
    then show "?L l = L l" by (cases l) (simp_all add: reaped_def)
  qed
  have k1: "keeps {SemPart} s' s" using k by (simp add: keeps_def)
  have "kernel_inv s' ?L" using l h d R(1,2) by (intro inv_transfer [OF i k1 a]) simp_all
  then show ?thesis using R(3) by (intro sys_okI) (simp_all only: u)
qed

lemma block_inv:
  assumes i: "kernel_inv s L" and r: "idle s L PCB_item (running s)" and e: "block_in_wait s = Inr s'"
    and k: "keeps (- {ProcPart, SchedPart}) s' s"
  shows "sys_ok s'"
proof -
  note inv = kernel_invD [OF i]
  let ?L = "blocked s L"
  obtain p ps where n: "L ReadyList = p # ps" using block_alone [OF inv(1) r] e by (cases "L ReadyList") auto
  have R: "core_ok s' ?L" "family_ok s' ?L" "running s' = p" "idle s' ?L PCB_item p" "\<And>k. pool_of s' k = pool_of s k"
      "\<And>q. pcb_status (pcb s' q) = (if q = running s then Waiting else pcb_status (pcb s q))"
    using block_next [OF inv(1,3) r n, unfolded e sum.inject] by blast+
  have ii: "init_pcb s \<in> live s PCB_item" using inv(2) by (simp add: lineage_ok_def)
  have l: "lineage_ok s'"
    by (rule lineage_less [OF inv(2) k]) (simp, simp_all only: R(5) order.refl ii)
  have "timer_pcb s ` set (L TimerList) \<subseteq> set (?L WaitingList)"
    using inv(8) by (auto simp: timers_ok_def blocked_def)
  then have t: "timers_ok s' ?L"
    using inv(8) keepsD(13) [OF k] by (simp add: timers_ok_def timers_sorted_def) (simp add: blocked_def)
  have h: "sched_ok s' ?L"
    using inv(4) n by (intro sched_statuses [OF inv(4) k _ t])
      (auto simp: R(6) sched_ok_def blocked_def split: if_splits)
  have k1: "keeps (- {SchedPart}) s' s" using k R(5) [of PCB_item] R(5) [of PCBPtr_item] by (simp add: keeps_def)
  have "kernel_inv s' ?L" using l h R(1,2) by (intro inv_transfer [OF i k1 agree_blocked]) simp_all
  then show ?thesis using R(4) by (intro sys_okI) (simp_all only: R(3))
qed

lemma wait_inv:
  assumes i: "kernel_inv s L" and r: "idle s L PCB_item (running s)" and e: "internal_wait s = Inr s'"
  shows "sys_ok s'"
proof (cases "L (Children (running s)) = []")
  case True
  with wait_childless [OF kernel_invD(1) [OF i] idleD(1) [OF r]] e inv_retvalue [OF i r] show ?thesis by auto
next
  case False
  let ?q = "wait_choice s (ucast (run_arg s 0)) (L (Children (running s)))"
  have k: "keeps (- {ProcPart, SchedPart}) s' s"
    by (rule gives_keeps [OF keeps_wait e]) (simp_all add: keeps_refl)
  have w: "internal_wait s = (if pcb_status (pcb s (item_pcb s ?q)) = Zombie
      then reap s (item_pcb s ?q) ?q (run_arg s 1) else block_in_wait s)"
    using internal_wait_choice [OF kernel_invD(1,3) [OF i] idleD(1) [OF r] False refl] .
  show ?thesis
  proof (cases "pcb_status (pcb s (item_pcb s ?q)) = Zombie")
    case True
    with w e reap_inv [OF i r wait_choice_mem [OF False] True _ k] show ?thesis by simp
  next
    case False
    with w e block_inv [OF i r _ k] show ?thesis by simp
  qed
qed

subsection \<open>exit\<close>

lemma agree_zombied: "agree {TimerPart, DescPart, SemPart} ((dead s L)(ReadyList := rs)) L"
  unfolding agree_def
proof (intro allI impI)
  fix l
  assume "part_of l \<in> {TimerPart, DescPart, SemPart}"
  then show "((dead s L)(ReadyList := rs)) l = L l" by (cases l) (simp_all add: dead_def orphaned_def)
qed

lemma zombie_inv:
  assumes i: "kernel_inv s L" and r: "idle s L PCB_item (running s)" and e: "internal_exit s = Inr s'"
    and n: "init_pcb s \<noteq> running s" and par: "pcb_parent (pcb s (running s)) = par" "par \<noteq> NULL"
    and a: "\<not> parent_awaits s par"
  shows "sys_ok s'"
proof -
  note inv = kernel_invD [OF i]
  have ii: "init_pcb s \<in> live s PCB_item" and pr: "par \<noteq> running s"
    using inv(2) idleD(1) [OF r] par(1) by (auto simp: lineage_ok_def simp del: pool_of.simps)
  have z: "\<forall>p\<in>set (L ReadyList). pcb_status (pcb s p) \<noteq> Zombie" using inv(4) by (simp add: sched_ok_def)
  note total = exit_to_zombie [OF inv(1,3) r ii n par(1) [symmetric] par(2) pr a z, unfolded e sum.inject]
  let ?L = "(dead s L)(ReadyList := tl (L ReadyList))"
  have ne: "L ReadyList \<noteq> []" using total by (auto split: if_splits)
  from total have R: "core_ok s' ?L" "family_ok s' ?L" "running s' = hd (L ReadyList)"
      "idle s' ?L PCB_item (running s')" "\<And>k. pool_of s' k = pool_of s k"
      "\<And>q. pcb_status (pcb s' q) = (if q = hd (L ReadyList) then Running
        else if q = running s then Zombie else pcb_status (pcb s q))"
    unfolding if_not_P [OF ne] by blast+
  have k: "keeps (- {ProcPart, SchedPart, DescBlockPart}) s' s"
    by (rule gives_keeps [OF keeps_exit e]) (simp_all add: keeps_refl)
  have k1: "keeps {IdPart, ProcPart, TimerPart, DescPart, SemPart} s' s"
    using k R(5) [of PCB_item] R(5) [of PCBPtr_item] by (simp add: keeps_def)
  have l: "lineage_ok s'" by (rule lineage_keeps [OF inv(2) k1]) simp_all
  have ll: "?L TimerList = L TimerList" "?L WaitingList = L WaitingList" "?L ReadyList = tl (L ReadyList)"
    by (simp_all add: dead_def orphaned_def)
  have t: "timers_ok s' ?L" using keepsD(13) [OF k] by (intro timers_ok_cong [OF inv(8) _ ll(1,2)]) simp
  have h: "sched_ok s' ?L"
  proof (rule sched_statuses [OF inv(4) k _ t])
    fix p
    show "pcb_status (pcb s' p) = Waiting \<Longrightarrow> p \<in> set (?L WaitingList)"
      using inv(4) unfolding ll R(6) sched_ok_def by (auto split: if_splits)
    have "running s \<notin> set (L ReadyList)" using idleD(3) [OF r, of ReadyList] by simp
    then show "p \<in> set (?L ReadyList) \<Longrightarrow> pcb_status (pcb s' p) \<noteq> Zombie"
      using z unfolding ll R(6) by (auto dest: list.set_sel(2) [OF ne])
  next
    show "pcb_status (pcb s' (init_pcb s)) \<noteq> Zombie"
      using inv(4) n unfolding R(6) sched_ok_def by auto
  next
    show "set (?L TimerList) \<subseteq> set (L TimerList)" unfolding ll by simp
  qed simp
  have k2: "keeps {TimerPart, DescPart, SemPart} s' s" using k by (simp add: keeps_def)
  have "kernel_inv s' ?L" using l h R(1,2) by (intro inv_transfer [OF i k2 agree_zombied]) simp_all
  then show ?thesis using R(4) by (rule sys_okI)
qed

lemma agree_heir: "agree {SemPart, TimerPart} (heir_lists s L par q) L"
  unfolding agree_def
proof (intro allI impI)
  fix l
  assume "part_of l \<in> {SemPart, TimerPart}"
  then show "heir_lists s L par q l = L l"
    by (cases l) (simp_all add: heir_lists_def perished_def released_other bereaved_def dead_def orphaned_def)
qed

lemma heir_lists_simps:
  "heir_lists s L par q TimerList = L TimerList" "heir_lists s L par q ReadyList = L ReadyList"
  "heir_lists s L par q WaitingList = remove1 par (L WaitingList)"
  by (simp_all add: heir_lists_def perished_simps bereaved_def dead_def orphaned_def)

lemma heir_inv:
  assumes i: "kernel_inv s L" and r: "idle s L PCB_item (running s)" and e: "internal_exit s = Inr s'"
    and n: "init_pcb s \<noteq> running s" and par: "pcb_parent (pcb s (running s)) = par"
    and a: "parent_awaits s par"
  shows "sys_ok s'"
proof -
  note inv = kernel_invD [OF i]
  have ii: "init_pcb s \<in> live s PCB_item" using inv(2) by (simp add: lineage_ok_def)
  have wp: "par \<in> set (L WaitingList)" using inv(4) a by (simp add: sched_ok_def parent_awaits_def)
  have pid: "x = running s" if "x \<in> live s PCB_item" "pcb_pid (pcb s x) = pcb_pid (pcb s (running s))" for x
    using inv(2) that idleD(1) [OF r] unfolding lineage_ok_def by blast
  obtain q where q: "q \<in> set (dead s L (Children par))" "item_pcb s q = running s"
    using exit_to_stranger [OF inv(1,3) r ii n par a wp _ pid] e by fastforce
  let ?L = "heir_lists s L par q"
  from exit_to_heir [OF inv(1,3,5,8) r ii n par a wp q pid, unfolded e sum.inject]
  have R: "core_ok s' ?L" "family_ok s' ?L" "desc_ok s' ?L" "idle s' ?L PCB_item par" "running s' = par"
      "\<And>p. pcb_status (pcb s' p) =
        (if p = par then Running else if p = running s then Zombie else pcb_status (pcb s p))"
      "live s' PCB_item = live s PCB_item - {running s}"
    by blast+
  have k: "keeps (- {ProcPart, SchedPart, DescBlockPart}) s' s"
    by (rule gives_keeps [OF keeps_exit e]) (simp_all add: keeps_refl)
  have l: "lineage_ok s'"
    using ii n by (intro lineage_less [OF inv(2) k]) (simp_all only: R(7), simp, blast+)
  have w: "set (remove1 par (L WaitingList)) = set (L WaitingList) - {par}"
    using core_distinct [OF inv(1)] by (rule set_remove1_eq)
  have "timer_pcb s ` set (L TimerList) \<subseteq> set (L WaitingList) - {par}"
    using inv(4,8) a by (auto simp: timers_ok_def sched_ok_def parent_awaits_def syscall_numbers)
  then have t: "timers_ok s' ?L"
    using inv(8) keepsD(13) [OF k] by (simp add: timers_ok_def timers_sorted_def heir_lists_simps w)
  have h: "sched_ok s' ?L"
  proof (rule sched_statuses [OF inv(4) k _ t])
    fix p
    show "pcb_status (pcb s' p) = Waiting \<Longrightarrow> p \<in> set (?L WaitingList)"
      using inv(4) unfolding heir_lists_simps w R(6) sched_ok_def by (auto split: if_splits)
    have "running s \<notin> set (L ReadyList)" using idleD(3) [OF r, of ReadyList] by simp
    then show "p \<in> set (?L ReadyList) \<Longrightarrow> pcb_status (pcb s' p) \<noteq> Zombie"
      using inv(4) unfolding heir_lists_simps R(6) sched_ok_def by auto
  next
    show "pcb_status (pcb s' (init_pcb s)) \<noteq> Zombie"
      using inv(4) n unfolding R(6) sched_ok_def by auto
  qed (simp_all add: heir_lists_simps)
  have k2: "keeps {SemPart, TimerPart} s' s" using k by (simp add: keeps_def)
  have "kernel_inv s' ?L" using l h R(1-3) by (intro inv_transfer [OF i k2 agree_heir]) simp_all
  then show ?thesis using R(4) by (intro sys_okI) (simp_all only: R(5))
qed

lemma exit_inv:
  assumes i: "kernel_inv s L" and r: "idle s L PCB_item (running s)" and e: "internal_exit s = Inr s'"
  shows "sys_ok s'"
proof -
  note inv = kernel_invD [OF i]
  let ?par = "pcb_parent (pcb s (running s))"
  have ii: "init_pcb s \<in> live s PCB_item" "pcb_parent (pcb s (init_pcb s)) = NULL"
    using inv(2) by (simp_all add: lineage_ok_def)
  have n: "init_pcb s \<noteq> running s"
    using exit_init [OF inv(1,3) r _ ii(2)] e by auto
  have "?par \<noteq> NULL" using exit_orphan [OF inv(1,3) r ii(1) n] e by auto
  then show ?thesis
    using heir_inv [OF i r e n refl] zombie_inv [OF i r e n refl] by blast
qed

subsection \<open>Resources\<close>

lemma retvalue_parts [simp]:
  "desc_ok (set_retvalue p v s) L \<longleftrightarrow> desc_ok s L" "sems_free (set_retvalue p v s) L \<longleftrightarrow> sems_free s L"
  by (simp_all add: desc_ok_def sems_free_def sem_ok_def set_retvalue_def upd_pcb_def)

text \<open>Steps that deal with one part only; the process that is running stays.\<close>

lemma desc_step:
  assumes i: "kernel_inv s L" and r: "idle s L PCB_item (running s)" and k: "keeps (- {DescPart, DescBlockPart}) s' s"
    and a: "agree (- {DescPart, DescBlockPart}) L' L" and "core_ok s' L'" and "desc_ok s' L'"
    and "\<And>y. idle s L PCB_item y \<Longrightarrow> idle s' L' PCB_item y"
  shows "kernel_inv s' L'" and "idle s' L' PCB_item (running s')"
  using assms(5-7) inv_transfer [OF i k a] r keepsD(12) [OF k] by simp_all

lemma sem_step:
  assumes i: "kernel_inv s L" and r: "idle s L PCB_item (running s)" and k: "keeps (- {SemPart, SemCellPart, SemBlockPart}) s' s"
    and a: "agree (- {SemPart, SemCellPart, SemBlockPart}) L' L" and "core_ok s' L'" and "sems_free s' L'"
    and "\<And>y. idle s L PCB_item y \<Longrightarrow> idle s' L' PCB_item y"
  shows "kernel_inv s' L'" and "idle s' L' PCB_item (running s')"
  using assms(5-7) inv_transfer [OF i k a] r keepsD(12) [OF k] by simp_all

lemma agree_desc:
  "agree (- {DescPart, DescBlockPart}) (res_opened s L r d w) L" "agree (- {DescPart, DescBlockPart}) (res_listed L r) L"
  "agree (- {DescPart, DescBlockPart}) (res_closed s L d) L" "agree (- {DescPart, DescBlockPart}) (L(ResourcesList := rs)) L"
  by (auto simp: agree_def res_opened_def res_listed_def res_closed_def Let_def elim: part_of.elims)

lemma agree_trans: "agree A L2 L1 \<Longrightarrow> agree A L1 L \<Longrightarrow> agree A L2 L"
  by (simp add: agree_def)

lemma opens_inv:
  assumes i: "kernel_inv s L" and r: "idle s L PCB_item (running s)" and e: "internal_openResource s = Inr s'"
    and i1: "core_ok s1 L1" "desc_ok s1 L1" "running s1 = running s"
      "\<And>y. idle s L PCB_item y \<Longrightarrow> idle s1 L1 PCB_item y" "agree (- {DescPart, DescBlockPart}) L1 L"
    and o: "opens s s1 L1 r1"
  shows "sys_ok s'"
proof -
  have k: "keeps (- {DescPart, DescBlockPart}) s' s"
    by (rule gives_keeps [OF keeps_resource_calls(1) e]) (simp_all add: keeps_refl)
  show ?thesis
  proof (cases "spare s1 Descriptor_item = {}")
    case True
    with o e have s': "s' = set_retvalue (running s) DSOS_ERESOURCENOFD s1" by (simp add: opens_def)
    have "core_ok s' L1" "desc_ok s' L1" "\<And>y. idle s L PCB_item y \<Longrightarrow> idle s' L1 PCB_item y"
      using i1 unfolding s' by simp_all
    from desc_step [OF i r k i1(5) this] show ?thesis by (rule sys_okI)
  next
    case False
    with o e obtain d w where h: "holds_resource s1 L1 s' r1 d w" by (auto simp: opens_def split: if_splits)
    then have "core_ok s' (res_opened s1 L1 r1 d w)" "desc_ok s' (res_opened s1 L1 r1 d w)"
        "\<And>y. idle s L PCB_item y \<Longrightarrow> idle s' (res_opened s1 L1 r1 d w) PCB_item y"
      using i1(4) unfolding holds_resource_def by blast+
    from desc_step [OF i r k agree_trans [OF agree_desc(1) i1(5)] this] show ?thesis by (rule sys_okI)
  qed
qed

lemma openResource_ways:
  assumes i: "kernel_inv s L" and r: "idle s L PCB_item (running s)" and e: "internal_openResource s = Inr s'"
  obtains (error) v where "s' = set_retvalue (running s) v s"
  | (existing) r where "opens s s L r"
  | (created) r s1 where "res_created s L (ucast (run_arg s 0)) (ucast (run_arg s 1)) r s1" "opens s s1 (res_listed L r) r"
  using openResource_cases [OF kernel_invD(1,5) [OF i] idleD(1) [OF r] refl refl refl refl, unfolded e sum.inject] that
  by (fastforce split: if_splits)

lemma openResource_inv:
  assumes i: "kernel_inv s L" and r: "idle s L PCB_item (running s)" and e: "internal_openResource s = Inr s'"
  shows "sys_ok s'"
proof -
  note inv = kernel_invD [OF i]
  from i r e show ?thesis
  proof (cases rule: openResource_ways)
    case error
    with inv_retvalue [OF i r] show ?thesis by simp
  next
    case existing
    then show ?thesis using inv(1,5) by (intro opens_inv [OF i r e]) simp_all
  next
    case (created r1 s1)
    then have "core_ok s1 (res_listed L r1)" "running s1 = running s"
        "\<And>y. idle s L PCB_item y \<Longrightarrow> idle s1 (res_listed L r1) PCB_item y"
      unfolding res_created_def by blast+
    from opens_inv [OF i r e this(1) desc_ok_created [OF inv(5) created(1)] this(2,3) agree_desc(2) created(2)]
    show ?thesis .
  qed
qed

lemma closeResource_inv:
  assumes i: "kernel_inv s L" and r: "idle s L PCB_item (running s)" and e: "internal_closeResource s = Inr s'"
  shows "sys_ok s'"
proof -
  note inv = kernel_invD [OF i]
  note total = closeResource_cases [OF inv(1,5) idleD(1) [OF r] refl, unfolded e sum.inject]
  have k: "keeps (- {DescPart, DescBlockPart}) s' s"
    by (rule gives_keeps [OF keeps_resource_calls(2) e]) (simp_all add: keeps_refl)
  show ?thesis
  proof (cases "des_of_fd s L (ucast (run_arg s 0)) = NULL")
    case True
    with total inv_retvalue [OF i r] show ?thesis by simp
  next
    case False
    let ?L = "res_closed s L (des_of_fd s L (ucast (run_arg s 0)))"
    from total have "core_ok s' ?L" "desc_ok s' ?L" "\<And>y. idle s L PCB_item y \<Longrightarrow> idle s' ?L PCB_item y"
      unfolding if_not_P [OF False] by blast+
    from desc_step [OF i r k agree_desc(3) this] show ?thesis by (rule sys_okI)
  qed
qed

lemma destroyResource_inv:
  assumes i: "kernel_inv s L" and r: "idle s L PCB_item (running s)" and e: "internal_destroyResource s = Inr s'"
  shows "sys_ok s'"
proof -
  note inv = kernel_invD [OF i]
  let ?r = "res_named s L (ucast (run_arg s 0))"
  note total = destroyResource_cases [OF inv(1,5) idleD(1) [OF r] refl, unfolded e sum.inject]
  have k: "keeps (- {DescPart, DescBlockPart}) s' s"
    by (rule gives_keeps [OF keeps_resource_calls(3) e]) (simp_all add: keeps_refl)
  show ?thesis
  proof (cases "?r = NULL \<or> L (ResDescriptors ?r) \<noteq> []")
    case True
    with total inv_retvalue [OF i r] show ?thesis by (auto split: if_splits)
  next
    case False
    let ?L = "L(ResourcesList := remove1 ?r (L ResourcesList))"
    from False have n: "\<not> ?r = NULL" "\<not> L (ResDescriptors ?r) \<noteq> []" by blast+
    from total have "core_ok s' ?L" "desc_ok s' ?L" "\<And>y. idle s L PCB_item y \<Longrightarrow> idle s' ?L PCB_item y"
      unfolding if_not_P [OF n(1)] if_not_P [OF n(2)] by blast+
    from desc_step [OF i r k agree_desc(4) this] show ?thesis by (rule sys_okI)
  qed
qed

subsection \<open>Semaphores\<close>

lemma wait_ok_free:
  assumes "sems_free s L"
  shows "wait_ok s L"
  using assms by (simp add: sems_free_def wait_ok_def)

lemma agree_sem:
  "agree (- {SemPart, SemCellPart, SemBlockPart}) (sem_opened s L m d w) L" "agree (- {SemPart, SemCellPart, SemBlockPart}) (sem_listed L m) L"
  "agree (- {SemPart, SemCellPart, SemBlockPart}) (sem_closed s L d) L"
  by (auto simp: agree_def sem_opened_def sem_listed_def sem_closed_def Let_def elim: part_of.elims)

lemma sem_opens_inv:
  assumes i: "kernel_inv s L" and r: "idle s L PCB_item (running s)" and e: "internal_semOpen s = Inr s'"
    and i1: "core_ok s1 L1" "sems_free s1 L1" "running s1 = running s"
      "\<And>y. idle s L PCB_item y \<Longrightarrow> idle s1 L1 PCB_item y" "agree (- {SemPart, SemCellPart, SemBlockPart}) L1 L"
    and o: "sem_opens s s1 L1 m"
  shows "sys_ok s'"
proof -
  have k: "keeps (- {SemPart, SemCellPart, SemBlockPart}) s' s"
    by (rule gives_keeps [OF keeps_semaphore_calls(1) e]) (simp_all add: keeps_refl)
  show ?thesis
  proof (cases "spare s1 SemDescriptor_item = {}")
    case True
    with o e have s': "s' = set_retvalue (running s) DSOS_ERESOURCENOFD s1" by (simp add: sem_opens_def)
    have "core_ok s' L1" "sems_free s' L1" "\<And>y. idle s L PCB_item y \<Longrightarrow> idle s' L1 PCB_item y"
      using i1 unfolding s' by simp_all
    from sem_step [OF i r k i1(5) this] show ?thesis by (rule sys_okI)
  next
    case False
    let ?L = "\<lambda>d w. sem_opened s1 L1 m d w"
    from False o e obtain d w where h: "has_opened s1 L1 s' m d w" by (auto simp: sem_opens_def split: if_splits)
    then have h1: "core_ok s' (?L d w)" "sem_ok s' (?L d w)"
        "\<And>y. idle s L PCB_item y \<Longrightarrow> idle s' (?L d w) PCB_item y"
        "\<And>k. sem_count (semaphore s' k) = sem_count (semaphore s1 k)"
      using i1(4) unfolding has_opened_def by blast+
    have "sems_free s' (?L d w)"
      using i1(2) h1(2,4) by (simp add: sems_free_def) (simp add: sem_opened_def)
    from sem_step [OF i r k agree_trans [OF agree_sem(1) i1(5)] h1(1) this h1(3)] show ?thesis by (rule sys_okI)
  qed
qed

lemma semOpen_ways:
  assumes i: "kernel_inv s L" and r: "idle s L PCB_item (running s)" and e: "internal_semOpen s = Inr s'"
  obtains (error) v where "s' = set_retvalue (running s) v s"
  | (existing) m where "sem_opens s s L m"
  | (created) m s1 where "(ucast (run_arg s 1) :: cint) AND DSOS_CREATE \<noteq> 0"
      "sem_created s L (ucast (run_arg s 0)) (ucast (run_arg s 2)) m s1" "sem_opens s s1 (sem_listed L m) m"
proof (cases "(ucast (run_arg s 1) :: cint) AND DSOS_CREATE = 0")
  case True
  from semOpen_existing_cases [OF kernel_invD(1,9) [OF i] idleD(1) [OF r] refl True, unfolded e sum.inject] that(1,2)
  show thesis by (fastforce split: if_splits)
next
  case False
  from semOpen_create_cases [OF kernel_invD(1,9) [OF i] idleD(1) [OF r] False, unfolded e sum.inject] that(1,3) False
  show thesis by (fastforce split: if_splits)
qed

lemma semOpen_inv:
  assumes i: "kernel_inv s L" and r: "idle s L PCB_item (running s)" and e: "internal_semOpen s = Inr s'"
    and n: "(ucast (run_arg s 1) :: cint) AND DSOS_CREATE \<noteq> 0 \<Longrightarrow> 0 \<le> sint (ucast (run_arg s 2) :: cint)"
  shows "sys_ok s'"
proof -
  note inv = kernel_invD [OF i]
  let ?n = "ucast (run_arg s 2)"
  from i r e show ?thesis
  proof (cases rule: semOpen_ways)
    case error
    with inv_retvalue [OF i r] show ?thesis by simp
  next
    case existing
    then show ?thesis using inv(1,6) by (intro sem_opens_inv [OF i r e]) simp_all
  next
    case (created m s1)
    from created(2) have c: "core_ok s1 (sem_listed L m)" "running s1 = running s"
        "\<And>y. idle s L PCB_item y \<Longrightarrow> idle s1 (sem_listed L m) PCB_item y"
        "\<And>k. sem_count (semaphore s1 k) = (if k = m then ?n else sem_count (semaphore s k))"
      unfolding sem_created_def by blast+
    have "sems_free s1 (sem_listed L m)"
      using inv(6) sem_ok_created [OF inv(9) created(2)] n [OF created(1)] c(4)
      by (simp add: sems_free_def) (simp add: sem_listed_def)
    from sem_opens_inv [OF i r e c(1) this c(2,3) agree_sem(2) created(3)] show ?thesis .
  qed
qed

lemma semClose_inv:
  assumes i: "kernel_inv s L" and r: "idle s L PCB_item (running s)" and e: "internal_semClose s = Inr s'"
  shows "sys_ok s'"
proof -
  note inv = kernel_invD [OF i]
  let ?d = "sem_of_fd s L (ucast (run_arg s 0))"
  have k: "keeps (- {SemPart, SemCellPart, SemBlockPart}) s' s"
    by (rule gives_keeps [OF keeps_semaphore_calls(2) e]) (simp_all add: keeps_refl)
  show ?thesis
  proof (cases "?d = NULL")
    case True
    with semClose_cases [OF inv(1,9) wait_ok_free [OF inv(6)] idleD(1) [OF r] refl, unfolded e sum.inject]
      inv_retvalue [OF i r] show ?thesis by simp
  next
    case False
    let ?L = "sem_closed s L ?d" and ?t = "set_retvalue (running s) (pcb_syscall_retvalue (pcb s (running s))) s'"
    have c: "core_ok s' ?L" "sem_ok s' ?L" "\<And>y. idle s L PCB_item y \<Longrightarrow> idle s' ?L PCB_item y" "quiet ?t s"
      using semClose_done [OF inv(1,9) idleD(1) [OF r] refl False, unfolded e sum.inject] by blast+
    have "sem_count (semaphore ?t m) = sem_count (semaphore s m)" for m using c(4) unfolding quiet_def by blast
    then have "sem_count (semaphore s' m) = sem_count (semaphore s m)" for m by (simp add: set_retvalue_def upd_pcb_def)
    then have "sems_free s' ?L"
      using inv(6) c(2) by (simp add: sems_free_def) (simp add: sem_closed_def Let_def)
    from sem_step [OF i r k agree_sem(3) c(1) this c(3)] show ?thesis by (rule sys_okI)
  qed
qed

lemma count_step:
  assumes i: "kernel_inv s L" and r: "idle s L PCB_item (running s)"
    and k: "keeps (- {SemPart, SemCellPart, SemBlockPart}) (set_retvalue p v (upd_semaphore m (\<lambda>c. c\<lparr>sem_count := f (sem_count c)\<rparr>) s)) s"
    and n: "0 \<le> sint (f (sem_count (semaphore s m)))"
  shows "sys_ok (set_retvalue p v (upd_semaphore m (\<lambda>c. c\<lparr>sem_count := f (sem_count c)\<rparr>) s))" (is "sys_ok ?s")
proof -
  note inv = kernel_invD [OF i]
  have c: "core_ok ?s L" "\<And>y. idle s L PCB_item y \<Longrightarrow> idle ?s L PCB_item y" using inv(1) by simp_all
  have "sems_free (upd_semaphore m (\<lambda>c. c\<lparr>sem_count := f (sem_count c)\<rparr>) s) L"
    using inv(6) n by (simp add: sems_free_def sem_ok_def upd_semaphore_def)
  then have "sems_free ?s L" by simp
  from sem_step [OF i r k agree_refl c(1) this c(2)] show ?thesis by (rule sys_okI)
qed

lemma semWait_ways:
  assumes i: "kernel_inv s L" and r: "idle s L PCB_item (running s)" and e: "internal_semWait s = Inr s'"
    and n: "sem_of_fd s L (ucast (run_arg s 0)) \<noteq> NULL \<Longrightarrow>
      0 < sint (sem_count (semaphore s (sd_semaphore (semdescriptor s (sem_of_fd s L (ucast (run_arg s 0)))))))"
  obtains (error) v where "s' = set_retvalue (running s) v s"
  | (taken) m where "s' = set_retvalue (running s) 0 (upd_semaphore m (\<lambda>c. c\<lparr>sem_count := sem_count c - 1\<rparr>) s)"
      "0 < sint (sem_count (semaphore s m))"
proof (cases "sem_of_fd s L (ucast (run_arg s 0)) = NULL")
  case True
  then have "internal_semWait s = Inr (set_retvalue (running s) DSOS_ESEMAPHOREWAIT s)"
    using sem_lookup [OF kernel_invD(1) [OF i] idleD(1) [OF r]] live_nonnull [OF kernel_invD(1) [OF i] idleD(1) [OF r]]
    by (simp add: internal_semWait_def Let_def)
  with e have "s' = set_retvalue (running s) DSOS_ESEMAPHOREWAIT s" by simp
  with that(1) show thesis by blast
next
  case False
  from e semWait_free [OF kernel_invD(1,9) [OF i] idleD(1) [OF r] refl False refl n [OF False]]
  have "s' = set_retvalue (running s) 0 (upd_semaphore (sd_semaphore (semdescriptor s (sem_of_fd s L (ucast (run_arg s 0)))))
      (\<lambda>c. c\<lparr>sem_count := sem_count c - 1\<rparr>) s)" by simp
  from that(2) [OF this n [OF False]] show thesis .
qed

lemma semWait_inv:
  assumes i: "kernel_inv s L" and r: "idle s L PCB_item (running s)" and e: "internal_semWait s = Inr s'"
    and n: "sem_of_fd s L (ucast (run_arg s 0)) \<noteq> NULL \<Longrightarrow>
      0 < sint (sem_count (semaphore s (sd_semaphore (semdescriptor s (sem_of_fd s L (ucast (run_arg s 0)))))))"
  shows "sys_ok s'"
proof (rule semWait_ways [OF i r e n])
  show "sys_ok s'" if "s' = set_retvalue (running s) v s" for v
    using that inv_retvalue [OF i r] by simp
  show "sys_ok s'" if s': "s' = set_retvalue (running s) 0 (upd_semaphore m (\<lambda>c. c\<lparr>sem_count := sem_count c - 1\<rparr>) s)"
    and m: "0 < sint (sem_count (semaphore s m))" for m
  proof -
    have "0 \<le> sint (sem_count (semaphore s m) - 1)" using m by (subst sint_dec) simp_all
    then show ?thesis
      unfolding s' by (intro count_step [OF i r]) (intro frame keeps_refl, simp_all)
  qed
qed

lemma semPost_nobody:
  assumes c: "core_ok s L" and k: "sem_ok s L" and r: "running s \<in> live s PCB_item"
    and d: "sem_of_fd s L (ucast (run_arg s 0)) = d" "d \<noteq> NULL"
    and m: "sd_semaphore (semdescriptor s d) = m" and n: "sem_count (semaphore s m) + 1 \<le>s 0"
    and w: "L (SemWaiting m) = []"
  shows "internal_semPost s = Inl NullDeref"
proof -
  let ?s = "upd_semaphore m (\<lambda>c. c\<lparr>sem_count := sem_count c + 1\<rparr>) s"
  have l: "m \<in> live s Semaphore_item" "m \<noteq> NULL"
    using sem_ok_live [OF c k] sem_of_fd_mem [where s = s and L = L and fd = "ucast (run_arg s 0)"] d m
    by auto
  have "lh_first (sem_waiting_descriptors (semaphore s m)) = NULL"
    using core_first_null [OF c, of "SemWaiting m"] l w by simp
  then have "lh_first (sem_waiting_descriptors (semaphore ?s m)) = NULL"
    by (simp add: upd_semaphore_def)
  then show ?thesis
    using live_nonnull [OF c r] sem_lookup [OF c r] d m l(2) n
    by (simp add: internal_semPost_def Let_def k_null) (simp add: upd_semaphore_def k_null)
qed

lemma semPost_inv:
  assumes i: "kernel_inv s L" and r: "idle s L PCB_item (running s)" and e: "internal_semPost s = Inr s'"
  shows "sys_ok s'"
proof -
  note inv = kernel_invD [OF i]
  let ?d = "sem_of_fd s L (ucast (run_arg s 0))"
  let ?m = "sd_semaphore (semdescriptor s ?d)"
  have d: "?d \<noteq> NULL"
  proof
    assume "?d = NULL"
    then have "internal_semPost s = Inl NullDeref"
      using sem_lookup [OF inv(1) idleD(1) [OF r]] live_nonnull [OF inv(1) idleD(1) [OF r]]
      by (simp add: internal_semPost_def Let_def)
    with e show False by simp
  qed
  have w: "L (SemWaiting ?m) = []" and n: "0 \<le> sint (sem_count (semaphore s ?m))"
    using inv(6) by (simp_all add: sems_free_def)
  have "\<not> sem_count (semaphore s ?m) + 1 \<le>s 0"
    using semPost_nobody [OF inv(1,9) idleD(1) [OF r] refl d refl _ w] e by auto
  then have p: "0 < sint (sem_count (semaphore s ?m) + 1)" by (simp add: word_sle_eq)
  have "sem_count (semaphore s ?m) \<noteq> 0x7FFFFFFF" using p by auto
  then have "sint (sem_count (semaphore s ?m)) \<noteq> sint (0x7FFFFFFF :: cint)" using signed_word_eqI by blast
  then have x: "sint (sem_count (semaphore s ?m)) \<noteq> 2 ^ 31 - 1" by simp
  have s': "s' = set_retvalue (running s) 0 (upd_semaphore ?m (\<lambda>c. c\<lparr>sem_count := sem_count c + 1\<rparr>) s)"
    using e semPost_free [OF inv(1,9) idleD(1) [OF r] refl d refl n x] by simp
  show ?thesis
    using p unfolding s' by (intro count_step [OF i r]) (intro frame keeps_refl, simp_all)
qed

subsection \<open>Every handler\<close>

text \<open>
  The calls that keep the invariant: process ids must not run out, a wait must find its semaphore
  free, and a semaphore must not be created with a negative count.
\<close>

fun safe_call :: "handler \<Rightarrow> kernel \<Rightarrow> bool" where
  "safe_call internal_fork_h s \<longleftrightarrow> last_pid s \<noteq> 0x7FFFFFFF"
| "safe_call internal_spawn_h s \<longleftrightarrow> last_pid s \<noteq> 0x7FFFFFFF"
| "safe_call internal_semWait_h s \<longleftrightarrow>
     (case SemDescriptorList_byFd s (pcb_sem_descriptors (pcb s (running s))) (ucast (run_arg s 0)) of
        Inl e \<Rightarrow> True
      | Inr d \<Rightarrow> d = NULL \<or> 0 <s sem_count (semaphore s (sd_semaphore (semdescriptor s d))))"
| "safe_call internal_semOpen_h s \<longleftrightarrow>
     (ucast (run_arg s 1) :: cint) AND DSOS_CREATE = 0 \<or> 0 \<le>s (ucast (run_arg s 2) :: cint)"
| "safe_call _ s \<longleftrightarrow> True"

lemma shutdown_inv: "kernel_inv s L \<Longrightarrow> idle s L PCB_item (running s) \<Longrightarrow> sys_ok (internal_shutdown s)"
proof (rule sys_okI)
  assume i: "kernel_inv s L"
  have "same_lists (internal_shutdown s) s" by (simp add: same_lists_def all_kinds all_locs internal_shutdown_def)
  then have c: "core_ok (internal_shutdown s) L" "idle (internal_shutdown s) L k x \<longleftrightarrow> idle s L k x" for k x
    using kernel_invD(1) [OF i] by (simp_all add: same_core same_idle)
  with i show "kernel_inv (internal_shutdown s) L"
    by (simp add: kernel_inv_def lineage_ok_def family_ok_def sched_ok_def timers_ok_def timers_sorted_def
      desc_ok_def sems_free_def sem_ok_def booted_def internal_shutdown_def)
  assume "idle s L PCB_item (running s)"
  with c(2) show "idle (internal_shutdown s) L PCB_item (running (internal_shutdown s))"
    by (simp add: internal_shutdown_def)
qed

lemma handler_inv:
  assumes i: "kernel_inv s L" and r: "idle s L PCB_item (running s)" and e: "call_handler h s = Inr s'"
    and n: "h = internal_sleep_h \<Longrightarrow> pcb_syscall_num (pcb s (running s)) = DSOS_CALL_SLEEP" and g: "safe_call h s"
  shows "sys_ok s'"
proof (cases h)
  case internal_semWait_h
  then show ?thesis
    using e g sem_lookup [OF kernel_invD(1) [OF i] idleD(1) [OF r]]
    by (intro semWait_inv [OF i r]) (simp_all add: word_sless_alt)
next
  case internal_semOpen_h
  then show ?thesis using e g by (intro semOpen_inv [OF i r]) (auto simp: word_sle_eq)
qed (use assms in \<open>auto intro: preempt_inv fork_inv wait_inv exit_inv sleep_inv openResource_inv
  closeResource_inv destroyResource_inv semClose_inv semPost_inv shutdown_inv\<close>)

subsection \<open>Entering the kernel\<close>

lemma entered_inv:
  assumes i: "kernel_inv s L" and r: "idle s L PCB_item (running s)"
  shows "kernel_inv (entered n args s) L" and "idle (entered n args s) L PCB_item (running (entered n args s))"
proof -
  note inv = kernel_invD [OF i]
  have "same_lists (entered n args s) s"
    by (simp add: same_lists_def all_kinds all_locs entered_def upd_pcb_def)
  then have c: "core_ok (entered n args s) L" "idle (entered n args s) L k x \<longleftrightarrow> idle s L k x" for k x
    using inv(1) by (simp_all add: same_core same_idle)
  then show "idle (entered n args s) L PCB_item (running (entered n args s))" using r by (simp add: entered_simps)
  have w: "running s \<notin> set (L WaitingList)" using idleD(3) [OF r, of WaitingList] by simp
  have e: "pcb_status (pcb (entered n args s) p) = pcb_status (pcb s p)"
      "pcb_timer (pcb (entered n args s) p) = pcb_timer (pcb s p)"
      "pcb_pid (pcb (entered n args s) p) = pcb_pid (pcb s p)"
      "pcb_parent (pcb (entered n args s) p) = pcb_parent (pcb s p)"
      "p \<noteq> running s \<Longrightarrow> pcb (entered n args s) p = pcb s p" for p
    by (simp_all add: entered_def upd_pcb_def)
  have p: "pool_of (entered n args s) k = pool_of s k" for k
    by (cases k) (simp_all add: entered_def upd_pcb_def)
  have f: "timer_item (entered n args s) = timer_item s"
      "pcbptr (entered n args s) = pcbptr s" "init_pcb (entered n args s) = init_pcb s"
      "last_pid (entered n args s) = last_pid s" "booted (entered n args s) = booted s"
      "semdescriptor (entered n args s) = semdescriptor s" "semdescriptorptr (entered n args s) = semdescriptorptr s"
      "semaphore (entered n args s) = semaphore s" "descriptor (entered n args s) = descriptor s"
      "descriptorptr (entered n args s) = descriptorptr s"
    by (simp_all add: entered_def upd_pcb_def booted_def)
  have "timer_pcb s t \<noteq> running s" if "t \<in> set (L TimerList)" for t
    using inv(8) w that by (auto simp: timers_ok_def)
  then have h: "sched_ok (entered n args s) L"
    using inv(4) by (simp add: sched_ok_def timers_ok_def timers_sorted_def e f)
  with i c(1) show "kernel_inv (entered n args s) L"
    by (simp add: kernel_inv_def lineage_ok_def family_ok_def desc_ok_def sems_free_def sem_ok_def e f p del: pool_of.simps)
qed

end
