(* ===== verification/Kernel_Start.thy ===== *)
theory Kernel_Start
  imports Kernel_Safe
begin

text \<open>
  How the system comes up: \<open>disastrOS_start\<close> on zeroed static memory gives a system that satisfies
  the invariant, with one process that runs and empty lists; and the part of \<open>disastrOS_start\<close>
  that runs again whenever control is back in the main context keeps the invariant.
\<close>

subsection \<open>The first process\<close>

text \<open>The invariant as far as it does not speak of init.\<close>

definition main_ok :: "kernel \<Rightarrow> (list_loc \<Rightarrow> ptr list) \<Rightarrow> bool" where
  "main_ok s L \<longleftrightarrow> core_ok s L \<and> family_ok s L \<and> timers_ok s L \<and> desc_ok s L \<and> sems_free s L \<and> booted s \<and>
     (\<forall>p\<in>live s PCB_item. pcb_parent (pcb s p) \<noteq> p \<and> sint (pcb_pid (pcb s p)) < sint (last_pid s)) \<and>
     (\<forall>p\<in>live s PCB_item. \<forall>q\<in>live s PCB_item. pcb_pid (pcb s p) = pcb_pid (pcb s q) \<longrightarrow> p = q) \<and>
     (\<forall>p. pcb_status (pcb s p) = Waiting \<longrightarrow> p \<in> set (L WaitingList)) \<and>
     (\<forall>p\<in>set (L ReadyList). pcb_status (pcb s p) \<noteq> Zombie) \<and>
     (\<forall>t\<in>set (L TimerList). pcb_syscall_num (pcb s (timer_pcb s t)) = DSOS_CALL_SLEEP) \<and>
     (\<forall>p. pcb_timer (pcb s p) = NULL)"

lemma main_okI: "kernel_inv s L \<Longrightarrow> main_ok s L"
  by (simp add: kernel_inv_def main_ok_def lineage_ok_def sched_ok_def)

lemma main_okD:
  assumes "main_ok s L"
  shows "core_ok s L" "family_ok s L" "timers_ok s L" "desc_ok s L" "sems_free s L" "booted s"
    "p \<in> live s PCB_item \<Longrightarrow> pcb_parent (pcb s p) \<noteq> p" "p \<in> live s PCB_item \<Longrightarrow> sint (pcb_pid (pcb s p)) < sint (last_pid s)"
    "p \<in> live s PCB_item \<Longrightarrow> q \<in> live s PCB_item \<Longrightarrow> pcb_pid (pcb s p) = pcb_pid (pcb s q) \<Longrightarrow> p = q"
    "pcb_status (pcb s p) = Waiting \<Longrightarrow> p \<in> set (L WaitingList)"
    "p \<in> set (L ReadyList) \<Longrightarrow> pcb_status (pcb s p) \<noteq> Zombie"
    "t \<in> set (L TimerList) \<Longrightarrow> pcb_syscall_num (pcb s (timer_pcb s t)) = DSOS_CALL_SLEEP"
    "pcb_timer (pcb s p) = NULL"
  using assms by (simp_all add: main_ok_def del: pool_of.simps)

text \<open>What the first process looks like.\<close>

definition first_made :: "kernel \<Rightarrow> kernel \<Rightarrow> ptr \<Rightarrow> clong \<Rightarrow> clong \<Rightarrow> bool" where
  "first_made s s' p f a \<longleftrightarrow>
     p \<in> spare s PCB_item \<and> running s' = p \<and> init_pcb s' = p \<and> pcb_pid (pcb s' p) = last_pid s \<and>
     pcb_status (pcb s' p) = Running \<and> pcb_parent (pcb s' p) = NULL \<and>
     pcb_cpu_state (pcb s' p) = EntryContext f a \<and> pcb_last_fd (pcb s' p) = 0 \<and> pcb_last_sem_fd (pcb s' p) = 0 \<and>
     last_pid s' = last_pid s + 1 \<and> shutdown_now s' = shutdown_now s \<and>
     live s' PCB_item = insert p (live s PCB_item) \<and> spare s' PCB_item = spare s PCB_item - {p} \<and>
     (\<forall>k. k \<noteq> PCB_item \<longrightarrow> pool_of s' k = pool_of s k) \<and> (\<forall>q. q \<noteq> p \<longrightarrow> pcb s' q = pcb s q)"

lemma start_first_done:
  assumes m: "main_ok s L" and d: "shutdown_now s = 0"
  shows "if spare s PCB_item = {} then start_first f a s = Inl NullDeref
    else \<exists>p s'. start_first f a s = Inr (Some (ResumeProcess p, s')) \<and> first_made s s' p f a \<and>
      idle s' L PCB_item p \<and> (last_pid s \<noteq> 0x7FFFFFFF \<longrightarrow> kernel_inv s' L)"
  using main_okD(1) [OF m]
proof (cases rule: PCB_alloc_cases)
  case exhausted
  with d show ?thesis by (simp add: start_first_def)
next
  case (block p A)
  let ?s1 = "s\<lparr>pcb_mem := A, last_pid := last_pid s + 1\<rparr>"
  let ?s = "(upd_pcb p (\<lambda>c. c\<lparr>pcb_status := Running, pcb_cpu_state := EntryContext f a\<rparr>) ?s1)\<lparr>running := p, init_pcb := p\<rparr>"
  note main = main_okD [OF m]
  note a1 = allocd_core [OF main(1) block(2)]
  have p: "p \<in> spare s PCB_item" "p \<notin> live s PCB_item" "live ?s1 PCB_item = insert p (live s PCB_item)" "p \<noteq> NULL"
      "spare ?s1 PCB_item = spare s PCB_item - {p}" "\<And>k. k \<noteq> PCB_item \<Longrightarrow> pool_of ?s1 k = pool_of s k"
    using block(2) by (simp_all add: allocd_def)
  have "same_lists ?s ?s1" by (simp add: same_lists_def all_kinds all_locs upd_pcb_def)
  then have c: "core_ok ?s L" "idle ?s L PCB_item p"
    using a1(1,2) by (simp_all add: same_core same_idle)
  have po: "pool_of ?s k = pool_of ?s1 k" for k by (cases k) (simp_all add: upd_pcb_def)
  then have lv: "live ?s PCB_item = insert p (live s PCB_item)" using p(3) by (simp only:)
  have e: "pcb_pid (pcb ?s p) = last_pid s" "pcb_status (pcb ?s p) = Running" "pcb_parent (pcb ?s p) = NULL"
      "pcb_timer (pcb ?s p) = NULL" "pcb_cpu_state (pcb ?s p) = EntryContext f a"
      "pcb_last_fd (pcb ?s p) = 0" "pcb_last_sem_fd (pcb ?s p) = 0" "q \<noteq> p \<Longrightarrow> pcb ?s q = pcb s q" for q
    using block(3) by (simp_all add: upd_pcb_def)
  have f: "timer_item ?s = timer_item s" "pcbptr ?s = pcbptr s" "booted ?s = booted s"
      "semdescriptor ?s = semdescriptor s" "semdescriptorptr ?s = semdescriptorptr s"
      "semaphore ?s = semaphore s" "descriptor ?s = descriptor s" "descriptorptr ?s = descriptorptr s"
    by (simp_all add: upd_pcb_def booted_def)
  have r: "running ?s = p" "init_pcb ?s = p" "last_pid ?s = last_pid s + 1" "shutdown_now ?s = shutdown_now s"
    by (simp_all add: upd_pcb_def)
  have start: "start_first f a s = Inr (Some (ResumeProcess p, ?s))"
    using d block(1) by (simp add: start_first_def)
  have made: "first_made s ?s p f a"
    unfolding first_made_def po using p(1,3,5,6) e r by (simp del: pool_of.simps)
  have "kernel_inv ?s L" if n: "last_pid s \<noteq> 0x7FFFFFFF"
  proof -
    have "sint (last_pid s) \<noteq> sint (0x7FFFFFFF :: cint)" using n signed_word_eqI by blast
    then have lp: "sint (last_pid ?s) = sint (last_pid s) + 1" unfolding r by (intro sint_inc) simp
    have old: "x \<noteq> p \<and> pcb_pid (pcb s x) \<noteq> last_pid s" if "x \<in> live s PCB_item" for x
      using main(8) [OF that] p(2) that by auto
    have l: "lineage_ok ?s"
      unfolding lineage_ok_def lv r(2) lp
    proof (intro conjI ballI impI)
      fix x
      assume x: "x \<in> insert p (live s PCB_item)"
      show "pcb_parent (pcb ?s x) \<noteq> x" using x main(7) e(3,8) old p(4) by (cases "x = p") auto
      show "sint (pcb_pid (pcb ?s x)) < sint (last_pid s) + 1" using x main(8) [of x] e(1,8) by (cases "x = p") auto
      fix y
      assume "y \<in> insert p (live s PCB_item)" and "pcb_pid (pcb ?s x) = pcb_pid (pcb ?s y)"
      with x show "x = y" using e(1,8) old [of x] old [of y] main(9) [of x y]
        by (cases "x = p"; cases "y = p") auto
    qed (simp, rule e(3))
    have w: "p \<notin> set (L l)" if "kind_of l = PCB_item" for l
      using core_mem [OF main(1), of p l] p(2) that by auto
    have "timer_pcb s t \<noteq> p" if "t \<in> set (L TimerList)" for t
      using main(3) w [of WaitingList] that by (auto simp: timers_ok_def)
    then have ts: "pcb_syscall_num (pcb ?s (timer_pcb ?s t)) = DSOS_CALL_SLEEP" if "t \<in> set (L TimerList)" for t
      using main(12) [OF that] that e(8) unfolding f by auto
    have h: "sched_ok ?s L"
      unfolding sched_ok_def r(2)
    proof (intro conjI allI ballI impI)
      show "timers_ok ?s L" by (rule timers_ok_cong [OF main(3) f(1)]) simp_all
      show "pcb_status (pcb ?s x) = Waiting \<Longrightarrow> x \<in> set (L WaitingList)" for x
        using main(10) [of x] e(2,8) by (cases "x = p") auto
      show "x \<in> set (L ReadyList) \<Longrightarrow> pcb_status (pcb ?s x) \<noteq> Zombie" for x
        using main(11) [of x] e(2,8) by (cases "x = p") auto
      show "pcb_timer (pcb ?s x) = NULL" for x
        using main(13) [of x] e(4,8) by (cases "x = p") auto
      show "pcb_status (pcb ?s p) \<noteq> Zombie" using e(2) by simp
    qed (rule ts)
    have fa: "family_ok ?s L"
      using main(2) e(2,8) old unfolding family_ok_def f lv by (metis ProcessStatus.distinct insertCI)
    have "desc_ok ?s L" by (rule desc_ok_cong [OF main(4) f(7,8)]) simp_all
    moreover have "sems_free ?s L" using main(5) unfolding sems_free_def sem_ok_def f .
    moreover have "booted ?s" using main(6) unfolding f .
    ultimately show ?thesis using c(1) l fa h by (simp add: kernel_inv_def)
  qed
  then show ?thesis using start made c(2) p(1) by auto
qed

subsection \<open>Start on zeroed memory\<close>

text \<open>
  What the compiler and the linker provide: sizes of the structs that are positive and such that the
  buffers can be measured in an \<open>int\<close>, and buffers that are not at address 0 and do not wrap around.
\<close>

definition static_ok :: "static_mem \<Rightarrow> bool" where
  "static_ok st \<longleftrightarrow> (\<forall>k. 0 < sint (site_size st k) \<and> sint (site_size st k) < 65000 \<and>
     0 < uint (site_buffer st k) \<and> uint (site_buffer st k) + 2 ^ 31 \<le> 2 ^ 64)"

text \<open>Static memory is zero: what the invariant needs of that (the status 0 is \<open>Created\<close>).\<close>

definition zeroed :: "kernel \<Rightarrow> bool" where
  "zeroed s \<longleftrightarrow>
     (\<forall>p. pcb_status (pcb s p) = Created \<and> pcb_timer (pcb s p) = NULL \<and> pcb_sem_descriptors (pcb s p) = List_init) \<and>
     (\<forall>m. sem_count (semaphore s m) = 0) \<and> last_pid s = 0 \<and> shutdown_now s = 0 \<and>
     syscall_numarg s = replicate (nat (sint DSOS_MAX_SYSCALLS)) 0"

definition fresh :: "PoolAllocator \<Rightarrow> bool" where
  "fresh a \<longleftrightarrow> pool_good a \<and> pool_live a = {} \<and> card (pool_spare a) = 1024"

lemma init_pool_done:
  assumes st: "static_ok st" and n: "int n * (sint (site_size st k) + 4) < 2 ^ 31" "1024 \<le> n"
  shows "\<exists>a. init_pool st k 1024 (of_nat n * (site_size st k + 4)) A = Inr (A\<lparr>ar_pool := a\<rparr>) \<and> fresh a"
proof -
  have z: "0 < sint (site_size st k)" "0 < uint (site_buffer st k)" "uint (site_buffer st k) + 2 ^ 31 \<le> 2 ^ 64"
    using st by (auto simp: static_ok_def)
  have "1024 * (sint (site_size st k) + 4) \<le> int n * (sint (site_size st k) + 4)"
    using n(2) z(1) by (intro mult_right_mono) simp_all
  then have small: "int 1024 * (sint (site_size st k) + 4) < 2 ^ 31"
      "int 1024 * (sint (site_size st k) + 4) \<le> int n * (sint (site_size st k) + 4)"
    using n(1) by simp_all
  have w: "(of_nat n * (site_size st k + 4) :: cint) = word_of_int (int n * (sint (site_size st k) + 4))"
    by simp
  have "0 \<le> int n * (sint (site_size st k) + 4)" using z(1) by simp
  then have m: "sint (of_nat n * (site_size st k + 4) :: cint) = int n * (sint (site_size st k) + 4)"
    unfolding w using n(1) by (intro sint_cint_of_int) linarith+
  have c: "length (replicate (unat (1024 :: cint)) (0 :: cint)) = 1024" by simp
  from PoolAllocator_init_done [OF _ c z(1) small(1) small(2) [folded m] z(2,3), of "ar_pool A"]
  obtain a where a: "PoolAllocator_init (ar_pool A) (site_size st k) (of_nat 1024) (site_buffer st k)
      (replicate (unat (1024 :: cint)) 0) (of_nat n * (site_size st k + 4)) = Inr (Success, a)" "pool_good a"
      "pool_live a = {}" "card (pool_spare a) = 1024"
    by auto
  from a(1) have "init_pool st k 1024 (of_nat n * (site_size st k + 4)) A = Inr (A\<lparr>ar_pool := a\<rparr>)"
    by (simp add: init_pool_def)
  with a(2-4) show ?thesis by (auto simp: fresh_def)
qed

lemma init_pools_done:
  assumes "static_ok st"
  shows "\<exists>a. init_pool st k MAX_NUM_PROCESSES (MAX_NUM_PROCESSES * (site_size st k + 4)) A = Inr (A\<lparr>ar_pool := a\<rparr>) \<and> fresh a"
    and "\<exists>a. init_pool st k MAX_NUM_RESOURCES (MAX_NUM_RESOURCES * (site_size st k + 4)) A = Inr (A\<lparr>ar_pool := a\<rparr>) \<and> fresh a"
    and "\<exists>a. init_pool st k MAX_NUM_SEMAPHORES (MAX_NUM_SEMAPHORES * (site_size st k + 4)) A = Inr (A\<lparr>ar_pool := a\<rparr>) \<and> fresh a"
    and "\<exists>a. init_pool st k MAX_NUM_PROCESSES (MAX_NUM_DESCRIPTORS * (site_size st k + 4)) A = Inr (A\<lparr>ar_pool := a\<rparr>) \<and> fresh a"
    and "\<exists>a. init_pool st k MAX_NUM_PROCESSES (MAX_NUM_SEMDESCRIPTORS * (site_size st k + 4)) A = Inr (A\<lparr>ar_pool := a\<rparr>) \<and> fresh a"
proof -
  have "sint (site_size st k) < 65000" using assms by (simp add: static_ok_def)
  then have "int 1024 * (sint (site_size st k) + 4) < 2 ^ 31" "int 32768 * (sint (site_size st k) + 4) < 2 ^ 31"
    by simp_all
  with init_pool_done [OF assms, of 1024 k A] init_pool_done [OF assms, of 32768 k A]
  show "\<exists>a. init_pool st k MAX_NUM_PROCESSES (MAX_NUM_PROCESSES * (site_size st k + 4)) A = Inr (A\<lparr>ar_pool := a\<rparr>) \<and> fresh a"
    and "\<exists>a. init_pool st k MAX_NUM_RESOURCES (MAX_NUM_RESOURCES * (site_size st k + 4)) A = Inr (A\<lparr>ar_pool := a\<rparr>) \<and> fresh a"
    and "\<exists>a. init_pool st k MAX_NUM_SEMAPHORES (MAX_NUM_SEMAPHORES * (site_size st k + 4)) A = Inr (A\<lparr>ar_pool := a\<rparr>) \<and> fresh a"
    and "\<exists>a. init_pool st k MAX_NUM_PROCESSES (MAX_NUM_DESCRIPTORS * (site_size st k + 4)) A = Inr (A\<lparr>ar_pool := a\<rparr>) \<and> fresh a"
    and "\<exists>a. init_pool st k MAX_NUM_PROCESSES (MAX_NUM_SEMDESCRIPTORS * (site_size st k + 4)) A = Inr (A\<lparr>ar_pool := a\<rparr>) \<and> fresh a"
    by (simp_all add: MAX_NUM_PROCESSES_def MAX_NUM_RESOURCES_def MAX_NUM_SEMAPHORES_def MAX_NUM_DESCRIPTORS_def
      MAX_NUM_SEMDESCRIPTORS_def MAX_NUM_DESCRIPTORS_PER_PROCESS_def MAX_NUM_SEMDESCRIPTORS_PER_PROCESS_def)
qed

text \<open>\<open>disastrOS_start\<close> up to the point where the main context is saved.\<close>

lemma start_structures_done:
  assumes st: "static_ok st" and z: "zeroed s"
  shows "\<exists>s'. start_structures st s = Inr s' \<and> main_ok s' (\<lambda>_. []) \<and> shutdown_now s' = 0 \<and> last_pid s' = 0 \<and>
    (\<forall>k. fresh (pool_of s' k)) \<and> running s' = NULL"
proof -
  note p = init_pools_done [OF st]
  obtain a1 where a1: "init_pool st PCB_item MAX_NUM_PROCESSES (MAX_NUM_PROCESSES * (site_size st PCB_item + 4)) (pcb_mem s) =
      Inr ((pcb_mem s)\<lparr>ar_pool := a1\<rparr>)" "fresh a1" using p(1) by blast
  obtain a2 where a2: "init_pool st PCBPtr_item MAX_NUM_PROCESSES (MAX_NUM_PROCESSES * (site_size st PCBPtr_item + 4)) (pcbptr_mem s) =
      Inr ((pcbptr_mem s)\<lparr>ar_pool := a2\<rparr>)" "fresh a2" using p(1) by blast
  obtain a3 where a3: "init_pool st Timer_item MAX_NUM_PROCESSES (MAX_NUM_PROCESSES * (site_size st Timer_item + 4)) (timer_mem s) =
      Inr ((timer_mem s)\<lparr>ar_pool := a3\<rparr>)" "fresh a3" using p(1) by blast
  obtain a4 where a4: "init_pool st Resource_item MAX_NUM_RESOURCES (MAX_NUM_RESOURCES * (site_size st Resource_item + 4)) (resource_mem s) =
      Inr ((resource_mem s)\<lparr>ar_pool := a4\<rparr>)" "fresh a4" using p(2) by blast
  obtain a5 where a5: "init_pool st Descriptor_item MAX_NUM_PROCESSES (MAX_NUM_DESCRIPTORS * (site_size st Descriptor_item + 4)) (descriptor_mem s) =
      Inr ((descriptor_mem s)\<lparr>ar_pool := a5\<rparr>)" "fresh a5" using p(4) by blast
  obtain a6 where a6: "init_pool st DescriptorPtr_item MAX_NUM_PROCESSES (MAX_NUM_DESCRIPTORS * (site_size st DescriptorPtr_item + 4)) (descriptorptr_mem s) =
      Inr ((descriptorptr_mem s)\<lparr>ar_pool := a6\<rparr>)" "fresh a6" using p(4) by blast
  obtain a7 where a7: "init_pool st Semaphore_item MAX_NUM_SEMAPHORES (MAX_NUM_SEMAPHORES * (site_size st Semaphore_item + 4)) (semaphore_mem s) =
      Inr ((semaphore_mem s)\<lparr>ar_pool := a7\<rparr>)" "fresh a7" using p(3) by blast
  obtain a8 where a8: "init_pool st SemDescriptor_item MAX_NUM_PROCESSES (MAX_NUM_SEMDESCRIPTORS * (site_size st SemDescriptor_item + 4)) (semdescriptor_mem s) =
      Inr ((semdescriptor_mem s)\<lparr>ar_pool := a8\<rparr>)" "fresh a8" using p(5) by blast
  obtain a9 where a9: "init_pool st SemDescriptorPtr_item MAX_NUM_PROCESSES (MAX_NUM_SEMDESCRIPTORS * (site_size st SemDescriptorPtr_item + 4)) (semdescriptorptr_mem s) =
      Inr ((semdescriptorptr_mem s)\<lparr>ar_pool := a9\<rparr>)" "fresh a9" using p(5) by blast
  obtain vec numarg where t: "fill_table syscall_table (replicate (nat (sint DSOS_MAX_SYSCALLS)) None, syscall_numarg s) = (vec, numarg)"
    by (cases "fill_table syscall_table (replicate (nat (sint DSOS_MAX_SYSCALLS)) None, syscall_numarg s)")
  let ?s = "s\<lparr>pcb_mem := (pcb_mem s)\<lparr>ar_pool := a1\<rparr>, pcbptr_mem := (pcbptr_mem s)\<lparr>ar_pool := a2\<rparr>,
      timer_mem := (timer_mem s)\<lparr>ar_pool := a3\<rparr>, resource_mem := (resource_mem s)\<lparr>ar_pool := a4\<rparr>,
      descriptor_mem := (descriptor_mem s)\<lparr>ar_pool := a5\<rparr>, descriptorptr_mem := (descriptorptr_mem s)\<lparr>ar_pool := a6\<rparr>,
      semaphore_mem := (semaphore_mem s)\<lparr>ar_pool := a7\<rparr>, semdescriptor_mem := (semdescriptor_mem s)\<lparr>ar_pool := a8\<rparr>,
      semdescriptorptr_mem := (semdescriptorptr_mem s)\<lparr>ar_pool := a9\<rparr>,
      init_pcb := NULL, syscall_vector := vec, syscall_numarg := numarg, running := NULL,
      ready_list := List_init, waiting_list := List_init, zombie_list := List_init,
      resources_list := List_init, semaphores_list := List_init, timer_list := List_init\<rparr>"
  have start: "start_structures st s = Inr ?s"
    using a1(1) a2(1) a3(1) a4(1) a5(1) a6(1) a7(1) a8(1) a9(1) t
    by (simp add: start_structures_def PCB_init_def Timer_init_def Resource_init_def Descriptor_init_def
      Semaphore_init_def SemDescriptor_init_def)
  have fr: "fresh (pool_of ?s k)" for k
    using a1(2) a2(2) a3(2) a4(2) a5(2) a6(2) a7(2) a8(2) a9(2) by (cases k) simp_all
  then have lv: "live ?s k = {}" "pool_good (pool_of ?s k)" for k by (simp_all add: fresh_def del: pool_of.simps)
  have repr: "klist ?s l []" if "l \<in> heads ?s" for l
  proof -
    have "head_of ?s l = List_init"
      using that z lv(1) by (cases l) (simp_all add: heads_def zeroed_def del: pool_of.simps)
    then show ?thesis by (simp only: klist_def dlist_init)
  qed
  have core: "core_ok ?s (\<lambda>_. [])"
    unfolding core_ok_def layout_def using repr lv(2) by simp
  have "booted ?s" using z t by (simp add: booted_def zeroed_def)
  then have "main_ok ?s (\<lambda>_. [])"
    using core z unfolding main_ok_def lv(1)
    by (simp add: family_ok_def timers_ok_def timers_sorted_def desc_ok_def sems_free_def sem_ok_def zeroed_def)
  then show ?thesis using start fr z by (auto simp: zeroed_def simp del: pool_of.simps)
qed

lemma disastrOS_start_done:
  assumes "static_ok st" and "zeroed s"
  shows "\<exists>p s'. disastrOS_start st f a s = Inr (Some (ResumeProcess p, s')) \<and> kernel_inv s' (\<lambda>_. []) \<and>
    running s' = p \<and> init_pcb s' = p \<and> idle s' (\<lambda>_. []) PCB_item p \<and> live s' PCB_item = {p} \<and>
    pcb_pid (pcb s' p) = 0 \<and> pcb_status (pcb s' p) = Running \<and> pcb_cpu_state (pcb s' p) = EntryContext f a \<and>
    pcb_last_fd (pcb s' p) = 0 \<and> pcb_last_sem_fd (pcb s' p) = 0 \<and> last_pid s' = 1 \<and> shutdown_now s' = 0 \<and> card (spare s' PCB_item) = 1023 \<and> (\<forall>k. k \<noteq> PCB_item \<longrightarrow> fresh (pool_of s' k))"
proof -
  obtain s1 where s1: "start_structures st s = Inr s1" "main_ok s1 (\<lambda>_. [])" "shutdown_now s1 = 0" "last_pid s1 = 0"
      "\<forall>k. fresh (pool_of s1 k)"
    using start_structures_done [OF assms] by blast
  then have "card (spare s1 PCB_item) = 1024" "live s1 PCB_item = {}" by (simp_all only: fresh_def)
  moreover from this have "spare s1 PCB_item \<noteq> {}" by fastforce
  ultimately show ?thesis
    using start_first_done [OF s1(2,3), of f a] s1(1,3-5)
    by (auto simp: disastrOS_start_def first_made_def simp del: pool_of.simps)
qed

text \<open>An example: the layout of the buffers, and memory before the start.\<close>

definition ex_static :: static_mem where
  "ex_static = \<lparr>site_buffer = case_item_kind 0x1000000 0x3000000 0x4000000 0x5000000 0x6000000 0x7000000 0x8000000
     0x9000000 0xA000000, site_size = case_item_kind 17504 24 32 48 40 24 64 40 24\<rparr>"

lemma ex_static_ok: "static_ok ex_static"
  unfolding static_ok_def ex_static_def by (intro allI, rename_tac k, case_tac k) simp_all

definition ex_zero_arena :: "'a \<Rightarrow> 'a arena" where
  "ex_zero_arena x = \<lparr>ar_cells = (\<lambda>_. x), ar_links = ex_links [], ar_pool = ex_pool 0 [] 0 0\<rparr>"

definition ex_zero :: kernel where
  "ex_zero = \<lparr>
     pcb_mem = ex_zero_arena (ex_pcb 0 Created 0 (ex_list []) (ex_list []) (ex_list [])),
     pcbptr_mem = ex_zero_arena \<lparr>pp_pcb = 0\<rparr>,
     timer_mem = ex_zero_arena \<lparr>ti_awakening_time = 0, ti_pcb = 0\<rparr>,
     resource_mem = ex_zero_arena \<lparr>res_id = 0, res_type = 0, res_descriptors = ex_list []\<rparr>,
     descriptor_mem = ex_zero_arena \<lparr>des_pcb = 0, des_resource = 0, des_fd = 0, des_ptr = 0\<rparr>,
     descriptorptr_mem = ex_zero_arena \<lparr>dp_descriptor = 0\<rparr>,
     semaphore_mem = ex_zero_arena \<lparr>sem_id = 0, sem_count = 0, sem_descriptors = ex_list [],
       sem_waiting_descriptors = ex_list []\<rparr>,
     semdescriptor_mem = ex_zero_arena \<lparr>sd_pcb = 0, sd_semaphore = 0, sd_fd = 0, sd_ptr = 0\<rparr>,
     semdescriptorptr_mem = ex_zero_arena \<lparr>sp_descriptor = 0\<rparr>,
     init_pcb = 0, running = 0, last_pid = 0, ready_list = ex_list [], waiting_list = ex_list [],
     zombie_list = ex_list [], timer_list = ex_list [], resources_list = ex_list [], semaphores_list = ex_list [],
     syscall_vector = replicate 32 None, syscall_numarg = replicate 32 0, shutdown_now = 0, disastrOS_time = 0,
     user_mem = (\<lambda>_. 0)\<rparr>"

lemma ex_zeroed: "zeroed ex_zero"
  by (simp add: zeroed_def ex_zero_def ex_zero_arena_def ex_pcb_def ex_list_def List_init_def DSOS_MAX_SYSCALLS_def)

text \<open>
  C17: the start of the system. On zeroed static memory \<open>disastrOS_start\<close> returns to the first
  process: a process with pid 0, the only block in use, that is init, is marked as running, starts
  in the given function and has no descriptors; all lists are empty and the invariant holds. (The
  comment in the code speaks of pid 1.)
\<close>

theorem disastrOS_start_boots:
  assumes "static_ok st" and "zeroed s"
  shows "\<exists>p s'. disastrOS_start st f a s = Inr (Some (ResumeProcess p, s')) \<and> kernel_inv s' (\<lambda>_. []) \<and>
    running s' = p \<and> init_pcb s' = p \<and> idle s' (\<lambda>_. []) PCB_item p \<and> live s' PCB_item = {p} \<and>
    pcb_pid (pcb s' p) = 0 \<and> pcb_status (pcb s' p) = Running \<and> pcb_cpu_state (pcb s' p) = EntryContext f a \<and>
    pcb_last_fd (pcb s' p) = 0 \<and> pcb_last_sem_fd (pcb s' p) = 0 \<and> last_pid s' = 1 \<and> shutdown_now s' = 0 \<and> card (spare s' PCB_item) = 1023 \<and>
    (\<forall>k. k \<noteq> PCB_item \<longrightarrow> fresh (pool_of s' k))"
  using assms by (rule disastrOS_start_done)

theorem disastrOS_start_boots_witness:
  "\<exists>p s'. disastrOS_start ex_static 7 8 ex_zero = Inr (Some (ResumeProcess p, s')) \<and>
    pcb_pid (pcb s' p) = 0 \<and> pcb_cpu_state (pcb s' p) = EntryContext 7 8"
  using disastrOS_start_boots [OF ex_static_ok ex_zeroed, of 7 8] by (elim exE conjE) (intro exI conjI)

end
