(* ===== verification/Kernel_Runs.thy ===== *)
theory Kernel_Runs
  imports Kernel_Start
begin

text \<open>
  Runs of the system: processes call the kernel, the timer interrupts them, they write to their
  memory and return; the main context starts the first process again or ends the program. The
  invariant holds along every run in which no wait meets a semaphore that is not free, no semaphore
  is created with a negative count and the process ids do not run out.
\<close>

subsection \<open>Calls\<close>

text \<open>The functions of \<open>disastrOS.h\<close> that trap, with their arguments.\<close>

datatype call =
  Fork | Wait cint ptr | Exit cint | Preempt | Spawn clong clong | Shutdown | Sleep cint
| OpenResource cint cint cint | CloseResource cint | DestroyResource cint
| OpenSemaphore cint cint cint | WaitSemaphore cint | PostSemaphore cint | CloseSemaphore cint

fun do_call :: "call \<Rightarrow> kernel \<Rightarrow> (syscall_outcome \<times> kernel) result" where
  "do_call Fork s = disastrOS_fork s"
| "do_call (Wait pid r) s = disastrOS_wait s pid r"
| "do_call (Exit v) s = disastrOS_exit s v"
| "do_call Preempt s = disastrOS_preempt s"
| "do_call (Spawn f a) s = disastrOS_spawn s f a"
| "do_call Shutdown s = disastrOS_shutdown s"
| "do_call (Sleep n) s = disastrOS_sleep s n"
| "do_call (OpenResource i t m) s = disastrOS_openResource s i t m"
| "do_call (CloseResource fd) s = disastrOS_closeResource s fd"
| "do_call (DestroyResource i) s = disastrOS_destroyResource s i"
| "do_call (OpenSemaphore i fl n) s = disastrOS_openSemaphore s i fl n"
| "do_call (WaitSemaphore fd) s = disastrOS_waitSemaphore s fd"
| "do_call (PostSemaphore fd) s = disastrOS_postSemaphore s fd"
| "do_call (CloseSemaphore fd) s = disastrOS_closeSemaphore s fd"

fun call_entry :: "call \<Rightarrow> cint \<times> handler \<times> clong list" where
  "call_entry Fork = (DSOS_CALL_FORK, internal_fork_h, [])"
| "call_entry (Wait pid r) = (DSOS_CALL_WAIT, internal_wait_h, [scast pid, r])"
| "call_entry (Exit v) = (DSOS_CALL_EXIT, internal_exit_h, [scast v])"
| "call_entry Preempt = (DSOS_CALL_PREEMPT, internal_preempt_h, [])"
| "call_entry (Spawn f a) = (DSOS_CALL_SPAWN, internal_spawn_h, [f, a])"
| "call_entry Shutdown = (DSOS_CALL_SHUTDOWN, internal_shutdown_h, [])"
| "call_entry (Sleep n) = (DSOS_CALL_SLEEP, internal_sleep_h, [scast n])"
| "call_entry (OpenResource i t m) = (DSOS_CALL_OPEN_RESOURCE, internal_openResource_h, [scast i, scast t, scast m])"
| "call_entry (CloseResource fd) = (DSOS_CALL_CLOSE_RESOURCE, internal_closeResource_h, [scast fd])"
| "call_entry (DestroyResource i) = (DSOS_CALL_DESTROY_RESOURCE, internal_destroyResource_h, [scast i])"
| "call_entry (OpenSemaphore i fl n) = (DSOS_CALL_SEMOPEN, internal_semOpen_h, [scast i, scast fl, scast n])"
| "call_entry (WaitSemaphore fd) = (DSOS_CALL_SEMWAIT, internal_semWait_h, [scast fd])"
| "call_entry (PostSemaphore fd) = (DSOS_CALL_SEMPOST, internal_semPost_h, [scast fd])"
| "call_entry (CloseSemaphore fd) = (DSOS_CALL_SEMCLOSE, internal_semClose_h, [scast fd])"

lemmas call_defs = disastrOS_fork_def disastrOS_wait_def disastrOS_exit_def disastrOS_preempt_def
  disastrOS_spawn_def disastrOS_shutdown_def disastrOS_sleep_def disastrOS_openResource_def
  disastrOS_closeResource_def disastrOS_destroyResource_def disastrOS_openSemaphore_def
  disastrOS_waitSemaphore_def disastrOS_postSemaphore_def disastrOS_closeSemaphore_def

text \<open>Every call function reaches its handler, with its arguments in the registers of the caller.\<close>

lemma do_call_enters:
  assumes "booted s" and "running s \<noteq> NULL" and "call_entry c = (n, h, args)"
  shows "do_call c s = bindE (call_handler h (entered n args s)) (after_handler h)"
proof -
  have e: "do_call c s = disastrOS_syscall s n args"
    using assms(3) by (cases c) (auto simp: call_defs)
  have "0 \<le> sint n \<and> sint n < 32 \<and> length args = nat (sint (syscall_numarg s ! nat (sint n))) \<and>
      length args \<le> DSOS_MAX_SYSCALLS_ARGS \<and> syscall_vector s ! nat (sint n) = Some h"
    using assms(3) booted_vector [OF assms(1)]
    by (cases c) (auto simp: syscall_numbers syscall_table_def DSOS_MAX_SYSCALLS_ARGS_def)
  with syscall_enters [OF assms(1,2), of n args] show ?thesis unfolding e by simp
qed

subsection \<open>Steps\<close>

text \<open>
  Control is in the process that is \<open>running\<close>, in the main context, or the program has ended. The
  timer interrupts processes only.
\<close>

datatype control = InProcess | InMain | Halted

datatype event = Call call | TimerTick | Compute "ptr \<Rightarrow> cint" | Return | Enter clong clong

fun resumed :: "resume \<Rightarrow> control" where
  "resumed (ResumeProcess p) = InProcess"
| "resumed ReturnToMain = InMain"

inductive sys_step :: "control \<times> kernel \<Rightarrow> event \<Rightarrow> control \<times> kernel \<Rightarrow> bool" where
  call: "do_call c s = Inr (Trapped r, s') \<Longrightarrow> sys_step (InProcess, s) (Call c) (resumed r, s')"
| tick: "timerHandler s = Inr s' \<Longrightarrow> sys_step (InProcess, s) TimerTick (InProcess, s')"
| compute: "sys_step (InProcess, s) (Compute m) (InProcess, s\<lparr>user_mem := m\<rparr>)"
| return: "sys_step (InProcess, s) Return (InMain, s)"
| restart: "start_first f a s = Inr (Some (r, s')) \<Longrightarrow> sys_step (InMain, s) (Enter f a) (InProcess, s')"
| halt: "start_first f a s = Inr None \<Longrightarrow> sys_step (InMain, s) (Enter f a) (Halted, s)"

inductive_cases sys_step_processE: "sys_step (InProcess, s) e t"
inductive_cases sys_step_mainE: "sys_step (InMain, s) e t"
inductive_simps sys_step_halted [simp]: "sys_step (Halted, s) e t"
inductive_simps sys_step_tick: "sys_step (InProcess, s) TimerTick t"
inductive_simps sys_step_call: "sys_step (InProcess, s) (Call c) t"

text \<open>The steps the invariant is kept by.\<close>

fun safe :: "kernel \<Rightarrow> event \<Rightarrow> bool" where
  "safe s (Call c) \<longleftrightarrow> (let (n, h, args) = call_entry c in safe_call h (entered n args s))"
| "safe s (Enter f a) \<longleftrightarrow> last_pid s \<noteq> 0x7FFFFFFF"
| "safe s _ \<longleftrightarrow> True"

fun conf_ok :: "control \<times> kernel \<Rightarrow> bool" where
  "conf_ok (InProcess, s) \<longleftrightarrow> sys_ok s \<and> running s \<noteq> NULL"
| "conf_ok (_, s) \<longleftrightarrow> sys_ok s"

lemma conf_ok_sys: "conf_ok (c, s) \<Longrightarrow> sys_ok s"
  by (cases c) simp_all

lemma sys_okE:
  assumes "sys_ok s"
  obtains L where "kernel_inv s L" "running s \<noteq> NULL \<Longrightarrow> idle s L PCB_item (running s)"
  using assms by (auto simp: sys_ok_def)

text \<open>What a call that resumes someone went through: its handler, from the state that the trap has entered.\<close>

lemma call_unwound:
  assumes "booted s" and "running s \<noteq> NULL" and "do_call c s = Inr (Trapped r, s')" and "call_entry c = (n, h, args)"
  shows "call_handler h (entered n args s) = Inr s'" and "conf_ok (resumed r, s') \<longleftrightarrow> sys_ok s'"
proof -
  obtain t where t: "call_handler h (entered n args s) = Inr t" "after_handler h t = Inr (Trapped r, s')"
    using assms(3) do_call_enters [OF assms(1,2,4)] by (auto simp: bindE_Inr_iff)
  then show "call_handler h (entered n args s) = Inr s'" by (simp add: after_handler_def)
  show "conf_ok (resumed r, s') \<longleftrightarrow> sys_ok s'" using t(2) by (auto simp: after_handler_def split: if_splits)
qed

lemma call_step_ok:
  assumes "sys_ok s" and "running s \<noteq> NULL" and "do_call c s = Inr (Trapped r, s')" and "safe s (Call c)"
  shows "conf_ok (resumed r, s')"
proof -
  obtain n h args where c: "call_entry c = (n, h, args)" by (cases "call_entry c")
  obtain L where L: "kernel_inv s L" "idle s L PCB_item (running s)"
    using assms(1,2) by (auto elim: sys_okE)
  note e = entered_inv [OF L, of n args] and t = call_unwound [OF kernel_invD(7) [OF L(1)] assms(2,3) c]
  have "h = internal_sleep_h \<Longrightarrow> n = DSOS_CALL_SLEEP" using c by (cases c) auto
  then have "sys_ok s'"
    using handler_inv [OF e t(1)] assms(4) c by (simp add: entered_simps)
  with t(2) show ?thesis by simp
qed

lemma step_ok:
  assumes "sys_step x e y" and "conf_ok x" and "safe (snd x) e"
  shows "conf_ok y"
  using assms
proof (induction rule: sys_step.induct)
  case (call c s r s')
  show ?case by (rule call_step_ok [OF _ _ call(1)]) (use call in simp_all)
next
  case (tick s s')
  then obtain L where "kernel_inv s L" "idle s L PCB_item (running s)" by (auto elim: sys_okE)
  with tick tick_inv show ?case by simp
next
  case (compute s m)
  then obtain L where L: "kernel_inv s L" "idle s L PCB_item (running s)" by (auto elim: sys_okE)
  have "keeps (- {ContextPart}) (s\<lparr>user_mem := m\<rparr>) s" by (intro frame keeps_refl)
  then have "kernel_inv (s\<lparr>user_mem := m\<rparr>) L"
    using kernel_invD(1) [OF L(1)] by (intro inv_keeps [OF L(1)]) simp_all
  then have "sys_ok (s\<lparr>user_mem := m\<rparr>)" using L(2) by (intro sys_okI) simp_all
  with compute show ?case by simp
next
  case (return s)
  then show ?case by simp
next
  case (restart f a s r s')
  then obtain L where L: "kernel_inv s L" by (auto elim: sys_okE)
  have d: "shutdown_now s = 0" using restart(1) by (auto simp: start_first_def split: if_splits)
  from start_first_done [OF main_okI [OF L] d, of f a] restart obtain p where
    "kernel_inv s' L" "idle s' L PCB_item p" "running s' = p" by (auto simp: first_made_def split: if_splits)
  then have "sys_ok s' \<and> running s' \<noteq> NULL"
    using live_nonnull [OF kernel_invD(1) idleD(1)] sys_okI by blast
  then show ?case by auto
next
  case (halt f a s)
  then show ?case by simp
qed

subsection \<open>Runs\<close>

definition safe_step :: "control \<times> kernel \<Rightarrow> control \<times> kernel \<Rightarrow> bool" where
  "safe_step x y \<longleftrightarrow> (\<exists>e. sys_step x e y \<and> safe (snd x) e)"

lemma safe_stepI: "sys_step x e y \<Longrightarrow> safe (snd x) e \<Longrightarrow> safe_step x y"
  by (auto simp: safe_step_def)

lemma safe_runs: "safe_step\<^sup>*\<^sup>* x y \<Longrightarrow> conf_ok x \<Longrightarrow> conf_ok y"
  by (induction rule: rtranclp_induct) (auto simp: safe_step_def intro: step_ok)

text \<open>
  C1: the invariant of the kernel. Started on zeroed memory, the system satisfies the invariant
  after every finite run of calls, timer interrupts, computations, returns to the main context and
  restarts, in which the calls are safe: all pools and lists are well formed and no item is in two
  lists, process ids are unique and the family tree agrees with the zombies, the timers are ordered
  and belong to sleeping processes, every process marked as waiting is in the waiting list, the
  descriptors agree with the lists of their resources and semaphores, and as long as a process runs
  it is in no list.
\<close>

theorem runs_keep_invariant:
  assumes "static_ok st" and "zeroed s" and "disastrOS_start st f a s = Inr (Some (r, s0))"
    and "safe_step\<^sup>*\<^sup>* (InProcess, s0) (c, t)"
  shows "sys_ok t \<and> (c = InProcess \<longrightarrow> running t \<noteq> NULL)"
proof -
  from disastrOS_start_done [OF assms(1,2), of f a] assms(3) obtain p where
    p: "kernel_inv s0 (\<lambda>_. [])" "running s0 = p" "idle s0 (\<lambda>_. []) PCB_item p" by auto
  then have "conf_ok (InProcess, s0)"
    using sys_okI live_nonnull [OF kernel_invD(1) [OF p(1)] idleD(1) [OF p(3)]] by auto
  from safe_runs [OF assms(4) this] show ?thesis by (cases c) simp_all
qed

text \<open>A fork that finds free blocks is a step.\<close>

lemma fork_step:
  assumes L: "kernel_inv s L" "idle s L PCB_item (running s)" and n: "last_pid s \<noteq> 0x7FFFFFFF"
    and sp: "spare s PCB_item \<noteq> {}" "spare s PCBPtr_item \<noteq> {}"
  shows "\<exists>s'. safe_step (InProcess, s) (InProcess, s') \<and> last_pid s' = last_pid s + 1 \<and> running s' = running s"
proof -
  let ?s = "entered DSOS_CALL_FORK [] s"
  note e = entered_inv [OF L, of DSOS_CALL_FORK "[]"]
  have u: "running ?s = running s" "last_pid ?s = last_pid s" "spare ?s k = spare s k" for k
    by (cases k; simp add: entered_def upd_pcb_def)+
  obtain s' p q where m: "make_child ?s = Inr (p, s')" "child_made ?s L s' p q"
    using make_child_made [OF kernel_invD(1) [OF e(1)] idleD(1) [OF e(2)]] sp unfolding u by blast
  then have r: "running s' = running s" "last_pid s' = last_pid s + 1"
    using u(1,2) by (simp_all add: child_made_def)
  have nn: "running s \<noteq> NULL" using live_nonnull [OF kernel_invD(1) [OF L(1)] idleD(1) [OF L(2)]] .
  have "do_call Fork s = Inr (Trapped (ResumeProcess (running s)), s')"
    using do_call_enters [OF kernel_invD(7) [OF L(1)] nn, of Fork] m(1) r(1) nn
    by (simp add: internal_fork_def after_handler_def)
  then have "sys_step (InProcess, s) (Call Fork) (InProcess, s')"
    using sys_step.call [of Fork s "ResumeProcess (running s)" s'] by simp
  then have "safe_step (InProcess, s) (InProcess, s')"
    by (rule safe_stepI) (simp add: u(2) n)
  with r show ?thesis by blast
qed

text \<open>A run: init forks, computes, returns, and the main context starts a second init.\<close>

theorem runs_keep_invariant_witness:
  "\<exists>s0 t p. disastrOS_start ex_static 7 8 ex_zero = Inr (Some (ResumeProcess p, s0)) \<and>
    safe_step\<^sup>*\<^sup>* (InProcess, s0) (InMain, t) \<and> last_pid t = 2 \<and> sys_ok t"
proof -
  obtain p s0 where s0: "disastrOS_start ex_static 7 8 ex_zero = Inr (Some (ResumeProcess p, s0))"
      "kernel_inv s0 (\<lambda>_. [])" "running s0 = p" "idle s0 (\<lambda>_. []) PCB_item p" "last_pid s0 = 1"
      "spare s0 PCB_item \<noteq> {}" "spare s0 PCBPtr_item \<noteq> {}"
  proof -
    have "A \<noteq> {}" if "card A = 1023 \<or> card A = 1024" for A :: "ptr set" using that by fastforce
    moreover obtain p s0 where "disastrOS_start ex_static 7 8 ex_zero = Inr (Some (ResumeProcess p, s0))"
        "kernel_inv s0 (\<lambda>_. [])" "running s0 = p" "idle s0 (\<lambda>_. []) PCB_item p" "last_pid s0 = 1"
        "card (spare s0 PCB_item) = 1023" "fresh (pool_of s0 PCBPtr_item)"
      using disastrOS_start_done [OF ex_static_ok ex_zeroed, of 7 8] by (auto simp del: pool_of.simps)
    ultimately show thesis using that unfolding fresh_def by blast
  qed
  obtain s1 where s1: "safe_step (InProcess, s0) (InProcess, s1)" "last_pid s1 = 2"
    using fork_step [OF s0(2) _ _ s0(6,7)] s0(3-5) by auto
  let ?t = "s1\<lparr>user_mem := (\<lambda>_. 5)\<rparr>"
  have "safe_step (InProcess, s1) (InProcess, ?t)" by (rule safe_stepI [OF sys_step.compute]) simp
  moreover have "safe_step (InProcess, ?t) (InMain, ?t)" by (rule safe_stepI [OF sys_step.return]) simp
  ultimately have run: "safe_step\<^sup>*\<^sup>* (InProcess, s0) (InMain, ?t)"
    using s1(1) by (meson rtranclp.rtrancl_into_rtrancl r_into_rtranclp)
  from runs_keep_invariant [OF ex_static_ok ex_zeroed s0(1) run] have "sys_ok ?t" by blast
  moreover have "last_pid ?t = 2" using s1(2) by simp
  ultimately show ?thesis using s0(1) run by blast
qed

end
