(* ===== verification/Kernel_Faults.thy ===== *)
theory Kernel_Faults
  imports Kernel_Runs
begin

text \<open>
  What can go wrong in a system that satisfies the invariant. No assertion of the code fails, no
  array is read out of bounds and every loop ends, but for the exit of init with children; what is
  left is a null pointer that is dereferenced. And what happens when nobody is left to run.
\<close>

subsection \<open>Faults of the handlers\<close>

definition tame :: "'a result \<Rightarrow> bool" where
  "tame m \<longleftrightarrow> (\<forall>e. m = Inl e \<longrightarrow> e = NullDeref)"

lemma tame_simps [simp]: "tame (Inr x)" "tame (Inl e) \<longleftrightarrow> e = NullDeref"
  by (simp_all add: tame_def)

lemma tame_ex: "\<exists>x. m = Inr x \<and> P x \<Longrightarrow> tame m"
  by auto

lemma tame_wait:
  assumes i: "kernel_inv s L" and r: "idle s L PCB_item (running s)"
  shows "tame (internal_wait s)"
proof (cases "L (Children (running s)) = []")
  case True
  with wait_childless [OF kernel_invD(1) [OF i] idleD(1) [OF r]] show ?thesis by simp
next
  case False
  note inv = kernel_invD [OF i]
  let ?q = "wait_choice s (ucast (run_arg s 0)) (L (Children (running s)))"
  have "tame (reap s (item_pcb s ?q) ?q a)" if "pcb_status (pcb s (item_pcb s ?q)) = Zombie" for a
    by (rule tame_ex [OF reap_done [OF inv(1,3) r wait_choice_mem [OF False] that]])
  moreover have "tame (block_in_wait s)"
  proof (cases "L ReadyList")
    case Nil
    with block_alone [OF inv(1) r] show ?thesis by simp
  next
    case (Cons p ps)
    show ?thesis by (rule tame_ex [OF block_next [OF inv(1,3) r Cons]])
  qed
  ultimately show ?thesis
    unfolding internal_wait_choice [OF inv(1,3) idleD(1) [OF r] False refl] by simp
qed

lemma tame_exit:
  assumes i: "kernel_inv s L" and r: "idle s L PCB_item (running s)"
    and n: "running s = init_pcb s \<Longrightarrow> L (Children (running s)) = []"
  shows "tame (internal_exit s)"
proof -
  note inv = kernel_invD [OF i]
  let ?par = "pcb_parent (pcb s (running s))"
  have ii: "init_pcb s \<in> live s PCB_item" "pcb_parent (pcb s (init_pcb s)) = NULL" "?par \<noteq> running s"
    using inv(2) idleD(1) [OF r] by (simp_all add: lineage_ok_def)
  show ?thesis
  proof (cases "running s = init_pcb s")
    case True
    with exit_init [OF inv(1,3) r True ii(2)] n show ?thesis by simp
  next
    case False
    then have f: "init_pcb s \<noteq> running s" by simp
    show ?thesis
    proof (cases "?par = NULL")
      case True
      with exit_orphan [OF inv(1,3) r ii(1) f] show ?thesis by simp
    next
      case par: False
      show ?thesis
      proof (cases "parent_awaits s ?par")
        case True
        have wp: "?par \<in> set (L WaitingList)" using inv(4) True by (simp add: sched_ok_def parent_awaits_def)
        have pid: "x = running s" if "x \<in> live s PCB_item" "pcb_pid (pcb s x) = pcb_pid (pcb s (running s))" for x
          using inv(2) that idleD(1) [OF r] unfolding lineage_ok_def by blast
        show ?thesis
        proof (cases "\<exists>q\<in>set (dead s L (Children ?par)). item_pcb s q = running s")
          case True
          then obtain q where q: "q \<in> set (dead s L (Children ?par))" "item_pcb s q = running s" by blast
          show ?thesis
            by (rule tame_ex [OF exit_to_heir [OF inv(1,3,5,8) r ii(1) f refl \<open>parent_awaits s ?par\<close> wp q pid]])
        next
          case False
          then have "internal_exit s = Inl NullDeref"
            using exit_to_stranger [OF inv(1,3) r ii(1) f refl True wp _ pid] by blast
          then show ?thesis by simp
        qed
      next
        case a: False
        have z: "\<forall>p\<in>set (L ReadyList). pcb_status (pcb s p) \<noteq> Zombie" using inv(4) by (simp add: sched_ok_def)
        from exit_to_zombie [OF inv(1,3) r ii(1) f refl par ii(3) a z] show ?thesis
          by (auto split: if_splits)
      qed
    qed
  qed
qed

lemma tame_semaphores:
  assumes i: "kernel_inv s L" and r: "idle s L PCB_item (running s)"
  shows "tame (internal_semOpen s)" and "tame (internal_semClose s)" and "tame (internal_semWait s)"
    and "tame (internal_semPost s)"
proof -
  note inv = kernel_invD [OF i]
  note w = wait_ok_free [OF inv(6)] and l = idleD(1) [OF r]
  let ?d = "sem_of_fd s L (ucast (run_arg s 0))"
  let ?m = "sd_semaphore (semdescriptor s ?d)"
  have opens: "sem_opens s t M m \<Longrightarrow> tame (internal_semOpen s)" for t M m
    by (auto simp: sem_opens_def split: if_splits)
  show "tame (internal_semOpen s)"
  proof (cases "(ucast (run_arg s 1) :: cint) AND DSOS_CREATE = 0")
    case True
    from semOpen_existing_cases [OF inv(1,9) l refl True] opens show ?thesis
      by (auto split: if_splits)
  next
    case False
    from semOpen_create_cases [OF inv(1,9) l False] opens show ?thesis
      by (auto split: if_splits)
  qed
  from semClose_cases [OF inv(1,9) w l refl] show "tame (internal_semClose s)"
    by (auto split: if_splits)
  have lk: "SemDescriptorList_byFd s (pcb_sem_descriptors (pcb s (running s))) (ucast (run_arg s 0)) = Inr ?d"
      "running s \<noteq> NULL"
    using sem_lookup [OF inv(1) l] live_nonnull [OF inv(1) l] by simp_all
  have c: "0 \<le> sint (sem_count (semaphore s ?m))" "L (SemWaiting ?m) = []"
    using inv(6) by (simp_all add: sems_free_def)
  show "tame (internal_semWait s)"
  proof (cases "?d = NULL")
    case True
    with lk show ?thesis by (simp add: internal_semWait_def Let_def)
  next
    case d: False
    show ?thesis
    proof (cases "0 < sint (sem_count (semaphore s ?m))")
      case True
      from semWait_free [OF inv(1,9) l refl d refl True] show ?thesis by simp
    next
      case False
      with c(1) have n: "sint (sem_count (semaphore s ?m)) \<le> 0" "sint (sem_count (semaphore s ?m)) \<noteq> - (2 ^ 31)"
        by simp_all
      show ?thesis
      proof (cases "spare s SemDescriptorPtr_item = {}")
        case True
        from semWait_exhausted [OF inv(1,9) l refl d refl n this] show ?thesis by simp
      next
        case False
        from semWait_queue [OF inv(1,9) w r refl d refl n False] obtain s' where "internal_semWait s = Inr s'" by blast
        then show ?thesis by simp
      qed
    qed
  qed
  show "tame (internal_semPost s)"
  proof (cases "?d = NULL")
    case True
    with lk show ?thesis by (simp add: internal_semPost_def Let_def)
  next
    case d: False
    show ?thesis
    proof (cases "sint (sem_count (semaphore s ?m)) = 2 ^ 31 - 1")
      case True
      then have "sem_count (semaphore s ?m) = 0x7FFFFFFF" by (intro signed_word_eqI) simp
      then have "sem_count (semaphore s ?m) + 1 \<le>s 0" by (simp add: word_sle_eq)
      from semPost_nobody [OF inv(1,9) l refl d refl this c(2)] show ?thesis by simp
    next
      case False
      from semPost_free [OF inv(1,9) l refl d refl c(1) False] show ?thesis by simp
    qed
  qed
qed

lemma handler_tame:
  assumes i: "kernel_inv s L" and r: "idle s L PCB_item (running s)"
    and n: "h = internal_exit_h \<Longrightarrow> running s = init_pcb s \<Longrightarrow> L (Children (running s)) = []"
  shows "tame (call_handler h s)"
proof -
  note inv = kernel_invD [OF i]
  note l = idleD(1) [OF r]
  have nn: "running s \<noteq> NULL" by (rule live_nonnull [OF inv(1) l])
  have child: "tame (make_child s)"
    using make_child_exhausted [OF inv(1) _ nn] make_child_made [OF inv(1) l] by (metis tame_simps)
  have f: "tame (internal_fork s)" "tame (internal_spawn s)"
    using child by (auto simp: internal_fork_def internal_spawn_def bindE_def tame_def split: sum.splits if_splits)
  have t: "pcb_timer (pcb s (running s)) = NULL" using inv(4) by (simp add: sched_ok_def)
  have opens: "opens s t M m \<Longrightarrow> tame (internal_openResource s)" for t M m
    by (auto simp: opens_def split: if_splits)
  have "tame (internal_openResource s)"
    using openResource_cases [OF inv(1,5) l refl refl refl refl] opens by (auto split: if_splits)
  moreover have "tame (internal_closeResource s)"
    using closeResource_cases [OF inv(1,5) l refl] by (auto split: if_splits)
  moreover have "tame (internal_destroyResource s)"
    using destroyResource_cases [OF inv(1,5) l refl] by (auto split: if_splits)
  moreover have "tame (internal_preempt s)"
    unfolding internal_preempt_def by (rule tame_ex [OF internal_schedule_total [OF inv(1,8) r]])
  moreover have "tame (internal_sleep s)"
    by (rule tame_ex [OF internal_sleep_total [OF inv(1,8) r t]])
  ultimately show ?thesis
    using f tame_wait [OF i r] tame_exit [OF i r] n tame_semaphores [OF i r] by (cases h) simp_all
qed

lemma do_call_tame:
  assumes i: "kernel_inv s L" and r: "idle s L PCB_item (running s)" and e: "do_call c s = Inl e"
  shows "e = NullDeref \<or> e = Hang \<and> (\<exists>v. c = Exit v) \<and> running s = init_pcb s \<and> L (Children (running s)) \<noteq> []"
proof -
  obtain n h args where c: "call_entry c = (n, h, args)" by (cases "call_entry c")
  let ?s = "entered n args s"
  note en = entered_inv [OF i r, of n args]
  have nn: "running s \<noteq> NULL" by (rule live_nonnull [OF kernel_invD(1) [OF i] idleD(1) [OF r]])
  have u: "running ?s = running s" "init_pcb ?s = init_pcb s" by (simp_all add: entered_def upd_pcb_def)
  have h: "call_handler h ?s = Inl e"
    using e do_call_enters [OF kernel_invD(7) [OF i] nn c]
    by (cases "call_handler h ?s") (auto simp: after_handler_def)
  show ?thesis
  proof (cases "h = internal_exit_h \<and> running s = init_pcb s \<and> L (Children (running s)) \<noteq> []")
    case True
    have "pcb_parent (pcb ?s (init_pcb ?s)) = NULL" using kernel_invD(2) [OF en(1)] by (simp add: lineage_ok_def)
    moreover have "running ?s = init_pcb ?s" "L (Children (init_pcb ?s)) \<noteq> []" "internal_exit ?s = Inl e"
      using True h unfolding u by (simp, metis, simp)
    ultimately have "e = Hang" using exit_init [OF kernel_invD(1,3) [OF en(1)] en(2)] by simp
    moreover have "\<exists>v. c = Exit v" using c True by (cases c) auto
    ultimately show ?thesis using True by blast
  next
    case False
    then have "tame (call_handler h ?s)"
      using handler_tame [OF en, of h] u by auto
    then show ?thesis using h by simp
  qed
qed

text \<open>
  C2: the faults of the calls. Whatever the system has done before in a safe run, a call that a process
  makes returns to a process or to the main context, or it dereferences a null pointer; the one
  call that does not return at all is the exit of the first process. No assertion of the code
  fails and no array is accessed out of bounds. The timer interrupt never faults.
\<close>

theorem calls_fault_only:
  assumes "static_ok st" and "zeroed s" and "disastrOS_start st f a s = Inr (Some (r, s0))"
    and "safe_step\<^sup>*\<^sup>* (InProcess, s0) (InProcess, t)"
  shows "(case do_call c t of
      Inl e \<Rightarrow> e = NullDeref \<or> e = Hang \<and> (\<exists>v. c = Exit v) \<and> running t = init_pcb t
    | Inr (out, t') \<Rightarrow> out = Trapped ReturnToMain \<or> out = Trapped (ResumeProcess (running t'))) \<and>
    (\<exists>t'. timerHandler t = Inr t' \<and> running t' \<noteq> NULL)"
proof -
  from disastrOS_start_done [OF assms(1,2), of f a] assms(3) obtain p where
    p: "kernel_inv s0 (\<lambda>_. [])" "running s0 = p" "idle s0 (\<lambda>_. []) PCB_item p" by auto
  then have "conf_ok (InProcess, s0)"
    using sys_okI live_nonnull [OF kernel_invD(1) [OF p(1)] idleD(1) [OF p(3)]] by auto
  from safe_runs [OF assms(4) this] have t: "sys_ok t" "running t \<noteq> NULL" by simp_all
  then obtain L where L: "kernel_inv t L" "idle t L PCB_item (running t)" by (auto elim: sys_okE)
  obtain n h args where c: "call_entry c = (n, h, args)" by (cases "call_entry c")
  have "out = Trapped ReturnToMain \<or> out = Trapped (ResumeProcess (running t'))" if "do_call c t = Inr (out, t')" for out t'
    using that do_call_enters [OF kernel_invD(7) [OF L(1)] t(2) c] by (auto simp: bindE_Inr_iff after_handler_def split: if_splits)
  moreover obtain t' where "timerHandler t = Inr t'" using tick_total [OF L] by blast
  moreover from this tick_inv [OF L] have "running t' \<noteq> NULL" by blast
  ultimately show ?thesis
    using do_call_tame [OF L, of c] by (cases "do_call c t") auto
qed

theorem calls_fault_only_witness:
  "\<exists>s0 p. disastrOS_start ex_static 7 8 ex_zero = Inr (Some (ResumeProcess p, s0)) \<and>
    (\<forall>e. do_call (Sleep 3) s0 = Inl e \<longrightarrow> e = NullDeref) \<and> (\<exists>t. timerHandler s0 = Inr t)"
proof -
  obtain p s0 where s0: "disastrOS_start ex_static 7 8 ex_zero = Inr (Some (ResumeProcess p, s0))"
    using disastrOS_start_done [OF ex_static_ok ex_zeroed, of 7 8] by blast
  from calls_fault_only [OF ex_static_ok ex_zeroed s0 rtranclp.rtrancl_refl, of "Sleep 3"] s0 show ?thesis
    by (auto split: sum.splits)
qed

subsection \<open>Nobody left to run\<close>

text \<open>
  C18: when the last process that can run goes to sleep, control returns to the main context, and
  the main context makes a new first process although the old one is still there: the new process
  runs and is init from now on, the sleepers stay in their list with their timers.
\<close>

theorem all_asleep_second_init:
  assumes "kernel_inv s L" and "idle s L PCB_item (running s)" and "L ReadyList = []"
    and "spare s Timer_item \<noteq> {}" and "spare s PCB_item \<noteq> {}" and "shutdown_now s = 0"
  shows "\<exists>s1 s2 p. sys_step (InProcess, s) (Call (Sleep n)) (InMain, s1) \<and>
    sys_step (InMain, s1) (Enter f a) (InProcess, s2) \<and> running s2 = p \<and> init_pcb s2 = p \<and>
    p \<notin> live s PCB_item \<and> pcb_pid (pcb s2 p) = last_pid s \<and> live s2 PCB_item = insert p (live s PCB_item) \<and>
    pcb_status (pcb s2 (running s)) = Waiting"
proof -
  note inv = kernel_invD [OF assms(1)]
  let ?s = "entered DSOS_CALL_SLEEP [scast n] s"
  note en = entered_inv [OF assms(1,2), of DSOS_CALL_SLEEP "[scast n]"]
  have nn: "running s \<noteq> NULL" by (rule live_nonnull [OF inv(1) idleD(1) [OF assms(2)]])
  have po: "pool_of ?s k = pool_of s k" for k by (cases k) (simp_all add: entered_def upd_pcb_def)
  have u: "running ?s = running s" "last_pid ?s = last_pid s" "shutdown_now ?s = shutdown_now s"
    by (simp_all add: entered_def upd_pcb_def)
  have "pcb_timer (pcb ?s (running ?s)) = NULL" using kernel_invD(4) [OF en(1)] by (simp add: sched_ok_def)
  from internal_sleep_total [OF kernel_invD(1,8) [OF en(1)] en(2) this] assms(3,4) obtain s1 where
    s1: "internal_sleep ?s = Inr s1" "running s1 = NULL" "last_pid s1 = last_pid s" "shutdown_now s1 = 0"
      "pool_of s1 PCB_item = pool_of s PCB_item" "pcb_status (pcb s1 (running s)) = Waiting"
    unfolding po u using assms(6) by (auto simp del: pool_of.simps)
  have "do_call (Sleep n) s = Inr (Trapped ReturnToMain, s1)"
    using do_call_enters [OF inv(7) nn, of "Sleep n"] s1(1,2) by (simp add: after_handler_def)
  then have step1: "sys_step (InProcess, s) (Call (Sleep n)) (InMain, s1)"
    using sys_step.call [of "Sleep n" s ReturnToMain s1] by simp
  have "sys_ok s1"
    using sleep_inv [OF en s1(1)] by (simp add: entered_simps)
  then obtain L1 where L1: "kernel_inv s1 L1" by (auto elim: sys_okE)
  from start_first_done [OF main_okI [OF L1] s1(4), of f a] assms(5) obtain p s2 where
    s2: "start_first f a s1 = Inr (Some (ResumeProcess p, s2))" "first_made s1 s2 p f a"
    unfolding s1(5) by (auto simp del: pool_of.simps)
  have p: "p \<in> spare s PCB_item" using s2(2) unfolding first_made_def s1(5) by blast
  then have pl: "p \<notin> live s PCB_item" using pool.apart [OF core_pool [OF inv(1)], of PCB_item] by blast
  then have "p \<noteq> running s" using idleD(1) [OF assms(2)] by blast
  then have "pcb_status (pcb s2 (running s)) = Waiting" using s1(6) s2(2) by (simp add: first_made_def)
  moreover have "sys_step (InMain, s1) (Enter f a) (InProcess, s2)" by (rule sys_step.restart [OF s2(1)])
  moreover have "running s2 = p" "init_pcb s2 = p" "pcb_pid (pcb s2 p) = last_pid s"
      "live s2 PCB_item = insert p (live s PCB_item)"
    using s2(2) unfolding first_made_def s1(3) s1(5) by blast+
  ultimately show ?thesis using step1 pl
    by (intro exI [of _ s1] exI [of _ s2] exI [of _ p] conjI)
qed

theorem all_asleep_second_init_witness:
  "\<exists>s0 s1 s2. sys_step (InProcess, s0) (Call (Sleep 3)) (InMain, s1) \<and>
    sys_step (InMain, s1) (Enter 7 8) (InProcess, s2) \<and> init_pcb s2 \<noteq> init_pcb s0 \<and> pcb_pid (pcb s2 (init_pcb s2)) = 1"
proof -
  have ne: "A \<noteq> {}" if "card A = 1023 \<or> card A = 1024" for A :: "ptr set" using that by fastforce
  obtain p0 s0 where p0: "kernel_inv s0 (\<lambda>_. [])" "running s0 = p0" "init_pcb s0 = p0" "idle s0 (\<lambda>_. []) PCB_item p0"
      "live s0 PCB_item = {p0}" "last_pid s0 = 1" "shutdown_now s0 = 0" "card (spare s0 PCB_item) = 1023"
      "\<forall>k. k \<noteq> PCB_item \<longrightarrow> fresh (pool_of s0 k)"
    using disastrOS_start_done [OF ex_static_ok ex_zeroed, of 7 8] by (elim exE conjE) (rule that, assumption+)
  then have s0: "kernel_inv s0 (\<lambda>_. [])" "idle s0 (\<lambda>_. []) PCB_item (running s0)" "last_pid s0 = 1"
      "card (spare s0 PCB_item) = 1023" "fresh (pool_of s0 Timer_item)" "live s0 PCB_item = {running s0}"
      "init_pcb s0 = running s0" "shutdown_now s0 = 0"
    by (simp_all only: item_kind.distinct not_False_eq_True simp_thms)
  have "spare s0 Timer_item \<noteq> {}" "spare s0 PCB_item \<noteq> {}" using ne s0(4,5) unfolding fresh_def by blast+
  from all_asleep_second_init [OF s0(1,2) refl this s0(8), of 3 7 8] obtain s1 s2 p where
    "sys_step (InProcess, s0) (Call (Sleep 3)) (InMain, s1)" "sys_step (InMain, s1) (Enter 7 8) (InProcess, s2)"
    "init_pcb s2 = p" "p \<notin> live s0 PCB_item" "pcb_pid (pcb s2 p) = last_pid s0"
    by blast
  then show ?thesis
    unfolding s0(3,6) using s0(7) by (intro exI [of _ s0] exI [of _ s1] exI [of _ s2]) simp
qed

end
