(* ===== verification/Printing.thy ===== *)
theory Printing
  imports Kernel_Faults
begin

text \<open>
  The functions that print the state of the system (\<open>disastrOS_printStatus\<close> and the \<open>_print\<close>
  functions of the tables). A function is modelled by the text it writes to the standard output; it
  faults where the arguments of a \<open>printf\<close> follow a null pointer.
\<close>

subsection \<open>The conversion of numbers\<close>

text \<open>\<open>%d\<close>\<close>

fun digits :: "nat \<Rightarrow> string" where
  "digits n = (if n < 10 then [char_of (48 + n)] else digits (n div 10) @ [char_of (48 + n mod 10)])"

declare digits.simps [simp del]

definition dec :: "cint \<Rightarrow> string" where
  "dec n = (if sint n < 0 then ''-'' @ digits (nat (- sint n)) else digits (nat (sint n)))"

abbreviation nl :: string where "nl \<equiv> [CHR 0x0A]"
abbreviation tab :: string where "tab \<equiv> [CHR 0x09]"

text \<open>What the text of a number stands for.\<close>

definition digits_value :: "string \<Rightarrow> nat" where
  "digits_value = foldl (\<lambda>v c. 10 * v + (of_char c - 48)) 0"

definition dec_value :: "string \<Rightarrow> int" where
  "dec_value t = (if take 1 t = ''-'' then - int (digits_value (drop 1 t)) else int (digits_value t))"

lemma digits_value: "digits_value (digits n) = n"
proof (induction n rule: digits.induct)
  case (1 n)
  then show ?case
    by (cases "n < 10") (simp_all add: digits.simps [of n] digits_value_def)
qed

lemma digits_no_sign: "\<exists>c cs. digits n = c # cs \<and> c \<noteq> CHR ''-''"
proof (induction n rule: digits.induct)
  case (1 n)
  have "char_of (48 + n) \<noteq> CHR ''-''" if "n < 10"
  proof
    assume "char_of (48 + n) = CHR ''-''"
    then have "(of_char (char_of (48 + n)) :: nat) = of_char (CHR ''-'')" by simp
    with that show False by simp
  qed
  with 1 show ?case by (cases "n < 10") (auto simp: digits.simps [of n])
qed

lemma dec_value: "dec_value (dec n) = sint n"
  using digits_no_sign [of "nat (sint n)"]
  by (auto simp: dec_def dec_value_def digits_value)

subsection \<open>The printing functions\<close>

text \<open>
  The loop of the functions that print a list: the text of the item that \<open>aux\<close> heads, a separator
  unless it is the last item, and what ends the entry. \<open>out\<close> is what has been written so far.
\<close>

partial_function (option) print_items ::
    "(ptr \<Rightarrow> string result) \<Rightarrow> string \<Rightarrow> string \<Rightarrow> list_mem \<Rightarrow> ptr \<Rightarrow> string \<Rightarrow> string result option" where
  "print_items item sep end m aux out =
     (if aux = NULL then Some (Inr out)
      else case item aux of
        Inl e \<Rightarrow> Some (Inl e)
      | Inr t \<Rightarrow> print_items item sep end m (li_next (m aux))
          (out @ t @ (if li_next (m aux) \<noteq> NULL then sep else []) @ end))"

definition PCBPtrList_print :: "kernel \<Rightarrow> ListHead \<Rightarrow> string result" where
  "PCBPtrList_print s head =
     bindE (run_loopE (print_items
       (\<lambda>q. let p = pp_pcb (pcbptr s q) in check (p \<noteq> NULL) NullDeref (Inr (dec (pcb_pid (pcb s p)))))
       '', '' [] (ar_links (pcbptr_mem s)) (lh_first head) ''('')) (\<lambda>out. Inr (out @ '')''))"

definition PCB_print :: "kernel \<Rightarrow> ptr \<Rightarrow> string result" where
  "PCB_print s p =
     check (p \<noteq> NULL) NullDeref
     (bindE (PCBPtrList_print s (pcb_children (pcb s p))) (\<lambda>out.
      Inr (''[pid: '' @ dec (pcb_pid (pcb s p)) @ '', child: '' @ out @ '']'')))"

definition PCBList_print :: "kernel \<Rightarrow> ListHead \<Rightarrow> string result" where
  "PCBList_print s head =
     bindE (run_loopE (print_items (\<lambda>p. bindE (PCB_print s p) (\<lambda>t. Inr (tab @ t))) '','' nl
       (ar_links (pcb_mem s)) (lh_first head) (''{'' @ nl))) (\<lambda>out. Inr (out @ ''}'' @ nl))"

definition TimerList_print :: "kernel \<Rightarrow> ListHead \<Rightarrow> string result" where
  "TimerList_print s timers =
     bindE (run_loopE (print_items
       (\<lambda>t. let p = ti_pcb (timer_item s t) in check (p \<noteq> NULL) NullDeref
          (Inr (''(pid:'' @ dec (pcb_pid (pcb s p)) @ '', t:'' @ dec (ti_awakening_time (timer_item s t)) @ '')'')))
       '', '' [] (ar_links (timer_mem s)) (lh_first timers) ''['')) (\<lambda>out. Inr (out @ '']''))"

definition DescriptorList_print :: "kernel \<Rightarrow> ListHead \<Rightarrow> string result" where
  "DescriptorList_print s l =
     bindE (run_loopE (print_items
       (\<lambda>d. let r = des_resource (descriptor s d) in check (r \<noteq> NULL) NullDeref
          (Inr (''(fd: '' @ dec (des_fd (descriptor s d)) @ '', rid:'' @ dec (res_id (resource s r)) @ '')'')))
       '', '' [] (ar_links (descriptor_mem s)) (lh_first l) ''['')) (\<lambda>out. Inr (out @ '']''))"

definition DescriptorPtrList_print :: "kernel \<Rightarrow> ListHead \<Rightarrow> string result" where
  "DescriptorPtrList_print s l =
     bindE (run_loopE (print_items
       (\<lambda>w. let d = dp_descriptor (descriptorptr s w) in check (d \<noteq> NULL) NullDeref
          (let p = des_pcb (descriptor s d); r = des_resource (descriptor s d) in
           check (p \<noteq> NULL \<and> r \<noteq> NULL) NullDeref
           (Inr (''(pid: '' @ dec (pcb_pid (pcb s p)) @ '', fd: '' @ dec (des_fd (descriptor s d)) @
              '', rid:'' @ dec (res_id (resource s r)) @ '')''))))
       '', '' [] (ar_links (descriptorptr_mem s)) (lh_first l) ''['')) (\<lambda>out. Inr (out @ '']''))"

definition Resource_print :: "kernel \<Rightarrow> ptr \<Rightarrow> string result" where
  "Resource_print s r =
     check (r \<noteq> NULL) NullDeref
     (bindE (DescriptorPtrList_print s (res_descriptors (resource s r))) (\<lambda>out.
      Inr (''id: '' @ dec (res_id (resource s r)) @ '', type:'' @ dec (res_type (resource s r)) @ '', pids:'' @ out)))"

definition ResourceList_print :: "kernel \<Rightarrow> ListHead \<Rightarrow> string result" where
  "ResourceList_print s l =
     bindE (run_loopE (print_items (\<lambda>r. bindE (Resource_print s r) (\<lambda>t. Inr (tab @ t))) '','' nl
       (ar_links (resource_mem s)) (lh_first l) (''{'' @ nl))) (\<lambda>out. Inr (out @ ''}'' @ nl))"

definition SemDescriptorList_print :: "kernel \<Rightarrow> ListHead \<Rightarrow> string result" where
  "SemDescriptorList_print s l =
     bindE (run_loopE (print_items
       (\<lambda>d. let m = sd_semaphore (semdescriptor s d) in check (m \<noteq> NULL) NullDeref
          (Inr (''(fd: '' @ dec (sd_fd (semdescriptor s d)) @ '', rid:'' @ dec (sem_id (semaphore s m)) @ '')'')))
       '', '' [] (ar_links (semdescriptor_mem s)) (lh_first l) ''['')) (\<lambda>out. Inr (out @ '']''))"

definition SemDescriptorPtrList_print :: "kernel \<Rightarrow> ListHead \<Rightarrow> string result" where
  "SemDescriptorPtrList_print s l =
     bindE (run_loopE (print_items
       (\<lambda>w. let d = sp_descriptor (semdescriptorptr s w) in check (d \<noteq> NULL) NullDeref
          (let p = sd_pcb (semdescriptor s d); m = sd_semaphore (semdescriptor s d) in
           check (p \<noteq> NULL \<and> m \<noteq> NULL) NullDeref
           (Inr (''(pid: '' @ dec (pcb_pid (pcb s p)) @ '', fd: '' @ dec (sd_fd (semdescriptor s d)) @
              '', rid:'' @ dec (sem_id (semaphore s m)) @ '')''))))
       '', '' [] (ar_links (semdescriptorptr_mem s)) (lh_first l) ''['')) (\<lambda>out. Inr (out @ '']''))"

definition Semaphore_print :: "kernel \<Rightarrow> ptr \<Rightarrow> string result" where
  "Semaphore_print s m =
     check (m \<noteq> NULL) NullDeref
     (bindE (SemDescriptorPtrList_print s (sem_descriptors (semaphore s m))) (\<lambda>out.
      bindE (SemDescriptorPtrList_print s (sem_waiting_descriptors (semaphore s m))) (\<lambda>out'.
      Inr (''id: '' @ dec (sem_id (semaphore s m)) @ '', count:'' @ dec (sem_count (semaphore s m)) @ '', pids:'' @ out @
        ''waiting: '' @ out'))))"

definition SemaphoreList_print :: "kernel \<Rightarrow> ListHead \<Rightarrow> string result" where
  "SemaphoreList_print s l =
     bindE (run_loopE (print_items (\<lambda>m. bindE (Semaphore_print s m) (\<lambda>t. Inr (tab @ t))) '','' nl
       (ar_links (semaphore_mem s)) (lh_first l) (''{'' @ nl))) (\<lambda>out. Inr (out @ ''}'' @ nl))"

definition disastrOS_printStatus :: "kernel \<Rightarrow> string result" where
  "disastrOS_printStatus s =
     bindE (if running s \<noteq> NULL then PCB_print s (running s) else Inr []) (\<lambda>ru.
     bindE (TimerList_print s (timer_list s)) (\<lambda>ti.
     bindE (ResourceList_print s (resources_list s)) (\<lambda>rs.
     bindE (SemaphoreList_print s (semaphores_list s)) (\<lambda>se.
     bindE (PCBList_print s (ready_list s)) (\<lambda>re.
     bindE (PCBList_print s (waiting_list s)) (\<lambda>wa.
     bindE (PCBList_print s (zombie_list s)) (\<lambda>zo.
     Inr (''****************** DisastrOS ******************'' @ nl @ ''Running: '' @ ru @ nl @ ''Timers: '' @ ti @
       nl @ ''Resources: '' @ rs @ nl @ ''Semaphores: '' @ se @ nl @ ''Ready: '' @ re @ nl @ ''Waiting: '' @ wa @
       nl @ ''Zombie: '' @ zo @ nl @ ''***********************************************'' @ nl @ nl))))))))"

subsection \<open>The text as a function of the lists\<close>

text \<open>All texts of a list, or the first fault; and the texts with separators and ends.\<close>

fun rendered :: "(ptr \<Rightarrow> string result) \<Rightarrow> ptr list \<Rightarrow> string list result" where
  "rendered f [] = Inr []"
| "rendered f (x # xs) = bindE (f x) (\<lambda>t. bindE (rendered f xs) (\<lambda>ts. Inr (t # ts)))"

fun separated :: "string \<Rightarrow> string \<Rightarrow> string list \<Rightarrow> string" where
  "separated sep end [] = []"
| "separated sep end [t] = t @ end"
| "separated sep end (t # u # ts) = t @ sep @ end @ separated sep end (u # ts)"

lemma rendered_map: "(\<And>x. x \<in> set xs \<Longrightarrow> f x = Inr (g x)) \<Longrightarrow> rendered f xs = Inr (map g xs)"
  by (induction xs) simp_all

lemma rendered_cong: "(\<And>x. x \<in> set xs \<Longrightarrow> f x = g x) \<Longrightarrow> rendered f xs = rendered g xs"
  by (induction xs) simp_all

lemma rendered_length: "rendered f xs = Inr ts \<Longrightarrow> length ts = length xs"
  by (induction xs arbitrary: ts) (auto simp: bindE_Inr_iff)

lemma print_items_dseg:
  "dseg m p xs NULL \<Longrightarrow> print_items item sep end m (first_of xs NULL) out =
     Some (bindE (rendered item xs) (\<lambda>ts. Inr (out @ separated sep end ts)))"
proof (induction xs arbitrary: p out)
  case Nil
  then show ?case by (simp add: print_items.simps [of item sep "end" m NULL])
next
  case (Cons x xs)
  have x: "x \<noteq> NULL" "li_next (m x) = first_of xs NULL" and d: "dseg m x xs NULL" using Cons.prems by auto
  have n: "first_of xs NULL = NULL \<longleftrightarrow> xs = []" using d by (cases xs) auto
  show ?case
  proof (cases "item x")
    case (Inl e)
    with x show ?thesis by (simp add: print_items.simps [of item sep "end" m x])
  next
    case (Inr t)
    have "bindE (rendered item xs) (\<lambda>ts. Inr ((out @ t @ (if xs \<noteq> [] then sep else []) @ end) @ separated sep end ts)) =
        bindE (rendered item xs) (\<lambda>ts. Inr (out @ separated sep end (t # ts)))"
    proof (cases "rendered item xs")
      case (Inr ts)
      with rendered_length [OF Inr] show ?thesis by (cases ts) auto
    qed simp
    with Inr x Cons.IH [OF d] n show ?thesis
      by (simp add: print_items.simps [of item sep "end" m x] bindE_assoc)
  qed
qed

lemma print_list:
  assumes "core_ok s L" and "l \<in> heads s" and "ar = links_of s (kind_of l)" and "h = head_of s l"
  shows "run_loopE (print_items item sep end ar (lh_first h) out) =
    bindE (rendered item (L l)) (\<lambda>ts. Inr (out @ separated sep end ts))"
  using print_items_dseg [of ar NULL "L l" item sep "end" out] core_klist [OF assms(1,2)]
  by (simp add: assms(3,4) klist_def dlist_def run_loopE_def)

lemma rendered_check:
  assumes "\<And>x. x \<in> set xs \<Longrightarrow> f x = check (P x) NullDeref (Inr (g x))"
  shows "rendered f xs = check (\<forall>x\<in>set xs. P x) NullDeref (Inr (map g xs))"
  using assms by (induction xs) (auto simp: check_def)

lemma bind_check: "bindE (check b e m) f = check b e (bindE m f)"
  by (simp add: check_def)

lemma check_check: "check a e (check b e m) = check (a \<and> b) e m"
  by (simp add: check_def)

lemmas check_collect = bind_check check_check bindE_simps

definition pcb_text :: "kernel \<Rightarrow> (list_loc \<Rightarrow> ptr list) \<Rightarrow> ptr \<Rightarrow> string" where
  "pcb_text s L p = ''[pid: '' @ dec (pcb_pid (pcb s p)) @ '', child: ('' @
     separated '', '' [] (map (\<lambda>q. dec (pcb_pid (pcb s (item_pcb s q)))) (L (Children p))) @ '')]''"

definition timer_text :: "kernel \<Rightarrow> ptr \<Rightarrow> string" where
  "timer_text s t = ''(pid:'' @ dec (pcb_pid (pcb s (timer_pcb s t))) @ '', t:'' @
     dec (ti_awakening_time (timer_item s t)) @ '')''"

definition res_holder_text :: "kernel \<Rightarrow> ptr \<Rightarrow> string" where
  "res_holder_text s w = (let d = descriptor s (dp_descriptor (descriptorptr s w)) in
     ''(pid: '' @ dec (pcb_pid (pcb s (des_pcb d))) @ '', fd: '' @ dec (des_fd d) @ '', rid:'' @
     dec (res_id (resource s (des_resource d))) @ '')'')"

definition resource_text :: "kernel \<Rightarrow> (list_loc \<Rightarrow> ptr list) \<Rightarrow> ptr \<Rightarrow> string" where
  "resource_text s L r = ''id: '' @ dec (res_id (resource s r)) @ '', type:'' @ dec (res_type (resource s r)) @
     '', pids:['' @ separated '', '' [] (map (res_holder_text s) (L (ResDescriptors r))) @ '']''"

definition sem_holder_text :: "kernel \<Rightarrow> ptr \<Rightarrow> string" where
  "sem_holder_text s w = (let d = semdescriptor s (sp_descriptor (semdescriptorptr s w)) in
     ''(pid: '' @ dec (pcb_pid (pcb s (sd_pcb d))) @ '', fd: '' @ dec (sd_fd d) @ '', rid:'' @
     dec (sem_id (semaphore s (sd_semaphore d))) @ '')'')"

definition semaphore_text :: "kernel \<Rightarrow> (list_loc \<Rightarrow> ptr list) \<Rightarrow> ptr \<Rightarrow> string" where
  "semaphore_text s L m = ''id: '' @ dec (sem_id (semaphore s m)) @ '', count:'' @ dec (sem_count (semaphore s m)) @
     '', pids:['' @ separated '', '' [] (map (sem_holder_text s) (L (SemDescs m))) @ '']waiting: ['' @
     separated '', '' [] (map (sem_holder_text s) (L (SemWaiting m))) @ '']''"

definition listing :: "string list \<Rightarrow> string" where
  "listing ts = ''{'' @ nl @ separated '','' nl (map ((@) tab) ts) @ ''}'' @ nl"

definition status_text :: "kernel \<Rightarrow> (list_loc \<Rightarrow> ptr list) \<Rightarrow> string" where
  "status_text s L =
     ''****************** DisastrOS ******************'' @ nl @
     ''Running: '' @ (if running s = NULL then [] else pcb_text s L (running s)) @ nl @
     ''Timers: ['' @ separated '', '' [] (map (timer_text s) (L TimerList)) @ '']'' @ nl @
     ''Resources: '' @ listing (map (resource_text s L) (L ResourcesList)) @ nl @
     ''Semaphores: '' @ listing (map (semaphore_text s L) (L SemaphoresList)) @ nl @
     ''Ready: '' @ listing (map (pcb_text s L) (L ReadyList)) @ nl @
     ''Waiting: '' @ listing (map (pcb_text s L) (L WaitingList)) @ nl @
     ''Zombie: '' @ listing (map (pcb_text s L) (L ZombieList)) @ nl @
     ''***********************************************'' @ nl @ nl"

text \<open>The pointers that the printing of resources and semaphores follows.\<close>

definition res_readable :: "kernel \<Rightarrow> ptr \<Rightarrow> bool" where
  "res_readable s w \<longleftrightarrow> (let d = dp_descriptor (descriptorptr s w) in
     d \<noteq> NULL \<and> des_pcb (descriptor s d) \<noteq> NULL \<and> des_resource (descriptor s d) \<noteq> NULL)"

definition sem_readable :: "kernel \<Rightarrow> ptr \<Rightarrow> bool" where
  "sem_readable s w \<longleftrightarrow> (let d = sp_descriptor (semdescriptorptr s w) in
     d \<noteq> NULL \<and> sd_pcb (semdescriptor s d) \<noteq> NULL \<and> sd_semaphore (semdescriptor s d) \<noteq> NULL)"

definition readable :: "kernel \<Rightarrow> (list_loc \<Rightarrow> ptr list) \<Rightarrow> bool" where
  "readable s L \<longleftrightarrow> (\<forall>r\<in>set (L ResourcesList). \<forall>w\<in>set (L (ResDescriptors r)). res_readable s w) \<and>
     (\<forall>m\<in>set (L SemaphoresList). \<forall>w\<in>set (L (SemDescs m)) \<union> set (L (SemWaiting m)). sem_readable s w)"

lemma PCB_print_text:
  assumes "core_ok s L" and "family_ok s L" and "p \<in> live s PCB_item"
  shows "PCB_print s p = Inr (pcb_text s L p)"
proof -
  have "rendered (\<lambda>q. let p = pp_pcb (pcbptr s q) in check (p \<noteq> NULL) NullDeref (Inr (dec (pcb_pid (pcb s p)))))
      (L (Children p)) = Inr (map (\<lambda>q. dec (pcb_pid (pcb s (item_pcb s q)))) (L (Children p)))"
    using family_child [OF assms(1,2)] by (intro rendered_map) (simp add: Let_def)
  moreover have "Children p \<in> heads s" using assms(3) by (simp add: heads_def)
  ultimately have "PCBPtrList_print s (pcb_children (pcb s p)) =
      Inr (''('' @ separated '', '' [] (map (\<lambda>q. dec (pcb_pid (pcb s (item_pcb s q)))) (L (Children p))) @ '')'')"
    using print_list [OF assms(1), of "Children p" "ar_links (pcbptr_mem s)" "pcb_children (pcb s p)"]
    by (simp add: PCBPtrList_print_def)
  then show ?thesis using live_nonnull [OF assms(1,3)] by (simp add: PCB_print_def pcb_text_def)
qed

lemma PCBList_print_text:
  assumes "core_ok s L" and "family_ok s L" and "l \<in> {ReadyList, WaitingList, ZombieList}"
  shows "PCBList_print s (head_of s l) = Inr (listing (map (pcb_text s L) (L l)))"
proof -
  have k: "kind_of l = PCB_item" "l \<in> heads s" using assms(3) by auto
  have "rendered (\<lambda>p. bindE (PCB_print s p) (\<lambda>t. Inr (tab @ t))) (L l) = Inr (map (\<lambda>p. tab @ pcb_text s L p) (L l))"
    using PCB_print_text [OF assms(1,2)] core_mem [OF assms(1), of _ l] k by (intro rendered_map) simp
  then show ?thesis
    using print_list [OF assms(1) k(2), of "ar_links (pcb_mem s)" "head_of s l"] k(1)
    by (simp add: PCBList_print_def listing_def comp_def)
qed

lemma TimerList_print_text:
  assumes "core_ok s L" and "timers_ok s L"
  shows "TimerList_print s (timer_list s) = Inr (''['' @ separated '', '' [] (map (timer_text s) (L TimerList)) @ '']'')"
proof -
  have "timer_pcb s t \<noteq> NULL" if "t \<in> set (L TimerList)" for t
    using assms(2) that core_nonnull [OF assms(1), of _ WaitingList] by (auto simp: timers_ok_def)
  then have "rendered (\<lambda>t. let p = ti_pcb (timer_item s t) in check (p \<noteq> NULL) NullDeref
      (Inr (''(pid:'' @ dec (pcb_pid (pcb s p)) @ '', t:'' @ dec (ti_awakening_time (timer_item s t)) @ '')'')))
      (L TimerList) = Inr (map (timer_text s) (L TimerList))"
    by (intro rendered_map) (simp add: timer_text_def Let_def)
  then show ?thesis
    using print_list [OF assms(1), of TimerList "ar_links (timer_mem s)" "timer_list s"]
    by (simp add: TimerList_print_def)
qed

lemma ResourceList_print_text:
  assumes "core_ok s L"
  shows "ResourceList_print s (resources_list s) =
    check (\<forall>r\<in>set (L ResourcesList). \<forall>w\<in>set (L (ResDescriptors r)). res_readable s w) NullDeref
      (Inr (listing (map (resource_text s L) (L ResourcesList))))"
proof -
  let ?out = "\<lambda>r. ''['' @ separated '', '' [] (map (res_holder_text s) (L (ResDescriptors r))) @ '']''"
  have one: "Resource_print s r = check (\<forall>w\<in>set (L (ResDescriptors r)). res_readable s w) NullDeref
      (Inr (resource_text s L r))" if r: "r \<in> set (L ResourcesList)" for r
  proof -
    have l: "r \<in> live s Resource_item" using core_mem [OF assms r] by simp
    then have h: "ResDescriptors r \<in> heads s" by (simp add: heads_def)
    have "DescriptorPtrList_print s (res_descriptors (resource s r)) =
        check (\<forall>w\<in>set (L (ResDescriptors r)). res_readable s w) NullDeref (Inr (?out r))"
      unfolding DescriptorPtrList_print_def
      by (subst print_list [OF assms h], simp, simp, subst rendered_check [where g = "res_holder_text s" and P = "res_readable s"])
        (simp_all add: res_readable_def res_holder_text_def Let_def check_check bind_check)
    then show ?thesis
      using live_nonnull [OF assms l] by (simp add: Resource_print_def resource_text_def bind_check)
  qed
  have "rendered (\<lambda>r. bindE (Resource_print s r) (\<lambda>t. Inr (tab @ t))) (L ResourcesList) =
      check (\<forall>r\<in>set (L ResourcesList). \<forall>w\<in>set (L (ResDescriptors r)). res_readable s w) NullDeref
        (Inr (map (\<lambda>r. tab @ resource_text s L r) (L ResourcesList)))"
    by (rule rendered_check) (simp add: one bind_check)
  then show ?thesis
    using print_list [OF assms, of ResourcesList "ar_links (resource_mem s)" "resources_list s"]
    by (simp add: ResourceList_print_def bind_check listing_def comp_def)
qed

lemma SemDescriptorPtrList_print_text:
  assumes "core_ok s L" and "l \<in> heads s" and "kind_of l = SemDescriptorPtr_item" and "h = head_of s l"
  shows "SemDescriptorPtrList_print s h = check (\<forall>w\<in>set (L l). sem_readable s w) NullDeref
    (Inr (''['' @ separated '', '' [] (map (sem_holder_text s) (L l)) @ '']''))"
  unfolding SemDescriptorPtrList_print_def
  by (subst print_list [OF assms(1,2)], simp add: assms(3), simp add: assms(4),
      subst rendered_check [where g = "sem_holder_text s" and P = "sem_readable s"])
    (simp_all add: sem_readable_def sem_holder_text_def Let_def check_check bind_check)

lemma SemaphoreList_print_text:
  assumes "core_ok s L"
  shows "SemaphoreList_print s (semaphores_list s) =
    check (\<forall>m\<in>set (L SemaphoresList). \<forall>w\<in>set (L (SemDescs m)) \<union> set (L (SemWaiting m)). sem_readable s w) NullDeref
      (Inr (listing (map (semaphore_text s L) (L SemaphoresList))))"
proof -
  have one: "Semaphore_print s m = check (\<forall>w\<in>set (L (SemDescs m)) \<union> set (L (SemWaiting m)). sem_readable s w) NullDeref
      (Inr (semaphore_text s L m))" if m: "m \<in> set (L SemaphoresList)" for m
  proof -
    have l: "m \<in> live s Semaphore_item" using core_mem [OF assms m] by simp
    then have h: "SemDescs m \<in> heads s" "SemWaiting m \<in> heads s" by (simp_all add: heads_def)
    show ?thesis
      using live_nonnull [OF assms l] SemDescriptorPtrList_print_text [OF assms h(1)]
        SemDescriptorPtrList_print_text [OF assms h(2)]
      by (simp add: Semaphore_print_def semaphore_text_def bind_check check_check ball_Un)
  qed
  have "rendered (\<lambda>m. bindE (Semaphore_print s m) (\<lambda>t. Inr (tab @ t))) (L SemaphoresList) =
      check (\<forall>m\<in>set (L SemaphoresList). \<forall>w\<in>set (L (SemDescs m)) \<union> set (L (SemWaiting m)). sem_readable s w) NullDeref
        (Inr (map (\<lambda>m. tab @ semaphore_text s L m) (L SemaphoresList)))"
    by (rule rendered_check) (simp only: one bind_check bindE_simps)
  then show ?thesis
    using print_list [OF assms, of SemaphoresList "ar_links (semaphore_mem s)" "semaphores_list s"]
    by (simp add: SemaphoreList_print_def bind_check listing_def comp_def)
qed

lemma printStatus_report:
  assumes "core_ok s L" and "family_ok s L" and "timers_ok s L"
    and "running s \<noteq> NULL \<Longrightarrow> running s \<in> live s PCB_item"
  shows "disastrOS_printStatus s = (if readable s L then Inr (status_text s L) else Inl NullDeref) \<and>
    dec_value (dec n) = sint n"
proof -
  have lists: "PCBList_print s (ready_list s) = Inr (listing (map (pcb_text s L) (L ReadyList)))"
      "PCBList_print s (waiting_list s) = Inr (listing (map (pcb_text s L) (L WaitingList)))"
      "PCBList_print s (zombie_list s) = Inr (listing (map (pcb_text s L) (L ZombieList)))"
    using PCBList_print_text [OF assms(1,2), of ReadyList] PCBList_print_text [OF assms(1,2), of WaitingList]
      PCBList_print_text [OF assms(1,2), of ZombieList] by simp_all
  have "(if running s \<noteq> NULL then PCB_print s (running s) else Inr []) =
      Inr (if running s = NULL then [] else pcb_text s L (running s))"
    using PCB_print_text [OF assms(1,2) assms(4)] by simp
  then have "disastrOS_printStatus s = check (readable s L) NullDeref (Inr (status_text s L))"
    unfolding disastrOS_printStatus_def TimerList_print_text [OF assms(1,3)] ResourceList_print_text [OF assms(1)]
      SemaphoreList_print_text [OF assms(1)] lists
    by (simp only: check_collect) (simp add: readable_def status_text_def check_def)
  then show ?thesis by (simp add: check_def dec_value)
qed

text \<open>
  C33: the status report. In a well-formed state \<open>disastrOS_printStatus\<close> ends, and the loops, which
  decide about separators by looking at the next item, write exactly the text that is composed from
  the abstract lists of the system, unless a list item of a resource or a semaphore leads to a null
  pointer, which is then dereferenced. A printed number reads back as the number.
\<close>

theorem printStatus_text:
  assumes "core_ok s L" and "family_ok s L" and "timers_ok s L"
    and "running s \<noteq> NULL \<Longrightarrow> running s \<in> live s PCB_item"
  shows "disastrOS_printStatus s = (if readable s L then Inr (status_text s L) else Inl NullDeref) \<and>
    dec_value (dec n) = sint n"
  using assms by (rule printStatus_report)

theorem printStatus_text_witness:
  "disastrOS_printStatus ex_state = Inr (status_text ex_state ex_lists) \<and> dec_value (dec (- 7)) = - 7 \<and>
    timer_text ex_state 12288 = ''(pid:2, t:5)''"
proof -
  have "readable ex_state ex_lists"
    by (simp add: readable_def res_readable_def sem_readable_def) (simp add: ex_mem_defs)
  moreover have "timer_text ex_state 12288 = ''(pid:2, t:5)''"
    by (simp add: timer_text_def dec_def ex_mem_defs ex_pcb_def digits.simps char_of_def bit_0)
  ultimately show ?thesis
    using printStatus_text [OF ex_core _ _ _, of "- 7"] ex_family ex_timers idleD(1) [OF ex_running] by simp
qed

end
