(* ===== verification/Semaphore_Hazard.thy ===== *)
theory Semaphore_Hazard
  imports Kernel_Trap
begin

text \<open>
  What a wait on a semaphore that is not free leads to: the caller goes on, marked as waiting and
  in the waiting list, until it is preempted.
\<close>

lemma k_append_linked:
  assumes "\<not> unlinked (links_of s (kind_of l)) x" and "x \<noteq> NULL"
  shows "k_append s l x = Inr (NULL, put_list l (links_of s (kind_of l)) (head_of s l) s)"
  using assms by (auto simp: k_append_def k_insert_def List_insert_def unlinked_def)

lemma put_list_same: "same_lists (put_list l (links_of s (kind_of l)) (head_of s l) s) s"
  by (simp add: same_lists_def)

text \<open>A head that ends with an item that another head of the same kind starts with.\<close>

lemma shared_item_broken:
  assumes "l \<noteq> k" and "l \<in> heads s" and "k \<in> heads s" and "kind_of l = kind_of k" and "x \<noteq> NULL"
    and "lh_first (head_of s l) = x" and "lh_last (head_of s k) = x"
  shows "\<not> core_ok s L"
proof
  assume c: "core_ok s L"
  have d: "dlist (links_of s (kind_of l)) (head_of s l) (L l)" "dlist (links_of s (kind_of k)) (head_of s k) (L k)"
    using core_klist [OF c] assms(2,3) by (simp_all add: klist_def)
  have "x \<in> set (L l)" using d(1) assms(5,6) by (cases "L l") (auto simp: dlist_def)
  moreover have "x \<in> set (L k)"
    using d(2) assms(5,7) last_of_mem [of "hd (L k)" "tl (L k)"] by (cases "L k") (auto simp: dlist_def)
  ultimately show False using core_apart [OF c _ assms(1,4)] by blast
qed

text \<open>The switch from a process that is queued in the waiting list.\<close>

lemma switch_from_waiting:
  assumes c: "core_ok s L" and r: "L ReadyList = p # ps" and w: "L WaitingList = ws @ [running s]"
  shows "\<exists>s'. switch_process s = Inr s' \<and> running s' = p \<and>
    (if ws = [] then lh_first (waiting_list s') = running s \<and> lh_last (ready_list s') = running s \<and>
        (\<forall>L'. \<not> core_ok s' L')
     else core_ok s' (L(ReadyList := ps)) \<and> pcb_status (pcb s' (running s)) = Ready)"
proof -
  let ?r = "running s" and ?L1 = "L(ReadyList := ps)"
  obtain m h where d: "k_detach s ReadyList (k_first s ReadyList) = Inr (p, put_list ReadyList m h s)"
      "core_ok (put_list ReadyList m h s) ?L1"
    by (rule core_popE [OF c r]) (simp, simp, blast)
  let ?s1 = "put_list ReadyList m h s" and ?s2 = "set_status ?r Ready (put_list ReadyList m h s)"
  have c2: "core_ok ?s2 ?L1" using d(2) by simp
  have rl: "?r \<in> set (L WaitingList)" using w by simp
  have pn: "p \<noteq> ?r" using core_apart [OF c, of _ ReadyList WaitingList] r rl by auto
  have nn: "p \<noteq> NULL" "?r \<noteq> NULL" using core_nonnull [OF c, of p ReadyList] core_nonnull [OF c rl] r by auto
  have f: "lh_first (ready_list s) \<noteq> NULL" using core_first [OF c, of ReadyList] r nn by simp
  have dw: "dlist (links_of ?s2 PCB_item) (waiting_list ?s2) (ws @ [?r])"
    and dr: "dlist (links_of ?s2 PCB_item) (ready_list ?s2) ps"
    using core_klist [OF c2, of WaitingList] core_klist [OF c2, of ReadyList] w by (simp_all add: klist_def)
  have sw: "switch_process s = bindE (k_append ?s2 ReadyList ?r) (\<lambda>(_, s). Inr ((set_status p Running s)\<lparr>running := p\<rparr>))"
    using f d(1) nn by (simp add: switch_process_def Let_def set_status_def upd_pcb_def)
  show ?thesis
  proof (cases "ws = []")
    case False
    then have "2 \<le> length (ws @ [?r])" by (cases ws) auto
    from dlist_linked [OF dw _ this] have u: "\<not> unlinked (links_of ?s2 (kind_of ReadyList)) ?r" by simp
    let ?s3 = "put_list ReadyList (links_of ?s2 (kind_of ReadyList)) (head_of ?s2 ReadyList) ?s2"
    have "core_ok ?s3 ?L1" using c2 same_core [OF put_list_same] by blast
    then have "core_ok ((set_status p Running ?s3)\<lparr>running := p\<rparr>) ?L1" by simp
    moreover have "pcb_status (pcb ((set_status p Running ?s3)\<lparr>running := p\<rparr>) ?r) = Ready"
      using pn by (simp add: set_status_def upd_pcb_def)
    ultimately show ?thesis
      using False sw k_append_linked [OF u nn(2)]
      by (intro exI [of _ "(set_status p Running ?s3)\<lparr>running := p\<rparr>"]) simp
  next
    case True
    have u: "unlinked (links_of ?s2 PCB_item) ?r" using dw True by (simp add: dlist_def unlinked_def)
    have "?r \<notin> set (ps @ [])" using core_apart [OF c, of _ ReadyList WaitingList] r rl by auto
    from List_insert_dlist [of "links_of ?s2 PCB_item" "ready_list ?s2" ps "[]", OF _ nn(2) this u] dr
    obtain m' h' where i: "List_insert (links_of ?s2 PCB_item) (ready_list ?s2) (last_of NULL ps) ?r = Inr (?r, m', h')"
        "dlist m' h' (ps @ [?r])" by auto
    let ?s3 = "put_list ReadyList m' h' ?s2"
    let ?s4 = "(set_status p Running ?s3)\<lparr>running := p\<rparr>"
    have a: "k_append ?s2 ReadyList ?r = Inr (?r, ?s3)"
      using i(1) dr by (simp add: k_append_def k_insert_def dlist_def)
    have hp: "waiting_list ?s3 = waiting_list ?s2" "ready_list ?s3 = h'"
      using put_list_lists(2) [of ReadyList m' h' ?s2 WaitingList] put_list_lists(2) [of ReadyList m' h' ?s2 ReadyList]
      by simp_all
    have h4: "head_of ?s4 l = head_of ?s3 l" for l using same_lists_updates by (simp add: same_k_first)
    have "lh_first (waiting_list ?s4) = ?r" "lh_last (ready_list ?s4) = ?r"
      using h4 [of WaitingList] h4 [of ReadyList] hp dw i(2) True by (simp_all add: dlist_def)
    moreover from this have "\<not> core_ok ?s4 L'" for L'
      using nn(2) by (intro shared_item_broken [of WaitingList ReadyList]) simp_all
    ultimately show ?thesis using True sw a by (intro exI [of _ ?s4]) simp
  qed
qed

text \<open>
  C6: what a wait on a semaphore that is not free really does, until the timer takes the processor
  away (other processes are ready, no timer is pending). The wait reports success and its caller
  runs on. If other processes wait already, the preemption drops the caller from the queue of the
  processor, so it sleeps from then on, with the status ready. If it is the only waiting process,
  the guard of \<open>List_insert\<close> does not notice that it is in the waiting list: it is put in the ready
  list as well, and the lists of the kernel are corrupt.
\<close>

theorem semWait_preempt_hazard:
  assumes "core_ok s L" and "sem_ok s L" and "wait_ok s L" and "idle s L PCB_item (running s)"
    and "sem_of_fd s L (ucast (run_arg s 0)) = d" and "d \<noteq> NULL" and "sd_semaphore (semdescriptor s d) = m"
    and "sint (sem_count (semaphore s m)) \<le> 0" and "sint (sem_count (semaphore s m)) \<noteq> - (2 ^ 31)"
    and "spare s SemDescriptorPtr_item \<noteq> {}" and "L TimerList = []" and "L ReadyList = p # ps"
  shows "\<exists>s1 s2. internal_semWait s = Inr s1 \<and> running s1 = running s \<and>
    pcb_syscall_retvalue (pcb s1 (running s)) = 0 \<and> internal_preempt s1 = Inr s2 \<and> running s2 = p \<and>
    (if L WaitingList = [] then lh_first (waiting_list s2) = running s \<and> lh_last (ready_list s2) = running s \<and>
        (\<forall>L'. \<not> core_ok s2 L')
     else pcb_status (pcb s2 (running s)) = Ready \<and>
       (\<exists>L'. core_ok s2 L' \<and> L' ReadyList = ps \<and> L' WaitingList = L WaitingList @ [running s]))"
proof -
  from semWait_queue [OF assms(1-10)] obtain s1 w where
    s1: "internal_semWait s = Inr s1" "core_ok s1 (queued s L m w)" "running s1 = running s"
      "pcb_syscall_retvalue (pcb s1 (running s)) = 0" by blast
  let ?L = "queued s L m w"
  have l: "?L ReadyList = p # ps" "?L WaitingList = L WaitingList @ [running s1]" "?L TimerList = []"
    using assms(11,12) s1(3) by (simp_all add: queued_def)
  have "lh_first (timer_list s1) = NULL" using core_first_null [OF s1(2), of TimerList] l(3) by simp
  then have "wake_loop s1 NULL = Some (Inr s1)" by (simp add: wake_loop.simps [of s1] TimerList_current_def)
  then have pre: "internal_preempt s1 = switch_process s1" by (simp add: internal_preempt_def internal_schedule_def)
  from switch_from_waiting [OF s1(2) l(1,2)] obtain s2 where
    s2: "switch_process s1 = Inr s2" "running s2 = p"
      "if L WaitingList = [] then lh_first (waiting_list s2) = running s \<and> lh_last (ready_list s2) = running s \<and>
         (\<forall>L'. \<not> core_ok s2 L')
       else core_ok s2 (?L(ReadyList := ps)) \<and> pcb_status (pcb s2 (running s)) = Ready"
    unfolding s1(3) by blast
  have "L WaitingList \<noteq> [] \<Longrightarrow> \<exists>L'. core_ok s2 L' \<and> L' ReadyList = ps \<and> L' WaitingList = L WaitingList @ [running s]"
    using s2(3) l(2) s1(3) by (intro exI [of _ "?L(ReadyList := ps)"]) simp
  then show ?thesis using s1(1,3,4) s2 unfolding pre [symmetric] by (intro exI [of _ s1] exI [of _ s2]) simp
qed

subsection \<open>An example\<close>

lemma core_emptied:
  assumes c: "core_ok s L" and p: "\<And>k. pool_of s' k = pool_of s k" and m: "\<And>k. links_of s' k = links_of s k"
    and h: "\<And>l. head_of s' l = (if l \<in> E then List_init else head_of s l)"
  shows "core_ok s' (\<lambda>l. if l \<in> E then [] else L l)"
proof -
  have "klist s' l (if l \<in> E then [] else L l)" if "l \<in> heads s" for l
    using core_klist [OF c that] by (simp add: klist_def h m del: links_of.simps head_of.simps)
  moreover have "heads s' = heads s" using p by (rule heads_cong)
  ultimately show ?thesis
    using c unfolding core_ok_def layout_def p by (auto simp del: pool_of.simps)
qed

text \<open>Init asks for the semaphore with id 7, which is used up; nobody waits and no timer is pending.\<close>

definition ex_busy :: kernel where
  "ex_busy = (upd_semaphore 28688 (\<lambda>c. c\<lparr>sem_count := 0, sem_waiting_descriptors := List_init\<rparr>) (ex_call 1))
     \<lparr>timer_list := List_init, waiting_list := List_init\<rparr>"

abbreviation ex_busy_lists :: "list_loc \<Rightarrow> ptr list" where
  "ex_busy_lists \<equiv> \<lambda>l. if l \<in> {TimerList, WaitingList, SemWaiting 28688} then [] else ex_lists l"

lemma ex_busy_same:
  "pool_of ex_busy k = pool_of (ex_call 1) k" "links_of ex_busy k = links_of (ex_call 1) k"
  "head_of ex_busy l = (if l \<in> {TimerList, WaitingList, SemWaiting 28688} then List_init else head_of (ex_call 1) l)"
  "semdescriptor ex_busy = semdescriptor (ex_call 1)" "semdescriptorptr ex_busy = semdescriptorptr (ex_call 1)"
  "running ex_busy = running (ex_call 1)" "pcb ex_busy = pcb (ex_call 1)"
  "sem_count (semaphore ex_busy m) = (if m = 28688 then 0 else sem_count (semaphore (ex_call 1) m))"
proof -
  show "pool_of ex_busy k = pool_of (ex_call 1) k" "links_of ex_busy k = links_of (ex_call 1) k"
    by (cases k; simp add: ex_busy_def upd_semaphore_def del: ex_args_fields)+
  show "head_of ex_busy l = (if l \<in> {TimerList, WaitingList, SemWaiting 28688} then List_init else head_of (ex_call 1) l)"
    by (cases l) (simp_all add: ex_busy_def upd_semaphore_def del: ex_args_fields)
qed (simp_all add: ex_busy_def upd_semaphore_def del: ex_args_fields)

lemma ex_busy_ok: "core_ok ex_busy ex_busy_lists" "sem_ok ex_busy ex_busy_lists" "wait_ok ex_busy ex_busy_lists"
    "idle ex_busy ex_busy_lists PCB_item (running ex_busy)"
proof -
  show "core_ok ex_busy ex_busy_lists" using ex_busy_same(1-3) by (rule core_emptied [OF ex_args_ok(1)])
  show "sem_ok ex_busy ex_busy_lists"
    by (rule sem_ok_cong [OF ex_args_ok(2)]) (simp_all add: ex_busy_same(4,5) del: ex_args_fields)
  have e: "ex_busy_lists (SemWaiting m) = []" for m by simp
  have "0 \<le> sint (sem_count (semaphore ex_busy m))" for m unfolding ex_busy_same(8) by (simp add: ex_mem_defs)
  then show "wait_ok ex_busy ex_busy_lists" unfolding wait_ok_def e by simp
  have "idle (ex_call 1) ex_lists PCB_item (running (ex_call 1))" using ex_running by simp
  then show "idle ex_busy ex_busy_lists PCB_item (running ex_busy)"
    unfolding idle_def kspare_def ex_busy_same(1,2,6) by auto
qed

theorem semWait_preempt_hazard_witness:
  "\<exists>s1 s2. internal_semWait ex_busy = Inr s1 \<and> internal_preempt s1 = Inr s2 \<and> running s2 = 4112 \<and>
    lh_first (waiting_list s2) = 4096 \<and> lh_last (ready_list s2) = 4096 \<and> (\<forall>L'. \<not> core_ok s2 L')"
proof -
  have r: "running ex_busy = 4096" unfolding ex_busy_same(6) by simp
  have d: "sem_of_fd ex_busy ex_busy_lists (ucast (run_arg ex_busy 0)) = 32784"
      "sd_semaphore (semdescriptor ex_busy 32784) = 28688"
    unfolding ex_busy_same(4,6,7) by (simp_all add: ex_mem_defs)
  have n: "sint (sem_count (semaphore ex_busy 28688)) = 0" unfolding ex_busy_same(8) by simp
  have n1: "sint (sem_count (semaphore ex_busy 28688)) \<le> 0" "sint (sem_count (semaphore ex_busy 28688)) \<noteq> - (2 ^ 31)"
    unfolding n by simp_all
  have "spare (ex_call 1) SemDescriptorPtr_item \<noteq> {}" by (simp add: ex_pool_blocks del: pool_of.simps) (simp add: ex_pool_blocks)
  then have sp: "spare ex_busy SemDescriptorPtr_item \<noteq> {}" unfolding ex_busy_same(1) .
  have t: "ex_busy_lists TimerList = []" "ex_busy_lists ReadyList = [4112]" "ex_busy_lists WaitingList = []" by simp_all
  from semWait_preempt_hazard [OF ex_busy_ok d(1) _ d(2) n1 sp t(1,2)] show ?thesis
    unfolding r t(3) by auto
qed

end
