(* ===== verification/Kernel_Holders.thy ===== *)
theory Kernel_Holders
  imports Kernel_Runs
begin

text \<open>
  The items in the lists of the holders of resources and semaphores. An item is allocated with the
  descriptor it belongs to and given back with it, so in the runs of the system every item in use
  leads to a descriptor in use, which leads back to the item.
\<close>

subsection \<open>Items and descriptors\<close>

text \<open>\<open>linked f g P D\<close>: \<open>f\<close> leads from each of \<open>P\<close> into \<open>D\<close>, and \<open>g\<close> leads back.\<close>

definition linked :: "(ptr \<Rightarrow> ptr) \<Rightarrow> (ptr \<Rightarrow> ptr) \<Rightarrow> ptr set \<Rightarrow> ptr set \<Rightarrow> bool" where
  "linked f g P D \<longleftrightarrow> (\<forall>w\<in>P. f w \<in> D \<and> g (f w) = w)"

lemma linked_empty [simp]: "linked f g {} D"
  by (simp add: linked_def)

lemma linked_fewer: "linked f g P D \<Longrightarrow> P' \<subseteq> P \<Longrightarrow> linked f g P' D"
  by (auto simp: linked_def)

lemma linked_less: "linked f g P D \<Longrightarrow> linked f g (P - g ` X) (D - X)"
  by (auto simp: linked_def) (metis image_eqI)

lemma linked_insert:
  "linked f g P D \<Longrightarrow> d \<notin> D \<Longrightarrow> w \<notin> P \<Longrightarrow> linked (f(w := d)) (g(d := w)) (insert w P) (insert d D)"
  by (auto simp: linked_def)

definition res_linked :: "kernel \<Rightarrow> bool" where
  "res_linked s \<longleftrightarrow> linked (\<lambda>w. dp_descriptor (descriptorptr s w)) (\<lambda>d. des_ptr (descriptor s d))
     (live s DescriptorPtr_item) (live s Descriptor_item)"

definition sem_linked :: "kernel \<Rightarrow> bool" where
  "sem_linked s \<longleftrightarrow> linked (\<lambda>w. sp_descriptor (semdescriptorptr s w)) (\<lambda>d. sd_ptr (semdescriptor s d))
     (live s SemDescriptorPtr_item) (live s SemDescriptor_item)"

lemma linkedD:
  "res_linked s \<Longrightarrow> w \<in> live s DescriptorPtr_item \<Longrightarrow> dp_descriptor (descriptorptr s w) \<in> live s Descriptor_item"
  "sem_linked s \<Longrightarrow> w \<in> live s SemDescriptorPtr_item \<Longrightarrow> sp_descriptor (semdescriptorptr s w) \<in> live s SemDescriptor_item"
  by (simp_all add: res_linked_def sem_linked_def linked_def del: pool_of.simps)

lemma res_linked_same:
  assumes "res_linked s" and "descriptor s' = descriptor s" and "descriptorptr s' = descriptorptr s"
    and "live s' Descriptor_item = live s Descriptor_item" and "live s' DescriptorPtr_item \<subseteq> live s DescriptorPtr_item"
  shows "res_linked s'"
  using linked_fewer [OF assms(1) [unfolded res_linked_def] assms(5)] unfolding res_linked_def assms(2-4) .

lemma sem_linked_same:
  assumes "sem_linked s" and "semdescriptor s' = semdescriptor s" and "semdescriptorptr s' = semdescriptorptr s"
    and "live s' SemDescriptor_item = live s SemDescriptor_item"
    and "live s' SemDescriptorPtr_item \<subseteq> live s SemDescriptorPtr_item"
  shows "sem_linked s'"
  using linked_fewer [OF assms(1) [unfolded sem_linked_def] assms(5)] unfolding sem_linked_def assms(2-4) .

lemma res_linked_less:
  assumes "res_linked s" and "descriptor s' = descriptor s" and "descriptorptr s' = descriptorptr s"
    and "live s' Descriptor_item = live s Descriptor_item - D"
    and "live s' DescriptorPtr_item = live s DescriptorPtr_item - (\<lambda>d. des_ptr (descriptor s d)) ` D"
  shows "res_linked s'"
  using linked_less [OF assms(1) [unfolded res_linked_def]] unfolding res_linked_def assms(2-5) .

lemma sem_linked_less:
  assumes "sem_linked s" and "semdescriptor s' = semdescriptor s" and "semdescriptorptr s' = semdescriptorptr s"
    and "live s' SemDescriptor_item = live s SemDescriptor_item - {d}"
    and "live s' SemDescriptorPtr_item = live s SemDescriptorPtr_item - {sd_ptr (semdescriptor s d)}"
  shows "sem_linked s'"
  using linked_less [OF assms(1) [unfolded sem_linked_def], of "{d}"]
  unfolding sem_linked_def assms(2-5) image_insert image_empty .

lemma linked_kept:
  assumes "keeps A s' s"
  shows "{DescPart, DescBlockPart} \<subseteq> A \<Longrightarrow> res_linked s \<Longrightarrow> res_linked s'"
    and "{SemCellPart, SemBlockPart} \<subseteq> A \<Longrightarrow> sem_linked s \<Longrightarrow> sem_linked s'"
proof -
  have "{DescPart, DescBlockPart} \<subseteq> A \<Longrightarrow> descriptor s' = descriptor s \<and> descriptorptr s' = descriptorptr s \<and>
      live s' Descriptor_item = live s Descriptor_item \<and> live s' DescriptorPtr_item \<subseteq> live s DescriptorPtr_item"
    "{SemCellPart, SemBlockPart} \<subseteq> A \<Longrightarrow> semdescriptor s' = semdescriptor s \<and> semdescriptorptr s' = semdescriptorptr s \<and>
      live s' SemDescriptor_item = live s SemDescriptor_item \<and>
      live s' SemDescriptorPtr_item \<subseteq> live s SemDescriptorPtr_item"
    using assms by (simp_all add: keeps_def no_more_def)
  then show "{DescPart, DescBlockPart} \<subseteq> A \<Longrightarrow> res_linked s \<Longrightarrow> res_linked s'"
    and "{SemCellPart, SemBlockPart} \<subseteq> A \<Longrightarrow> sem_linked s \<Longrightarrow> sem_linked s'"
    using res_linked_same sem_linked_same by blast+
qed

lemma linked_retvalue [simp]:
  "res_linked (set_retvalue p v s) \<longleftrightarrow> res_linked s" "sem_linked (set_retvalue p v s) \<longleftrightarrow> sem_linked s"
  by (simp_all add: res_linked_def sem_linked_def set_retvalue_def upd_pcb_def)

subsection \<open>Calls on resources and semaphores\<close>

lemma res_linked_opened:
  assumes "core_ok s L" and "res_linked s" and h: "holds_resource s L s' r d w"
  shows "res_linked s'"
proof -
  have e: "d \<in> spare s Descriptor_item" "w \<in> spare s DescriptorPtr_item"
      "descriptor s' = (descriptor s)(d := \<lparr>des_pcb = running s, des_resource = r,
        des_fd = pcb_last_fd (pcb s (running s)), des_ptr = w\<rparr>)"
      "descriptorptr s' = (descriptorptr s)(w := \<lparr>dp_descriptor = d\<rparr>)"
      "live s' Descriptor_item = insert d (live s Descriptor_item)"
      "live s' DescriptorPtr_item = insert w (live s DescriptorPtr_item)"
    using h unfolding holds_resource_def by blast+
  have n: "d \<notin> live s Descriptor_item" "w \<notin> live s DescriptorPtr_item"
    using pool.apart [OF core_pool [OF assms(1)]] e(1,2) by blast+
  have f: "(\<lambda>y. dp_descriptor (descriptorptr s' y)) = (\<lambda>y. dp_descriptor (descriptorptr s y))(w := d)"
      "(\<lambda>y. des_ptr (descriptor s' y)) = (\<lambda>y. des_ptr (descriptor s y))(d := w)"
    unfolding e(3,4) by auto
  show ?thesis
    using linked_insert [OF assms(2) [unfolded res_linked_def] n] unfolding res_linked_def f e(5,6) .
qed

lemma sem_linked_opened:
  assumes "core_ok s L" and "sem_linked s" and h: "has_opened s L s' m d w"
  shows "sem_linked s'"
proof -
  have e: "d \<in> spare s SemDescriptor_item" "w \<in> spare s SemDescriptorPtr_item"
      "semdescriptor s' = (semdescriptor s)(d := \<lparr>sd_pcb = running s, sd_semaphore = m,
        sd_fd = pcb_last_sem_fd (pcb s (running s)), sd_ptr = w\<rparr>)"
      "semdescriptorptr s' = (semdescriptorptr s)(w := \<lparr>sp_descriptor = d\<rparr>)"
      "live s' SemDescriptor_item = insert d (live s SemDescriptor_item)"
      "live s' SemDescriptorPtr_item = insert w (live s SemDescriptorPtr_item)"
    using h unfolding has_opened_def by blast+
  have n: "d \<notin> live s SemDescriptor_item" "w \<notin> live s SemDescriptorPtr_item"
    using pool.apart [OF core_pool [OF assms(1)]] e(1,2) by blast+
  have f: "(\<lambda>y. sp_descriptor (semdescriptorptr s' y)) = (\<lambda>y. sp_descriptor (semdescriptorptr s y))(w := d)"
      "(\<lambda>y. sd_ptr (semdescriptor s' y)) = (\<lambda>y. sd_ptr (semdescriptor s y))(d := w)"
    unfolding e(3,4) by auto
  show ?thesis
    using linked_insert [OF assms(2) [unfolded sem_linked_def] n] unfolding sem_linked_def f e(5,6) .
qed

lemma openResource_links:
  assumes i: "kernel_inv s L" and r: "idle s L PCB_item (running s)" and e: "internal_openResource s = Inr s'"
    and h: "res_linked s"
  shows "res_linked s'"
proof -
  have o: "res_linked s'" if "opens s s1 M r" "core_ok s1 M" "res_linked s1" for s1 M r
    using that e res_linked_opened [of s1 M s' r] by (auto simp: opens_def split: if_splits)
  from i r e show ?thesis
  proof (cases rule: openResource_ways)
    case existing
    then show ?thesis using o kernel_invD(1) [OF i] h by blast
  next
    case (created r s1)
    then have "descriptor s1 = descriptor s" "descriptorptr s1 = descriptorptr s" "core_ok s1 (res_listed L r)"
        "pool_of s1 DescriptorPtr_item = pool_of s DescriptorPtr_item"
        "pool_of s1 Descriptor_item = pool_of s Descriptor_item" unfolding res_created_def by blast+
    with res_linked_same [OF h this(1,2)] show ?thesis by (intro o [OF created(2)]) simp_all
  qed (use h in auto)
qed

lemma semOpen_links:
  assumes i: "kernel_inv s L" and r: "idle s L PCB_item (running s)" and e: "internal_semOpen s = Inr s'"
    and h: "sem_linked s"
  shows "sem_linked s'"
proof -
  have o: "sem_linked s'" if "sem_opens s s1 M m" "core_ok s1 M" "sem_linked s1" for s1 M m
    using that e sem_linked_opened [of s1 M s' m] by (auto simp: sem_opens_def split: if_splits)
  from i r e show ?thesis
  proof (cases rule: semOpen_ways)
    case existing
    then show ?thesis using o kernel_invD(1) [OF i] h by blast
  next
    case (created m s1)
    then have "semdescriptor s1 = semdescriptor s" "semdescriptorptr s1 = semdescriptorptr s" "core_ok s1 (sem_listed L m)"
        "pool_of s1 SemDescriptorPtr_item = pool_of s SemDescriptorPtr_item"
        "pool_of s1 SemDescriptor_item = pool_of s SemDescriptor_item" unfolding sem_created_def by blast+
    with sem_linked_same [OF h this(1,2)] show ?thesis by (intro o [OF created(3)]) simp_all
  qed (use h in auto)
qed

lemma closeResource_links:
  assumes i: "kernel_inv s L" and r: "idle s L PCB_item (running s)" and e: "internal_closeResource s = Inr s'"
    and h: "res_linked s"
  shows "res_linked s'"
proof -
  note inv = kernel_invD [OF i]
  let ?d = "des_of_fd s L (ucast (run_arg s 0))"
  note total = closeResource_cases [OF inv(1,5) idleD(1) [OF r] refl, unfolded e sum.inject]
  show ?thesis
  proof (cases "?d = NULL")
    case True
    with total h show ?thesis by simp
  next
    case False
    from total have t: "quiet (set_retvalue (running s) (pcb_syscall_retvalue (pcb s (running s))) s') s"
        "live s' Descriptor_item = live s Descriptor_item - {?d}"
        "live s' DescriptorPtr_item = live s DescriptorPtr_item - {des_ptr (descriptor s ?d)}"
      unfolding if_not_P [OF False] by blast+
    have "descriptor s' = descriptor s" "descriptorptr s' = descriptorptr s"
      using t(1) unfolding quiet_def by (simp_all add: set_retvalue_def upd_pcb_def)
    from res_linked_less [OF h this t(2)] t(3) show ?thesis by simp
  qed
qed

lemma semClose_links:
  assumes i: "kernel_inv s L" and r: "idle s L PCB_item (running s)" and e: "internal_semClose s = Inr s'"
    and h: "sem_linked s"
  shows "sem_linked s'"
proof -
  note inv = kernel_invD [OF i]
  let ?d = "sem_of_fd s L (ucast (run_arg s 0))"
  show ?thesis
  proof (cases "?d = NULL")
    case True
    with semClose_cases [OF inv(1,9) wait_ok_free [OF inv(6)] idleD(1) [OF r] refl, unfolded e sum.inject] h
    show ?thesis by simp
  next
    case False
    have t: "quiet (set_retvalue (running s) (pcb_syscall_retvalue (pcb s (running s))) s') s"
        "live s' SemDescriptor_item = live s SemDescriptor_item - {?d}"
        "live s' SemDescriptorPtr_item = live s SemDescriptorPtr_item - {sd_ptr (semdescriptor s ?d)}"
      using semClose_done [OF inv(1,9) idleD(1) [OF r] refl False, unfolded e sum.inject] by blast+
    have "semdescriptor s' = semdescriptor s" "semdescriptorptr s' = semdescriptorptr s"
      using t(1) unfolding quiet_def by (simp_all add: set_retvalue_def upd_pcb_def)
    from sem_linked_less [OF h this t(2,3)] show ?thesis .
  qed
qed

lemma semWait_links:
  assumes i: "kernel_inv s L" and r: "idle s L PCB_item (running s)" and e: "internal_semWait s = Inr s'"
    and g: "safe_call internal_semWait_h s" and h: "sem_linked s"
  shows "sem_linked s'"
proof (rule semWait_ways [OF i r e])
  show "0 < sint (sem_count (semaphore s (sd_semaphore (semdescriptor s (sem_of_fd s L (ucast (run_arg s 0)))))))"
    if "sem_of_fd s L (ucast (run_arg s 0)) \<noteq> NULL"
    using that g sem_lookup [OF kernel_invD(1) [OF i] idleD(1) [OF r]] by (simp add: word_sless_alt)
  show "sem_linked s'" if "s' = set_retvalue (running s) v s" for v
    using that h by simp
  show "sem_linked s'" if "s' = set_retvalue (running s) 0 (upd_semaphore m f s)" for m f
    unfolding that by (simp, rule sem_linked_same [OF h]) (simp_all add: upd_semaphore_def)
qed

subsection \<open>exit\<close>

lemma exit_links:
  assumes i: "kernel_inv s L" and r: "idle s L PCB_item (running s)" and e: "internal_exit s = Inr s'"
    and h: "res_linked s"
  shows "res_linked s'"
proof -
  note inv = kernel_invD [OF i]
  let ?par = "pcb_parent (pcb s (running s))"
  have ii: "init_pcb s \<in> live s PCB_item" "pcb_parent (pcb s (init_pcb s)) = NULL"
    using inv(2) by (simp_all add: lineage_ok_def)
  have n: "init_pcb s \<noteq> running s" using exit_init [OF inv(1,3) r _ ii(2)] e by auto
  have pn: "?par \<noteq> NULL" using exit_orphan [OF inv(1,3) r ii(1) n] e by auto
  have k: "keeps (- {ProcPart, SchedPart, DescBlockPart}) s' s"
    by (rule gives_keeps [OF keeps_exit e]) (simp_all add: keeps_refl)
  note cells = keepsD(15,16) [OF k, simplified]
  show ?thesis
  proof (cases "parent_awaits s ?par")
    case True
    have wp: "?par \<in> set (L WaitingList)" using inv(4) True by (simp add: sched_ok_def parent_awaits_def)
    have pid: "x = running s" if "x \<in> live s PCB_item" "pcb_pid (pcb s x) = pcb_pid (pcb s (running s))" for x
      using inv(2) that idleD(1) [OF r] unfolding lineage_ok_def by blast
    obtain q where q: "q \<in> set (dead s L (Children ?par))" "item_pcb s q = running s"
      using exit_to_stranger [OF inv(1,3) r ii(1) n refl True wp _ pid] e by fastforce
    from exit_to_heir [OF inv(1,3,5,8) r ii(1) n refl True wp q pid, unfolded e sum.inject]
    have "live s' Descriptor_item = live s Descriptor_item - set (L (Descriptors (running s)))"
        "live s' DescriptorPtr_item = live s DescriptorPtr_item - (\<lambda>d. des_ptr (descriptor s d)) ` set (L (Descriptors (running s)))"
      by blast+
    from res_linked_less [OF h cells this] show ?thesis .
  next
    case False
    have pr: "?par \<noteq> running s" using inv(2) idleD(1) [OF r] by (auto simp: lineage_ok_def simp del: pool_of.simps)
    have z: "\<forall>p\<in>set (L ReadyList). pcb_status (pcb s p) \<noteq> Zombie" using inv(4) by (simp add: sched_ok_def)
    note total = exit_to_zombie [OF inv(1,3) r ii(1) n refl pn pr False z, unfolded e sum.inject]
    have ne: "L ReadyList \<noteq> []" using total by (auto split: if_splits)
    from total have p: "pool_of s' k = pool_of s k" for k unfolding if_not_P [OF ne] by blast
    show ?thesis by (rule res_linked_same [OF h cells]) (simp_all only: p order.refl)
  qed
qed

subsection \<open>Runs\<close>

lemma handler_links:
  assumes i: "kernel_inv s L" and r: "idle s L PCB_item (running s)" and e: "call_handler h s = Inr s'" and g: "safe_call h s"
    and o: "res_linked s" "sem_linked s"
  shows "res_linked s' \<and> sem_linked s'"
proof (cases "h = internal_shutdown_h")
  case True
  with e have "s' = internal_shutdown s" by simp
  then show ?thesis
    using o by (simp add: internal_shutdown_def res_linked_def sem_linked_def set_retvalue_def upd_pcb_def)
next
  case False
  note k = linked_kept [OF handler_keeps [OF e False]]
  have "res_linked s'"
  proof (cases "h \<in> {internal_openResource_h, internal_closeResource_h, internal_exit_h}")
    case True
    with e openResource_links [OF i r _ o(1)] closeResource_links [OF i r _ o(1)] exit_links [OF i r _ o(1)]
    show ?thesis by auto
  next
    case False
    then have "{DescPart, DescBlockPart} \<subseteq> - touches h" by (cases h) simp_all
    with k(1) o(1) show ?thesis by blast
  qed
  moreover have "sem_linked s'"
  proof (cases "h \<in> {internal_semOpen_h, internal_semClose_h, internal_semWait_h}")
    case True
    with e g semOpen_links [OF i r _ o(2)] semClose_links [OF i r _ o(2)] semWait_links [OF i r _ _ o(2)]
    show ?thesis by auto
  next
    case False
    then have "{SemCellPart, SemBlockPart} \<subseteq> - touches h" by (cases h) simp_all
    with k(2) o(2) show ?thesis by blast
  qed
  ultimately show ?thesis by blast
qed

definition links_ok :: "kernel \<Rightarrow> bool" where
  "links_ok s \<longleftrightarrow> res_linked s \<and> sem_linked s"

lemma links_kept:
  "keeps A s' s \<Longrightarrow> {DescPart, DescBlockPart, SemCellPart, SemBlockPart} \<subseteq> A \<Longrightarrow> links_ok s \<Longrightarrow> links_ok s'"
  using linked_kept [of A s' s] by (simp add: links_ok_def)

lemma links_pcb [simp]: "links_ok (upd_pcb p f s) \<longleftrightarrow> links_ok s" "links_ok (s\<lparr>running := p, init_pcb := q\<rparr>) \<longleftrightarrow> links_ok s"
  by (simp_all add: links_ok_def res_linked_def sem_linked_def upd_pcb_def)

lemma links_entered: "links_ok s \<Longrightarrow> links_ok (entered n args s)"
  by (simp add: entered_def)

lemma links_step:
  assumes "sys_step x e y" and "conf_ok x" and "safe (snd x) e" and "links_ok (snd x)"
  shows "links_ok (snd y)"
  using assms
proof (induction rule: sys_step.induct)
  case (call c s r s')
  obtain n h args where e: "call_entry c = (n, h, args)" by (cases "call_entry c")
  obtain L where L: "kernel_inv s L" "idle s L PCB_item (running s)" using call(2) by (auto elim: sys_okE)
  have nn: "running s \<noteq> NULL" using call(2) by simp
  note t = call_unwound(1) [OF kernel_invD(7) [OF L(1)] nn call(1) e]
  have "safe_call h (entered n args s)" using call(3) e by simp
  with handler_links [OF entered_inv [OF L] t] links_entered [of s n args] call(4) show ?case by (simp add: links_ok_def)
next
  case (tick s s')
  let ?A = "{DescPart, DescBlockPart, SemCellPart, SemBlockPart}"
  have "keeps ?A s' s" by (rule gives_keeps [OF keeps_timer_calls(2) tick(1)]) (simp_all add: keeps_refl)
  from links_kept [OF this] tick(4) show ?case by simp
next
  case (compute s m)
  have "keeps UNIV (s\<lparr>user_mem := m\<rparr>) s" by (intro frame keeps_refl)
  from links_kept [OF this] compute(3) show ?case by simp
next
  case (restart f a s r s')
  let ?A = "{DescPart, DescBlockPart, SemCellPart, SemBlockPart}"
  obtain p t where p: "PCB_alloc s = Inr (p, t)" "s' = (upd_pcb p (\<lambda>c. c\<lparr>pcb_status := Running,
      pcb_cpu_state := EntryContext f a\<rparr>) t)\<lparr>running := p, init_pcb := p\<rparr>"
    using restart(1) by (auto simp: start_first_def bindE_Inr_iff split: if_splits)
  have "keeps ?A t s" using keeps_alloc(1) [OF keeps_refl, of ?A s] p(1) by (simp add: gives_def)
  from links_kept [OF this] restart(4) have "links_ok t" by simp
  then show ?case unfolding p(2) by simp
qed simp_all

lemma links_runs:
  assumes "safe_step\<^sup>*\<^sup>* x y" and "conf_ok x" and "links_ok (snd x)"
  shows "links_ok (snd y)"
  using assms(1)
proof (induction rule: rtranclp_induct)
  case (step y z)
  with safe_runs [OF step(1) assms(2)] show ?case by (auto simp: safe_step_def intro: links_step)
qed (rule assms(3))

lemma fresh_links: "(\<And>k. k \<noteq> PCB_item \<Longrightarrow> fresh (pool_of s k)) \<Longrightarrow> links_ok s"
  by (simp add: links_ok_def res_linked_def sem_linked_def fresh_def del: pool_of.simps)

end
