(* ===== verification/Kernel_Types.thy ===== *)
theory Kernel_Types
  imports Kernel_Holders
begin

text \<open>
  Typing of the memory: the struct types have a static buffer each, and in every run of safe calls the
  lists hold blocks in use of the buffer of their type, whose pointers lead to blocks in use as well.
  The exceptions are pointers back to a process that may be gone: the parent that a process records,
  and the process that a descriptor records when that process died without closing it.
\<close>

subsection \<open>The blocks of a type\<close>

abbreviation blocks :: "kernel \<Rightarrow> item_kind \<Rightarrow> ptr set" where
  "blocks s k \<equiv> pool_blocks (pool_of s k)"

lemma keeps_shapes: "keeps A s' s \<Longrightarrow> pool_shapes s' = pool_shapes s"
  by (simp add: keeps_def)

lemma handler_shapes:
  assumes "call_handler h s = Inr s'"
  shows "pool_shapes s' = pool_shapes s"
proof (cases "h = internal_shutdown_h")
  case True
  with assms show ?thesis by (auto simp: internal_shutdown_def set_retvalue_def upd_pcb_def pool_shapes_def)
next
  case False
  from keeps_shapes [OF handler_keeps [OF assms False]] show ?thesis .
qed

lemma upd_pcb_shapes [simp]:
  "pool_shapes (upd_pcb p f s) = pool_shapes s" "pool_shapes (set_retvalue p v s) = pool_shapes s"
  by (simp_all add: pool_shapes_def upd_pcb_def set_retvalue_def)

lemma trap_shapes: "disastrOS_trap s = Inr (r, s') \<Longrightarrow> pool_shapes s' = pool_shapes s"
  by (auto simp: disastrOS_trap_def Let_def check_Inr_iff bindE_Inr_iff
    handler_shapes handler_shapes [of internal_shutdown_h, simplified] split: if_splits option.splits)

lemma syscall_shapes: "disastrOS_syscall s n args = Inr (r, s') \<Longrightarrow> pool_shapes s' = pool_shapes s"
  by (auto simp: disastrOS_syscall_def check_Inr_iff bindE_Inr_iff dest!: trap_shapes split: if_splits)

lemma do_call_shapes: "do_call c s = Inr (r, s') \<Longrightarrow> pool_shapes s' = pool_shapes s"
  by (cases c) (simp_all add: call_defs syscall_shapes)

lemma tick_shapes: "timerHandler s = Inr s' \<Longrightarrow> pool_shapes s' = pool_shapes s"
  using keeps_timer_calls(2) [of "{}" s s] by (auto simp: gives_def keeps_refl dest: keeps_shapes)

lemma start_first_shapes: "start_first f a s = Inr (Some (r, s')) \<Longrightarrow> pool_shapes s' = pool_shapes s"
proof -
  assume "start_first f a s = Inr (Some (r, s'))"
  then obtain p t where p: "PCB_alloc s = Inr (p, t)" "s' = (upd_pcb p (\<lambda>c. c\<lparr>pcb_status := Running,
      pcb_cpu_state := EntryContext f a\<rparr>) t)\<lparr>running := p, init_pcb := p\<rparr>"
    by (auto simp: start_first_def bindE_Inr_iff split: if_splits)
  have "pool_shapes t = pool_shapes s"
    using keeps_alloc(1) [OF keeps_refl, of "{}" s] p(1) by (auto simp: gives_def dest: keeps_shapes)
  with p(2) show ?thesis by (simp add: pool_shapes_def upd_pcb_def)
qed

lemma step_shapes: "sys_step x e y \<Longrightarrow> pool_shapes (snd y) = pool_shapes (snd x)"
  by (induction rule: sys_step.induct)
    (simp_all add: do_call_shapes tick_shapes start_first_shapes, simp add: pool_shapes_def)

lemma run_shapes: "safe_step\<^sup>*\<^sup>* x y \<Longrightarrow> pool_shapes (snd y) = pool_shapes (snd x)"
  by (induction rule: rtranclp_induct) (auto simp: safe_step_def dest: step_shapes)

lemma run_blocks: "safe_step\<^sup>*\<^sup>* x y \<Longrightarrow> blocks (snd y) k = blocks (snd x) k"
  using shape_blocks [OF pool_shapes_of [OF run_shapes]] by blast

subsection \<open>Typed pointers\<close>

text \<open>
  What an item of a list points to: the items of the lists of processes, resources and semaphores are
  the objects themselves. A descriptor in the list of a process records this process.
\<close>

fun typed_item :: "kernel \<Rightarrow> list_loc \<Rightarrow> ptr \<Rightarrow> bool" where
  "typed_item s (Children p) x \<longleftrightarrow> pp_pcb (pcbptr s x) \<in> live s PCB_item"
| "typed_item s TimerList x \<longleftrightarrow> ti_pcb (timer_item s x) \<in> live s PCB_item"
| "typed_item s (Descriptors p) x \<longleftrightarrow> des_pcb (descriptor s x) = p \<and>
     des_resource (descriptor s x) \<in> live s Resource_item \<and> des_ptr (descriptor s x) \<in> live s DescriptorPtr_item"
| "typed_item s (ResDescriptors r) x \<longleftrightarrow> dp_descriptor (descriptorptr s x) \<in> live s Descriptor_item"
| "typed_item s (SemDescriptors p) x \<longleftrightarrow> sd_pcb (semdescriptor s x) = p \<and>
     sd_semaphore (semdescriptor s x) \<in> live s Semaphore_item \<and> sd_ptr (semdescriptor s x) \<in> live s SemDescriptorPtr_item"
| "typed_item s (SemDescs m) x \<longleftrightarrow> sp_descriptor (semdescriptorptr s x) \<in> live s SemDescriptor_item"
| "typed_item s (SemWaiting m) x \<longleftrightarrow> sp_descriptor (semdescriptorptr s x) \<in> live s SemDescriptor_item"
| "typed_item s _ x \<longleftrightarrow> True"

lemma desc_ok_live:
  assumes "core_ok s L" and "desc_ok s L" and "d \<in> set (L (Descriptors p))"
  shows "des_resource (descriptor s d) \<in> live s Resource_item" and "des_ptr (descriptor s d) \<in> live s DescriptorPtr_item"
proof -
  have m: "des_ptr (descriptor s d) \<in> set (L (ResDescriptors (des_resource (descriptor s d))))"
    using assms(2,3) by (auto simp: desc_ok_def)
  from core_mem [OF assms(1) m] show "des_resource (descriptor s d) \<in> live s Resource_item"
      "des_ptr (descriptor s d) \<in> live s DescriptorPtr_item"
    by (simp_all del: pool_of.simps)
qed

lemma inv_typed:
  assumes i: "kernel_inv s L" and k: "links_ok s" and x: "x \<in> set (L l)"
  shows "typed_item s l x"
proof (cases l)
  case (Children p)
  then show ?thesis using family_child(1) [OF kernel_invD(1,3) [OF i]] x by simp
next
  case TimerList
  have "timer_pcb s x \<in> set (L WaitingList)" using kernel_invD(8) [OF i] x TimerList by (auto simp: timers_ok_def)
  then show ?thesis using core_mem [OF kernel_invD(1) [OF i]] TimerList by fastforce
next
  case (Descriptors p)
  moreover have "des_pcb (descriptor s x) = p" using kernel_invD(5) [OF i] x Descriptors by (auto simp: desc_ok_def)
  ultimately show ?thesis using desc_ok_live [OF kernel_invD(1,5) [OF i]] x by simp
next
  case (SemDescriptors p)
  have "sd_pcb (semdescriptor s x) = p" "sd_ptr (semdescriptor s x) \<in> set (L (SemDescs (sd_semaphore (semdescriptor s x))))"
    using kernel_invD(9) [OF i] x SemDescriptors unfolding sem_ok_def by blast+
  with core_mem [OF kernel_invD(1) [OF i] this(2)] sem_ok_live(1) [OF kernel_invD(1,9) [OF i]] x SemDescriptors
  show ?thesis by (simp del: pool_of.simps)
next
  case (ResDescriptors r)
  have "x \<in> live s DescriptorPtr_item" using core_mem [OF kernel_invD(1) [OF i] x] ResDescriptors by (simp del: pool_of.simps)
  with linkedD(1) k ResDescriptors show ?thesis by (simp add: links_ok_def del: pool_of.simps)
next
  case (SemDescs m)
  have "x \<in> live s SemDescriptorPtr_item" using core_mem [OF kernel_invD(1) [OF i] x] SemDescs by (simp del: pool_of.simps)
  with linkedD(2) k SemDescs show ?thesis by (simp add: links_ok_def del: pool_of.simps)
next
  case (SemWaiting m)
  then show ?thesis using kernel_invD(6) [OF i] x by (simp add: sems_free_def)
qed simp_all

text \<open>
  C3: the memory stays typed in safe runs. In every state of a run of safe calls, interrupts, returns
  and restarts from a start on zeroed memory, every pool manages the blocks it was given at the start;
  the running process is null or a process block in use, init is one, and no process has a timer
  recorded. Every list head represents a list of blocks in use of the type of its items. Each item of a
  list of children and each timer leads to a process block in use; each descriptor in the list of a
  process records that process, and leads to a resource (or semaphore) block in use and to an item in
  use for it; each item in the lists of a resource or semaphore leads to a descriptor block in use.
  That a recorded process is itself in use is not claimed where the code does not ensure it: not for
  the parent that a process records, nor for the owner of a semaphore descriptor, whose list outlives
  the process, nor for the owner of a descriptor that only the list of its resource still leads to.
\<close>

theorem runs_keep_types:
  assumes "static_ok st" and "zeroed s" and "disastrOS_start st f a s = Inr (Some (r, s0))"
    and "safe_step\<^sup>*\<^sup>* (InProcess, s0) (c, t)"
  shows "pool_live (pool_of t k) \<union> pool_spare (pool_of t k) = pool_live (pool_of s0 k) \<union> pool_spare (pool_of s0 k) \<and>
    (running t \<noteq> NULL \<longrightarrow> running t \<in> live t PCB_item) \<and> init_pcb t \<in> live t PCB_item \<and>
    (\<forall>p. pcb_timer (pcb t p) = NULL) \<and>
    (\<forall>l\<in>heads t. \<exists>xs. dlist (links_of t (kind_of l)) (head_of t l) xs \<and> set xs \<subseteq> live t (kind_of l) \<and>
      (\<forall>x\<in>set xs. typed_item t l x))"
proof -
  from disastrOS_start_done [OF assms(1,2), of f a] assms(3) obtain p where
    p: "kernel_inv s0 (\<lambda>_. [])" "running s0 = p" "idle s0 (\<lambda>_. []) PCB_item p" "\<And>k. k \<noteq> PCB_item \<Longrightarrow> fresh (pool_of s0 k)"
    by (auto simp del: pool_of.simps)
  then have c0: "conf_ok (InProcess, s0)"
    using sys_okI live_nonnull [OF kernel_invD(1) [OF p(1)] idleD(1) [OF p(3)]] by auto
  from conf_ok_sys [OF safe_runs [OF assms(4) c0]] obtain L where
    L: "kernel_inv t L" "running t \<noteq> NULL \<Longrightarrow> idle t L PCB_item (running t)" by (rule sys_okE) blast
  note c = kernel_invD(1) [OF L(1)]
  have k: "links_ok t" using links_runs [OF assms(4) c0] fresh_links [OF p(4)] by simp
  have "dlist (links_of t (kind_of l)) (head_of t l) (L l) \<and> set (L l) \<subseteq> live t (kind_of l) \<and>
      (\<forall>x\<in>set (L l). typed_item t l x)" if "l \<in> heads t" for l
    using core_klist [OF c that] core_mem [OF c] inv_typed [OF L(1) k] by (auto simp: klist_def)
  moreover have "init_pcb t \<in> live t PCB_item" using kernel_invD(2) [OF L(1)] by (simp add: lineage_ok_def)
  moreover have "running t \<noteq> NULL \<Longrightarrow> running t \<in> live t PCB_item" using L(2) idleD(1) by blast
  moreover have "pcb_timer (pcb t p) = NULL" for p using kernel_invD(4) [OF L(1)] by (simp add: sched_ok_def)
  ultimately show ?thesis using run_blocks [OF assms(4), of k] by (simp only: snd_conv) blast
qed

end
