(* ===== verification/Kernel_Report.thy ===== *)
theory Kernel_Report
  imports Kernel_Types Printing
begin

text \<open>
  The status report in the runs of the system: the items in the lists of holders always lead to
  descriptors with an owner and an object, so the report never follows a null pointer.
\<close>

subsection \<open>Readable holders\<close>

definition res_holders :: "kernel \<Rightarrow> bool" where
  "res_holders s \<longleftrightarrow> (\<forall>w\<in>live s DescriptorPtr_item. res_readable s w)"

definition sem_holders :: "kernel \<Rightarrow> bool" where
  "sem_holders s \<longleftrightarrow> (\<forall>w\<in>live s SemDescriptorPtr_item. sem_readable s w)"

lemma res_holders_fewer:
  assumes "res_holders s" and "descriptor s' = descriptor s" and "descriptorptr s' = descriptorptr s"
    and "live s' DescriptorPtr_item \<subseteq> live s DescriptorPtr_item"
  shows "res_holders s'"
  using assms(1,4) unfolding res_holders_def res_readable_def assms(2,3) by blast

lemma sem_holders_fewer:
  assumes "sem_holders s" and "semdescriptor s' = semdescriptor s" and "semdescriptorptr s' = semdescriptorptr s"
    and "live s' SemDescriptorPtr_item \<subseteq> live s SemDescriptorPtr_item"
  shows "sem_holders s'"
  using assms(1,4) unfolding sem_holders_def sem_readable_def assms(2,3) by blast

lemma holders_kept:
  assumes "keeps A s' s"
  shows "DescPart \<in> A \<Longrightarrow> res_holders s \<Longrightarrow> res_holders s'" and "SemCellPart \<in> A \<Longrightarrow> sem_holders s \<Longrightarrow> sem_holders s'"
proof -
  have "DescPart \<in> A \<Longrightarrow> descriptor s' = descriptor s \<and> descriptorptr s' = descriptorptr s \<and>
      live s' DescriptorPtr_item \<subseteq> live s DescriptorPtr_item"
    "SemCellPart \<in> A \<Longrightarrow> semdescriptor s' = semdescriptor s \<and> semdescriptorptr s' = semdescriptorptr s \<and>
      live s' SemDescriptorPtr_item \<subseteq> live s SemDescriptorPtr_item"
    using assms by (simp_all add: keeps_def no_more_def)
  then show "DescPart \<in> A \<Longrightarrow> res_holders s \<Longrightarrow> res_holders s'" and "SemCellPart \<in> A \<Longrightarrow> sem_holders s \<Longrightarrow> sem_holders s'"
    using res_holders_fewer sem_holders_fewer by blast+
qed

lemma res_holders_opened:
  assumes "res_holders s" and h: "holds_resource s L s' r d w" and "running s \<noteq> NULL"
  shows "res_holders s'"
proof -
  have e: "descriptor s' = (descriptor s)(d := \<lparr>des_pcb = running s, des_resource = r,
        des_fd = pcb_last_fd (pcb s (running s)), des_ptr = w\<rparr>)"
      "descriptorptr s' = (descriptorptr s)(w := \<lparr>dp_descriptor = d\<rparr>)"
      "live s' DescriptorPtr_item = insert w (live s DescriptorPtr_item)" "core_ok s' (res_opened s L r d w)"
    using h unfolding holds_resource_def by blast+
  have m: "d \<in> set (res_opened s L r d w (Descriptors (running s)))" "w \<in> set (res_opened s L r d w (ResDescriptors r))"
    by (simp_all add: res_opened_def)
  then have nn: "d \<noteq> NULL" "r \<noteq> NULL"
    using core_nonnull [OF e(4) m(1)] core_mem [OF e(4) m(2)] live_nonnull [OF e(4)] by (auto simp del: pool_of.simps)
  have "res_readable s' y" if "res_readable s y \<or> y = w" for y
    using that nn assms(3) unfolding res_readable_def e(1,2) by (auto simp: Let_def)
  then show ?thesis using assms(1) unfolding res_holders_def e(3) by blast
qed

lemma sem_holders_opened:
  assumes "sem_holders s" and h: "has_opened s L s' m d w" and "running s \<noteq> NULL"
  shows "sem_holders s'"
proof -
  have e: "semdescriptor s' = (semdescriptor s)(d := \<lparr>sd_pcb = running s, sd_semaphore = m,
        sd_fd = pcb_last_sem_fd (pcb s (running s)), sd_ptr = w\<rparr>)"
      "semdescriptorptr s' = (semdescriptorptr s)(w := \<lparr>sp_descriptor = d\<rparr>)"
      "live s' SemDescriptorPtr_item = insert w (live s SemDescriptorPtr_item)" "core_ok s' (sem_opened s L m d w)"
    using h unfolding has_opened_def by blast+
  have m: "d \<in> set (sem_opened s L m d w (SemDescriptors (running s)))" "w \<in> set (sem_opened s L m d w (SemDescs m))"
    by (simp_all add: sem_opened_def)
  then have nn: "d \<noteq> NULL" "m \<noteq> NULL"
    using core_nonnull [OF e(4) m(1)] core_mem [OF e(4) m(2)] live_nonnull [OF e(4)] by (auto simp del: pool_of.simps)
  have "sem_readable s' y" if "sem_readable s y \<or> y = w" for y
    using that nn assms(3) unfolding sem_readable_def e(1,2) by (auto simp: Let_def)
  then show ?thesis using assms(1) unfolding sem_holders_def e(3) by blast
qed

lemma holders_retvalue [simp]:
  "res_holders (set_retvalue p v s) \<longleftrightarrow> res_holders s" "sem_holders (set_retvalue p v s) \<longleftrightarrow> sem_holders s"
  by (simp_all add: res_holders_def sem_holders_def res_readable_def sem_readable_def set_retvalue_def upd_pcb_def)

subsection \<open>Calls\<close>

lemma openResource_holders:
  assumes i: "kernel_inv s L" and r: "idle s L PCB_item (running s)" and e: "internal_openResource s = Inr s'"
    and h: "res_holders s"
  shows "res_holders s'"
proof -
  have nn: "running s \<noteq> NULL" using live_nonnull [OF kernel_invD(1) [OF i] idleD(1) [OF r]] .
  have o: "res_holders s'" if "opens s s1 M r" "res_holders s1" "running s1 = running s" for s1 M r
    using that e nn res_holders_opened [of s1 M s' r] by (auto simp: opens_def split: if_splits)
  from i r e show ?thesis
  proof (cases rule: openResource_ways)
    case (created r s1)
    then have "descriptor s1 = descriptor s" "descriptorptr s1 = descriptorptr s" "running s1 = running s"
        "pool_of s1 DescriptorPtr_item = pool_of s DescriptorPtr_item" unfolding res_created_def by blast+
    with res_holders_fewer [OF h this(1,2)] show ?thesis by (intro o [OF created(2)]) simp_all
  qed (use h o in auto)
qed

lemma semOpen_holders:
  assumes i: "kernel_inv s L" and r: "idle s L PCB_item (running s)" and e: "internal_semOpen s = Inr s'"
    and h: "sem_holders s"
  shows "sem_holders s'"
proof -
  have nn: "running s \<noteq> NULL" using live_nonnull [OF kernel_invD(1) [OF i] idleD(1) [OF r]] .
  have o: "sem_holders s'" if "sem_opens s s1 M m" "sem_holders s1" "running s1 = running s" for s1 M m
    using that e nn sem_holders_opened [of s1 M s' m] by (auto simp: sem_opens_def split: if_splits)
  from i r e show ?thesis
  proof (cases rule: semOpen_ways)
    case (created m s1)
    then have "semdescriptor s1 = semdescriptor s" "semdescriptorptr s1 = semdescriptorptr s" "running s1 = running s"
        "pool_of s1 SemDescriptorPtr_item = pool_of s SemDescriptorPtr_item" unfolding sem_created_def by blast+
    with sem_holders_fewer [OF h this(1,2)] show ?thesis by (intro o [OF created(3)]) simp_all
  qed (use h o in auto)
qed

lemma semWait_holders:
  assumes i: "kernel_inv s L" and r: "idle s L PCB_item (running s)" and e: "internal_semWait s = Inr s'"
    and g: "safe_call internal_semWait_h s" and h: "sem_holders s"
  shows "sem_holders s'"
proof (rule semWait_ways [OF i r e])
  show "0 < sint (sem_count (semaphore s (sd_semaphore (semdescriptor s (sem_of_fd s L (ucast (run_arg s 0)))))))"
    if "sem_of_fd s L (ucast (run_arg s 0)) \<noteq> NULL"
    using that g sem_lookup [OF kernel_invD(1) [OF i] idleD(1) [OF r]] by (simp add: word_sless_alt)
  show "sem_holders s'" if "s' = set_retvalue (running s) v s" for v
    using that h by simp
  show "sem_holders s'" if "s' = set_retvalue (running s) 0 (upd_semaphore m f s)" for m f
    unfolding that by (simp, rule sem_holders_fewer [OF h]) (simp_all add: upd_semaphore_def)
qed

lemma handler_holders:
  assumes i: "kernel_inv s L" and r: "idle s L PCB_item (running s)" and e: "call_handler h s = Inr s'" and g: "safe_call h s"
    and o: "res_holders s" "sem_holders s"
  shows "res_holders s' \<and> sem_holders s'"
proof (cases "h = internal_shutdown_h")
  case True
  with e have "s' = internal_shutdown s" by simp
  then show ?thesis
    using o by (simp add: internal_shutdown_def res_holders_def sem_holders_def res_readable_def sem_readable_def
      set_retvalue_def upd_pcb_def)
next
  case False
  note k = holders_kept [OF handler_keeps [OF e False]]
  have "res_holders s'"
  proof (cases "h = internal_openResource_h")
    case True
    with e openResource_holders [OF i r _ o(1)] show ?thesis by simp
  next
    case False
    then have "DescPart \<in> - touches h" by (cases h) simp_all
    with k(1) o(1) show ?thesis by blast
  qed
  moreover have "sem_holders s'"
  proof (cases "h \<in> {internal_semOpen_h, internal_semWait_h}")
    case True
    with e g semOpen_holders [OF i r _ o(2)] semWait_holders [OF i r _ _ o(2)] show ?thesis by auto
  next
    case False
    then have "SemCellPart \<in> - touches h" by (cases h) simp_all
    with k(2) o(2) show ?thesis by blast
  qed
  ultimately show ?thesis by blast
qed

subsection \<open>Runs\<close>

definition report_ok :: "kernel \<Rightarrow> bool" where
  "report_ok s \<longleftrightarrow> res_holders s \<and> sem_holders s"

lemma report_kept: "keeps A s' s \<Longrightarrow> {DescPart, SemCellPart} \<subseteq> A \<Longrightarrow> report_ok s \<Longrightarrow> report_ok s'"
  using holders_kept [of A s' s] by (simp add: report_ok_def)

lemma report_entered: "report_ok s \<Longrightarrow> report_ok (entered n args s)"
  by (simp add: report_ok_def res_holders_def sem_holders_def res_readable_def sem_readable_def entered_def upd_pcb_def)

lemma report_step:
  assumes "sys_step x e y" and "conf_ok x" and "safe (snd x) e" and "report_ok (snd x)"
  shows "report_ok (snd y)"
  using assms
proof (induction rule: sys_step.induct)
  case (call c s r s')
  obtain n h args where e: "call_entry c = (n, h, args)" by (cases "call_entry c")
  obtain L where L: "kernel_inv s L" "idle s L PCB_item (running s)" using call(2) by (auto elim: sys_okE)
  have nn: "running s \<noteq> NULL" using call(2) by simp
  note t = call_unwound(1) [OF kernel_invD(7) [OF L(1)] nn call(1) e]
  have "safe_call h (entered n args s)" using call(3) e by simp
  with handler_holders [OF entered_inv [OF L] t] report_entered [of s n args] call(4) show ?case by (simp add: report_ok_def)
next
  case (tick s s')
  have "keeps {DescPart, SemCellPart} s' s" by (rule gives_keeps [OF keeps_timer_calls(2) tick(1)]) (simp_all add: keeps_refl)
  from report_kept [OF this] tick(4) show ?case by simp
next
  case (compute s m)
  have "keeps UNIV (s\<lparr>user_mem := m\<rparr>) s" by (intro frame keeps_refl)
  from report_kept [OF this] compute(3) show ?case by simp
next
  case (restart f a s r s')
  then obtain p t where p: "PCB_alloc s = Inr (p, t)" "s' = (upd_pcb p (\<lambda>c. c\<lparr>pcb_status := Running,
      pcb_cpu_state := EntryContext f a\<rparr>) t)\<lparr>running := p, init_pcb := p\<rparr>"
    by (auto simp: start_first_def bindE_Inr_iff split: if_splits)
  have "keeps {DescPart, SemCellPart} t s"
    using keeps_alloc(1) [OF keeps_refl, of "{DescPart, SemCellPart}" s] p(1) by (simp add: gives_def)
  from report_kept [OF this] restart(4) have "report_ok t" by simp
  then show ?case
    unfolding p(2) by (simp add: report_ok_def res_holders_def sem_holders_def res_readable_def sem_readable_def upd_pcb_def)
qed simp_all

lemma report_runs:
  assumes "safe_step\<^sup>*\<^sup>* x y" and "conf_ok x" and "report_ok (snd x)"
  shows "report_ok (snd y)"
  using assms(1)
proof (induction rule: rtranclp_induct)
  case (step y z)
  with safe_runs [OF step(1) assms(2)] show ?case by (auto simp: safe_step_def intro: report_step)
qed (rule assms(3))

lemma report_readable: "core_ok s L \<Longrightarrow> report_ok s \<Longrightarrow> readable s L"
  unfolding readable_def report_ok_def res_holders_def sem_holders_def
  using core_mem [of s L] by (fastforce simp del: pool_of.simps)

lemma fresh_report: "(\<And>k. k \<noteq> PCB_item \<Longrightarrow> fresh (pool_of s k)) \<Longrightarrow> report_ok s"
  unfolding report_ok_def res_holders_def sem_holders_def fresh_def by blast

text \<open>
  C34: the status report can be written at any time. In every state of a run of safe calls,
  interrupts, returns and restarts from the start on zeroed memory \<open>disastrOS_printStatus\<close> ends,
  follows no null pointer and writes the text composed from the contents of the lists.
\<close>

theorem runs_print_status:
  assumes "static_ok st" and "zeroed s" and "disastrOS_start st f a s = Inr (Some (r, s0))"
    and "safe_step\<^sup>*\<^sup>* (InProcess, s0) (c, t)"
  shows "\<exists>L. core_ok t L \<and> disastrOS_printStatus t = Inr (status_text t L)"
proof -
  from disastrOS_start_done [OF assms(1,2), of f a] assms(3) obtain p where
    p: "kernel_inv s0 (\<lambda>_. [])" "running s0 = p" "idle s0 (\<lambda>_. []) PCB_item p" "\<And>k. k \<noteq> PCB_item \<Longrightarrow> fresh (pool_of s0 k)"
    by (auto simp del: pool_of.simps)
  then have c: "conf_ok (InProcess, s0)"
    using sys_okI live_nonnull [OF kernel_invD(1) [OF p(1)] idleD(1) [OF p(3)]] by auto
  from conf_ok_sys [OF safe_runs [OF assms(4) c]] obtain L where
    L: "kernel_inv t L" "running t \<noteq> NULL \<Longrightarrow> idle t L PCB_item (running t)" by (rule sys_okE) blast
  note inv = kernel_invD [OF L(1)]
  have "report_ok t" using report_runs [OF assms(4) c] fresh_report [OF p(4)] by simp
  then have "readable t L" by (rule report_readable [OF inv(1)])
  with printStatus_report [OF inv(1,3,8) idleD(1) [OF L(2)]] inv(1) show ?thesis by auto
qed

theorem runs_print_status_witness:
  "\<exists>s0 r out. disastrOS_start ex_static 7 8 ex_zero = Inr (Some (r, s0)) \<and>
    disastrOS_printStatus (s0\<lparr>user_mem := (\<lambda>_. 5)\<rparr>) = Inr out"
proof -
  from disastrOS_start_done [OF ex_static_ok ex_zeroed, of 7 8] obtain r s0 where
    s0: "disastrOS_start ex_static 7 8 ex_zero = Inr (Some (r, s0))" by blast
  have "safe_step (InProcess, s0) (InProcess, s0\<lparr>user_mem := (\<lambda>_. 5)\<rparr>)"
    by (rule safe_stepI [OF sys_step.compute]) simp
  then have "safe_step\<^sup>*\<^sup>* (InProcess, s0) (InProcess, s0\<lparr>user_mem := (\<lambda>_. 5)\<rparr>)" by blast
  from runs_print_status [OF ex_static_ok ex_zeroed s0 this] s0 show ?thesis by blast
qed

end
