(* ===== verification/Readers_Writers.thy ===== *)
theory Readers_Writers
  imports Kernel_Runs Printing
begin

text \<open>
  The readers and writers program, \<open>disastrOS_semaphore_test2.c\<close>. A process is a \<open>prog\<close>: what it
  does next and how it goes on with the answer. System calls and accesses to the shared globals are
  single actions; between two actions the timer may take the processor away.
\<close>

subsection \<open>Programs\<close>

record Child_Args =
  ca_sem_id :: cint
  ca_number :: cint

text \<open>The globals of the program, and the argument structs on the stack of init, by address.\<close>

record shared =
  transactions :: "cint list"
  read_index :: cint
  write_index :: cint
  write_sem :: cint
  mutex_sem :: cint
  readcount :: cint
  child_args :: "clong \<Rightarrow> Child_Args"

text \<open>
  \<open>Sys\<close> is a call of a function of \<open>disastrOS.h\<close> that traps, \<open>Result\<close> the point where the caller is
  resumed and reads its return value.
\<close>

datatype prog =
  Finish
| Sys call "cint \<Rightarrow> prog"
| Result "cint \<Rightarrow> prog"
| GetPid "cint \<Rightarrow> prog"
| PrintStatus prog
| Load "shared \<Rightarrow> cint result" "cint \<Rightarrow> prog"
| Store "shared \<Rightarrow> shared result" prog

text \<open>
  Addresses that the program uses: the functions that start a process, the argument structs, the
  variable for the exit value; and what \<open>va_arg\<close> finds when \<open>disastrOS_openSemaphore\<close> is called with
  two arguments.
\<close>

record test_env =
  te_init :: clong
  te_child :: clong
  te_writers_args :: clong
  te_readers_args :: clong
  te_retval :: ptr
  te_no_count :: cint

definition READERS_NUM :: cint where "READERS_NUM = 5"
definition WRITERS_NUM :: cint where "WRITERS_NUM = 5"
definition WRITERS_SEM_ID :: cint where "WRITERS_SEM_ID = 0"
definition MUTEX_SEM_ID :: cint where "MUTEX_SEM_ID = 2"
definition BUFFER_SIZE :: cint where "BUFFER_SIZE = 128"
definition READER_CHILD :: cint where "READER_CHILD = 0"
definition WRITER_CHILD :: cint where "WRITER_CHILD = 1"

lemmas test_constants = READERS_NUM_def WRITERS_NUM_def WRITERS_SEM_ID_def MUTEX_SEM_ID_def BUFFER_SIZE_def
  READER_CHILD_def WRITER_CHILD_def

definition error_handler :: "cint \<Rightarrow> prog \<Rightarrow> prog" where
  "error_handler ret k = (if ret <s 0 then Sys (Exit 1) (\<lambda>_. k) else k)"

text \<open>\<open>index = (index + 1) % BUFFER_SIZE\<close>, after \<open>index\<close> has been read\<close>

definition next_slot :: "cint \<Rightarrow> cint result" where
  "next_slot j = c_mod (j + 1) BUFFER_SIZE"

function writer_loop :: "cint \<Rightarrow> cint \<Rightarrow> cint \<Rightarrow> prog \<Rightarrow> prog" where
  "writer_loop writer_no sem i k =
     (if i <s 100 then
        Sys (WaitSemaphore sem) (\<lambda>ret. error_handler ret (
        Load (\<lambda>sh. Inr (write_index sh)) (\<lambda>j.
        Store (\<lambda>sh. bindE (arr_set (transactions sh) j writer_no) (\<lambda>a. Inr (sh\<lparr>transactions := a\<rparr>))) (
        Load (\<lambda>sh. Inr (write_index sh)) (\<lambda>j.
        Store (\<lambda>sh. bindE (next_slot j) (\<lambda>v. Inr (sh\<lparr>write_index := v\<rparr>))) (
        Sys (PostSemaphore sem) (\<lambda>ret. error_handler ret (
        writer_loop writer_no sem (i + 1) k))))))))
      else k)"
  by pat_completeness auto
termination
  by (relation "measure (\<lambda>(_, _, i, _). nat (100 - sint i))") (auto simp: word_sless_alt sint_inc)

definition writerJob :: "test_env \<Rightarrow> cint \<Rightarrow> prog \<Rightarrow> prog" where
  "writerJob env writer_no k =
     Sys (OpenSemaphore WRITERS_SEM_ID 0 (te_no_count env)) (\<lambda>sem. error_handler sem (
     writer_loop writer_no sem 0 (Sys (CloseSemaphore sem) (\<lambda>_. k))))"

function reader_loop :: "cint \<Rightarrow> cint \<Rightarrow> cint \<Rightarrow> prog \<Rightarrow> prog" where
  "reader_loop wsem msem i k =
     (if i <s 100 then
        Sys (WaitSemaphore msem) (\<lambda>ret. error_handler ret (
        Load (\<lambda>sh. Inr (readcount sh)) (\<lambda>c.
        Store (\<lambda>sh. Inr (sh\<lparr>readcount := c + 1\<rparr>)) (
        Load (\<lambda>sh. Inr (readcount sh)) (\<lambda>c.
        let release_mutex =
          Sys (PostSemaphore msem) (\<lambda>ret. error_handler ret (
          Load (\<lambda>sh. Inr (read_index sh)) (\<lambda>j.
          Load (\<lambda>sh. arr_get (transactions sh) j) (\<lambda>_.
          Load (\<lambda>sh. Inr (read_index sh)) (\<lambda>j.
          Store (\<lambda>sh. bindE (next_slot j) (\<lambda>v. Inr (sh\<lparr>read_index := v\<rparr>))) (
          Load (\<lambda>sh. Inr (readcount sh)) (\<lambda>c.
          Store (\<lambda>sh. Inr (sh\<lparr>readcount := c - 1\<rparr>)) (
          Load (\<lambda>sh. Inr (readcount sh)) (\<lambda>c.
          if c = 0 then
            Sys (PostSemaphore wsem) (\<lambda>ret. error_handler ret (reader_loop wsem msem (i + 1) k))
          else reader_loop wsem msem (i + 1) k)))))))))
        in if c = 1 then Sys (WaitSemaphore wsem) (\<lambda>ret. error_handler ret release_mutex)
           else release_mutex)))))
      else k)"
  by pat_completeness auto
termination
  by (relation "measure (\<lambda>(_, _, i, _). nat (100 - sint i))") (auto simp: word_sless_alt sint_inc)

definition readerJob :: "test_env \<Rightarrow> prog \<Rightarrow> prog" where
  "readerJob env k =
     Sys (OpenSemaphore WRITERS_SEM_ID 0 (te_no_count env)) (\<lambda>wsem. error_handler wsem (
     Sys (OpenSemaphore MUTEX_SEM_ID 0 (te_no_count env)) (\<lambda>msem. error_handler msem (
     reader_loop wsem msem 0
       (Sys (CloseSemaphore wsem) (\<lambda>_. Sys (CloseSemaphore msem) (\<lambda>_. k)))))))"

text \<open>The number of a child is loaded for its job and, when that is done, for a message.\<close>

definition childFunction :: "test_env \<Rightarrow> clong \<Rightarrow> prog" where
  "childFunction env args =
     (let last = GetPid (\<lambda>pid. Sys (Exit (pid + 1)) (\<lambda>_. Finish));
          number = (\<lambda>sh. Inr (ca_number (child_args sh args))) in
      PrintStatus (
      Load (\<lambda>sh. Inr (ca_sem_id (child_args sh args))) (\<lambda>k.
      if k = READER_CHILD then Load number (\<lambda>_. readerJob env (Load number (\<lambda>_. last)))
      else
        Load (\<lambda>sh. Inr (ca_sem_id (child_args sh args))) (\<lambda>k.
        if k = WRITER_CHILD then Load number (\<lambda>n. writerJob env n (Load number (\<lambda>_. last)))
        else last))))"

lemma sint_inc_less: "sint i < sint n \<Longrightarrow> sint (i + 1 :: cint) = sint i + 1" for n :: cint
  using sint_inc [of i] sint_range32(2) [of n] by linarith

text \<open>The loops of init that start the children; the loop counter is also the index of the arguments.\<close>

definition arg_addr :: "clong \<Rightarrow> cint \<Rightarrow> clong" where
  "arg_addr base i = base + 8 * scast i"

definition set_arg :: "clong \<Rightarrow> (Child_Args \<Rightarrow> Child_Args) \<Rightarrow> shared \<Rightarrow> shared result" where
  "set_arg a f sh = Inr (sh\<lparr>child_args := (child_args sh)(a := f (child_args sh a))\<rparr>)"

function spawn_loop :: "test_env \<Rightarrow> clong \<Rightarrow> cint \<Rightarrow> cint \<Rightarrow> cint \<Rightarrow> cint \<Rightarrow> (cint \<Rightarrow> prog) \<Rightarrow> prog" where
  "spawn_loop env base kind num i alive_children k =
     (if i <s num then
        Store (set_arg (arg_addr base i) (\<lambda>a. a\<lparr>ca_sem_id := kind\<rparr>)) (
        Store (set_arg (arg_addr base i) (\<lambda>a. a\<lparr>ca_number := i\<rparr>)) (
        Sys (Spawn (te_child env) (arg_addr base i)) (\<lambda>_.
        spawn_loop env base kind num (i + 1) (alive_children + 1) k)))
      else k alive_children)"
  by pat_completeness auto
termination
  by (relation "measure (\<lambda>(_, _, _, num, i, _, _). nat (sint num - sint i))")
    (auto simp: word_sless_alt sint_inc_less)

function wait_loop :: "test_env \<Rightarrow> cint \<Rightarrow> prog \<Rightarrow> prog" where
  "wait_loop env alive_children k =
     (if 0 <s alive_children then
        Sys (Wait 0 (te_retval env)) (\<lambda>pid.
        if 0 \<le>s pid then wait_loop env (alive_children - 1) k else k)
      else k)"
  by pat_completeness auto
termination
  by (relation "measure (\<lambda>(_, alive, _). nat (sint alive))") (auto simp: word_sless_alt sint_dec)

definition initFunction :: "test_env \<Rightarrow> prog" where
  "initFunction env =
     PrintStatus (
     Sys (OpenSemaphore MUTEX_SEM_ID (DSOS_CREATE OR DSOS_EXCL) BUFFER_SIZE) (\<lambda>v.
     Store (\<lambda>sh. Inr (sh\<lparr>mutex_sem := v\<rparr>)) (
     Load (\<lambda>sh. Inr (mutex_sem sh)) (\<lambda>ret. error_handler ret (
     Sys (OpenSemaphore WRITERS_SEM_ID (DSOS_CREATE OR DSOS_EXCL) 0) (\<lambda>v.
     Store (\<lambda>sh. Inr (sh\<lparr>write_sem := v\<rparr>)) (
     Load (\<lambda>sh. Inr (write_sem sh)) (\<lambda>ret. error_handler ret (
     PrintStatus (
     spawn_loop env (te_writers_args env) WRITER_CHILD WRITERS_NUM 0 0 (\<lambda>alive_children.
     spawn_loop env (te_readers_args env) READER_CHILD READERS_NUM 0 alive_children (\<lambda>alive_children.
     PrintStatus (
     wait_loop env alive_children (
     Load (\<lambda>sh. Inr (mutex_sem sh)) (\<lambda>sem. Sys (CloseSemaphore sem) (\<lambda>_.
     Load (\<lambda>sh. Inr (write_sem sh)) (\<lambda>sem. Sys (CloseSemaphore sem) (\<lambda>_.
     PrintStatus (
     Sys Shutdown (\<lambda>_. Finish))))))))))))))))))))"

declare writer_loop.simps [simp del] reader_loop.simps [simp del] spawn_loop.simps [simp del]
  wait_loop.simps [simp del]

subsection \<open>The program on the kernel\<close>

text \<open>
  A process goes on with its program when its saved context is resumed; a context made by spawn or at
  the start enters a function. Other entries are not part of the program.
\<close>

fun entry :: "test_env \<Rightarrow> clong \<Rightarrow> clong \<Rightarrow> prog option" where
  "entry env f a = (if f = te_init env then Some (initFunction env)
     else if f = te_child env then Some (childFunction env a) else None)"

fun resume_at :: "test_env \<Rightarrow> resume \<Rightarrow> kernel \<Rightarrow> (ptr \<Rightarrow> prog) \<Rightarrow> (ptr \<Rightarrow> prog) option" where
  "resume_at env ReturnToMain s P = Some P"
| "resume_at env (ResumeProcess p) s P =
     (case pcb_cpu_state (pcb s p) of
        ZeroContext \<Rightarrow> None
      | SavedContext \<Rightarrow> Some P
      | EntryContext f a \<Rightarrow> map_option (\<lambda>prog. P(p := prog)) (entry env f a))"

type_synonym test_state = "control \<times> kernel \<times> shared \<times> (ptr \<Rightarrow> prog)"

text \<open>
  A step of the running process: a call of the kernel, the return of its value, a call of getpid or of
  the status report, a read or a write of the globals. A run of these steps alone is not interrupted.
\<close>

inductive process_step :: "test_env \<Rightarrow> test_state \<Rightarrow> test_state \<Rightarrow> bool" for env where
  call: "P (running s) = Sys c k \<Longrightarrow> do_call c s = Inr (Trapped r, s') \<Longrightarrow>
    resume_at env r s' (P(running s := Result k)) = Some P' \<Longrightarrow>
    process_step env (InProcess, s, sh, P) (resumed r, s', sh, P')"
| result: "P (running s) = Result k \<Longrightarrow>
    process_step env (InProcess, s, sh, P)
      (InProcess, s, sh, P(running s := k (pcb_syscall_retvalue (pcb s (running s)))))"
| getpid: "P (running s) = GetPid k \<Longrightarrow>
    process_step env (InProcess, s, sh, P) (InProcess, s, sh, P(running s := k (disastrOS_getpid s)))"
| status: "P (running s) = PrintStatus p \<Longrightarrow> disastrOS_printStatus s = Inr out \<Longrightarrow>
    process_step env (InProcess, s, sh, P) (InProcess, s, sh, P(running s := p))"
| load: "P (running s) = Load f k \<Longrightarrow> f sh = Inr v \<Longrightarrow>
    process_step env (InProcess, s, sh, P) (InProcess, s, sh, P(running s := k v))"
| store: "P (running s) = Store f p \<Longrightarrow> f sh = Inr sh' \<Longrightarrow>
    process_step env (InProcess, s, sh, P) (InProcess, s, sh', P(running s := p))"

text \<open>
  The whole: the running process takes a step, the timer interrupts it, its function returns to the
  main context, or the main context starts init again or ends.
\<close>

inductive test_step :: "test_env \<Rightarrow> test_state \<Rightarrow> test_state \<Rightarrow> bool" for env where
  process: "process_step env x y \<Longrightarrow> test_step env x y"
| tick: "timerHandler s = Inr s' \<Longrightarrow> resume_at env (ResumeProcess (running s')) s' P = Some P' \<Longrightarrow>
    test_step env (InProcess, s, sh, P) (InProcess, s', sh, P')"
| return: "P (running s) = Finish \<Longrightarrow> test_step env (InProcess, s, sh, P) (InMain, s, sh, P)"
| restart: "start_first (te_init env) 0 s = Inr (Some (r, s')) \<Longrightarrow> resume_at env r s' P = Some P' \<Longrightarrow>
    test_step env (InMain, s, sh, P) (InProcess, s', sh, P')"
| halt: "start_first (te_init env) 0 s = Inr None \<Longrightarrow>
    test_step env (InMain, s, sh, P) (Halted, s, sh, P)"

text \<open>\<open>main\<close> clears the indices and starts the system with \<open>initFunction\<close>.\<close>

definition test_main :: "static_mem \<Rightarrow> test_env \<Rightarrow> kernel \<Rightarrow> shared \<Rightarrow> (test_state) result" where
  "test_main st env s sh =
     bindE (disastrOS_start st (te_init env) 0 s) (\<lambda>started.
     let sh = sh\<lparr>write_index := 0, read_index := 0\<rparr> in
     case started of
       None \<Rightarrow> Inr (Halted, s, sh, \<lambda>_. Finish)
     | Some (r, s) \<Rightarrow> (case resume_at env r s (\<lambda>_. Finish) of
         None \<Rightarrow> Inl NullDeref
       | Some P \<Rightarrow> Inr (InProcess, s, sh, P)))"

text \<open>The steps of the kernel in a step of the program: one of \<open>sys_step\<close> or none.\<close>

lemma test_step_kernel:
  assumes "test_step env (c, s, sh, P) (c', s', sh', P')"
  shows "c' = c \<and> s' = s \<or> (\<exists>e. sys_step (c, s) e (c', s'))"
  using assms by cases (auto elim!: process_step.cases intro: sys_step.intros)

subsection \<open>Bounds\<close>

definition shared_ok :: "shared \<Rightarrow> bool" where
  "shared_ok sh \<longleftrightarrow> length (transactions sh) = 128 \<and> 0 \<le> sint (read_index sh) \<and> sint (read_index sh) < 128 \<and>
     0 \<le> sint (write_index sh) \<and> sint (write_index sh) < 128"

text \<open>A program whose accesses to well-formed globals succeed and keep them so, whatever is answered.\<close>

inductive good :: "prog \<Rightarrow> bool" where
  good_Finish: "good Finish"
| good_Sys: "(\<And>v. good (k v)) \<Longrightarrow> good (Sys c k)"
| good_Result: "(\<And>v. good (k v)) \<Longrightarrow> good (Result k)"
| good_GetPid: "(\<And>v. good (k v)) \<Longrightarrow> good (GetPid k)"
| good_PrintStatus: "good p \<Longrightarrow> good (PrintStatus p)"
| good_Load: "(\<And>sh. shared_ok sh \<Longrightarrow> \<exists>v. f sh = Inr v \<and> good (k v)) \<Longrightarrow> good (Load f k)"
| good_Store: "(\<And>sh. shared_ok sh \<Longrightarrow> \<exists>sh'. f sh = Inr sh' \<and> shared_ok sh') \<Longrightarrow> good p \<Longrightarrow> good (Store f p)"

inductive_simps good_simps:
  "good (Sys c k)" "good (Result k)" "good (GetPid k)" "good (PrintStatus p)" "good (Load f k)" "good (Store g p)"

lemma good_error: "good k \<Longrightarrow> good (error_handler ret k)"
  by (simp add: error_handler_def good_Sys)

lemma good_read: "(\<And>sh. shared_ok sh \<Longrightarrow> good (k (g sh))) \<Longrightarrow> good (Load (\<lambda>sh. Inr (g sh)) k)"
  by (rule good_Load) simp

lemma next_slot_bounds:
  assumes "0 \<le> sint j" and "sint j < 128"
  shows "\<exists>v. next_slot j = Inr v \<and> sint v = (sint j + 1) mod 128"
proof -
  have e: "sint (j + 1) = sint j + 1" using sint_inc [of j] assms(2) by simp
  have "(sint j + 1) smod 128 = (sint j + 1) mod 128" using assms(1) by (simp add: signed_modulo_int_def)
  moreover have "0 \<le> (sint j + 1) mod 128" "(sint j + 1) mod 128 < 128" by simp_all
  ultimately have "sint (word_of_int (sint (j + 1) smod 128) :: cint) = (sint j + 1) mod 128"
    unfolding e by (simp add: sint_cint_of_int)
  then show ?thesis by (simp add: next_slot_def c_mod_def BUFFER_SIZE_def)
qed

lemma good_advance:
  assumes "0 \<le> sint j" and "sint j < 128" and "good p"
  shows "good (Store (\<lambda>sh. bindE (next_slot j) (\<lambda>v. Inr (sh\<lparr>write_index := v\<rparr>))) p)"
    and "good (Store (\<lambda>sh. bindE (next_slot j) (\<lambda>v. Inr (sh\<lparr>read_index := v\<rparr>))) p)"
  using next_slot_bounds [OF assms(1,2)] assms(3) by (auto simp: shared_ok_def intro!: good_Store)

lemma good_deposit:
  assumes "0 \<le> sint j" and "sint j < 128" and "good p"
  shows "good (Store (\<lambda>sh. bindE (arr_set (transactions sh) j v) (\<lambda>a. Inr (sh\<lparr>transactions := a\<rparr>))) p)"
  using assms by (auto simp: shared_ok_def arr_set_def intro!: good_Store)

lemma good_plain:
  assumes "\<And>sh. shared_ok (g sh) \<longleftrightarrow> shared_ok sh" and "good p"
  shows "good (Store (\<lambda>sh. Inr (g sh)) p)"
  using assms by (auto intro!: good_Store)

lemma good_fetch:
  assumes "0 \<le> sint j" and "sint j < 128" and "\<And>v. good (k v)"
  shows "good (Load (\<lambda>sh. arr_get (transactions sh) j) k)"
  using assms by (auto simp: shared_ok_def arr_get_def intro!: good_Load)

lemmas good_intros = good_Finish good_Sys good_Result good_GetPid good_PrintStatus good_error good_read
  good_advance good_deposit good_plain good_fetch

lemma good_writer_loop: "good k \<Longrightarrow> good (writer_loop n sem i k)"
proof (induction n sem i k rule: writer_loop.induct)
  case (1 n sem i k)
  then show ?case
    by (subst writer_loop.simps) (auto simp: shared_ok_def intro!: good_intros)
qed

lemma good_reader_loop: "good k \<Longrightarrow> good (reader_loop ws ms i k)"
proof (induction ws ms i k rule: reader_loop.induct)
  case (1 ws ms i k)
  then show ?case
    by (subst reader_loop.simps) (auto simp: shared_ok_def Let_def intro!: good_intros)
qed

lemma good_childFunction: "good (childFunction env a)"
  unfolding childFunction_def writerJob_def readerJob_def Let_def
  by (auto intro!: good_intros good_writer_loop good_reader_loop)

lemma good_set_arg: "good p \<Longrightarrow> good (Store (set_arg a f) p)"
  by (rule good_Store) (auto simp: set_arg_def shared_ok_def)

lemma good_spawn_loop: "(\<And>v. good (k v)) \<Longrightarrow> good (spawn_loop env base kind num i alive k)"
proof (induction env base kind num i alive k rule: spawn_loop.induct)
  case (1 env base kind num i alive k)
  then show ?case by (subst spawn_loop.simps) (auto intro!: good_intros good_set_arg)
qed

lemma good_wait_loop: "good k \<Longrightarrow> good (wait_loop env alive k)"
proof (induction env alive k rule: wait_loop.induct)
  case (1 env alive k)
  then show ?case by (subst wait_loop.simps) (auto intro!: good_intros)
qed

lemma good_initFunction: "good (initFunction env)"
  unfolding initFunction_def
  by (auto simp: shared_ok_def intro!: good_intros good_spawn_loop good_wait_loop)

lemma good_entry: "entry env f a = Some p \<Longrightarrow> good p"
  by (auto simp: good_initFunction good_childFunction split: if_splits)

lemma good_resume: "resume_at env r s P = Some P' \<Longrightarrow> (\<And>p. good (P p)) \<Longrightarrow> good (P' p)"
  by (cases r) (auto split: ucontext.splits simp del: entry.simps dest: good_entry)

fun state_good :: "test_state \<Rightarrow> bool" where
  "state_good (c, s, sh, P) \<longleftrightarrow> shared_ok sh \<and> (\<forall>p. good (P p))"

lemma state_good_upd: "shared_ok sh \<Longrightarrow> (\<And>p. good (P p)) \<Longrightarrow> good q \<Longrightarrow> state_good (c, s, sh, P(r := q))"
  by simp

lemma process_step_good:
  assumes "process_step env x y" and "state_good x"
  shows "state_good y"
  using assms
proof (induction rule: process_step.induct)
  case (call P s c k r s' P' sh)
  then have "good (Sys c k)" by (metis state_good.simps)
  then have "good (Result k)" by (simp add: good_simps)
  with call have "\<And>p. good ((P(running s := Result k)) p)" by simp
  from good_resume [OF call(3) this] call(4) show ?case by simp
next
  case (result P s k sh)
  then have "good (Result k)" by (metis state_good.simps)
  with result show ?case by (simp add: good_simps)
next
  case (getpid P s k sh)
  then have "good (GetPid k)" by (metis state_good.simps)
  with getpid show ?case by (simp add: good_simps)
next
  case (status P s p out sh)
  then have "good (PrintStatus p)" by (metis state_good.simps)
  with status show ?case by (simp add: good_simps)
next
  case (load P s f k sh v)
  then have "good (Load f k)" by (metis state_good.simps)
  with load show ?case by (auto simp: good_simps)
next
  case (store P s f p sh sh')
  then have "good (Store f p)" by (metis state_good.simps)
  with store show ?case by (auto simp: good_simps)
qed

lemma test_step_good:
  assumes "test_step env x y" and "state_good x"
  shows "state_good y"
  using assms
proof (induction rule: test_step.induct)
  case (process x y)
  then show ?case by (rule process_step_good)
next
  case (tick s s' P P' sh)
  with good_resume [OF tick(2)] show ?case by simp
next
  case (restart s r s' P P' sh)
  with good_resume [OF restart(2)] show ?case by simp
qed simp_all

lemma process_run: "(process_step env)\<^sup>*\<^sup>* x y \<Longrightarrow> (test_step env)\<^sup>*\<^sup>* x y"
  by (erule rtranclp_mono [THEN predicate2D, rotated]) (auto intro: test_step.process)

lemma test_run_good: "(test_step env)\<^sup>*\<^sup>* x y \<Longrightarrow> state_good x \<Longrightarrow> state_good y"
  by (induction rule: rtranclp_induct) (auto intro: test_step_good)

lemma test_main_good:
  assumes "test_main st env s sh = Inr x" and "length (transactions sh) = 128"
  shows "state_good x"
proof -
  have sh: "shared_ok (sh\<lparr>write_index := 0, read_index := 0\<rparr>)" using assms(2) by (simp add: shared_ok_def)
  from assms(1) obtain started where d: "disastrOS_start st (te_init env) 0 s = Inr started"
    by (auto simp: test_main_def bindE_Inr_iff)
  show ?thesis
  proof (cases started)
    case None
    with assms(1) d sh show ?thesis by (simp add: test_main_def good_Finish) (metis good_Finish state_good.simps)
  next
    case (Some rs)
    obtain r s' where rs: "rs = (r, s')" by (cases rs)
    show ?thesis
    proof (cases "resume_at env r s' (\<lambda>_. Finish)")
      case None
      with assms(1) d Some rs show ?thesis by (simp add: test_main_def Let_def)
    next
      case P: (Some P)
      with assms(1) d Some rs have "x = (InProcess, s', sh\<lparr>write_index := 0, read_index := 0\<rparr>, P)"
        by (simp add: test_main_def Let_def)
      with sh good_resume [OF P good_Finish] show ?thesis by simp
    qed
  qed
qed

text \<open>
  C31: in every run of the program, however its processes are interleaved and whatever the kernel
  answers to their calls, the indices stay in the buffer, and whenever a process is about to read or
  write the globals the access succeeds: no index is out of bounds and no division by zero happens.
\<close>

theorem test_accesses_in_bounds:
  assumes "test_main st env s0 sh0 = Inr x" and "length (transactions sh0) = 128"
    and "(test_step env)\<^sup>*\<^sup>* x (c, s, sh, P)"
  shows "0 \<le> sint (read_index sh) \<and> sint (read_index sh) < 128 \<and> 0 \<le> sint (write_index sh) \<and>
    sint (write_index sh) < 128 \<and> length (transactions sh) = 128 \<and>
    (case P p of Load f k \<Rightarrow> f sh \<in> range Inr | Store f q \<Rightarrow> f sh \<in> range Inr | _ \<Rightarrow> True)"
proof -
  have g: "shared_ok sh" "good (P p)"
    using test_run_good [OF assms(3) test_main_good [OF assms(1,2)]] by simp_all
  then have "case P p of Load f k \<Rightarrow> f sh \<in> range Inr | Store f q \<Rightarrow> f sh \<in> range Inr | _ \<Rightarrow> True"
    by (cases "P p") (auto simp: good_simps)
  with g(1) show ?thesis by (simp add: shared_ok_def)
qed

subsection \<open>Length\<close>

text \<open>
  What a process can do next when every call may answer anything and the globals may hold anything:
  a call takes two steps, one to trap and one to be resumed.
\<close>

inductive prog_step :: "prog \<Rightarrow> prog \<Rightarrow> bool" where
  "prog_step (Sys c k) (Result k)"
| "prog_step (Result k) (k v)"
| "prog_step (GetPid k) (k v)"
| "prog_step (PrintStatus p) p"
| "prog_step (Load f k) (k v)"
| "prog_step (Store f p) p"

inductive_simps prog_step_simps:
  "prog_step Finish q" "prog_step (Sys c k) q" "prog_step (Result k) q" "prog_step (GetPid k) q"
  "prog_step (PrintStatus p) q" "prog_step (Load f k) q" "prog_step (Store g p) q"

definition ends :: "nat \<Rightarrow> prog \<Rightarrow> bool" where
  "ends n p \<longleftrightarrow> (\<forall>m q. (prog_step ^^ m) p q \<longrightarrow> m \<le> n)"

lemma ends_step:
  assumes "\<And>q. prog_step p q \<Longrightarrow> ends n q"
  shows "ends (Suc n) p"
  unfolding ends_def
proof (intro allI impI)
  fix m q
  assume "(prog_step ^^ m) p q"
  then show "m \<le> Suc n"
  proof (cases m)
    case (Suc j)
    then obtain r where "prog_step p r" "(prog_step ^^ j) r q"
      using \<open>(prog_step ^^ m) p q\<close> by (metis relpowp_Suc_D2)
    with assms Suc show ?thesis by (auto simp: ends_def)
  qed simp
qed

lemma ends_mono: "ends n p \<Longrightarrow> n \<le> m \<Longrightarrow> ends m p"
  by (auto simp: ends_def intro: order_trans)

lemma ends_intros:
  "ends 0 Finish"
  "ends n p \<Longrightarrow> ends (Suc n) (PrintStatus p)" "ends n p \<Longrightarrow> ends (Suc n) (Store g p)"
  "(\<And>v. ends n (k v)) \<Longrightarrow> ends (Suc n) (Result k)" "(\<And>v. ends n (k v)) \<Longrightarrow> ends (Suc n) (GetPid k)"
  "(\<And>v. ends n (k v)) \<Longrightarrow> ends (Suc n) (Load f k)"
proof -
  have "m \<le> 0" if "(prog_step ^^ m) Finish q" for m q
    using that relpowp_Suc_D2 [of _ prog_step Finish q] by (cases m) (fastforce simp: prog_step_simps)+
  then show "ends 0 Finish" by (simp add: ends_def)
qed (auto intro!: ends_step simp: prog_step_simps)

lemma ends_Sys: "(\<And>v. ends n (k v)) \<Longrightarrow> ends (Suc (Suc n)) (Sys c k)"
  by (rule ends_step) (auto simp: prog_step_simps intro: ends_intros)

lemma ends_error: "ends n k \<Longrightarrow> ends (Suc (Suc n)) (error_handler ret k)"
  by (auto simp: error_handler_def intro: ends_Sys ends_mono)

text \<open>A loop that makes at most \<open>b\<close> steps in each of its iterations.\<close>

lemma rounds_left: "sint i < 100 \<Longrightarrow> b + b * nat (100 - sint (i + 1)) = b * nat (100 - sint i)" for i :: cint
  using sint_inc [of i] Suc_nat_eq_nat_zadd1 [of "99 - sint i"] by (simp flip: mult_Suc_right)

lemma ends_writer_loop: "ends n k \<Longrightarrow> ends (n + 12 * nat (100 - sint i)) (writer_loop no sem i k)"
proof (induction no sem i k rule: writer_loop.induct)
  case (1 no sem i k)
  show ?case
  proof (cases "i <s 100")
    case True
    obtain r where r: "r = n + 12 * nat (100 - sint (i + 1))" by blast
    have n: "n + 12 * nat (100 - sint i) = 12 + r" unfolding r using rounds_left [of i 12] True by (simp add: word_sless_alt)
    have "ends r (writer_loop no sem (i + 1) k)" unfolding r using 1 True by blast
    then show ?thesis
      unfolding n by (subst writer_loop.simps) (simp add: True eval_nat_numeral, intro ends_intros ends_Sys ends_error)
  next
    case False
    with 1 show ?thesis by (subst writer_loop.simps) (auto intro: ends_mono)
  qed
qed

lemma ends_reader_loop: "ends n k \<Longrightarrow> ends (n + 26 * nat (100 - sint i)) (reader_loop ws ms i k)"
proof (induction ws ms i k rule: reader_loop.induct)
  case (1 ws ms i k)
  show ?case
  proof (cases "i <s 100")
    case True
    obtain r where r: "r = n + 26 * nat (100 - sint (i + 1))" by blast
    have n: "n + 26 * nat (100 - sint i) = 26 + r" unfolding r using rounds_left [of i 26] True by (simp add: word_sless_alt)
    have e: "ends r (reader_loop ws ms (i + 1) k)" unfolding r using 1 True by blast
    then have "ends (Suc (Suc (Suc (Suc r)))) (if c = 0 then Sys (PostSemaphore ws)
        (\<lambda>ret. error_handler ret (reader_loop ws ms (i + 1) k)) else reader_loop ws ms (i + 1) k)" for c :: cint
      by (auto intro: ends_Sys ends_error ends_mono)
    note step = this
    have wait: "ends (Suc (Suc (Suc (Suc m)))) (if c = 1 then Sys (WaitSemaphore ws) (\<lambda>ret. error_handler ret p) else p)"
      if "ends m p" for c :: cint and m p
      using that by (auto intro: ends_Sys ends_error ends_mono)
    show ?thesis
      unfolding n by (subst reader_loop.simps)
        (simp add: True eval_nat_numeral Let_def del: if_cancel, intro ends_intros ends_Sys ends_error wait step)
  next
    case False
    with 1 show ?thesis by (subst reader_loop.simps) (auto intro: ends_mono)
  qed
qed

lemma ends_spawn_loop:
  assumes "\<And>v. sint v = sint alive + max 0 (sint num - sint i) \<Longrightarrow> ends n (k v)"
    and "0 \<le> sint i" and "sint alive + max 0 (sint num - sint i) < 2 ^ 31"
  shows "ends (n + 4 * nat (sint num - sint i)) (spawn_loop env base kind num i alive k)"
  using assms
proof (induction env base kind num i alive k arbitrary: n rule: spawn_loop.induct)
  case (1 env base kind num i alive k)
  show ?case
  proof (cases "i <s num")
    case True
    then have l: "sint i < sint num" by (simp add: word_sless_alt)
    obtain r where r: "r = n + 4 * nat (sint num - sint (i + 1))" by blast
    have "sint num - sint i = sint num - sint (i + 1) + 1" using sint_inc_less [OF l] by simp
    then have n: "n + 4 * nat (sint num - sint i) = 4 + r"
      unfolding r using l sint_inc_less [OF l] by (simp add: nat_add_distrib)
    have a: "sint (alive + 1) = sint alive + 1" using 1(4) l sint_inc [of alive] by simp
    have "ends r (spawn_loop env base kind num (i + 1) (alive + 1) k)"
      unfolding r using sint_inc_less [OF l] a l 1(3,4) by (intro 1(1) True 1(2)) simp_all
    then show ?thesis
      unfolding n by (subst spawn_loop.simps) (simp add: True eval_nat_numeral, intro ends_intros ends_Sys)
  next
    case False
    with 1(2) [of alive] have "ends n (k alive)" by (simp add: word_sless_alt)
    with False show ?thesis by (subst spawn_loop.simps) (auto intro: ends_mono)
  qed
qed

lemma ends_wait_loop: "ends n k \<Longrightarrow> ends (n + 2 * nat (sint alive)) (wait_loop env alive k)"
proof (induction env alive k rule: wait_loop.induct)
  case (1 env alive k)
  show ?case
  proof (cases "0 <s alive")
    case True
    then have l: "0 < sint alive" by (simp add: word_sless_alt)
    then have d: "sint (alive - 1) = sint alive - 1" using sint_dec [of alive] by simp
    obtain r where r: "r = n + 2 * nat (sint (alive - 1))" by blast
    have n: "n + 2 * nat (sint alive) = 2 + r" unfolding r d using l by (simp add: nat_diff_distrib)
    have "ends r (if 0 \<le>s pid then wait_loop env (alive - 1) k else k)" for pid
      unfolding r using 1 True by (auto intro: ends_mono)
    then show ?thesis
      unfolding n by (subst wait_loop.simps) (simp add: True eval_nat_numeral del: if_split, intro ends_Sys)
  next
    case False
    with 1 show ?thesis by (subst wait_loop.simps) (auto intro: ends_mono)
  qed
qed

lemma ends_childFunction: "ends 2619 (childFunction env a)"
proof -
  let ?last = "GetPid (\<lambda>pid. Sys (Exit (pid + 1)) (\<lambda>_. Finish))"
  let ?fin = "Load (\<lambda>sh. Inr (ca_number (child_args sh a))) (\<lambda>_. ?last)"
  have "ends (Suc (Suc (Suc 0))) ?last" by (intro ends_intros ends_Sys)
  then have last: "ends 3 ?last" by (simp add: eval_nat_numeral)
  then have e: "ends 4 ?fin" by (auto simp: eval_nat_numeral intro: ends_intros)
  have r: "ends 2616 (readerJob env ?fin)"
  proof -
    have "ends (8 + 26 * nat (100 - sint (0 :: cint))) (reader_loop ws ms 0
        (Sys (CloseSemaphore ws) (\<lambda>_. Sys (CloseSemaphore ms) (\<lambda>_. ?fin))))" for ws ms
      using e by (intro ends_reader_loop) (auto simp: eval_nat_numeral intro!: ends_Sys)
    then show ?thesis
      unfolding readerJob_def by (simp add: eval_nat_numeral, intro ends_Sys ends_error)
  qed
  have w: "ends 1210 (writerJob env n ?fin)" for n
  proof -
    have "ends (6 + 12 * nat (100 - sint (0 :: cint))) (writer_loop n ws 0 (Sys (CloseSemaphore ws) (\<lambda>_. ?fin)))" for ws
      using e by (intro ends_writer_loop) (auto simp: eval_nat_numeral intro!: ends_Sys)
    then have "ends (Suc (Suc (Suc (Suc 1206)))) (writerJob env n ?fin)"
      unfolding writerJob_def by (intro ends_Sys ends_error) simp
    then show ?thesis by simp
  qed
  show ?thesis
  proof -
    let ?n = "\<lambda>sh. Inr (ca_number (child_args sh a))" and ?k = "\<lambda>sh. Inr (ca_sem_id (child_args sh a))"
    have "ends (Suc 2616) (Load ?n (\<lambda>_. readerJob env ?fin))" by (intro ends_intros r)
    moreover have "ends (Suc (Suc 2615)) (Load ?k (\<lambda>k. if k = WRITER_CHILD then Load ?n (\<lambda>n. writerJob env n ?fin) else ?last))"
    proof (rule ends_intros)
      fix k :: cint
      have "ends (Suc 2615) (Load ?n (\<lambda>n. writerJob env n ?fin))" by (intro ends_intros ends_mono [OF w]) simp
      then show "ends (Suc 2615) (if k = WRITER_CHILD then Load ?n (\<lambda>n. writerJob env n ?fin) else ?last)"
        using ends_mono [OF last] by simp
    qed
    ultimately have "ends (Suc (Suc 2617)) (childFunction env a)"
      unfolding childFunction_def Let_def by (intro ends_intros) simp
    then show ?thesis by simp
  qed
qed

lemma ends_initFunction: "ends 84 (initFunction env)"
proof -
  let ?fin = "Load (\<lambda>sh. Inr (mutex_sem sh)) (\<lambda>sem. Sys (CloseSemaphore sem) (\<lambda>_.
     Load (\<lambda>sh. Inr (write_sem sh)) (\<lambda>sem. Sys (CloseSemaphore sem) (\<lambda>_.
     PrintStatus (Sys Shutdown (\<lambda>_. Finish))))))"
  have "ends (Suc (Suc (Suc (Suc (Suc (Suc (Suc (Suc (Suc 0))))))))) ?fin" by (intro ends_intros ends_Sys)
  then have b: "ends (9 + 2 * nat (sint v)) (wait_loop env v ?fin)" for v
    by (intro ends_wait_loop) (simp add: eval_nat_numeral)
  have w: "ends 30 (PrintStatus (wait_loop env v ?fin))" if "sint v = 10" for v
  proof -
    have "ends 29 (wait_loop env v ?fin)" using b [of v] that by simp
    from ends_intros(2) [OF this] show ?thesis by simp
  qed
  have num: "sint WRITERS_NUM = 5" "sint READERS_NUM = 5" by (simp_all add: test_constants)
  have r: "ends (30 + 4 * nat (sint READERS_NUM - sint (0 :: cint))) (spawn_loop env (te_readers_args env) READER_CHILD
      READERS_NUM 0 v (\<lambda>v. PrintStatus (wait_loop env v ?fin)))" if "sint v = 5" for v
    using that num by (intro ends_spawn_loop w) simp_all
  have "ends (50 + 4 * nat (sint WRITERS_NUM - sint (0 :: cint))) (spawn_loop env (te_writers_args env) WRITER_CHILD
      WRITERS_NUM 0 0 (\<lambda>v. spawn_loop env (te_readers_args env) READER_CHILD READERS_NUM 0 v
        (\<lambda>v. PrintStatus (wait_loop env v ?fin))))"
    using r num by (intro ends_spawn_loop) simp_all
  then have "ends (Suc (Suc (Suc (Suc (Suc (Suc (Suc (Suc (Suc (Suc (Suc (Suc (Suc (Suc 70)))))))))))))) (initFunction env)"
    unfolding initFunction_def num by (intro ends_intros ends_Sys ends_error) simp
  then show ?thesis by simp
qed

text \<open>
  C32: no process of the program loops for ever, whatever the kernel answers and whatever the other
  processes do to the globals: a child takes at most 2619 steps, and init at most 84. In particular
  the loop of init, which waits for its children, gives up at the first error.
\<close>

theorem test_processes_end:
  "((prog_step ^^ m) (childFunction env a) q \<longrightarrow> m \<le> 2619) \<and>
   ((prog_step ^^ m) (initFunction env) q \<longrightarrow> m \<le> 84)"
  using ends_childFunction [of env a] ends_initFunction [of env] by (auto simp: ends_def)

theorem test_processes_end_witness:
  "\<exists>env a q. (prog_step ^^ 2) (childFunction env a) q \<and> (2 :: nat) \<le> 2619"
proof -
  fix env a
  let ?p = "childFunction env a"
  obtain p1 q where "prog_step ?p p1" "prog_step p1 q"
    unfolding childFunction_def Let_def by (blast intro: prog_step.intros)
  then have "(prog_step ^^ 2) ?p q" by (auto simp: eval_nat_numeral)
  with test_processes_end [of 2 env a q] show ?thesis by blast
qed

end
