(* ===== verification/Semaphore_Rounds.thy ===== *)
theory Semaphore_Rounds
  imports Semaphore_Hazard
begin

text \<open>
  A process that waits and posts twice on a semaphore that is used up, without being interrupted.
  The first post puts it, still running, into the ready list; the second wait cannot queue it any
  more, but marks it as waiting; the second post detaches it from a list it is not in.
\<close>

lemma dlist_no_loop:
  assumes "dlist m h xs" and "x \<in> set xs"
  shows "li_next (m x) \<noteq> x"
proof -
  from assms(2) obtain as bs where xs: "xs = as @ x # bs" by (auto dest: split_list)
  then have "li_next (m x) = first_of bs NULL" and "x \<noteq> NULL"
    using assms(1) by (auto simp: dlist_def dseg_append)
  with xs assms(1) show ?thesis by (cases bs) (auto simp: dlist_def)
qed

text \<open>The wait of a process that is in a list: it is not queued.\<close>

lemma semWait_linked:
  assumes c: "core_ok s L" and k: "sem_ok s L" and r: "running s \<in> live s PCB_item"
    and u: "\<not> unlinked (links_of s PCB_item) (running s)"
    and d: "sem_of_fd s L (ucast (run_arg s 0)) = d" "d \<noteq> NULL"
    and m: "sd_semaphore (semdescriptor s d) = m"
    and n: "sint (sem_count (semaphore s m)) \<le> 0" "sint (sem_count (semaphore s m)) \<noteq> - (2 ^ 31)"
    and sp: "spare s SemDescriptorPtr_item \<noteq> {}"
  shows "\<exists>s' w. internal_semWait s = Inr s' \<and> core_ok s' (L(SemWaiting m := L (SemWaiting m) @ [w])) \<and>
    running s' = running s \<and> pcb_syscall_retvalue (pcb s' (running s)) = 0 \<and>
    pcb_status (pcb s' (running s)) = Waiting \<and> live s' PCB_item = live s PCB_item \<and>
    (\<forall>k. sem_count (semaphore s' k) = (if k = m then sem_count (semaphore s k) - 1 else sem_count (semaphore s k))) \<and>
    semdescriptor s' = semdescriptor s \<and> sp_descriptor (semdescriptorptr s' w) = d \<and>
    waiting_list s' = waiting_list s \<and> links_of s' PCB_item = links_of s PCB_item"
proof -
  have dm: "d \<in> set (L (SemDescriptors (running s)))"
    using sem_of_fd_mem [where s = s and L = L and fd = "ucast (run_arg s 0)"] d by simp
  have ml: "m \<in> live s Semaphore_item" "m \<noteq> NULL" using sem_ok_live [OF c k dm] m by simp_all
  let ?s1 = "upd_semaphore m (\<lambda>c. c\<lparr>sem_count := sem_count c - 1\<rparr>) s"
  have c1: "core_ok ?s1 L" using c by simp
  have neg: "sem_count (semaphore s m) - 1 <s 0"
    using n sint_dec [of "sem_count (semaphore s m)"] by (simp add: word_sless_alt)
  from c1 show ?thesis
  proof (cases rule: SemDescriptorPtr_alloc_cases [of ?s1 L d])
    case exhausted
    with sp show ?thesis by (simp add: upd_semaphore_def)
  next
    case (block w A)
    let ?s2 = "?s1\<lparr>semdescriptorptr_mem := A\<rparr>"
    note c2 = allocd_core [OF c1 block(2)]
    have h: "SemWaiting m \<in> heads ?s2" using ml(1) by (simp add: upd_semaphore_def)
    let ?L3 = "L(SemWaiting m := L (SemWaiting m) @ [w])"
    obtain a b where i3: "k_append ?s2 (SemWaiting m) w = Inr (w, put_list (SemWaiting m) a b ?s2)"
        "core_ok (put_list (SemWaiting m) a b ?s2) ?L3"
      by (rule core_appendE [OF c2(1,2) h, of ?L3]) (simp, simp, blast)
    let ?s4 = "set_status (running s) Waiting (put_list (SemWaiting m) a b ?s2)"
    have pl: "links_of ?s4 PCB_item = links_of s PCB_item" "waiting_list ?s4 = waiting_list s"
      using put_list_lists(2) [of "SemWaiting m" a b ?s2 WaitingList] put_list_lists(1) [of "SemWaiting m" a b ?s2 PCB_item]
      by (simp_all add: set_status_def upd_pcb_def upd_semaphore_def)
    let ?s5 = "put_list WaitingList (links_of ?s4 (kind_of WaitingList)) (head_of ?s4 WaitingList) ?s4"
    have nn: "running s \<noteq> NULL" by (rule live_nonnull [OF c r])
    have i5: "k_append ?s4 WaitingList (running s) = Inr (NULL, ?s5)"
      using u pl(1) nn by (intro k_append_linked) simp_all
    have "core_ok ?s4 ?L3" using i3(2) by simp
    then have c5: "core_ok ?s5 ?L3" using same_core [OF put_list_same] by blast
    let ?s6 = "set_retvalue (running s) 0 ?s5"
    have "internal_semWait s = Inr ?s6"
      using nn sem_lookup [OF c r] d m ml(2) neg block(1) i3(1) i5
      by (simp add: internal_semWait_def Let_def del: put_list_lists)
        (simp add: upd_semaphore_def set_status_def upd_pcb_def)
    moreover have "core_ok ?s6 ?L3" using c5 by simp
    moreover have "waiting_list ?s6 = waiting_list s" "links_of ?s6 PCB_item = links_of s PCB_item"
      using pl put_list_lists(2) [of WaitingList "links_of ?s4 (kind_of WaitingList)" "head_of ?s4 WaitingList" ?s4 WaitingList]
        put_list_lists(1) [of WaitingList "links_of ?s4 (kind_of WaitingList)" "head_of ?s4 WaitingList" ?s4 PCB_item]
      by (simp_all add: set_retvalue_def upd_pcb_def)
    moreover have "semdescriptor ?s6 = semdescriptor s" "sp_descriptor (semdescriptorptr ?s6 w) = d"
        "running ?s6 = running s" "pcb_syscall_retvalue (pcb ?s6 (running s)) = 0"
        "pcb_status (pcb ?s6 (running s)) = Waiting" "live ?s6 PCB_item = live s PCB_item"
        "sem_count (semaphore ?s6 k) = (if k = m then sem_count (semaphore s k) - 1 else sem_count (semaphore s k))" for k
      using block(3) by (simp_all add: set_retvalue_def set_status_def upd_pcb_def upd_semaphore_def)
    ultimately show ?thesis by blast
  qed
qed

text \<open>The post that wakes a process which is the last of the ready list and not in the waiting list.\<close>

lemma detach_stranger:
  assumes "dlist m h' (ps @ [r])" and "ps \<noteq> []" and "dlist m h ws" and "r \<notin> set ws"
  shows "\<exists>m'. List_detach m h r = Inr (r, m', h\<lparr>lh_size := lh_size h - 1\<rparr>) \<and>
    m' r = \<lparr>li_prev = NULL, li_next = NULL\<rparr>"
proof -
  have r: "r \<noteq> NULL" "li_next (m r) = NULL" using assms(1) by (auto simp: dlist_def dseg_append)
  have "lh_first h \<noteq> r" "lh_last h \<noteq> r"
    using assms(3,4) r(1) last_of_mem [of NULL ws] by (cases ws; auto simp: dlist_def)+
  with r show ?thesis
    by (simp add: List_detach_def Let_def set_prev_def set_next_def)
qed

lemma insert_behind_itself:
  assumes "m r = \<lparr>li_prev = NULL, li_next = NULL\<rparr>" and "r \<noteq> NULL"
  shows "\<exists>m'. List_insert m h r r = Inr (r, m', h\<lparr>lh_last := r, lh_size := lh_size h + 1\<rparr>) \<and>
    m' r = \<lparr>li_prev = r, li_next = r\<rparr>"
  using assms by (simp add: List_insert_def Let_def set_prev_def set_next_def)

lemma semPost_corrupts:
  assumes c: "core_ok s L" and r: "running s \<in> live s PCB_item"
    and d: "sem_of_fd s L (ucast (run_arg s 0)) = d" "d \<noteq> NULL"
    and m: "sd_semaphore (semdescriptor s d) = m" "m \<noteq> NULL" and n: "sint (sem_count (semaphore s m)) = - 1"
    and w: "L (SemWaiting m) = [w]" "sp_descriptor (semdescriptorptr s w) = d" "sd_pcb (semdescriptor s d) = running s"
    and l: "L ReadyList = ps @ [running s]" "ps \<noteq> []" "running s \<notin> set (L WaitingList)"
  shows "\<exists>s'. internal_semPost s = Inr s' \<and> running s' = running s \<and> pcb_syscall_retvalue (pcb s' (running s)) = 0 \<and>
    links_of s' PCB_item (running s) = \<lparr>li_prev = running s, li_next = running s\<rparr> \<and>
    lh_last (ready_list s') = running s \<and>
    waiting_list s' = (waiting_list s)\<lparr>lh_size := lh_size (waiting_list s) - 1\<rparr> \<and> (\<forall>L'. \<not> core_ok s' L')"
proof -
  let ?r = "running s"
  let ?s1 = "upd_semaphore m (\<lambda>c. c\<lparr>sem_count := sem_count c + 1\<rparr>) s"
  have c1: "core_ok ?s1 L" using c by simp
  have nn: "?r \<noteq> NULL" by (rule live_nonnull [OF c r])
  obtain a b where d2: "k_detach ?s1 (SemWaiting m) (k_first ?s1 (SemWaiting m)) = Inr (w, put_list (SemWaiting m) a b ?s1)"
      "core_ok (put_list (SemWaiting m) a b ?s1) (L(SemWaiting m := []))"
    by (rule core_popE [OF c1 w(1)]) (simp, simp, blast)
  let ?s2 = "put_list (SemWaiting m) a b ?s1"
  have wn: "w \<noteq> NULL" using core_nonnull [OF c, of w "SemWaiting m"] w(1) by simp
  have wl: "waiting_list ?s2 = waiting_list s" "ready_list ?s2 = ready_list s" "links_of ?s2 PCB_item = links_of s PCB_item"
    using put_list_lists(2) [of "SemWaiting m" a b ?s1 WaitingList] put_list_lists(2) [of "SemWaiting m" a b ?s1 ReadyList]
      put_list_lists(1) [of "SemWaiting m" a b ?s1 PCB_item]
    by (simp_all add: upd_semaphore_def)
  have dl: "dlist (links_of s PCB_item) (ready_list s) (ps @ [?r])" "dlist (links_of s PCB_item) (waiting_list s) (L WaitingList)"
    using core_klist [OF c, of ReadyList] core_klist [OF c, of WaitingList] l(1) by (simp_all add: klist_def)
  from detach_stranger [OF dl(1) l(2) dl(2) l(3)] obtain m3 where
    m3: "List_detach (links_of s PCB_item) (waiting_list s) ?r =
        Inr (?r, m3, (waiting_list s)\<lparr>lh_size := lh_size (waiting_list s) - 1\<rparr>)"
      "m3 ?r = \<lparr>li_prev = NULL, li_next = NULL\<rparr>" by blast
  let ?h3 = "(waiting_list s)\<lparr>lh_size := lh_size (waiting_list s) - 1\<rparr>"
  let ?s3 = "put_list WaitingList m3 ?h3 ?s2"
  have d3: "k_detach ?s2 WaitingList ?r = Inr (?r, ?s3)" using m3(1) wl by (simp add: k_detach_def)
  let ?s4 = "set_status ?r Ready ?s3"
  have l4: "waiting_list ?s4 = ?h3" "ready_list ?s4 = ready_list s" "links_of ?s4 PCB_item = m3"
    using put_list_lists(2) [of WaitingList m3 ?h3 ?s2 WaitingList] put_list_lists(2) [of WaitingList m3 ?h3 ?s2 ReadyList] wl
      put_list_lists(1) [of WaitingList m3 ?h3 ?s2 PCB_item]
    by (simp_all add: set_status_def upd_pcb_def)
  from insert_behind_itself [of m3, OF m3(2) nn, of "ready_list s"] obtain m5 where
    m5: "List_insert m3 (ready_list s) ?r ?r = Inr (?r, m5, (ready_list s)\<lparr>lh_last := ?r, lh_size := lh_size (ready_list s) + 1\<rparr>)"
      "m5 ?r = \<lparr>li_prev = ?r, li_next = ?r\<rparr>" by blast
  let ?h5 = "(ready_list s)\<lparr>lh_last := ?r, lh_size := lh_size (ready_list s) + 1\<rparr>"
  let ?s5 = "put_list ReadyList m5 ?h5 ?s4"
  have "lh_last (ready_list s) = ?r" using dl(1) by (simp add: dlist_def)
  then have d5: "k_append ?s4 ReadyList ?r = Inr (?r, ?s5)"
    using m5(1) l4 by (simp add: k_append_def k_insert_def)
  let ?s6 = "set_retvalue ?r 0 ?s5"
  have le: "sem_count (semaphore s m) + 1 \<le>s 0"
    using n sint_inc [of "sem_count (semaphore s m)"] by (simp add: word_sle_eq)
  have post: "internal_semPost s = Inr ?s6"
    using nn sem_lookup [OF c r] d m le wn w(2,3) d2(1) d3 d5
    by (simp add: internal_semPost_def Let_def del: put_list_lists)
      (simp add: upd_semaphore_def set_status_def upd_pcb_def)
  have l6: "waiting_list ?s6 = ?h3" "ready_list ?s6 = ?h5" "links_of ?s6 PCB_item = m5"
    using put_list_lists(2) [of ReadyList m5 ?h5 ?s4 WaitingList] put_list_lists(2) [of ReadyList m5 ?h5 ?s4 ReadyList] l4
      put_list_lists(1) [of ReadyList m5 ?h5 ?s4 PCB_item]
    by (simp_all add: set_retvalue_def upd_pcb_def)
  have "\<not> core_ok ?s6 L'" for L'
  proof
    assume "core_ok ?s6 L'"
    from core_klist [OF this, of ReadyList] have d6: "dlist m5 ?h5 (L' ReadyList)" using l6 by (simp add: klist_def)
    then have "?r \<in> set (L' ReadyList)" using last_of_mem [of NULL "L' ReadyList"] nn by (auto simp: dlist_def)
    from dlist_no_loop [OF d6 this] m5(2) show False by simp
  qed
  with post l6 m5(2) show ?thesis
    by (intro exI [of _ ?s6]) (simp del: put_list_lists, simp add: set_retvalue_def set_status_def upd_pcb_def upd_semaphore_def)
qed

end
