(* ===== verification/Readers_Writers_Run.thy ===== *)
theory Readers_Writers_Run
  imports Readers_Writers Kernel_Types Semaphore_Rounds
begin

text \<open>
  The readers and writers program from its start on zeroed memory, without a timer interrupt: init
  creates the semaphores and ten children and waits; the first writer runs. In its second round the
  lists of the kernel break.
\<close>

subsection \<open>Calls in a well-formed state\<close>

definition calm :: "kernel \<Rightarrow> (list_loc \<Rightarrow> ptr list) \<Rightarrow> bool" where
  "calm s L \<longleftrightarrow> kernel_inv s L \<and> idle s L PCB_item (running s)"

lemma calmD:
  assumes "calm s L"
  shows "kernel_inv s L" "idle s L PCB_item (running s)" "core_ok s L" "family_ok s L" "timers_ok s L" "sem_ok s L"
    "running s \<in> live s PCB_item" "running s \<noteq> NULL" "booted s" "sems_free s L"
proof -
  show c: "kernel_inv s L" "idle s L PCB_item (running s)" using assms by (simp_all add: calm_def)
  note i = kernel_invD [OF c(1)]
  show "core_ok s L" "family_ok s L" "timers_ok s L" "sem_ok s L" "booted s" "sems_free s L"
    using i by simp_all
  show r: "running s \<in> live s PCB_item" using idleD(1) [OF c(2)] .
  show "running s \<noteq> NULL" using live_nonnull [OF i(1) r] .
qed

lemma calm_entered:
  assumes "calm s L"
  shows "calm (entered n args s) L"
  using entered_inv [OF calmD(1,2) [OF assms], of n args] by (simp add: calm_def)

lemma entered_fields:
  "semdescriptor (entered n args s) = semdescriptor s" "semdescriptorptr (entered n args s) = semdescriptorptr s"
  "semaphore (entered n args s) = semaphore s" "pool_of (entered n args s) k = pool_of s k"
  "running (entered n args s) = running s" "last_pid (entered n args s) = last_pid s"
  "pcbptr (entered n args s) = pcbptr s" "pool_shapes (entered n args s) = pool_shapes s"
  "p \<noteq> running s \<Longrightarrow> pcb (entered n args s) p = pcb s p"
  "pcb_cpu_state (pcb (entered n args s) (running s)) = SavedContext"
  "pcb_last_sem_fd (pcb (entered n args s) p) = pcb_last_sem_fd (pcb s p)"
  "pcb_pid (pcb (entered n args s) p) = pcb_pid (pcb s p)"
  "pcb_status (pcb (entered n args s) p) = pcb_status (pcb s p)"
  "i < length args \<Longrightarrow> pcb_syscall_args (pcb (entered n args s) (running s)) i = args ! i"
  by (cases k; simp add: entered_def upd_pcb_def pool_shapes_def)+

text \<open>
  A call whose handler resumes a process reaches it, and the lists that the handler is known to leave
  are those of the invariant.
\<close>

lemma call_resumes:
  assumes c: "calm s L" and h: "call_entry cl = (n, h, args)" "call_handler h (entered n args s) = Inr s'"
    and L': "core_ok s' L'" "running s' \<noteq> NULL" and g: "safe_call h (entered n args s)" "h \<noteq> internal_shutdown_h"
  shows "do_call cl s = Inr (Trapped (ResumeProcess (running s')), s')" and "calm s' L'"
proof -
  show "do_call cl s = Inr (Trapped (ResumeProcess (running s')), s')"
    using do_call_enters [OF calmD(9,8) [OF c] h(1)] h(2) L'(2) g(2) by (simp add: after_handler_def)
  have "h = internal_sleep_h \<Longrightarrow> n = DSOS_CALL_SLEEP" using h(1) by (cases cl) auto
  then have "sys_ok s'"
    using handler_inv [OF calmD(1,2) [OF calm_entered [OF c]] h(2) _ g(1)] by (simp add: entered_simps)
  then obtain L'' where L'': "kernel_inv s' L''" "idle s' L'' PCB_item (running s')"
    using L'(2) by (auto elim: sys_okE)
  with core_unique [OF L'(1) kernel_invD(1) [OF L''(1)]] show "calm s' L'" by (simp add: calm_def)
qed

subsection \<open>Uninterrupted runs\<close>

text \<open>The steps of the processes alone, without a timer interrupt; they leave init in its place.\<close>

abbreviation reaches :: "test_env \<Rightarrow> test_state \<Rightarrow> test_state \<Rightarrow> bool" where
  "reaches env \<equiv> (process_step env)\<^sup>*\<^sup>*"

lemma handler_init:
  assumes "call_handler h s = Inr s'"
  shows "init_pcb s' = init_pcb s"
proof (cases "h = internal_shutdown_h")
  case True
  with assms show ?thesis by (auto simp: internal_shutdown_def set_retvalue_def upd_pcb_def)
next
  case False
  from handler_keeps [OF assms this] show ?thesis by (simp add: keeps_def)
qed

lemma upd_pcb_init: "init_pcb (upd_pcb p f s) = init_pcb s" "init_pcb (set_retvalue p v s) = init_pcb s"
  by (simp_all add: upd_pcb_def set_retvalue_def)

lemma trap_init: "disastrOS_trap s = Inr (r, s') \<Longrightarrow> init_pcb s' = init_pcb s"
  by (auto simp: disastrOS_trap_def Let_def check_Inr_iff bindE_Inr_iff upd_pcb_init
    dest: handler_init handler_init [of internal_shutdown_h, simplified] split: if_splits option.splits)

lemma do_call_init:
  assumes "do_call c s = Inr (r, s')"
  shows "init_pcb s' = init_pcb s"
proof -
  have "disastrOS_syscall s n args = Inr (r, s') \<Longrightarrow> init_pcb s' = init_pcb s" for n args
    by (auto simp: disastrOS_syscall_def check_Inr_iff bindE_Inr_iff upd_pcb_init dest!: trap_init split: if_splits)
  with assms show ?thesis by (cases c) (simp_all add: call_defs)
qed

lemma process_run_init: "reaches env x y \<Longrightarrow> init_pcb (fst (snd y)) = init_pcb (fst (snd x))"
  by (induction rule: rtranclp_induct) (auto elim!: process_step.cases dest: do_call_init)

lemma reach_one: "process_step env x y \<Longrightarrow> reaches env y z \<Longrightarrow> reaches env x z"
  by (rule converse_rtranclp_into_rtranclp)

lemma reach_load:
  "r = running s \<Longrightarrow> f sh = Inr v \<Longrightarrow> reaches env (InProcess, s, sh, P(r := k v)) z \<Longrightarrow>
   reaches env (InProcess, s, sh, P(r := Load f k)) z"
  using process_step.load [of "P(r := Load f k)" s f k sh v env] by (auto intro: reach_one)

lemma reach_store:
  "r = running s \<Longrightarrow> f sh = Inr sh' \<Longrightarrow> reaches env (InProcess, s, sh', P(r := p)) z \<Longrightarrow>
   reaches env (InProcess, s, sh, P(r := Store f p)) z"
  using process_step.store [of "P(r := Store f p)" s f p sh sh' env] by (auto intro: reach_one)

lemma reach_status:
  "r = running s \<Longrightarrow> disastrOS_printStatus s = Inr out \<Longrightarrow> reaches env (InProcess, s, sh, P(r := p)) z \<Longrightarrow>
   reaches env (InProcess, s, sh, P(r := PrintStatus p)) z"
  using process_step.status [of "P(r := PrintStatus p)" s p out env sh] by (auto intro: reach_one)

lemma reach_call:
  assumes "r = running s" and "do_call c s = Inr (Trapped (ResumeProcess (running s')), s')" and "running s' = r"
    and "pcb_cpu_state (pcb s' r) = SavedContext"
    and "reaches env (InProcess, s', sh, P(r := k (pcb_syscall_retvalue (pcb s' r)))) z"
  shows "reaches env (InProcess, s, sh, P(r := Sys c k)) z"
proof -
  have "process_step env (InProcess, s, sh, P(r := Sys c k)) (InProcess, s', sh, P(r := Result k))"
    using process_step.call [of "P(r := Sys c k)" s c k "ResumeProcess (running s')" s' env "P(r := Result k)" sh]
      assms(1-4) by simp
  moreover have "process_step env (InProcess, s', sh, P(r := Result k))
      (InProcess, s', sh, P(r := k (pcb_syscall_retvalue (pcb s' r))))"
    using process_step.result [of "P(r := Result k)" s' k env sh] assms(3) by simp
  ultimately show ?thesis using assms(5) by (blast intro: reach_one)
qed

lemma no_error [simp]: "0 \<le> sint v \<Longrightarrow> error_handler v p = p"
  by (simp add: error_handler_def word_sless_alt)

subsection \<open>Room in the pools\<close>

definition room :: "kernel \<Rightarrow> item_kind \<Rightarrow> nat \<Rightarrow> bool" where
  "room s k n \<longleftrightarrow> card (blocks s k) = 1024 \<and> finite (live s k) \<and> card (live s k) \<le> n"

lemma room_spare: "room s k n \<Longrightarrow> n < 1024 \<Longrightarrow> spare s k \<noteq> {}"
  by (auto simp: room_def)

lemma room_insert:
  assumes "room s k n" and "live s' k = insert x (live s k)" and "pool_shapes s' = pool_shapes s"
  shows "room s' k (Suc n)"
  using assms(1) shape_blocks [OF pool_shapes_of [OF assms(3)], of k] card_insert_le_m1 [of "Suc n" "live s k" x]
  unfolding room_def assms(2) by simp

lemma room_same: "room s k n \<Longrightarrow> pool_of s' k = pool_of s k \<Longrightarrow> room s' k n"
  by (simp only: room_def)

lemma room_mono: "room s k n \<Longrightarrow> n \<le> m \<Longrightarrow> room s k m"
  by (auto simp: room_def)

subsection \<open>Steps of init\<close>

text \<open>What an opened semaphore changes; \<open>s\<close> is the state before, \<open>m\<close> the semaphore.\<close>

definition opened_step :: "kernel \<Rightarrow> kernel \<Rightarrow> ptr \<Rightarrow> ptr \<Rightarrow> ptr \<Rightarrow> bool" where
  "opened_step s s' m d w \<longleftrightarrow>
     running s' = running s \<and> pcb_cpu_state (pcb s' (running s)) = SavedContext \<and>
     pcb_syscall_retvalue (pcb s' (running s)) = pcb_last_sem_fd (pcb s (running s)) \<and>
     pcb_last_sem_fd (pcb s' (running s)) = pcb_last_sem_fd (pcb s (running s)) + 1 \<and>
     last_pid s' = last_pid s \<and> pool_shapes s' = pool_shapes s \<and>
     pool_of s' PCB_item = pool_of s PCB_item \<and> pool_of s' PCBPtr_item = pool_of s PCBPtr_item \<and>
     live s' SemDescriptor_item = insert d (live s SemDescriptor_item) \<and>
     live s' SemDescriptorPtr_item = insert w (live s SemDescriptorPtr_item) \<and>
     semdescriptor s' = (semdescriptor s)(d := \<lparr>sd_pcb = running s, sd_semaphore = m,
       sd_fd = pcb_last_sem_fd (pcb s (running s)), sd_ptr = w\<rparr>) \<and>
     semdescriptorptr s' = (semdescriptorptr s)(w := \<lparr>sp_descriptor = d\<rparr>) \<and>
     d \<notin> live s SemDescriptor_item \<and> w \<notin> live s SemDescriptorPtr_item \<and>
     (\<forall>p. p \<noteq> running s \<longrightarrow> pcb_cpu_state (pcb s' p) = pcb_cpu_state (pcb s p))"

lemma spare_not_live: "core_ok s L \<Longrightarrow> x \<in> spare s k \<Longrightarrow> x \<notin> live s k"
  using pool.apart [OF core_pool [of s L k]] by blast

lemma opened_stepI:
  assumes o: "has_opened s1 L1 s' m d w" and k: "keeps (- {SemPart, SemCellPart, SemBlockPart}) s' (entered n args s)"
    and cs: "running s1 = running s" "pcb s1 = pcb (entered n args s)" "semdescriptor s1 = semdescriptor s"
      "semdescriptorptr s1 = semdescriptorptr s" "core_ok s1 L1" "\<And>k. k \<noteq> Semaphore_item \<Longrightarrow> pool_of s1 k = pool_of s k"
    and r: "running s' = running s"
  shows "opened_step s s' m d w"
proof -
  have "d \<in> spare s1 SemDescriptor_item" "w \<in> spare s1 SemDescriptorPtr_item"
    using o unfolding has_opened_def by blast+
  from spare_not_live [OF cs(5) this(1)] spare_not_live [OF cs(5) this(2)]
  have d: "d \<notin> live s SemDescriptor_item" "w \<notin> live s SemDescriptorPtr_item" using cs(6) by (simp_all del: pool_of.simps)
  have kf: "pool_shapes s' = pool_shapes (entered n args s)" "last_pid s' = last_pid (entered n args s)"
      "pool_of s' PCB_item = pool_of (entered n args s) PCB_item" "pool_of s' PCBPtr_item = pool_of (entered n args s) PCBPtr_item"
      "pcb_cpu_state (pcb s' p) = pcb_cpu_state (pcb (entered n args s) p)" for p
    using k unfolding keeps_def by simp_all
  have "pcb_syscall_retvalue (pcb s' (running s1)) = pcb_last_sem_fd (pcb s1 (running s1))"
      "pcb_last_sem_fd (pcb s' (running s1)) = pcb_last_sem_fd (pcb s1 (running s1)) + 1"
      "semdescriptor s' = (semdescriptor s1)(d := \<lparr>sd_pcb = running s1, sd_semaphore = m,
        sd_fd = pcb_last_sem_fd (pcb s1 (running s1)), sd_ptr = w\<rparr>)"
      "semdescriptorptr s' = (semdescriptorptr s1)(w := \<lparr>sp_descriptor = d\<rparr>)"
      "live s' SemDescriptor_item = insert d (live s1 SemDescriptor_item)"
      "live s' SemDescriptorPtr_item = insert w (live s1 SemDescriptorPtr_item)"
    using o unfolding has_opened_def by blast+
  then show ?thesis
    using d r cs(6) unfolding opened_step_def kf cs(1-4) entered_fields
    by (simp add: entered_fields del: pool_of.simps)
qed

lemma create_step:
  assumes c: "calm s L" and n: "sem_named s L sid = NULL" "0 \<le> sint cnt"
    and room: "room s Semaphore_item a" "room s SemDescriptor_item b" "room s SemDescriptorPtr_item b" "a < 1024" "b < 1024"
  shows "\<exists>s' m d w. do_call (OpenSemaphore sid (DSOS_CREATE OR DSOS_EXCL) cnt) s =
      Inr (Trapped (ResumeProcess (running s')), s') \<and> calm s' (sem_opened s (sem_listed L m) m d w) \<and>
    opened_step s s' m d w \<and> m \<notin> live s Semaphore_item \<and>
    live s' Semaphore_item = insert m (live s Semaphore_item) \<and>
    (\<forall>k. sem_id (semaphore s' k) = (if k = m then sid else sem_id (semaphore s k)) \<and>
      sem_count (semaphore s' k) = (if k = m then cnt else sem_count (semaphore s k)))"
proof -
  let ?cl = "OpenSemaphore sid (DSOS_CREATE OR DSOS_EXCL) cnt"
  let ?e = "entered DSOS_CALL_SEMOPEN [scast sid, scast (DSOS_CREATE OR DSOS_EXCL), scast cnt] s"
  have e: "calm ?e L" by (rule calm_entered [OF c])
  have args: "ucast (run_arg ?e 0) = sid" "(ucast (run_arg ?e 1) :: cint) = DSOS_CREATE OR DSOS_EXCL" "ucast (run_arg ?e 2) = cnt"
    by (simp_all add: entered_fields ucast_scast)
  have cr: "(ucast (run_arg ?e 1) :: cint) AND DSOS_CREATE \<noteq> 0" unfolding args(2) by (simp add: mode_bits)
  have nm: "sem_named ?e L (ucast (run_arg ?e 0)) = NULL" unfolding args(1) unfolding entered_fields using n(1) .
  have sp: "spare ?e Semaphore_item \<noteq> {}" using room_spare [OF room(1,4)] unfolding entered_fields .
  from semOpen_create_cases [OF calmD(3,6,7) [OF e] cr] nm sp obtain m s1 where
    m: "sem_created ?e L sid cnt m s1" "sem_opens ?e s1 (sem_listed L m) m"
    unfolding args by (auto simp del: pool_of.simps)
  have p1: "pool_of s1 k = pool_of s k" if "k \<noteq> Semaphore_item" for k
    using m(1) that unfolding sem_created_def entered_fields by blast
  have sp1: "spare s1 SemDescriptor_item \<noteq> {}" "spare s1 SemDescriptorPtr_item \<noteq> {}"
    using room_spare [OF room(2,5)] room_spare [OF room(3,5)] p1 by (simp_all del: pool_of.simps)
  from m(2) sp1 obtain s' d w where
    o: "internal_semOpen ?e = Inr s'" "has_opened s1 (sem_listed L m) s' m d w"
    unfolding sem_opens_def by (auto simp del: pool_of.simps)
  have cs: "running s1 = running s" "pcb s1 = pcb ?e" "semdescriptor s1 = semdescriptor s" "semdescriptorptr s1 = semdescriptorptr s"
      "m \<notin> live s Semaphore_item" "live s1 Semaphore_item = insert m (live s Semaphore_item)" "core_ok s1 (sem_listed L m)"
      "sem_id (semaphore s1 k) = (if k = m then sid else sem_id (semaphore s k))"
      "sem_count (semaphore s1 k) = (if k = m then cnt else sem_count (semaphore s k))" for k
    using m(1) unfolding sem_created_def entered_fields by blast+
  have h: "core_ok s' (sem_opened s (sem_listed L m) m d w)" "running s' = running s"
    using o(2) cs(1) unfolding has_opened_def sem_opened_def by simp_all
  have k: "keeps (- {SemPart, SemCellPart, SemBlockPart}) s' ?e" using handler_keeps [of internal_semOpen_h ?e s'] o(1) by simp
  have call: "do_call ?cl s = Inr (Trapped (ResumeProcess (running s')), s')" "calm s' (sem_opened s (sem_listed L m) m d w)"
  proof -
    have ent: "call_entry ?cl = (DSOS_CALL_SEMOPEN, internal_semOpen_h, [scast sid, scast (DSOS_CREATE OR DSOS_EXCL), scast cnt])"
      by simp
    have g: "safe_call internal_semOpen_h ?e" unfolding safe_call.simps args using n(2) by (simp add: word_sle_eq)
    have i: "call_handler internal_semOpen_h ?e = Inr s'" "running s' \<noteq> NULL" using o(1) h(2) calmD(8) [OF c] by simp_all
    show "do_call ?cl s = Inr (Trapped (ResumeProcess (running s')), s')" "calm s' (sem_opened s (sem_listed L m) m d w)"
      using call_resumes [OF c ent i(1) h(1) i(2) g] by simp_all
  qed
  have "opened_step s s' m d w"
    by (rule opened_stepI [OF o(2) k cs(1-4,7) p1 h(2)])
  moreover have "live s' Semaphore_item = insert m (live s Semaphore_item)"
      "sem_id (semaphore s' k) = sem_id (semaphore s1 k)" "sem_count (semaphore s' k) = sem_count (semaphore s1 k)" for k
    using o(2) cs(6) unfolding has_opened_def by blast+
  ultimately show ?thesis using call cs(5,8,9) by (intro exI [of _ s'] exI [of _ m] exI [of _ d] exI [of _ w]) simp
qed

text \<open>The state after \<open>n\<close> spawns, seen from the state before.\<close>

definition spawned :: "nat \<Rightarrow> kernel \<Rightarrow> (list_loc \<Rightarrow> ptr list) \<Rightarrow> kernel \<Rightarrow> (list_loc \<Rightarrow> ptr list) \<Rightarrow> bool" where
  "spawned n s L s' L' \<longleftrightarrow>
     calm s' L' \<and> running s' = running s \<and> last_pid s' = last_pid s + of_nat n \<and> pool_shapes s' = pool_shapes s \<and>
     (\<forall>l. l \<noteq> ReadyList \<longrightarrow> l \<noteq> Children (running s) \<longrightarrow> L' l = L l) \<and>
     (\<exists>cs. length cs = n \<and> L' ReadyList = L ReadyList @ cs) \<and>
     length (L' (Children (running s))) = length (L (Children (running s))) + n \<and>
     live s PCB_item \<subseteq> live s' PCB_item \<and> (\<forall>p\<in>live s PCB_item. p \<noteq> running s \<longrightarrow> pcb s' p = pcb s p) \<and>
     (\<forall>a. room s PCB_item a \<longrightarrow> room s' PCB_item (a + n)) \<and> (\<forall>a. room s PCBPtr_item a \<longrightarrow> room s' PCBPtr_item (a + n)) \<and>
     (\<forall>k. k \<noteq> PCB_item \<longrightarrow> k \<noteq> PCBPtr_item \<longrightarrow> pool_of s' k = pool_of s k) \<and>
     semdescriptor s' = semdescriptor s \<and> semdescriptorptr s' = semdescriptorptr s \<and>
     (\<forall>m. sem_id (semaphore s' m) = sem_id (semaphore s m) \<and> sem_count (semaphore s' m) = sem_count (semaphore s m))"

lemma spawned_refl: "calm s L \<Longrightarrow> spawned 0 s L s L"
  by (simp add: spawned_def)

lemma spawned_trans:
  assumes "spawned n s L s1 L1" and "spawned m s1 L1 s2 L2"
  shows "spawned (n + m) s L s2 L2"
proof -
  have "last_pid s2 = last_pid s + of_nat (n + m)"
    using assms by (simp add: spawned_def algebra_simps)
  moreover have "\<exists>cs. length cs = n + m \<and> L2 ReadyList = L ReadyList @ cs"
    using assms unfolding spawned_def by (metis append_assoc length_append)
  moreover have "\<forall>a. room s PCB_item a \<longrightarrow> room s2 PCB_item (a + (n + m))"
      "\<forall>a. room s PCBPtr_item a \<longrightarrow> room s2 PCBPtr_item (a + (n + m))"
    using assms unfolding spawned_def by (metis add.assoc)+
  moreover have "live s PCB_item \<subseteq> live s2 PCB_item" "\<forall>p\<in>live s PCB_item. p \<noteq> running s \<longrightarrow> pcb s2 p = pcb s p"
    using assms unfolding spawned_def by (fastforce simp del: pool_of.simps)+
  ultimately show ?thesis using assms unfolding spawned_def by (simp del: pool_of.simps of_nat_add)
qed

lemma child_madeD:
  assumes "child_made s L s' p q"
  shows "p \<notin> live s PCB_item"
    "core_ok s' (L(Children (running s) := L (Children (running s)) @ [q], ReadyList := L ReadyList @ [p]))"
    "live s' PCB_item = insert p (live s PCB_item)" "live s' PCBPtr_item = insert q (live s PCBPtr_item)"
    "running s' = running s" "last_pid s' = last_pid s + 1"
    "pcb_cpu_state (pcb s' (running s)) = pcb_cpu_state (pcb s (running s))" "pcb_last_sem_fd (pcb s' p) = 0"
    "\<forall>k. k \<noteq> PCB_item \<and> k \<noteq> PCBPtr_item \<longrightarrow> pool_of s' k = pool_of s k"
    "pcb_pid (pcb s' p) = last_pid s" "\<forall>y. y \<noteq> p \<and> y \<noteq> running s \<longrightarrow> pcb s' y = pcb s y"
  by (insert assms, unfold child_made_def, (elim conjE, assumption)+)

lemma spawn_step:
  assumes c: "calm s L" and room: "room s PCB_item a" "room s PCBPtr_item a" "a < 1024" and n: "last_pid s \<noteq> 0x7FFFFFFF"
  shows "\<exists>s' L' c. do_call (Spawn f x) s = Inr (Trapped (ResumeProcess (running s')), s') \<and> spawned 1 s L s' L' \<and>
    L' ReadyList = L ReadyList @ [c] \<and> pcb_cpu_state (pcb s' c) = EntryContext f x \<and> c \<in> live s' PCB_item \<and>
    c \<notin> live s PCB_item \<and> pcb_last_sem_fd (pcb s' c) = 0 \<and> pcb_pid (pcb s' c) = last_pid s \<and>
    pcb_cpu_state (pcb s' (running s)) = SavedContext"
proof -
  let ?e = "entered DSOS_CALL_SPAWN [f, x] s"
  have e: "calm ?e L" by (rule calm_entered [OF c])
  have sp: "spare ?e PCB_item \<noteq> {}" "spare ?e PCBPtr_item \<noteq> {}"
    using room_spare [OF room(1,3)] room_spare [OF room(2,3)] unfolding entered_fields .
  from spawn_child [OF calmD(3,7) [OF e] sp] obtain s' p q where
    h: "internal_spawn ?e = Inr s'" "child_made ?e L s' p q" "pcb_cpu_state (pcb s' p) = EntryContext f x"
    by (auto simp: entered_fields)
  let ?r = "running s"
  let ?L = "L(Children ?r := L (Children ?r) @ [q], ReadyList := L ReadyList @ [p])"
  note m = child_madeD [OF h(2), unfolded entered_fields]
  have k: "keeps (- {IdPart, ProcPart, SchedPart, ContextPart}) s' ?e" using handler_keeps [of internal_spawn_h ?e s'] h(1) by simp
  have kf: "pool_shapes s' = pool_shapes ?e" "semdescriptor s' = semdescriptor ?e" "semdescriptorptr s' = semdescriptorptr ?e"
      "sem_id (semaphore s' y) = sem_id (semaphore ?e y)" "sem_count (semaphore s' y) = sem_count (semaphore ?e y)" for y
    using k unfolding keeps_def by simp_all
  have i: "call_handler internal_spawn_h ?e = Inr s'" "running s' \<noteq> NULL" using h(1) m(5) calmD(8) [OF c] by simp_all
  have ent: "call_entry (Spawn f x) = (DSOS_CALL_SPAWN, internal_spawn_h, [f, x])" by simp
  have g: "safe_call internal_spawn_h ?e" using n by (simp add: entered_fields)
  note call = call_resumes [OF c ent i(1) m(2) i(2) g]
  have "room s' PCB_item (y + 1)" if "room s PCB_item y" for y
    using room_insert [OF that m(3)] kf(1) unfolding entered_fields by simp
  moreover have "room s' PCBPtr_item (y + 1)" if "room s PCBPtr_item y" for y
    using room_insert [OF that m(4)] kf(1) unfolding entered_fields by simp
  moreover have "pcb s' y = pcb s y" if "y \<in> live s PCB_item" "y \<noteq> ?r" for y
    using m(1,11) that entered_fields(9) by metis
  ultimately have "spawned 1 s L s' ?L"
    using call(2) m(5,6,9) m(3) kf unfolding spawned_def entered_fields by (simp del: pool_of.simps) blast
  with call(1) m(1,3,7,8,10) h(3) show ?thesis
    unfolding entered_fields by (intro exI [of _ s'] exI [of _ ?L] exI [of _ p]) (simp del: pool_of.simps)
qed

text \<open>A spawn with the two stores before it, in a loop of init.\<close>

definition put_arg :: "clong \<Rightarrow> cint \<Rightarrow> cint \<Rightarrow> shared \<Rightarrow> shared" where
  "put_arg a kind i sh = sh\<lparr>child_args := (child_args sh)(a := \<lparr>ca_sem_id = kind, ca_number = i\<rparr>)\<rparr>"

lemma spawn_round:
  assumes c: "calm s L" and room: "room s PCB_item a" "room s PCBPtr_item a" "a < 1024" and n: "last_pid s \<noteq> 0x7FFFFFFF"
    and i: "i <s num"
  shows "\<exists>s' L' c. spawned 1 s L s' L' \<and> L' ReadyList = L ReadyList @ [c] \<and>
    pcb_cpu_state (pcb s' c) = EntryContext (te_child env) (arg_addr base i) \<and> c \<in> live s' PCB_item \<and>
    c \<notin> live s PCB_item \<and> pcb_last_sem_fd (pcb s' c) = 0 \<and> pcb_pid (pcb s' c) = last_pid s \<and>
    (\<forall>sh P z. reaches env (InProcess, s', put_arg (arg_addr base i) kind i sh,
        P(running s := spawn_loop env base kind num (i + 1) (alive + 1) k)) z \<longrightarrow>
      reaches env (InProcess, s, sh, P(running s := spawn_loop env base kind num i alive k)) z)"
proof -
  let ?x = "arg_addr base i"
  from spawn_step [OF c room n, of "te_child env" ?x] obtain s' L' c' where
    st: "do_call (Spawn (te_child env) ?x) s = Inr (Trapped (ResumeProcess (running s')), s')" "spawned 1 s L s' L'"
      "pcb_cpu_state (pcb s' (running s)) = SavedContext" and
    info: "L' ReadyList = L ReadyList @ [c']" "pcb_cpu_state (pcb s' c') = EntryContext (te_child env) ?x"
      "c' \<in> live s' PCB_item" "c' \<notin> live s PCB_item" "pcb_last_sem_fd (pcb s' c') = 0" "pcb_pid (pcb s' c') = last_pid s" by blast
  have r: "running s' = running s" using st(2) by (simp add: spawned_def)
  have "reaches env (InProcess, s, sh, P(running s := spawn_loop env base kind num i alive k)) z"
    if "reaches env (InProcess, s', put_arg ?x kind i sh,
      P(running s := spawn_loop env base kind num (i + 1) (alive + 1) k)) z" for sh P z
  proof -
    have "reaches env (InProcess, s, put_arg ?x kind i sh, P(running s := Sys (Spawn (te_child env) ?x)
        (\<lambda>_. spawn_loop env base kind num (i + 1) (alive + 1) k))) z"
      using that by (intro reach_call [OF refl st(1) r st(3)])
    then have "reaches env (InProcess, s, sh\<lparr>child_args := (child_args sh)(?x := (child_args sh ?x)\<lparr>ca_sem_id := kind\<rparr>)\<rparr>,
        P(running s := Store (set_arg ?x (\<lambda>a. a\<lparr>ca_number := i\<rparr>)) (Sys (Spawn (te_child env) ?x)
        (\<lambda>_. spawn_loop env base kind num (i + 1) (alive + 1) k)))) z"
      by (rule reach_store [OF refl, rotated]) (cases "child_args sh ?x", simp add: set_arg_def put_arg_def)
    then show ?thesis
      by (subst spawn_loop.simps) (simp add: i, rule reach_store [OF refl, rotated], assumption, simp add: set_arg_def)
  qed
  with st(2) info show ?thesis by blast
qed

lemma arg_store_fields [simp]:
  "transactions (put_arg x kind i sh) = transactions sh" "write_index (put_arg x kind i sh) = write_index sh"
  "write_sem (put_arg x kind i sh) = write_sem sh" "mutex_sem (put_arg x kind i sh) = mutex_sem sh"
  "child_args (put_arg x kind i sh) = (child_args sh)(x := \<lparr>ca_sem_id = kind, ca_number = i\<rparr>)"
  by (simp_all add: put_arg_def)

lemma sint_inj: "sint i = sint j \<Longrightarrow> i = j" for i j :: cint
proof -
  assume "sint i = sint j"
  then have "word_of_int (sint i) = (word_of_int (sint j) :: cint)" by (rule arg_cong)
  then show ?thesis by simp
qed

lemma spawn_loop_runs:
  assumes "calm s L" and "room s PCB_item a" and "room s PCBPtr_item a" and "a + nat (sint num - sint i) \<le> 1024"
    and "0 \<le> sint (last_pid s)" and "sint (last_pid s) + (sint num - sint i) < 2 ^ 31" and "sint i \<le> sint num"
  shows "\<exists>s' L' args. spawned (nat (sint num - sint i)) s L s' L' \<and>
    (\<forall>x. (\<forall>j. sint i \<le> sint j \<and> sint j < sint num \<longrightarrow> x \<noteq> arg_addr base j) \<longrightarrow> args x = child_args sh x) \<and>
    (\<forall>P z. reaches env (InProcess, s', sh\<lparr>child_args := args\<rparr>, P(running s := k (alive + (num - i)))) z \<longrightarrow>
      reaches env (InProcess, s, sh, P(running s := spawn_loop env base kind num i alive k)) z)"
  using assms
proof (induction "nat (sint num - sint i)" arbitrary: s L a i alive sh)
  case 0
  then have "i = num" by (intro sint_inj) simp
  moreover have "spawn_loop env base kind num num alive k = k alive" for alive
    by (subst spawn_loop.simps) (simp add: word_sless_alt)
  ultimately show ?case using spawned_refl [OF 0(2)] by (intro exI [of _ s] exI [of _ L] exI [of _ "child_args sh"]) simp
next
  case (Suc n)
  then have i: "i <s num" "sint (i + 1) = sint i + 1" using sint_inc_less [of i num] by (simp_all add: word_sless_alt)
  let ?x = "arg_addr base i" and ?sh = "put_arg (arg_addr base i) kind i sh"
  have p: "last_pid s \<noteq> 0x7FFFFFFF" using Suc(2,8) by auto
  from spawn_round [OF Suc(3,4,5) _ p i(1), of env base kind alive k] Suc(2,6) obtain s1 L1 where
    s1: "spawned 1 s L s1 L1" and unroll: "\<And>sh P z. reaches env (InProcess, s1, put_arg ?x kind i sh,
        P(running s := spawn_loop env base kind num (i + 1) (alive + 1) k)) z \<Longrightarrow>
      reaches env (InProcess, s, sh, P(running s := spawn_loop env base kind num i alive k)) z"
    by auto
  have c1: "calm s1 L1" "running s1 = running s" "last_pid s1 = last_pid s + 1" "room s1 PCB_item (a + 1)" "room s1 PCBPtr_item (a + 1)"
    using s1 Suc(4,5) by (simp_all add: spawned_def)
  have lp: "sint (last_pid s1) = sint (last_pid s) + 1" unfolding c1(3) using Suc(2,8) by (intro sint_inc) auto
  have m: "n = nat (sint num - sint (i + 1))" using Suc(2) i(2) by simp
  have "sint i < sint num" using i(1) by (simp add: word_sless_alt)
  then have pr: "a + 1 + nat (sint num - sint (i + 1)) \<le> 1024" "0 \<le> sint (last_pid s1)"
      "sint (last_pid s1) + (sint num - sint (i + 1)) < 2 ^ 31" "sint (i + 1) \<le> sint num"
    using Suc(6-8) unfolding i(2) lp by simp_all
  from Suc(1) [OF m c1(1,4,5) pr, of ?sh "alive + 1"] obtain s2 L2 args where
    s2: "spawned n s1 L1 s2 L2"
      "\<And>x. (\<forall>j. sint (i + 1) \<le> sint j \<and> sint j < sint num \<longrightarrow> x \<noteq> arg_addr base j) \<Longrightarrow> args x = child_args ?sh x"
      "\<And>P z. reaches env (InProcess, s2, ?sh\<lparr>child_args := args\<rparr>, P(running s1 := k (alive + 1 + (num - (i + 1))))) z \<Longrightarrow>
        reaches env (InProcess, s1, ?sh, P(running s1 := spawn_loop env base kind num (i + 1) (alive + 1) k)) z"
    unfolding m by blast
  have "spawned (Suc n) s L s2 L2" using spawned_trans [OF s1 s2(1)] by simp
  moreover have "args x = child_args sh x" if "\<forall>j. sint i \<le> sint j \<and> sint j < sint num \<longrightarrow> x \<noteq> arg_addr base j" for x
    using that i Suc(2) s2(2) [of x] by (simp add: word_sless_alt)
  moreover have "reaches env (InProcess, s, sh, P(running s := spawn_loop env base kind num i alive k)) z"
    if "reaches env (InProcess, s2, sh\<lparr>child_args := args\<rparr>, P(running s := k (alive + (num - i)))) z" for P z
    using that s2(3) [of P z] unroll [of sh P z] c1(2) by (simp add: put_arg_def algebra_simps)
  ultimately show ?case unfolding Suc(2) [symmetric] by (intro exI [of _ s2] exI [of _ L2] exI [of _ args]) blast
qed

subsection \<open>Steps of a child\<close>

lemma open_step:
  assumes c: "calm s L" and n: "sem_named s L sid = m" "m \<noteq> NULL"
    and room: "room s SemDescriptor_item b" "room s SemDescriptorPtr_item b" "b < 1024"
  shows "\<exists>s' d w. do_call (OpenSemaphore sid 0 cnt) s = Inr (Trapped (ResumeProcess (running s')), s') \<and>
    calm s' (sem_opened s L m d w) \<and> opened_step s s' m d w \<and>
    (\<forall>k. sem_id (semaphore s' k) = sem_id (semaphore s k) \<and> sem_count (semaphore s' k) = sem_count (semaphore s k))"
proof -
  let ?cl = "OpenSemaphore sid 0 cnt" and ?args = "[scast sid, scast (0 :: cint), scast cnt] :: clong list"
  let ?e = "entered DSOS_CALL_SEMOPEN ?args s"
  have e: "calm ?e L" by (rule calm_entered [OF c])
  have args: "ucast (run_arg ?e 0) = sid" "(ucast (run_arg ?e 1) :: cint) = 0"
    by (simp_all add: entered_fields ucast_scast)
  have cr: "(ucast (run_arg ?e 1) :: cint) AND DSOS_CREATE = 0" unfolding args(2) by simp
  have nm: "m = sem_named ?e L (ucast (run_arg ?e 0))" unfolding args(1) unfolding entered_fields using n(1) by simp
  have sp: "spare ?e SemDescriptor_item \<noteq> {}" "spare ?e SemDescriptorPtr_item \<noteq> {}"
    using room_spare [OF room(1,3)] room_spare [OF room(2,3)] unfolding entered_fields .
  from semOpen_existing_cases [OF calmD(3,6,7) [OF e] nm cr] n(2) args(2) have "sem_opens ?e ?e L m"
    by (simp split: if_splits)
  with sp obtain s' d w where o: "internal_semOpen ?e = Inr s'" "has_opened ?e L s' m d w"
    unfolding sem_opens_def by (auto simp del: pool_of.simps)
  have h: "core_ok s' (sem_opened s L m d w)" "running s' = running s"
    using o(2) unfolding has_opened_def sem_opened_def entered_fields by blast+
  have k: "keeps (- {SemPart, SemCellPart, SemBlockPart}) s' ?e" using handler_keeps [of internal_semOpen_h ?e s'] o(1) by simp
  have "opened_step s s' m d w"
    by (rule opened_stepI [OF o(2) k _ _ _ _ calmD(3) [OF e] _ h(2)]) (simp_all only: entered_fields)
  moreover have "sem_id (semaphore s' k) = sem_id (semaphore s k)" "sem_count (semaphore s' k) = sem_count (semaphore s k)" for k
    using o(2) unfolding has_opened_def entered_fields by blast+
  moreover have i: "call_handler internal_semOpen_h ?e = Inr s'" "running s' \<noteq> NULL" using o(1) h(2) calmD(8) [OF c] by simp_all
  have ent: "call_entry ?cl = (DSOS_CALL_SEMOPEN, internal_semOpen_h, ?args)" by simp
  have g: "safe_call internal_semOpen_h ?e" unfolding safe_call.simps args by simp
  note call_resumes [OF c ent i(1) h(1) i(2) g]
  ultimately show ?thesis by (intro exI [of _ s'] exI [of _ d] exI [of _ w]) simp
qed

text \<open>The wait of a parent without dead children.\<close>

lemma wait_step:
  assumes c: "calm s L" and ch: "L (Children (running s)) \<noteq> []" "L ZombieList = []" and n: "L ReadyList = p # ps"
  shows "\<exists>s'. do_call (Wait 0 a) s = Inr (Trapped (ResumeProcess p), s') \<and> calm s' (blocked s L) \<and> running s' = p \<and>
    (\<forall>k. pool_of s' k = pool_of s k) \<and> pool_shapes s' = pool_shapes s \<and> semdescriptor s' = semdescriptor s \<and>
    semdescriptorptr s' = semdescriptorptr s \<and>
    (\<forall>m. sem_id (semaphore s' m) = sem_id (semaphore s m) \<and> sem_count (semaphore s' m) = sem_count (semaphore s m)) \<and>
    (\<forall>q. q \<noteq> running s \<longrightarrow> pcb_cpu_state (pcb s' q) = pcb_cpu_state (pcb s q) \<and>
      pcb_last_sem_fd (pcb s' q) = pcb_last_sem_fd (pcb s q) \<and> pcb_pid (pcb s' q) = pcb_pid (pcb s q))"
proof -
  let ?e = "entered DSOS_CALL_WAIT [scast (0 :: cint), a] s"
  have e: "calm ?e L" by (rule calm_entered [OF c])
  let ?q = "wait_choice ?e (ucast (run_arg ?e 0)) (L (Children (running ?e)))"
  have ne: "L (Children (running ?e)) \<noteq> []" using ch(1) unfolding entered_fields .
  have "?q \<in> set (L (Children (running ?e)))" by (rule wait_choice_mem [OF ne])
  then have "pcb_status (pcb ?e (item_pcb ?e ?q)) \<noteq> Zombie"
    using calmD(4) [OF e] ch(2) by (auto simp: family_ok_def)
  then have b: "internal_wait ?e = block_in_wait ?e"
    using internal_wait_choice [OF calmD(3,4,7) [OF e] ne refl] by simp
  from block_next [OF calmD(3,4,2) [OF e] n] obtain s' where
    s': "block_in_wait ?e = Inr s'" "core_ok s' (blocked ?e L)" "running s' = p" "quiet (s'\<lparr>running := running ?e\<rparr>) ?e"
      "\<And>k. pool_of s' k = pool_of ?e k" by blast
  have bl: "blocked ?e L = blocked s L" by (simp add: blocked_def entered_fields)
  have k: "keeps (- {ProcPart, SchedPart}) s' ?e" using handler_keeps [of internal_wait_h ?e s'] b s'(1) by simp
  have kf: "pool_shapes s' = pool_shapes ?e" "semdescriptor s' = semdescriptor ?e" "semdescriptorptr s' = semdescriptorptr ?e"
      "sem_id (semaphore s' y) = sem_id (semaphore ?e y)" "sem_count (semaphore s' y) = sem_count (semaphore ?e y)"
      "pcb_cpu_state (pcb s' y) = pcb_cpu_state (pcb ?e y)" "pcb_pid (pcb s' y) = pcb_pid (pcb ?e y)" for y
    using k unfolding keeps_def by simp_all
  have "pcb_last_sem_fd (pcb (s'\<lparr>running := running ?e\<rparr>) q) = pcb_last_sem_fd (pcb ?e q)" for q
    using s'(4) unfolding quiet_def by blast
  then have fd: "pcb_last_sem_fd (pcb s' q) = pcb_last_sem_fd (pcb s q)" for q by (simp add: entered_fields)
  have i: "call_handler internal_wait_h ?e = Inr s'" "running s' \<noteq> NULL"
    using b s'(1,3) core_nonnull [OF calmD(3) [OF c], of p ReadyList] n by simp_all
  have ent: "call_entry (Wait 0 a) = (DSOS_CALL_WAIT, internal_wait_h, [scast (0 :: cint), a])" by simp
  have "safe_call internal_wait_h ?e" by simp
  from call_resumes [OF c ent i(1) s'(2) [unfolded bl] i(2) this]
  have "do_call (Wait 0 a) s = Inr (Trapped (ResumeProcess p), s')" "calm s' (blocked s L)" using s'(3) by simp_all
  with s'(3,5) kf fd show ?thesis
    by (intro exI [of _ s']) (simp add: entered_fields del: pool_of.simps)
qed

lemma reach_switch:
  assumes "r = running s" and "do_call c s = Inr (Trapped (ResumeProcess q), s')"
    and "pcb_cpu_state (pcb s' q) = EntryContext f a" and "entry env f a = Some p"
    and "reaches env (InProcess, s', sh, (P(r := Result k))(q := p)) z"
  shows "reaches env (InProcess, s, sh, P(r := Sys c k)) z"
  using process_step.call [of "P(r := Sys c k)" s c k "ResumeProcess q" s' env "(P(r := Result k))(q := p)" sh] assms
  by (auto intro: reach_one)

text \<open>The report can be printed as long as the items of semaphores lead to descriptors.\<close>

definition holders_ok :: "kernel \<Rightarrow> (list_loc \<Rightarrow> ptr list) \<Rightarrow> bool" where
  "holders_ok s L \<longleftrightarrow> L ResourcesList = [] \<and> (\<forall>m. \<forall>w\<in>set (L (SemDescs m)) \<union> set (L (SemWaiting m)). sem_readable s w)"

lemma holders_print: "calm s L \<Longrightarrow> holders_ok s L \<Longrightarrow> \<exists>out. disastrOS_printStatus s = Inr out"
  using printStatus_report [OF calmD(3-5,7)] by (auto simp: holders_ok_def readable_def)

lemma holders_same:
  assumes "holders_ok s L" and "semdescriptor s' = semdescriptor s" and "semdescriptorptr s' = semdescriptorptr s"
    and "\<And>l. l \<noteq> ReadyList \<Longrightarrow> l \<noteq> WaitingList \<Longrightarrow> l \<noteq> Children r \<Longrightarrow> L' l = L l"
  shows "holders_ok s' L'"
  using assms(1) unfolding holders_ok_def sem_readable_def assms(2,3) by (simp add: assms(4))

lemma holders_opened:
  assumes "holders_ok s L" and "opened_step s s' m d w" and "m \<noteq> NULL" and "d \<noteq> NULL" and "running s \<noteq> NULL"
  shows "holders_ok s' (sem_opened s (sem_listed L m) m d w)" and "holders_ok s' (sem_opened s L m d w)"
proof -
  have new: "sem_readable s' w" using assms(2-5) by (simp add: sem_readable_def opened_step_def)
  have "sem_readable s' y" if "sem_readable s y" for y
    using that assms(2-5) by (auto simp: sem_readable_def opened_step_def Let_def)
  with assms(1) new show "holders_ok s' (sem_opened s (sem_listed L m) m d w)" "holders_ok s' (sem_opened s L m d w)"
    by (auto simp: holders_ok_def sem_opened_def sem_listed_def)
qed

subsection \<open>Two rounds of a writer\<close>

lemma entered_lists:
  "core_ok (entered n args s) L \<longleftrightarrow> core_ok s L" "idle (entered n args s) L k x \<longleftrightarrow> idle s L k x"
  "links_of (entered n args s) k = links_of s k" "head_of (entered n args s) l = head_of s l"
proof -
  have e: "same_lists (entered n args s) s"
    by (simp add: same_lists_def all_kinds all_locs entered_def upd_pcb_def)
  from same_core [OF e] same_idle [OF e] show "core_ok (entered n args s) L \<longleftrightarrow> core_ok s L"
      "idle (entered n args s) L k x \<longleftrightarrow> idle s L k x" by simp_all
  from e show "links_of (entered n args s) k = links_of s k" "head_of (entered n args s) l = head_of s l"
    unfolding same_lists_def by blast+
qed

lemma entered_sems: "sem_ok (entered n args s) L \<longleftrightarrow> sem_ok s L" "wait_ok (entered n args s) L \<longleftrightarrow> wait_ok s L"
  unfolding sem_ok_def wait_ok_def entered_fields by (rule refl)+

text \<open>A call on a semaphore resumes its caller.\<close>

lemma sem_call:
  assumes b: "booted s" "running s \<noteq> NULL"
    and h: "call_entry cl = (n, h, args)" "h \<in> {internal_semWait_h, internal_semPost_h}"
      "call_handler h (entered n args s) = Inr s'" "running s' = running s"
  shows "do_call cl s = Inr (Trapped (ResumeProcess (running s')), s')" and "booted s'"
    and "pcb_cpu_state (pcb s' (running s)) = SavedContext" and "pool_shapes s' = pool_shapes s"
proof -
  show "do_call cl s = Inr (Trapped (ResumeProcess (running s')), s')"
    using do_call_enters [OF b h(1)] h(2-4) b(2) by (auto simp: after_handler_def)
  have k: "keeps (- touches h) s' (entered n args s)" using handler_keeps [OF h(3)] h(2) by auto
  have "booted (entered n args s)" using b(1) by (simp add: booted_def entered_def upd_pcb_def)
  from booted_keeps [OF this k] show "booted s'" .
  have "ContextPart \<in> - touches h" using h(2) by auto
  then have "pcb_cpu_state (pcb s' (running s)) = pcb_cpu_state (pcb (entered n args s) (running s))"
    using k unfolding keeps_def by blast
  then show "pcb_cpu_state (pcb s' (running s)) = SavedContext" by (simp only: entered_fields)
  show "pool_shapes s' = pool_shapes s" using keeps_shapes [OF k] by (simp add: entered_fields)
qed

lemma call_keeps_pids:
  assumes "booted s" and "running s \<noteq> NULL" and "do_call cl s = Inr (Trapped r, s')" and "call_entry cl = (n, h, args)"
    and "IdPart \<notin> touches h" and "h \<noteq> internal_shutdown_h"
  shows "booted s'" and "pcb_pid (pcb s' p) = pcb_pid (pcb s p)"
proof -
  have k: "keeps (- touches h) s' (entered n args s)"
    by (rule handler_keeps [OF call_unwound(1) [OF assms(1-4)] assms(6)])
  have "booted (entered n args s)" using assms(1) by (simp add: booted_def entered_def upd_pcb_def)
  from booted_keeps [OF this k] show "booted s'" .
  show "pcb_pid (pcb s' p) = pcb_pid (pcb s p)" using k assms(5) by (simp add: keeps_def entered_fields)
qed

lemma round_one:
  assumes c: "calm s L" and d: "sem_of_fd s L fd = d" "d \<noteq> NULL" and m: "sd_semaphore (semdescriptor s d) = m"
    and n: "sem_count (semaphore s m) = 0" and room: "room s SemDescriptorPtr_item b" "b < 1024"
  shows "\<exists>s1 s2. do_call (WaitSemaphore fd) s = Inr (Trapped (ResumeProcess (running s1)), s1) \<and> running s1 = running s \<and>
    pcb_syscall_retvalue (pcb s1 (running s)) = 0 \<and> pcb_cpu_state (pcb s1 (running s)) = SavedContext \<and>
    do_call (PostSemaphore fd) s1 = Inr (Trapped (ResumeProcess (running s2)), s2) \<and> running s2 = running s \<and>
    pcb_syscall_retvalue (pcb s2 (running s)) = 0 \<and> pcb_cpu_state (pcb s2 (running s)) = SavedContext \<and>
    core_ok s2 (L(ReadyList := L ReadyList @ [running s])) \<and> sem_ok s2 (L(ReadyList := L ReadyList @ [running s])) \<and>
    booted s2 \<and> sem_count (semaphore s2 m) = 0 \<and> semdescriptor s2 = semdescriptor s \<and>
    live s2 PCB_item = live s PCB_item \<and> room s2 SemDescriptorPtr_item (Suc b)"
proof -
  let ?r = "running s" and ?e = "entered DSOS_CALL_SEMWAIT [scast fd] s"
  have e: "calm ?e L" by (rule calm_entered [OF c])
  have dm: "d \<in> set (L (SemDescriptors ?r))" using sem_of_fd_mem [where s = s and L = L and fd = fd] d by simp
  have ml: "m \<in> live s Semaphore_item" using sem_ok_live(1) [OF calmD(3,6) [OF c] dm] m by simp
  have sw: "L (SemWaiting y) = []" for y using calmD(10) [OF c] by (simp add: sems_free_def)
  have de: "sem_of_fd ?e L (ucast (run_arg ?e 0)) = d" using d(1) by (simp add: entered_fields ucast_scast)
  have me: "sd_semaphore (semdescriptor ?e d) = m" using m by (simp add: entered_fields)
  have ne: "sint (sem_count (semaphore ?e m)) \<le> 0" "sint (sem_count (semaphore ?e m)) \<noteq> - (2 ^ 31)"
    using n by (simp_all add: entered_fields)
  have sp: "spare ?e SemDescriptorPtr_item \<noteq> {}" using room_spare [OF room] unfolding entered_fields .
  from semWait_queued [OF calmD(3,6) [OF e] wait_ok_free [OF calmD(10) [OF e]] calmD(2) [OF e] de d(2) me ne sp]
  obtain s1 w where s1: "internal_semWait ?e = Inr s1" "core_ok s1 (queued ?e L m w)" "sem_ok s1 (queued ?e L m w)"
      "wait_ok s1 (queued ?e L m w)" "running s1 = running ?e" "pcb_syscall_retvalue (pcb s1 (running ?e)) = 0"
      "\<forall>k. sem_count (semaphore s1 k) = (if k = m then sem_count (semaphore ?e k) - 1 else sem_count (semaphore ?e k))"
      "semdescriptorptr s1 = (semdescriptorptr ?e)(w := \<lparr>sp_descriptor = d\<rparr>)" "semdescriptor s1 = semdescriptor ?e"
      "live s1 PCB_item = live ?e PCB_item" "live s1 SemDescriptorPtr_item = insert w (live ?e SemDescriptorPtr_item)"
    by (elim exE conjE) (rule that)
  let ?Q = "queued s L m w"
  have Q: "queued ?e L m w = ?Q" by (simp add: queued_def entered_fields)
  have r1: "running s1 = ?r" using s1(5) by (simp add: entered_fields)
  have en1: "call_entry (WaitSemaphore fd) = (DSOS_CALL_SEMWAIT, internal_semWait_h, [scast fd])" by simp
  have h1: "internal_semWait_h \<in> {internal_semWait_h, internal_semPost_h}" "call_handler internal_semWait_h ?e = Inr s1"
    using s1(1) by simp_all
  note call1 = sem_call [OF calmD(9,8) [OF c] en1 h1 r1]
  let ?f = "entered DSOS_CALL_SEMPOST [scast fd] s1"
  have cf: "core_ok ?f ?Q" "sem_ok ?f ?Q" "wait_ok ?f ?Q" using s1(2-4) unfolding entered_lists entered_sems Q .
  have lf: "running ?f \<in> live ?f PCB_item" using calmD(7) [OF c] r1 s1(10) by (simp only: entered_fields)
  have qs: "?Q (SemDescriptors ?r) = L (SemDescriptors ?r)" "?Q (SemWaiting m) = [w]" using sw by (simp_all add: queued_def)
  have fa: "ucast (run_arg ?f 0) = fd" by (simp add: entered_fields ucast_scast)
  have df: "sem_of_fd ?f ?Q (ucast (run_arg ?f 0)) = d"
    unfolding fa using d(1) s1(9) r1 qs(1) by (simp add: entered_fields)
  have mf: "sd_semaphore (semdescriptor ?f d) = m" using m s1(9) by (simp add: entered_fields)
  have nf: "sint (sem_count (semaphore ?f m)) < 0" using s1(7) n by (simp add: entered_fields)
  from semPost_woken [OF cf lf df d(2) mf nf] obtain s2 where
    s2: "internal_semPost ?f = Inr s2" "core_ok s2 (unqueued ?f ?Q m)" "sem_ok s2 (unqueued ?f ?Q m)"
      "running s2 = running ?f" "pcb_syscall_retvalue (pcb s2 (running ?f)) = 0"
      "\<forall>k. sem_count (semaphore s2 k) = (if k = m then sem_count (semaphore ?f k) + 1 else sem_count (semaphore ?f k))"
      "\<forall>k. pool_of s2 k = pool_of ?f k" "semdescriptor s2 = semdescriptor ?f" by blast
  have r2: "running s2 = running s1" using s2(4) by (simp add: entered_fields)
  have en2: "call_entry (PostSemaphore fd) = (DSOS_CALL_SEMPOST, internal_semPost_h, [scast fd])" by simp
  have h2: "internal_semPost_h \<in> {internal_semWait_h, internal_semPost_h}" "call_handler internal_semPost_h ?f = Inr s2"
    using s2(1) by simp_all
  have nn1: "running s1 \<noteq> NULL" using r1 calmD(8) [OF c] by simp
  note call2 = sem_call [OF call1(2) nn1 en2 h2 r2]
  have "sd_pcb (semdescriptor s d) = ?r" using calmD(6) [OF c] dm by (auto simp: sem_ok_def)
  then have wt: "waiter ?f w = ?r" using s1(8,9) by (simp add: entered_fields)
  have "?r \<notin> set (L WaitingList)" using idleD(3) [OF calmD(2) [OF c], of WaitingList] by simp
  then have "unqueued ?f ?Q m = L(ReadyList := L ReadyList @ [?r])"
    using wt sw by (simp add: unqueued_def queued_def Let_def fun_eq_iff remove1_append)
  moreover have "semdescriptor s2 = semdescriptor s" using s2(8) s1(9) by (simp only: entered_fields)
  moreover have "room s2 SemDescriptorPtr_item (Suc b)"
  proof -
    have "live s1 SemDescriptorPtr_item = insert w (live s SemDescriptorPtr_item)" using s1(11) unfolding entered_fields .
    from room_insert [OF room(1) this call1(4)] have "room s1 SemDescriptorPtr_item (Suc b)" .
    then show ?thesis by (rule room_same) (simp only: s2(7) entered_fields)
  qed
  moreover have "live s2 PCB_item = live s PCB_item" using s2(7) s1(10) by (simp only: entered_fields)
  moreover have "sem_count (semaphore s2 m) = 0" using s2(6) s1(7) n by (simp add: entered_fields)
  moreover have "pcb_syscall_retvalue (pcb s1 ?r) = 0" "pcb_syscall_retvalue (pcb s2 ?r) = 0"
    using s1(6) s2(5) r1 by (simp_all add: entered_fields)
  ultimately show ?thesis
    using call1 call2 s2(2,3) r1 r2 by (intro exI [of _ s1] exI [of _ s2]) simp
qed

lemma round_two:
  assumes c: "core_ok s L" "sem_ok s L" "booted s" and r: "running s \<in> live s PCB_item"
    and d: "sem_of_fd s L fd = d" "d \<noteq> NULL" and m: "sd_semaphore (semdescriptor s d) = m"
    and n: "sem_count (semaphore s m) = 0" and room: "room s SemDescriptorPtr_item b" "b < 1024"
    and l: "L ReadyList = ps @ [running s]" "ps \<noteq> []" "L (SemWaiting m) = []"
  shows "\<exists>s1 s2. do_call (WaitSemaphore fd) s = Inr (Trapped (ResumeProcess (running s1)), s1) \<and> running s1 = running s \<and>
    pcb_syscall_retvalue (pcb s1 (running s)) = 0 \<and> pcb_cpu_state (pcb s1 (running s)) = SavedContext \<and>
    do_call (PostSemaphore fd) s1 = Inr (Trapped (ResumeProcess (running s2)), s2) \<and> running s2 = running s \<and>
    pcb_syscall_retvalue (pcb s2 (running s)) = 0 \<and> pcb_cpu_state (pcb s2 (running s)) = SavedContext \<and>
    links_of s2 PCB_item (running s) = \<lparr>li_prev = running s, li_next = running s\<rparr> \<and>
    lh_last (ready_list s2) = running s \<and>
    waiting_list s2 = (waiting_list s)\<lparr>lh_size := lh_size (waiting_list s) - 1\<rparr> \<and> (\<forall>L'. \<not> core_ok s2 L')"
proof -
  let ?r = "running s" and ?e = "entered DSOS_CALL_SEMWAIT [scast fd] s"
  have nn: "?r \<noteq> NULL" by (rule live_nonnull [OF c(1) r])
  have dm: "d \<in> set (L (SemDescriptors ?r))" using sem_of_fd_mem [where s = s and L = L and fd = fd] d by simp
  have ml: "m \<noteq> NULL" using sem_ok_live(2) [OF c(1,2) dm] m by simp
  have ce: "core_ok ?e L" "sem_ok ?e L" using c(1,2) unfolding entered_lists entered_sems .
  have re: "running ?e \<in> live ?e PCB_item" using r unfolding entered_fields .
  have "dlist (links_of s PCB_item) (ready_list s) (ps @ [?r])"
    using core_klist [OF c(1), of ReadyList] l(1) by (simp add: klist_def)
  from dlist_linked [OF this, of ?r] l(2) have "\<not> unlinked (links_of s PCB_item) ?r" by (cases ps) auto
  then have u: "\<not> unlinked (links_of ?e PCB_item) (running ?e)" unfolding entered_fields entered_lists .
  have de: "sem_of_fd ?e L (ucast (run_arg ?e 0)) = d" using d(1) by (simp add: entered_fields ucast_scast)
  have me: "sd_semaphore (semdescriptor ?e d) = m" using m by (simp add: entered_fields)
  have ne: "sint (sem_count (semaphore ?e m)) \<le> 0" "sint (sem_count (semaphore ?e m)) \<noteq> - (2 ^ 31)"
    using n by (simp_all add: entered_fields)
  have sp: "spare ?e SemDescriptorPtr_item \<noteq> {}" using room_spare [OF room] unfolding entered_fields .
  from semWait_linked [OF ce re u de d(2) me ne sp] obtain s1 w where
    s1: "internal_semWait ?e = Inr s1" "core_ok s1 (L(SemWaiting m := L (SemWaiting m) @ [w]))" "running s1 = running ?e"
      "pcb_syscall_retvalue (pcb s1 (running ?e)) = 0" "live s1 PCB_item = live ?e PCB_item"
      "\<forall>k. sem_count (semaphore s1 k) = (if k = m then sem_count (semaphore ?e k) - 1 else sem_count (semaphore ?e k))"
      "semdescriptor s1 = semdescriptor ?e" "sp_descriptor (semdescriptorptr s1 w) = d"
      "waiting_list s1 = waiting_list ?e"
    by (elim exE conjE) (rule that)
  let ?Q = "L(SemWaiting m := L (SemWaiting m) @ [w])"
  have r1: "running s1 = ?r" using s1(3) by (simp add: entered_fields)
  have en1: "call_entry (WaitSemaphore fd) = (DSOS_CALL_SEMWAIT, internal_semWait_h, [scast fd])" by simp
  have h1: "internal_semWait_h \<in> {internal_semWait_h, internal_semPost_h}" "call_handler internal_semWait_h ?e = Inr s1"
    using s1(1) by simp_all
  note call1 = sem_call [OF c(3) nn en1 h1 r1]
  let ?f = "entered DSOS_CALL_SEMPOST [scast fd] s1"
  have cf: "core_ok ?f ?Q" using s1(2) unfolding entered_lists .
  have rf: "running ?f \<in> live ?f PCB_item" using r r1 s1(5) by (simp only: entered_fields)
  have fa: "ucast (run_arg ?f 0) = fd" by (simp add: entered_fields ucast_scast)
  have df: "sem_of_fd ?f ?Q (ucast (run_arg ?f 0)) = d"
    unfolding fa using d(1) s1(7) r1 by (simp add: entered_fields)
  have mf: "sd_semaphore (semdescriptor ?f d) = m" using m s1(7) by (simp add: entered_fields)
  have nf: "sint (sem_count (semaphore ?f m)) = - 1" using s1(6) n by (simp add: entered_fields)
  have "sd_pcb (semdescriptor s d) = ?r" using c(2) dm by (auto simp: sem_ok_def)
  then have w: "?Q (SemWaiting m) = [w]" "sp_descriptor (semdescriptorptr ?f w) = d" "sd_pcb (semdescriptor ?f d) = running ?f"
    using l(3) s1(7,8) r1 by (simp_all add: entered_fields)
  have wl: "?r \<notin> set (L WaitingList)" using core_apart [OF c(1), of ?r ReadyList WaitingList] l(1) by auto
  have lf: "?Q ReadyList = ps @ [running ?f]" "running ?f \<notin> set (?Q WaitingList)"
    using l(1) r1 wl by (simp_all add: entered_fields)
  from semPost_corrupts [OF cf rf df d(2) mf ml nf w lf(1) l(2) lf(2)] obtain s2 where
    s2: "internal_semPost ?f = Inr s2" "running s2 = running ?f" "pcb_syscall_retvalue (pcb s2 (running ?f)) = 0"
      "links_of s2 PCB_item (running ?f) = \<lparr>li_prev = running ?f, li_next = running ?f\<rparr>" "lh_last (ready_list s2) = running ?f"
      "waiting_list s2 = (waiting_list ?f)\<lparr>lh_size := lh_size (waiting_list ?f) - 1\<rparr>" "\<forall>L'. \<not> core_ok s2 L'"
    by (elim exE conjE) (rule that)
  have r2: "running s2 = running s1" using s2(2) by (simp add: entered_fields)
  have en2: "call_entry (PostSemaphore fd) = (DSOS_CALL_SEMPOST, internal_semPost_h, [scast fd])" by simp
  have h2: "internal_semPost_h \<in> {internal_semWait_h, internal_semPost_h}" "call_handler internal_semPost_h ?f = Inr s2"
    using s2(1) by simp_all
  have nn1: "running s1 \<noteq> NULL" using r1 nn by simp
  note call2 = sem_call [OF call1(2) nn1 en2 h2 r2]
  have wlf: "waiting_list ?f = waiting_list s" using s1(9) by (simp add: entered_def upd_pcb_def)
  have "pcb_syscall_retvalue (pcb s1 ?r) = 0" "pcb_syscall_retvalue (pcb s2 ?r) = 0"
      "links_of s2 PCB_item ?r = \<lparr>li_prev = ?r, li_next = ?r\<rparr>" "lh_last (ready_list s2) = ?r"
    using s1(4) s2(3-5) r1 unfolding entered_fields by simp_all
  then show ?thesis
    using call1 call2 s2(6,7) r1 r2 unfolding wlf by (intro exI [of _ s1] exI [of _ s2]) simp
qed

text \<open>The stores of a writer between wait and post.\<close>

definition write_item :: "cint \<Rightarrow> shared \<Rightarrow> shared" where
  "write_item no sh = sh\<lparr>transactions := (transactions sh)[nat (sint (write_index sh)) := no],
     write_index := word_of_int ((sint (write_index sh) + 1) mod 128)\<rparr>"

lemma writer_round:
  assumes i: "i <s 100" and sh: "length (transactions sh) = 128" "0 \<le> sint (write_index sh)" "sint (write_index sh) < 128"
    and w: "do_call (WaitSemaphore fd) s = Inr (Trapped (ResumeProcess (running s1)), s1)" "running s1 = running s"
      "pcb_syscall_retvalue (pcb s1 (running s)) = 0" "pcb_cpu_state (pcb s1 (running s)) = SavedContext"
    and p: "do_call (PostSemaphore fd) s1 = Inr (Trapped (ResumeProcess (running s2)), s2)" "running s2 = running s"
      "pcb_syscall_retvalue (pcb s2 (running s)) = 0" "pcb_cpu_state (pcb s2 (running s)) = SavedContext"
    and z: "reaches env (InProcess, s2, write_item no sh, P(running s := writer_loop no fd (i + 1) k)) z"
  shows "reaches env (InProcess, s, sh, P(running s := writer_loop no fd i k)) z"
proof -
  let ?r = "running s" and ?j = "write_index sh"
  let ?sh = "sh\<lparr>transactions := (transactions sh)[nat (sint ?j) := no]\<rparr>"
  from next_slot_bounds [OF sh(2,3)] obtain v where v: "next_slot ?j = Inr v" "sint v = (sint ?j + 1) mod 128" by blast
  have "v = word_of_int ((sint ?j + 1) mod 128)" using arg_cong [OF v(2), of "word_of_int :: int \<Rightarrow> cint"] by simp
  then have wi: "write_item no sh = ?sh\<lparr>write_index := v\<rparr>" by (simp add: write_item_def)
  have as: "arr_set (transactions sh) ?j no = Inr ((transactions sh)[nat (sint ?j) := no])"
    using sh by (simp add: arr_set_def)
  have "reaches env (InProcess, s1, ?sh\<lparr>write_index := v\<rparr>, P(?r := Sys (PostSemaphore fd)
      (\<lambda>ret. error_handler ret (writer_loop no fd (i + 1) k)))) z"
    using z p(3) by (intro reach_call [OF w(2) [symmetric] p(1) p(2) p(4)]) (simp add: wi)
  then have "reaches env (InProcess, s1, ?sh, P(?r := Store (\<lambda>sh. bindE (next_slot ?j) (\<lambda>v. Inr (sh\<lparr>write_index := v\<rparr>)))
      (Sys (PostSemaphore fd) (\<lambda>ret. error_handler ret (writer_loop no fd (i + 1) k))))) z"
    by (rule reach_store [OF w(2) [symmetric], rotated]) (simp add: v(1))
  then have "reaches env (InProcess, s1, ?sh, P(?r := Load (\<lambda>sh. Inr (write_index sh)) (\<lambda>j.
      Store (\<lambda>sh. bindE (next_slot j) (\<lambda>v. Inr (sh\<lparr>write_index := v\<rparr>)))
      (Sys (PostSemaphore fd) (\<lambda>ret. error_handler ret (writer_loop no fd (i + 1) k)))))) z"
    by (intro reach_load [OF w(2) [symmetric]]) simp_all
  then have "reaches env (InProcess, s1, sh, P(?r := Store (\<lambda>sh. bindE (arr_set (transactions sh) ?j no) (\<lambda>a. Inr (sh\<lparr>transactions := a\<rparr>)))
      (Load (\<lambda>sh. Inr (write_index sh)) (\<lambda>j. Store (\<lambda>sh. bindE (next_slot j) (\<lambda>v. Inr (sh\<lparr>write_index := v\<rparr>)))
      (Sys (PostSemaphore fd) (\<lambda>ret. error_handler ret (writer_loop no fd (i + 1) k))))))) z"
    by (rule reach_store [OF w(2) [symmetric], rotated]) (simp add: as)
  then have "reaches env (InProcess, s1, sh, P(?r := Load (\<lambda>sh. Inr (write_index sh)) (\<lambda>j.
      Store (\<lambda>sh. bindE (arr_set (transactions sh) j no) (\<lambda>a. Inr (sh\<lparr>transactions := a\<rparr>)))
      (Load (\<lambda>sh. Inr (write_index sh)) (\<lambda>j. Store (\<lambda>sh. bindE (next_slot j) (\<lambda>v. Inr (sh\<lparr>write_index := v\<rparr>)))
      (Sys (PostSemaphore fd) (\<lambda>ret. error_handler ret (writer_loop no fd (i + 1) k)))))))) z"
    by (intro reach_load [OF w(2) [symmetric]]) simp_all
  then show ?thesis
    using w(3) i by (subst writer_loop.simps) (simp add: if_P del: if_split, intro reach_call [OF refl w(1,2,4)], simp)
qed

end
