(* ===== verification/Readers_Writers_Breaks.thy ===== *)
theory Readers_Writers_Breaks
  imports Readers_Writers_Run
begin

text \<open>
  The run of the readers and writers program to the point where the lists of the kernel break: the
  start, the calls of init, the two rounds of the first writer; and, with the same steps, a safe run in
  which the lists of children, of descriptors and of holders are not empty.
\<close>

lemma room_fresh: "fresh (pool_of s k) \<Longrightarrow> room s k 0"
  by (simp add: room_def fresh_def)

lemma test_main_starts:
  assumes "static_ok st" and "zeroed s0"
  shows "\<exists>s. test_main st env s0 sh = Inr (InProcess, s, sh\<lparr>write_index := 0, read_index := 0\<rparr>,
      (\<lambda>_. Finish)(running s := initFunction env)) \<and> init_pcb s = running s \<and> calm s (\<lambda>_. []) \<and> last_pid s = 1 \<and>
    pcb_last_sem_fd (pcb s (running s)) = 0 \<and> live s PCB_item = {running s} \<and> room s PCB_item 1 \<and>
    (\<forall>k. k \<noteq> PCB_item \<longrightarrow> fresh (pool_of s k))"
proof -
  from disastrOS_start_done [OF assms, of "te_init env" 0] obtain s where
    s: "disastrOS_start st (te_init env) 0 s0 = Inr (Some (ResumeProcess (running s), s))" "kernel_inv s (\<lambda>_. [])"
      "idle s (\<lambda>_. []) PCB_item (running s)" "live s PCB_item = {running s}"
      "pcb_cpu_state (pcb s (running s)) = EntryContext (te_init env) 0" "pcb_last_sem_fd (pcb s (running s)) = 0"
      "init_pcb s = running s" "last_pid s = 1" "card (spare s PCB_item) = 1023" "\<forall>k. k \<noteq> PCB_item \<longrightarrow> fresh (pool_of s k)"
    by blast
  have "running s \<notin> spare s PCB_item" using spare_not_live [OF kernel_invD(1) [OF s(2)]] s(4) by blast
  moreover have "finite (spare s PCB_item)" using s(9) card.infinite by fastforce
  ultimately have "room s PCB_item 1" using s(4,9) by (simp add: room_def)
  with s show ?thesis
    by (intro exI [of _ s]) (simp add: test_main_def calm_def)
qed

subsection \<open>The calls of init\<close>

abbreviation init_waits :: "test_env \<Rightarrow> cint \<Rightarrow> prog" where
  "init_waits env alive_children \<equiv> PrintStatus (wait_loop env alive_children (
     Load (\<lambda>sh. Inr (mutex_sem sh)) (\<lambda>sem. Sys (CloseSemaphore sem) (\<lambda>_.
     Load (\<lambda>sh. Inr (write_sem sh)) (\<lambda>sem. Sys (CloseSemaphore sem) (\<lambda>_.
     PrintStatus (Sys Shutdown (\<lambda>_. Finish))))))))"

abbreviation init_spawns :: "test_env \<Rightarrow> prog" where
  "init_spawns env \<equiv> spawn_loop env (te_writers_args env) WRITER_CHILD WRITERS_NUM 0 0 (\<lambda>alive_children.
     spawn_loop env (te_readers_args env) READER_CHILD READERS_NUM 0 alive_children (init_waits env))"

text \<open>The semaphores are there: the one of the writers is \<open>m\<close> and has count 0.\<close>

definition sems_made :: "kernel \<Rightarrow> (list_loc \<Rightarrow> ptr list) \<Rightarrow> ptr \<Rightarrow> bool" where
  "sems_made s L m \<longleftrightarrow> calm s L \<and> holders_ok s L \<and> sem_named s L WRITERS_SEM_ID = m \<and> m \<noteq> NULL \<and>
     sem_count (semaphore s m) = 0 \<and> room s SemDescriptor_item 2 \<and> room s SemDescriptorPtr_item 2"

lemma create_open:
  assumes c: "calm s L" "holders_ok s L" and n: "sem_named s L sid = NULL" "0 \<le> sint cnt"
    and room: "room s Semaphore_item a" "room s SemDescriptor_item b" "room s SemDescriptorPtr_item b" "a < 1024" "b < 1024"
  shows "\<exists>s' m d w. calm s' (sem_opened s (sem_listed L m) m d w) \<and> holders_ok s' (sem_opened s (sem_listed L m) m d w) \<and>
    m \<noteq> NULL \<and> m \<notin> set (L SemaphoresList) \<and> running s' = running s \<and> last_pid s' = last_pid s \<and>
    pool_of s' PCB_item = pool_of s PCB_item \<and> pool_of s' PCBPtr_item = pool_of s PCBPtr_item \<and>
    pcb_last_sem_fd (pcb s' (running s)) = pcb_last_sem_fd (pcb s (running s)) + 1 \<and>
    room s' Semaphore_item (Suc a) \<and> room s' SemDescriptor_item (Suc b) \<and> room s' SemDescriptorPtr_item (Suc b) \<and>
    (\<forall>k. sem_id (semaphore s' k) = (if k = m then sid else sem_id (semaphore s k)) \<and>
      sem_count (semaphore s' k) = (if k = m then cnt else sem_count (semaphore s k))) \<and>
    (\<forall>sh P k z. reaches env (InProcess, s', sh, P(running s := k (pcb_last_sem_fd (pcb s (running s))))) z \<longrightarrow>
      reaches env (InProcess, s, sh, P(running s := Sys (OpenSemaphore sid (DSOS_CREATE OR DSOS_EXCL) cnt) k)) z)"
proof -
  let ?r = "running s"
  from create_step [OF c(1) n room] obtain s' m d w where
    o: "do_call (OpenSemaphore sid (DSOS_CREATE OR DSOS_EXCL) cnt) s = Inr (Trapped (ResumeProcess (running s')), s')"
      "calm s' (sem_opened s (sem_listed L m) m d w)" "opened_step s s' m d w" "m \<notin> live s Semaphore_item"
      "live s' Semaphore_item = insert m (live s Semaphore_item)"
      "\<forall>k. sem_id (semaphore s' k) = (if k = m then sid else sem_id (semaphore s k)) \<and>
        sem_count (semaphore s' k) = (if k = m then cnt else sem_count (semaphore s k))" by (elim exE conjE) (rule that)
  let ?L = "sem_opened s (sem_listed L m) m d w"
  have "m \<in> set (?L SemaphoresList)" "d \<in> set (?L (SemDescriptors ?r))" by (simp_all add: sem_opened_def sem_listed_def)
  then have nn: "m \<noteq> NULL" "d \<noteq> NULL" using core_nonnull [OF calmD(3) [OF o(2)]] by blast+
  have new: "m \<notin> set (L SemaphoresList)" using core_mem [OF calmD(3) [OF c(1)], of m SemaphoresList] o(4) by auto
  have st: "running s' = ?r" "pcb_cpu_state (pcb s' ?r) = SavedContext" "last_pid s' = last_pid s" "pool_shapes s' = pool_shapes s"
      "pcb_syscall_retvalue (pcb s' ?r) = pcb_last_sem_fd (pcb s ?r)" "pcb_last_sem_fd (pcb s' ?r) = pcb_last_sem_fd (pcb s ?r) + 1"
      "pool_of s' PCB_item = pool_of s PCB_item" "pool_of s' PCBPtr_item = pool_of s PCBPtr_item"
      "live s' SemDescriptor_item = insert d (live s SemDescriptor_item)"
      "live s' SemDescriptorPtr_item = insert w (live s SemDescriptorPtr_item)"
    using o(3) unfolding opened_step_def by blast+
  have "reaches env (InProcess, s, sh, P(?r := Sys (OpenSemaphore sid (DSOS_CREATE OR DSOS_EXCL) cnt) k)) z"
    if "reaches env (InProcess, s', sh, P(?r := k (pcb_last_sem_fd (pcb s ?r)))) z" for sh P k z
    by (rule reach_call [where k = k, OF refl o(1) st(1,2), unfolded st(5)]) (rule that)
  then show ?thesis
    using o(2,6) holders_opened(1) [OF c(2) o(3) nn calmD(8) [OF c(1)]] nn(1) new st(1,3,6-8)
      room_insert [OF room(1) o(5) st(4)] room_insert [OF room(2) st(9,4)] room_insert [OF room(3) st(10,4)]
    by (intro exI [of _ s'] exI [of _ m] exI [of _ d] exI [of _ w] conjI allI impI) blast+
qed

lemma init_opens:
  assumes c: "calm s (\<lambda>_. [])" and fd: "pcb_last_sem_fd (pcb s (running s)) = 0"
    and room: "room s Semaphore_item 0" "room s SemDescriptor_item 0" "room s SemDescriptorPtr_item 0"
  shows "\<exists>s' L m. sems_made s' L m \<and> running s' = running s \<and> last_pid s' = last_pid s \<and>
    pool_of s' PCB_item = pool_of s PCB_item \<and> pool_of s' PCBPtr_item = pool_of s PCBPtr_item \<and>
    (\<forall>l. l \<noteq> SemaphoresList \<longrightarrow> l \<noteq> SemDescriptors (running s) \<longrightarrow> (\<forall>m. l \<noteq> SemDescs m) \<longrightarrow> L l = []) \<and>
    (\<forall>sh P z. reaches env (InProcess, s', sh\<lparr>mutex_sem := 0, write_sem := 1\<rparr>, P(running s := init_spawns env)) z \<longrightarrow>
      reaches env (InProcess, s, sh, P(running s := initFunction env)) z)"
proof -
  let ?r = "running s" and ?L = "\<lambda>_. [] :: ptr list"
  have h: "holders_ok s ?L" by (simp add: holders_ok_def)
  have n1: "sem_named s ?L MUTEX_SEM_ID = NULL" "0 \<le> sint BUFFER_SIZE" by (simp_all add: test_constants)
  have small: "(0 :: nat) < 1024" "Suc 0 < 1024" by simp_all
  from create_open [OF c h n1 room small(1,1), of env, unfolded fd] obtain s1 m1 d1 w1 where
    o1: "calm s1 (sem_opened s (sem_listed ?L m1) m1 d1 w1)" "holders_ok s1 (sem_opened s (sem_listed ?L m1) m1 d1 w1)"
      "m1 \<noteq> NULL" "m1 \<notin> set (?L SemaphoresList)" "running s1 = ?r" "last_pid s1 = last_pid s"
      "pool_of s1 PCB_item = pool_of s PCB_item" "pool_of s1 PCBPtr_item = pool_of s PCBPtr_item"
      "pcb_last_sem_fd (pcb s1 ?r) = 0 + 1"
      "room s1 Semaphore_item (Suc 0)" "room s1 SemDescriptor_item (Suc 0)" "room s1 SemDescriptorPtr_item (Suc 0)"
      "\<forall>k. sem_id (semaphore s1 k) = (if k = m1 then MUTEX_SEM_ID else sem_id (semaphore s k)) \<and>
        sem_count (semaphore s1 k) = (if k = m1 then BUFFER_SIZE else sem_count (semaphore s k))"
    and u1: "\<forall>sh P k z. reaches env (InProcess, s1, sh, P(?r := k 0)) z \<longrightarrow>
        reaches env (InProcess, s, sh, P(?r := Sys (OpenSemaphore MUTEX_SEM_ID (DSOS_CREATE OR DSOS_EXCL) BUFFER_SIZE) k)) z"
    by (elim exE conjE) (rule that)
  let ?L1 = "sem_opened s (sem_listed ?L m1) m1 d1 w1"
  have l1: "?L1 SemaphoresList = [m1]" by (simp add: sem_opened_def sem_listed_def)
  then have n2: "sem_named s1 ?L1 WRITERS_SEM_ID = NULL" "0 \<le> sint (0 :: cint)" using o1(13) by (simp_all add: test_constants)
  have fd1: "pcb_last_sem_fd (pcb s1 (running s1)) = 1" using o1(5,9) by simp
  from create_open [OF o1(1,2) n2 o1(10-12) small(2,2), of env, unfolded fd1, unfolded o1(5)] obtain s2 m2 d2 w2 where
    o2: "calm s2 (sem_opened s1 (sem_listed ?L1 m2) m2 d2 w2)" "holders_ok s2 (sem_opened s1 (sem_listed ?L1 m2) m2 d2 w2)"
      "m2 \<noteq> NULL" "m2 \<notin> set (?L1 SemaphoresList)" "running s2 = ?r" "last_pid s2 = last_pid s1"
      "pool_of s2 PCB_item = pool_of s1 PCB_item" "pool_of s2 PCBPtr_item = pool_of s1 PCBPtr_item"
      "pcb_last_sem_fd (pcb s2 ?r) = 1 + 1"
      "room s2 Semaphore_item (Suc (Suc 0))" "room s2 SemDescriptor_item (Suc (Suc 0))" "room s2 SemDescriptorPtr_item (Suc (Suc 0))"
      "\<forall>k. sem_id (semaphore s2 k) = (if k = m2 then WRITERS_SEM_ID else sem_id (semaphore s1 k)) \<and>
        sem_count (semaphore s2 k) = (if k = m2 then 0 else sem_count (semaphore s1 k))"
    and u2: "\<forall>sh P k z. reaches env (InProcess, s2, sh, P(?r := k 1)) z \<longrightarrow>
        reaches env (InProcess, s1, sh, P(?r := Sys (OpenSemaphore WRITERS_SEM_ID (DSOS_CREATE OR DSOS_EXCL) 0) k)) z"
    by (elim exE conjE) (rule that)
  let ?L2 = "sem_opened s1 (sem_listed ?L1 m2) m2 d2 w2"
  have l2: "?L2 SemaphoresList = [m1, m2]" by (simp add: sem_opened_def sem_listed_def)
  then have "sem_named s2 ?L2 WRITERS_SEM_ID = m2" "sem_count (semaphore s2 m2) = 0"
    using o1(13) o2(4,13) l1 by (simp_all add: test_constants)
  then have made: "sems_made s2 ?L2 m2" using o2(1-3,11,12) by (simp add: sems_made_def eval_nat_numeral)
  obtain out0 where out0: "disastrOS_printStatus s = Inr out0" using holders_print [OF c h] by blast
  obtain out2 where out2: "disastrOS_printStatus s2 = Inr out2" using holders_print [OF o2(1,2)] by blast
  have "reaches env (InProcess, s, sh, P(?r := initFunction env)) z"
    if z: "reaches env (InProcess, s2, sh\<lparr>mutex_sem := 0, write_sem := 1\<rparr>, P(?r := init_spawns env)) z" for sh P z
  proof -
    have "reaches env (InProcess, s2, sh\<lparr>mutex_sem := 0, write_sem := 1\<rparr>, P(?r := PrintStatus (init_spawns env))) z"
      using reach_status [OF _ out2 z] o2(5) by simp
    then have "reaches env (InProcess, s1, sh\<lparr>mutex_sem := 0\<rparr>, P(?r :=
        Sys (OpenSemaphore WRITERS_SEM_ID (DSOS_CREATE OR DSOS_EXCL) 0) (\<lambda>v. Store (\<lambda>sh. Inr (sh\<lparr>write_sem := v\<rparr>))
        (Load (\<lambda>sh. Inr (write_sem sh)) (\<lambda>ret. error_handler ret (PrintStatus (init_spawns env))))))) z"
      using o2(5) by (intro u2 [rule_format] reach_store reach_load, simp_all) simp
    then show ?thesis
      unfolding initFunction_def using o1(5)
      by (intro reach_status [OF refl out0] u1 [rule_format] reach_store reach_load, simp_all) simp
  qed
  moreover have "?L2 l = []" if "l \<noteq> SemaphoresList" "l \<noteq> SemDescriptors ?r" "\<forall>m. l \<noteq> SemDescs m" for l
    using that o1(5) by (simp add: sem_opened_def sem_listed_def)
  ultimately show ?thesis using made o1(6-8) o2(5-8) by (intro exI [of _ s2] exI [of _ ?L2] exI [of _ m2]) simp
qed

lemma sems_made_same:
  assumes "sems_made s L m" and "calm s' L'" and "semdescriptor s' = semdescriptor s"
    and "semdescriptorptr s' = semdescriptorptr s"
    and "\<And>l. l \<noteq> ReadyList \<Longrightarrow> l \<noteq> WaitingList \<Longrightarrow> l \<noteq> Children r \<Longrightarrow> L' l = L l"
    and "\<And>m. sem_id (semaphore s' m) = sem_id (semaphore s m) \<and> sem_count (semaphore s' m) = sem_count (semaphore s m)"
    and "pool_of s' SemDescriptor_item = pool_of s SemDescriptor_item"
    and "pool_of s' SemDescriptorPtr_item = pool_of s SemDescriptorPtr_item"
  shows "sems_made s' L' m"
proof -
  have "holders_ok s' L'" using holders_same [OF _ assms(3,4,5)] assms(1) by (simp add: sems_made_def)
  moreover have "L' SemaphoresList = L SemaphoresList" using assms(5) by simp
  moreover have "room s' SemDescriptor_item 2" "room s' SemDescriptorPtr_item 2"
    using room_same [OF _ assms(7)] room_same [OF _ assms(8)] assms(1) unfolding sems_made_def by blast+
  ultimately show ?thesis using assms(1,2,6) by (simp add: sems_made_def)
qed

lemma spawnedD:
  assumes "spawned n s L s' L'"
  shows "calm s' L'" "running s' = running s" "last_pid s' = last_pid s + of_nat n"
    "l \<noteq> ReadyList \<Longrightarrow> l \<noteq> Children (running s) \<Longrightarrow> L' l = L l" "\<exists>cs. length cs = n \<and> L' ReadyList = L ReadyList @ cs"
    "length (L' (Children (running s))) = length (L (Children (running s))) + n" "live s PCB_item \<subseteq> live s' PCB_item"
    "p \<in> live s PCB_item \<Longrightarrow> p \<noteq> running s \<Longrightarrow> pcb s' p = pcb s p"
    "room s PCB_item a \<Longrightarrow> room s' PCB_item (a + n)" "room s PCBPtr_item a \<Longrightarrow> room s' PCBPtr_item (a + n)"
    "k \<noteq> PCB_item \<Longrightarrow> k \<noteq> PCBPtr_item \<Longrightarrow> pool_of s' k = pool_of s k"
    "semdescriptor s' = semdescriptor s" "semdescriptorptr s' = semdescriptorptr s"
    "sem_id (semaphore s' m) = sem_id (semaphore s m) \<and> sem_count (semaphore s' m) = sem_count (semaphore s m)"
  using assms unfolding spawned_def by (elim conjE, blast)+

lemma sems_made_spawned:
  assumes "sems_made s L m" and "spawned n s L s' L'"
  shows "sems_made s' L' m"
  using assms(1) spawnedD(1,12,13) [OF assms(2)]
proof (rule sems_made_same)
  show "l \<noteq> ReadyList \<Longrightarrow> l \<noteq> WaitingList \<Longrightarrow> l \<noteq> Children (running s) \<Longrightarrow> L' l = L l" for l
    using spawnedD(4) [OF assms(2)] by blast
  show "sem_id (semaphore s' x) = sem_id (semaphore s x) \<and> sem_count (semaphore s' x) = sem_count (semaphore s x)" for x
    by (rule spawnedD(14) [OF assms(2)])
qed (rule spawnedD(11) [OF assms(2)]; simp)+

lemma arg_addr_first:
  assumes "1 \<le> sint j" and "sint j < 5"
  shows "arg_addr base j \<noteq> arg_addr base 0"
proof
  assume "arg_addr base j = arg_addr base 0"
  then have "8 * (scast j :: clong) = 0" by (simp add: arg_addr_def)
  moreover have "sint j \<in> {1, 2, 3, 4}" using assms by auto
  then have "j \<in> {1, 2, 3, 4}" using sint_inj [of j 1] sint_inj [of j 2] sint_inj [of j 3] sint_inj [of j 4] by auto
  ultimately show False by auto
qed

lemma init_spawns_ten:
  assumes c: "calm s L" and room: "room s PCB_item 1" "room s PCBPtr_item 0" and n: "last_pid s = 1" and r: "running s \<in> live s PCB_item"
    and a: "\<forall>j. 0 \<le> sint j \<longrightarrow> sint j < 5 \<longrightarrow> arg_addr (te_readers_args env) j \<noteq> arg_addr (te_writers_args env) 0"
  shows "\<exists>s' L' args c cs. spawned 10 s L s' L' \<and> L' ReadyList = L ReadyList @ c # cs \<and> length cs = 9 \<and> c \<noteq> running s \<and>
    pcb_cpu_state (pcb s' c) = EntryContext (te_child env) (arg_addr (te_writers_args env) 0) \<and> pcb_last_sem_fd (pcb s' c) = 0 \<and>
    pcb_pid (pcb s' c) = 1 \<and> args (arg_addr (te_writers_args env) 0) = \<lparr>ca_sem_id = WRITER_CHILD, ca_number = 0\<rparr> \<and>
    (\<forall>P z. reaches env (InProcess, s', sh\<lparr>child_args := args\<rparr>,
        P(running s := init_waits env (1 + (WRITERS_NUM - 1) + (READERS_NUM - 0)))) z \<longrightarrow>
      reaches env (InProcess, s, sh, P(running s := init_spawns env)) z)"
proof -
  let ?w = "te_writers_args env" and ?r = "running s"
  let ?k = "\<lambda>alive. spawn_loop env (te_readers_args env) READER_CHILD READERS_NUM 0 alive (init_waits env)"
  have num: "sint WRITERS_NUM = 5" "sint READERS_NUM = 5" by (simp_all add: test_constants)
  have p: "last_pid s \<noteq> 0x7FFFFFFF" "(1 :: nat) < 1024" "0 <s WRITERS_NUM" unfolding n by (simp_all add: test_constants word_sless_alt)
  note round = spawn_round [OF c room(1) room_mono [OF room(2), of 1] p(2,1,3), where env = env and base = ?w and kind = WRITER_CHILD
      and alive = 0 and k = ?k, OF le0]
  from round obtain s1 L1 c0 where
    s1: "spawned 1 s L s1 L1" "L1 ReadyList = L ReadyList @ [c0]" "pcb_cpu_state (pcb s1 c0) = EntryContext (te_child env) (arg_addr ?w 0)"
      "c0 \<in> live s1 PCB_item" "c0 \<notin> live s PCB_item" "pcb_last_sem_fd (pcb s1 c0) = 0" "pcb_pid (pcb s1 c0) = last_pid s" and
    u1: "\<forall>sh P z. reaches env (InProcess, s1, put_arg (arg_addr ?w 0) WRITER_CHILD 0 sh,
        P(?r := spawn_loop env ?w WRITER_CHILD WRITERS_NUM (0 + 1) (0 + 1) ?k)) z \<longrightarrow>
      reaches env (InProcess, s, sh, P(?r := init_spawns env)) z" by (elim exE conjE) (rule that)
  have z1: "reaches env (InProcess, s1, put_arg (arg_addr ?w 0) WRITER_CHILD 0 sh,
        P(?r := spawn_loop env ?w WRITER_CHILD WRITERS_NUM 1 1 ?k)) z \<Longrightarrow>
      reaches env (InProcess, s, sh, P(?r := init_spawns env)) z" for sh P z
    using u1 unfolding add_0_left by blast
  let ?sh1 = "put_arg (arg_addr ?w 0) WRITER_CHILD 0 sh"
  have c1: "calm s1 L1" "running s1 = ?r" "last_pid s1 = 2" "room s1 PCB_item 2" "room s1 PCBPtr_item 1"
    using s1(1) room n unfolding spawned_def by (simp_all add: numeral_2_eq_2)
  have i1: "sint (1 :: cint) = 1" "sint (2 :: cint) = 2" by simp_all
  have "2 + nat (sint WRITERS_NUM - sint (1 :: cint)) \<le> 1024" "0 \<le> sint (last_pid s1)"
      "sint (last_pid s1) + (sint WRITERS_NUM - sint (1 :: cint)) < 2 ^ 31" "sint (1 :: cint) \<le> sint WRITERS_NUM"
    unfolding c1(3) num i1 by simp_all
  from spawn_loop_runs [OF c1(1,4) room_mono [OF c1(5), of 2] this, where base = ?w and sh = ?sh1 and env = env and k = ?k
      and alive = 1 and kind = WRITER_CHILD] obtain s2 L2 args2 where
    s2: "spawned 4 s1 L1 s2 L2"
      "\<And>x. (\<forall>j. 1 \<le> sint j \<and> sint j < 5 \<longrightarrow> x \<noteq> arg_addr ?w j) \<Longrightarrow> args2 x = child_args ?sh1 x" and
    z2: "\<And>P z. reaches env (InProcess, s2, ?sh1\<lparr>child_args := args2\<rparr>, P(?r := ?k (1 + (WRITERS_NUM - 1)))) z \<Longrightarrow>
      reaches env (InProcess, s1, ?sh1, P(?r := spawn_loop env ?w WRITER_CHILD WRITERS_NUM 1 1 ?k)) z"
    unfolding num c1(2) by auto
  have c2: "calm s2 L2" "running s2 = ?r" "last_pid s2 = 6" "room s2 PCB_item 6" "room s2 PCBPtr_item 6"
    using spawnedD(1-3) [OF s2(1)] spawnedD(9) [OF s2(1) c1(4)] spawnedD(10) [OF s2(1) room_mono [OF c1(5), of 2]] c1(2,3)
    by simp_all
  have i2: "sint (0 :: cint) = 0" "sint (6 :: cint) = 6" by simp_all
  have "6 + nat (sint READERS_NUM - sint (0 :: cint)) \<le> 1024" "0 \<le> sint (last_pid s2)"
      "sint (last_pid s2) + (sint READERS_NUM - sint (0 :: cint)) < 2 ^ 31" "sint (0 :: cint) \<le> sint READERS_NUM"
    unfolding c2(3) num i2 by simp_all
  from spawn_loop_runs [OF c2(1,4,5) this, where base = "te_readers_args env" and sh = "?sh1\<lparr>child_args := args2\<rparr>"
      and env = env and k = "init_waits env" and alive = "1 + (WRITERS_NUM - 1)" and kind = READER_CHILD] obtain s3 L3 args3 where
    s3: "spawned 5 s2 L2 s3 L3"
      "\<And>x. (\<forall>j. 0 \<le> sint j \<and> sint j < 5 \<longrightarrow> x \<noteq> arg_addr (te_readers_args env) j) \<Longrightarrow> args3 x = args2 x" and
    z3: "\<And>P z. reaches env (InProcess, s3, ?sh1\<lparr>child_args := args3\<rparr>,
        P(?r := init_waits env (1 + (WRITERS_NUM - 1) + (READERS_NUM - 0)))) z \<Longrightarrow>
      reaches env (InProcess, s2, ?sh1\<lparr>child_args := args2\<rparr>, P(?r := ?k (1 + (WRITERS_NUM - 1)))) z"
    unfolding num c2(2) by auto
  have t: "spawned 10 s L s3 L3" using spawned_trans [OF spawned_trans [OF s1(1) s2(1)] s3(1)] by simp
  have "spawned 9 s1 L1 s3 L3" using spawned_trans [OF s2(1) s3(1)] by simp
  note D = spawnedD [OF this, unfolded c1(2)]
  from D(5) s1(2) obtain cs where cs: "L3 ReadyList = L ReadyList @ c0 # cs" "length cs = 9" by auto
  have new: "c0 \<noteq> ?r" using r s1(5) by blast
  then have c0: "pcb s3 c0 = pcb s1 c0" using D(8) [OF s1(4)] by blast
  have "args3 (arg_addr ?w 0) = args2 (arg_addr ?w 0)" by (intro s3(2) allI impI) (metis a)
  also have "\<dots> = child_args ?sh1 (arg_addr ?w 0)" by (intro s2(2) allI impI) (metis arg_addr_first)
  finally have ar: "args3 (arg_addr ?w 0) = \<lparr>ca_sem_id = WRITER_CHILD, ca_number = 0\<rparr>" by (simp add: put_arg_def)
  have sh: "?sh1\<lparr>child_args := args3\<rparr> = sh\<lparr>child_args := args3\<rparr>" by (simp add: put_arg_def)
  have "reaches env (InProcess, s, sh, P(?r := init_spawns env)) z"
    if "reaches env (InProcess, s3, sh\<lparr>child_args := args3\<rparr>,
      P(?r := init_waits env (1 + (WRITERS_NUM - 1) + (READERS_NUM - 0)))) z" for P z
    using that unfolding sh [symmetric] by (intro z1 z2 z3)
  with t cs new c0 s1(3,6) s1(7) [unfolded n] ar show ?thesis
    by (intro exI [of _ s3] exI [of _ L3] exI [of _ args3] exI [of _ c0] exI [of _ cs] conjI allI impI) simp_all
qed

lemma init_switches:
  assumes m: "sems_made s L m" and room: "room s PCB_item 1" "room s PCBPtr_item 0" and n: "last_pid s = 1"
    and l: "L ReadyList = []" "L ZombieList = []" "L WaitingList = []" "\<forall>p. p \<noteq> running s \<longrightarrow> L (SemDescriptors p) = []"
    and e: "te_child env \<noteq> te_init env" and r: "running s \<in> live s PCB_item"
    and a: "\<forall>j. 0 \<le> sint j \<longrightarrow> sint j < 5 \<longrightarrow> arg_addr (te_readers_args env) j \<noteq> arg_addr (te_writers_args env) 0"
  shows "\<exists>s' L' args P'. sems_made s' L' m \<and> L' ReadyList \<noteq> [] \<and> L' (SemDescriptors (running s')) = [] \<and>
    pcb_last_sem_fd (pcb s' (running s')) = 0 \<and> pcb_pid (pcb s' (running s')) = 1 \<and> L' WaitingList = [running s] \<and>
    args (arg_addr (te_writers_args env) 0) = \<lparr>ca_sem_id = WRITER_CHILD, ca_number = 0\<rparr> \<and>
    (\<forall>z. reaches env (InProcess, s', sh\<lparr>child_args := args\<rparr>,
        P'(running s' := childFunction env (arg_addr (te_writers_args env) 0))) z \<longrightarrow>
      reaches env (InProcess, s, sh, P(running s := init_spawns env)) z)"
proof -
  let ?w = "te_writers_args env" and ?r = "running s"
  have c: "calm s L" using m by (simp add: sems_made_def)
  from init_spawns_ten [OF c room n r a, of sh] obtain s3 L3 args c0 cs where
    t: "spawned 10 s L s3 L3" and cs: "L3 ReadyList = L ReadyList @ c0 # cs" "length cs = 9"
    and c0: "c0 \<noteq> ?r" "pcb_cpu_state (pcb s3 c0) = EntryContext (te_child env) (arg_addr ?w 0)" "pcb_last_sem_fd (pcb s3 c0) = 0" "pcb_pid (pcb s3 c0) = 1"
    and ar: "args (arg_addr ?w 0) = \<lparr>ca_sem_id = WRITER_CHILD, ca_number = 0\<rparr>"
    and u: "\<forall>P z. reaches env (InProcess, s3, sh\<lparr>child_args := args\<rparr>,
        P(?r := init_waits env (1 + (WRITERS_NUM - 1) + (READERS_NUM - 0)))) z \<longrightarrow>
      reaches env (InProcess, s, sh, P(?r := init_spawns env)) z" by (elim exE conjE) (rule that)
  note T = spawnedD [OF t]
  have r3: "running s3 = ?r" using T(2) .
  have m3: "sems_made s3 L3 m" by (rule sems_made_spawned [OF m t])
  obtain out where out: "disastrOS_printStatus s3 = Inr out" using holders_print m3 by (auto simp: sems_made_def)
  have "length (L3 (Children ?r)) \<noteq> 0" using T(6) by simp
  then have ch: "L3 (Children (running s3)) \<noteq> []" unfolding r3 by force
  have zl: "L3 ZombieList = []" using T(4) [of ZombieList] l(2) by simp
  have rl: "L3 ReadyList = c0 # cs" using cs(1) l(1) by simp
  from wait_step [OF T(1) ch zl rl, of "te_retval env"] obtain s4 where
    s4: "do_call (Wait 0 (te_retval env)) s3 = Inr (Trapped (ResumeProcess c0), s4)" "calm s4 (blocked s3 L3)"
      "running s4 = c0" "\<forall>k. pool_of s4 k = pool_of s3 k" "semdescriptor s4 = semdescriptor s3"
      "semdescriptorptr s4 = semdescriptorptr s3"
      "\<forall>m. sem_id (semaphore s4 m) = sem_id (semaphore s3 m) \<and> sem_count (semaphore s4 m) = sem_count (semaphore s3 m)"
      "\<forall>q. q \<noteq> running s3 \<longrightarrow> pcb_cpu_state (pcb s4 q) = pcb_cpu_state (pcb s3 q) \<and>
        pcb_last_sem_fd (pcb s4 q) = pcb_last_sem_fd (pcb s3 q) \<and> pcb_pid (pcb s4 q) = pcb_pid (pcb s3 q)"
    by (elim exE conjE) (rule that)
  have m4: "sems_made s4 (blocked s3 L3) m"
    by (rule sems_made_same [OF m3 s4(2,5,6) _ spec [OF s4(7)] spec [OF s4(4)] spec [OF s4(4)]]) (simp add: blocked_def)
  have f4: "pcb_cpu_state (pcb s4 c0) = EntryContext (te_child env) (arg_addr ?w 0)" "pcb_last_sem_fd (pcb s4 c0) = 0" "pcb_pid (pcb s4 c0) = 1"
    using s4(8) c0 r3 by simp_all
  let ?sh = "sh\<lparr>child_args := args\<rparr>" and ?alive = "1 + (WRITERS_NUM - 1) + (READERS_NUM - 0)"
  have wl: "\<exists>K. init_waits env ?alive = PrintStatus (Sys (Wait 0 (te_retval env)) K)"
    by (subst wait_loop.simps) (simp add: test_constants word_sless_alt)
  then obtain K where K: "init_waits env ?alive = PrintStatus (Sys (Wait 0 (te_retval env)) K)" by blast
  have en: "entry env (te_child env) (arg_addr ?w 0) = Some (childFunction env (arg_addr ?w 0))" using e by simp
  have "reaches env (InProcess, s, sh, P(?r := init_spawns env)) z"
    if z: "reaches env (InProcess, s4, ?sh, (P(?r := Result K))(running s4 := childFunction env (arg_addr ?w 0))) z" for z
  proof -
    have "reaches env (InProcess, s3, ?sh, P(?r := Sys (Wait 0 (te_retval env)) K)) z"
      using z by (intro reach_switch [OF r3 [symmetric] s4(1) f4(1) en]) (simp only: s4(3))
    then have "reaches env (InProcess, s3, ?sh, P(?r := PrintStatus (Sys (Wait 0 (te_retval env)) K))) z"
      by (rule reach_status [OF r3 [symmetric] out])
    then show ?thesis unfolding K [symmetric] by (rule u [rule_format])
  qed
  moreover have "blocked s3 L3 ReadyList \<noteq> []" using rl cs(2) by (cases cs) (simp_all add: blocked_def)
  moreover have "blocked s3 L3 WaitingList = [?r]" using T(4) [of WaitingList] l(3) r3 by (simp add: blocked_def)
  moreover have "blocked s3 L3 (SemDescriptors (running s4)) = []"
    using T(4) [of "SemDescriptors c0"] l(4) c0(1) s4(3) by (simp add: blocked_def)
  ultimately show ?thesis
    using m4 f4(2,3) s4(3) ar by (intro exI [of _ s4] exI [of _ "blocked s3 L3"] exI [of _ args] exI [of _ "P(?r := Result K)"] conjI allI impI) simp_all
qed

subsection \<open>The first writer\<close>

lemma take_two_updates: "2 \<le> length xs \<Longrightarrow> take 2 (xs[0 := n, 1 := n]) = [n, n]"
  by (cases xs; cases "tl xs") auto

lemma writer_runs:
  assumes sh: "child_args sh a = \<lparr>ca_sem_id = WRITER_CHILD, ca_number = n\<rparr>" "length (transactions sh) = 128" "write_index sh = 0"
    and out: "disastrOS_printStatus s = Inr out"
    and o: "do_call (OpenSemaphore WRITERS_SEM_ID 0 (te_no_count env)) s = Inr (Trapped (ResumeProcess (running s1)), s1)"
      "running s1 = running s" "pcb_cpu_state (pcb s1 (running s)) = SavedContext" "pcb_syscall_retvalue (pcb s1 (running s)) = 0"
    and r1: "do_call (WaitSemaphore 0) s1 = Inr (Trapped (ResumeProcess (running s2)), s2)" "running s2 = running s1"
      "pcb_syscall_retvalue (pcb s2 (running s1)) = 0" "pcb_cpu_state (pcb s2 (running s1)) = SavedContext"
      "do_call (PostSemaphore 0) s2 = Inr (Trapped (ResumeProcess (running s3)), s3)" "running s3 = running s1"
      "pcb_syscall_retvalue (pcb s3 (running s1)) = 0" "pcb_cpu_state (pcb s3 (running s1)) = SavedContext"
    and r2: "do_call (WaitSemaphore 0) s3 = Inr (Trapped (ResumeProcess (running s4)), s4)" "running s4 = running s3"
      "pcb_syscall_retvalue (pcb s4 (running s3)) = 0" "pcb_cpu_state (pcb s4 (running s3)) = SavedContext"
      "do_call (PostSemaphore 0) s4 = Inr (Trapped (ResumeProcess (running s5)), s5)" "running s5 = running s3"
      "pcb_syscall_retvalue (pcb s5 (running s3)) = 0" "pcb_cpu_state (pcb s5 (running s3)) = SavedContext"
  shows "\<exists>sh2 P2 k. reaches env (InProcess, s, sh, P(running s := childFunction env a)) (InProcess, s5, sh2, P2) \<and>
    write_index sh2 = 2 \<and> take 2 (transactions sh2) = [n, n] \<and> P2 (running s5) = writer_loop n 0 2 k"
proof -
  let ?r = "running s"
  let ?n = "\<lambda>sh. Inr (ca_number (child_args sh a))" and ?last = "GetPid (\<lambda>pid. Sys (Exit (pid + 1)) (\<lambda>_. Finish))"
  let ?k = "Sys (CloseSemaphore 0) (\<lambda>_. Load ?n (\<lambda>_. ?last))"
  let ?sh1 = "write_item n sh" and ?P = "\<lambda>i. P(?r := writer_loop n 0 i ?k)"
  let ?z = "(InProcess, s5, write_item n ?sh1, ?P (1 + 1))"
  have sh1: "length (transactions ?sh1) = 128" "write_index ?sh1 = 1" "write_index (write_item n ?sh1) = 2"
    using sh by (simp_all add: write_item_def)
  have two: "take 2 (transactions (write_item n ?sh1)) = [n, n]"
    using sh take_two_updates [of "transactions sh" n] by (simp add: write_item_def)
  have rs: "running s3 = ?r" "running s5 = ?r" using o(2) r1(6) r2(6) by simp_all
  have i: "(0 :: cint) <s 100" "(1 :: cint) <s 100" by (simp_all add: word_sless_alt)
  have "reaches env (InProcess, s3, ?sh1, ?P 1) ?z"
    using writer_round [OF i(2) sh1(1) _ _ r2(1-4) r2(5-8), where no = n and env = env and P = P and k = ?k and z = ?z] sh1(2) unfolding rs(1) by simp
  then have "reaches env (InProcess, s1, sh, ?P 0) ?z"
    using writer_round [OF i(1) sh(2) _ _ r1(1-4) r1(5-8), where no = n and env = env and P = P and k = ?k and z = ?z] sh(3) unfolding o(2) by simp
  then have "reaches env (InProcess, s, sh, P(?r := writerJob env n (Load ?n (\<lambda>_. ?last)))) ?z"
    unfolding writerJob_def using o(2-4) by (intro reach_call [OF refl o(1)]) simp_all
  then have "reaches env (InProcess, s, sh, P(?r := Load ?n (\<lambda>n. writerJob env n (Load ?n (\<lambda>_. ?last))))) ?z"
    by (intro reach_load [OF refl refl]) (simp add: sh(1))
  then have "reaches env (InProcess, s, sh, P(?r := childFunction env a)) ?z"
    unfolding childFunction_def Let_def using sh(1)
    by (intro reach_status [OF refl out] reach_load [OF refl refl]) (simp add: test_constants, rule reach_load [OF refl refl], simp)
  with sh1(3) two show ?thesis
    by (intro exI [of _ "write_item n ?sh1"] exI [of _ "?P (1 + 1)"] exI [of _ ?k]) (simp add: rs(2))
qed

lemma first_writer:
  assumes m: "sems_made s L m" and l: "L ReadyList \<noteq> []" "L (SemDescriptors (running s)) = []" "L WaitingList = [q]"
    and fd: "pcb_last_sem_fd (pcb s (running s)) = 0"
    and sh: "child_args sh a = \<lparr>ca_sem_id = WRITER_CHILD, ca_number = n\<rparr>" "length (transactions sh) = 128" "write_index sh = 0"
  shows "\<exists>s2 sh2 P2 k. reaches env (InProcess, s, sh, P(running s := childFunction env a)) (InProcess, s2, sh2, P2) \<and>
    write_index sh2 = 2 \<and> take 2 (transactions sh2) = [n, n] \<and> P2 (running s2) = writer_loop n 0 2 k \<and>
    pcb_pid (pcb s2 (running s2)) = pcb_pid (pcb s (running s)) \<and> q \<noteq> running s2 \<and> links_of s2 PCB_item (running s2) = \<lparr>li_prev = running s2, li_next = running s2\<rparr> \<and>
    lh_last (ready_list s2) = running s2 \<and> lh_first (waiting_list s2) = q \<and> lh_size (waiting_list s2) = 0 \<and>
    (\<forall>L. \<not> core_ok s2 L)"
proof -
  let ?r = "running s"
  have c: "calm s L" "holders_ok s L" "sem_named s L WRITERS_SEM_ID = m" "m \<noteq> NULL" "sem_count (semaphore s m) = 0"
      "room s SemDescriptor_item 2" "room s SemDescriptorPtr_item 2" "(2 :: nat) < 1024"
    using m by (simp_all add: sems_made_def)
  from open_step [OF c(1,3,4,6-8), of "te_no_count env"] obtain s1 d w where
    o: "do_call (OpenSemaphore WRITERS_SEM_ID 0 (te_no_count env)) s = Inr (Trapped (ResumeProcess (running s1)), s1)"
      "calm s1 (sem_opened s L m d w)" "opened_step s s1 m d w"
      "\<forall>k. sem_id (semaphore s1 k) = sem_id (semaphore s k) \<and> sem_count (semaphore s1 k) = sem_count (semaphore s k)"
    by (elim exE conjE) (rule that)
  let ?L = "sem_opened s L m d w"
  have f: "running s1 = ?r" "pcb_cpu_state (pcb s1 ?r) = SavedContext" "pcb_syscall_retvalue (pcb s1 ?r) = 0"
      "pool_shapes s1 = pool_shapes s" "live s1 SemDescriptorPtr_item = insert w (live s SemDescriptorPtr_item)"
      "sd_semaphore (semdescriptor s1 d) = m" "sd_fd (semdescriptor s1 d) = 0"
    using o(3) fd unfolding opened_step_def by simp_all
  have L: "?L (SemDescriptors ?r) = [d]" "?L ReadyList = L ReadyList" "?L WaitingList = [q]"
    using l by (simp_all add: sem_opened_def)
  have d: "d \<noteq> NULL" using core_nonnull [OF calmD(3) [OF o(2)], of d "SemDescriptors ?r"] L(1) by simp
  have fdd: "sem_of_fd s1 ?L 0 = d" using L(1) f(1,7) by simp
  have n1: "sem_count (semaphore s1 m) = 0" using o(4) c(5) by simp
  have "room s1 SemDescriptorPtr_item 3" using room_insert [OF c(7) f(5,4)] by (simp add: eval_nat_numeral)
  moreover have "(3 :: nat) < 1024" by simp
  ultimately have rm: "room s1 SemDescriptorPtr_item 3" "(3 :: nat) < 1024" by blast+
  from round_one [OF o(2) fdd d f(6) n1 rm] obtain s2 s3 where
    r1: "do_call (WaitSemaphore 0) s1 = Inr (Trapped (ResumeProcess (running s2)), s2)" "running s2 = running s1"
      "pcb_syscall_retvalue (pcb s2 (running s1)) = 0" "pcb_cpu_state (pcb s2 (running s1)) = SavedContext"
      "do_call (PostSemaphore 0) s2 = Inr (Trapped (ResumeProcess (running s3)), s3)" "running s3 = running s1"
      "pcb_syscall_retvalue (pcb s3 (running s1)) = 0" "pcb_cpu_state (pcb s3 (running s1)) = SavedContext"
    and q1: "core_ok s3 (?L(ReadyList := ?L ReadyList @ [running s1]))" "sem_ok s3 (?L(ReadyList := ?L ReadyList @ [running s1]))"
      "booted s3" "sem_count (semaphore s3 m) = 0" "semdescriptor s3 = semdescriptor s1" "live s3 PCB_item = live s1 PCB_item"
      "room s3 SemDescriptorPtr_item (Suc 3)" by (elim exE conjE) (rule that)
  let ?M = "?L(ReadyList := ?L ReadyList @ [running s1])"
  have rl: "running s3 \<in> live s3 PCB_item" using calmD(7) [OF o(2)] r1(6) q1(6) by simp
  have fdd3: "sem_of_fd s3 ?M 0 = d" and m3: "sd_semaphore (semdescriptor s3 d) = m"
    using L(1) f(1,6,7) r1(6) q1(5) by simp_all
  have "?L (SemWaiting m) = []" using calmD(10) [OF o(2)] by (simp add: sems_free_def)
  then have M: "?M ReadyList = L ReadyList @ [running s3]" "?M (SemWaiting m) = []" "?M WaitingList = [q]"
    using r1(6) L by simp_all
  have "(Suc 3 :: nat) < 1024" by simp
  from round_two [OF q1(1-3) rl fdd3 d m3 q1(4,7) this M(1) l(1) M(2)] obtain s4 s5 where
    r2: "do_call (WaitSemaphore 0) s3 = Inr (Trapped (ResumeProcess (running s4)), s4)" "running s4 = running s3"
      "pcb_syscall_retvalue (pcb s4 (running s3)) = 0" "pcb_cpu_state (pcb s4 (running s3)) = SavedContext"
      "do_call (PostSemaphore 0) s4 = Inr (Trapped (ResumeProcess (running s5)), s5)" "running s5 = running s3"
      "pcb_syscall_retvalue (pcb s5 (running s3)) = 0" "pcb_cpu_state (pcb s5 (running s3)) = SavedContext"
    and q2: "links_of s5 PCB_item (running s3) = \<lparr>li_prev = running s3, li_next = running s3\<rparr>"
      "lh_last (ready_list s5) = running s3" "waiting_list s5 = (waiting_list s3)\<lparr>lh_size := lh_size (waiting_list s3) - 1\<rparr>"
      "\<forall>L. \<not> core_ok s5 L" by (elim exE conjE) (rule that)
  have "dlist (links_of s3 PCB_item) (waiting_list s3) [q]"
    using core_klist [OF q1(1), of WaitingList] M(3) by (simp add: klist_def)
  then have wl: "lh_first (waiting_list s5) = q" "lh_size (waiting_list s5) = 0"
    unfolding q2(3) by (simp_all add: dlist_def)
  obtain out where out: "disastrOS_printStatus s = Inr out" using holders_print [OF c(1,2)] by blast
  have rs: "running s1 = ?r" "running s2 = ?r" "running s3 = ?r" "running s4 = ?r" "running s5 = ?r"
    using f(1) r1(2,6) r2(2,6) by simp_all
  have nn: "?r \<noteq> NULL" by (rule calmD(8) [OF c(1)])
  have en: "call_entry (OpenSemaphore WRITERS_SEM_ID 0 (te_no_count env)) =
        (DSOS_CALL_SEMOPEN, internal_semOpen_h, [scast WRITERS_SEM_ID, scast (0 :: cint), scast (te_no_count env)])"
      "call_entry (WaitSemaphore 0) = (DSOS_CALL_SEMWAIT, internal_semWait_h, [scast (0 :: cint)])"
      "call_entry (PostSemaphore 0) = (DSOS_CALL_SEMPOST, internal_semPost_h, [scast (0 :: cint)])" by simp_all
  note k1 = call_keeps_pids [OF calmD(9) [OF c(1)] nn o(1) en(1)]
  note k2 = call_keeps_pids [OF k1(1) _ r1(1) en(2)]
  note k3 = call_keeps_pids [OF k2(1) _ r1(5) en(3)]
  note k4 = call_keeps_pids [OF k3(1) _ r2(1) en(2)]
  note k5 = call_keeps_pids [OF k4(1) _ r2(5) en(3)]
  have pid: "pcb_pid (pcb s5 ?r) = pcb_pid (pcb s ?r)"
    using k1(2) k2(2) k3(2) k4(2) k5(2) nn by (simp add: rs)
  have "q \<noteq> ?r" using idleD(3) [OF calmD(2) [OF c(1)], of WaitingList] l(3) by auto
  with writer_runs [OF sh out o(1) f(1-3) r1 r2, of P] q2 [unfolded rs] wl pid rs(5) show ?thesis by fastforce
qed

lemma init_runs:
  assumes s1: "calm s1 (\<lambda>_. [])" "last_pid s1 = 1" "pcb_last_sem_fd (pcb s1 (running s1)) = 0" "live s1 PCB_item = {running s1}"
      "room s1 PCB_item 1" "\<forall>k. k \<noteq> PCB_item \<longrightarrow> fresh (pool_of s1 k)"
    and e: "te_child env \<noteq> te_init env"
    and a: "\<forall>j. 0 \<le> sint j \<longrightarrow> sint j < 5 \<longrightarrow> arg_addr (te_readers_args env) j \<noteq> arg_addr (te_writers_args env) 0"
  shows "\<exists>s L m sh P. sems_made s L m \<and> L ReadyList \<noteq> [] \<and> L (SemDescriptors (running s)) = [] \<and>
    L WaitingList = [running s1] \<and> pcb_last_sem_fd (pcb s (running s)) = 0 \<and> pcb_pid (pcb s (running s)) = 1 \<and>
    child_args sh (arg_addr (te_writers_args env) 0) = \<lparr>ca_sem_id = WRITER_CHILD, ca_number = 0\<rparr> \<and>
    transactions sh = transactions sh1 \<and> write_index sh = write_index sh1 \<and>
    (\<forall>z. reaches env (InProcess, s, sh, P(running s := childFunction env (arg_addr (te_writers_args env) 0))) z \<longrightarrow>
      reaches env (InProcess, s1, sh1, (\<lambda>_. Finish)(running s1 := initFunction env)) z)"
proof -
  let ?a = "arg_addr (te_writers_args env) 0"
  have "room s1 k 0" if "k \<noteq> PCB_item" for k using room_fresh s1(6) that by blast
  then have room: "room s1 Semaphore_item 0" "room s1 SemDescriptor_item 0" "room s1 SemDescriptorPtr_item 0"
      "room s1 PCBPtr_item 0" by blast+
  from init_opens [OF s1(1,3) room(1-3), of env] obtain s2 L2 m where
    s2: "sems_made s2 L2 m" "running s2 = running s1" "last_pid s2 = last_pid s1"
      "pool_of s2 PCB_item = pool_of s1 PCB_item" "pool_of s2 PCBPtr_item = pool_of s1 PCBPtr_item"
      "\<forall>l. l \<noteq> SemaphoresList \<longrightarrow> l \<noteq> SemDescriptors (running s1) \<longrightarrow> (\<forall>m. l \<noteq> SemDescs m) \<longrightarrow> L2 l = []"
    and u2: "\<forall>sh P z. reaches env (InProcess, s2, sh\<lparr>mutex_sem := 0, write_sem := 1\<rparr>, P(running s1 := init_spawns env)) z \<longrightarrow>
      reaches env (InProcess, s1, sh, P(running s1 := initFunction env)) z" by (elim exE conjE) (rule that)
  note z2 = u2 [rule_format]
  let ?sh2 = "sh1\<lparr>mutex_sem := 0, write_sem := 1\<rparr>"
  have r2: "room s2 PCB_item 1" "room s2 PCBPtr_item 0" "last_pid s2 = 1" "running s2 \<in> live s2 PCB_item"
    using room_same [OF s1(5) s2(4)] room_same [OF room(4) s2(5)] s1(2,4) s2(2-4) by simp_all
  have l2: "L2 ReadyList = []" "L2 ZombieList = []" "L2 WaitingList = []"
      "\<forall>p. p \<noteq> running s2 \<longrightarrow> L2 (SemDescriptors p) = []"
    by (intro allI impI s2(6) [rule_format]; simp add: s2(2))+
  from init_switches [OF s2(1) r2(1-3) l2 e r2(4) a, of ?sh2 "\<lambda>_. Finish"] obtain s3 L3 args P3 where
    s3: "sems_made s3 L3 m" "L3 ReadyList \<noteq> []" "L3 (SemDescriptors (running s3)) = []" "pcb_last_sem_fd (pcb s3 (running s3)) = 0"
      "pcb_pid (pcb s3 (running s3)) = 1" "L3 WaitingList = [running s2]" "args ?a = \<lparr>ca_sem_id = WRITER_CHILD, ca_number = 0\<rparr>"
    and u3: "\<forall>z. reaches env (InProcess, s3, ?sh2\<lparr>child_args := args\<rparr>, P3(running s3 := childFunction env ?a)) z \<longrightarrow>
      reaches env (InProcess, s2, ?sh2, (\<lambda>_. Finish)(running s2 := init_spawns env)) z" by (elim exE conjE) (rule that)
  note z3 = u3 [rule_format]
  note z = z2 [OF z3 [unfolded s2(2)]]
  show ?thesis
    using s3 z unfolding s2(2) by (intro exI [of _ s3] exI [of _ L3] exI [of _ m] exI [of _ "?sh2\<lparr>child_args := args\<rparr>"] exI [of _ P3] conjI allI impI)
      simp_all
qed

lemma program_breaks:
  assumes "static_ok st" and "zeroed s0" and "length (transactions sh0) = 128" and "te_child env \<noteq> te_init env"
    and "\<forall>j. 0 \<le> sint j \<longrightarrow> sint j < 5 \<longrightarrow> arg_addr (te_readers_args env) j \<noteq> arg_addr (te_writers_args env) 0"
  shows "\<exists>s1 sh1 P1 s sh P k. test_main st env s0 sh0 = Inr (InProcess, s1, sh1, P1) \<and>
    (process_step env)\<^sup>*\<^sup>* (InProcess, s1, sh1, P1) (InProcess, s, sh, P) \<and>
    pcb_pid (pcb s (running s)) = 1 \<and> P (running s) = writer_loop 0 0 2 k \<and>
    write_index sh = 2 \<and> take 2 (transactions sh) = [0, 0] \<and>
    lh_last (ready_list s) = running s \<and> links_of s PCB_item (running s) = \<lparr>li_prev = running s, li_next = running s\<rparr> \<and>
    init_pcb s \<noteq> NULL \<and> init_pcb s \<noteq> running s \<and> lh_first (waiting_list s) = init_pcb s \<and>
    lh_size (waiting_list s) = 0 \<and> (\<forall>L. \<not> core_ok s L)"
proof -
  let ?sh = "sh0\<lparr>write_index := 0, read_index := 0\<rparr>" and ?a = "arg_addr (te_writers_args env) 0"
  from test_main_starts [OF assms(1,2), of env sh0] obtain s1 where
    s1: "test_main st env s0 sh0 = Inr (InProcess, s1, ?sh, (\<lambda>_. Finish)(running s1 := initFunction env))" "calm s1 (\<lambda>_. [])"
      "last_pid s1 = 1" "pcb_last_sem_fd (pcb s1 (running s1)) = 0" "live s1 PCB_item = {running s1}" "room s1 PCB_item 1"
      "\<forall>k. k \<noteq> PCB_item \<longrightarrow> fresh (pool_of s1 k)" and i1: "init_pcb s1 = running s1" by (elim exE conjE) (rule that)
  let ?x = "(InProcess, s1, ?sh, (\<lambda>_. Finish)(running s1 := initFunction env))"
  from init_runs [OF s1(2-7) assms(4,5), of ?sh] obtain s2 L2 m sh2 P2 where
    s2: "sems_made s2 L2 m" "L2 ReadyList \<noteq> []" "L2 (SemDescriptors (running s2)) = []" "L2 WaitingList = [running s1]"
      "pcb_last_sem_fd (pcb s2 (running s2)) = 0" and p2: "pcb_pid (pcb s2 (running s2)) = 1"
    and sh: "child_args sh2 ?a = \<lparr>ca_sem_id = WRITER_CHILD, ca_number = 0\<rparr>"
      "transactions sh2 = transactions ?sh" "write_index sh2 = write_index ?sh"
    and u2: "\<forall>z. reaches env (InProcess, s2, sh2, P2(running s2 := childFunction env ?a)) z \<longrightarrow> reaches env ?x z"
    by (elim exE conjE) (rule that)
  have "length (transactions sh2) = 128" "write_index sh2 = 0" using sh(2,3) assms(3) by simp_all
  from first_writer [OF s2(1-5) sh(1) this, of env P2, unfolded p2] obtain s sh P k where
    run: "reaches env (InProcess, s2, sh2, P2(running s2 := childFunction env ?a)) (InProcess, s, sh, P)"
    and e: "write_index sh = 2" "take 2 (transactions sh) = [0, 0]" "P (running s) = writer_loop 0 0 2 k"
      "pcb_pid (pcb s (running s)) = 1" "running s1 \<noteq> running s"
      "links_of s PCB_item (running s) = \<lparr>li_prev = running s, li_next = running s\<rparr>"
      "lh_last (ready_list s) = running s" "lh_first (waiting_list s) = running s1" "lh_size (waiting_list s) = 0"
      "\<forall>L. \<not> core_ok s L" by (elim exE conjE) (rule that)
  note whole = u2 [rule_format, OF run]
  have "init_pcb s = running s1" using process_run_init [OF whole] i1 by simp
  moreover have "running s1 \<noteq> NULL" by (rule calmD(8) [OF s1(2)])
  ultimately have i: "init_pcb s \<noteq> NULL" "init_pcb s \<noteq> running s" "lh_first (waiting_list s) = init_pcb s"
    using e(5,8) by simp_all
  show ?thesis
    by (intro exI conjI, rule s1(1), rule whole, rule e(4), rule e(3), rule e(1), rule e(2), rule e(7), rule e(6),
      rule i(1), rule i(2), rule i(3), rule e(9), rule e(10))
qed

text \<open>
  C7: the readers and writers program breaks the kernel without being interrupted. Started on zeroed
  memory it reaches, by steps of its processes alone (no timer interrupt, no return to the main
  context), a state in which the process with pid 1, which is the first writer, has done two rounds of
  its loop and is about to begin the third: it has written its number 0 into the first two slots of the
  buffer and come back from its second post. In this state it is the last process of the ready list,
  and is linked to itself in both directions; init, another process, is still the first of the waiting
  list, whose size is 0; and no contents of the lists make the lists of the kernel well formed.
\<close>

theorem test_program_breaks_lists:
  assumes "static_ok st" and "zeroed s0" and "length (transactions sh0) = 128" and "te_child env \<noteq> te_init env"
    and "\<forall>j. 0 \<le> sint j \<longrightarrow> sint j < 5 \<longrightarrow> arg_addr (te_readers_args env) j \<noteq> arg_addr (te_writers_args env) 0"
  shows "\<exists>s1 sh1 P1 s sh P k. test_main st env s0 sh0 = Inr (InProcess, s1, sh1, P1) \<and>
    (process_step env)\<^sup>*\<^sup>* (InProcess, s1, sh1, P1) (InProcess, s, sh, P) \<and>
    pcb_pid (pcb s (running s)) = 1 \<and> P (running s) = writer_loop 0 0 2 k \<and>
    write_index sh = 2 \<and> take 2 (transactions sh) = [0, 0] \<and>
    lh_last (ready_list s) = running s \<and> links_of s PCB_item (running s) = \<lparr>li_prev = running s, li_next = running s\<rparr> \<and>
    init_pcb s \<noteq> NULL \<and> init_pcb s \<noteq> running s \<and> lh_first (waiting_list s) = init_pcb s \<and>
    lh_size (waiting_list s) = 0 \<and> (\<forall>L. \<not> core_ok s L)"
  using assms by (rule program_breaks)

text \<open>An example: the addresses of the functions and of the arguments on the stack of init.\<close>

definition ex_env :: test_env where
  "ex_env = \<lparr>te_init = 0x400000, te_child = 0x400100, te_writers_args = 0x10000, te_readers_args = 0x10028,
     te_retval = 0x10050, te_no_count = 0\<rparr>"

definition ex_shared :: shared where
  "ex_shared = \<lparr>transactions = replicate 128 0, read_index = 0, write_index = 0, write_sem = 0, mutex_sem = 0,
     readcount = 0, child_args = (\<lambda>_. \<lparr>ca_sem_id = 0, ca_number = 0\<rparr>)\<rparr>"

lemma ex_program:
  "length (transactions ex_shared) = 128" "te_child ex_env \<noteq> te_init ex_env"
  "\<forall>j. 0 \<le> sint j \<longrightarrow> sint j < 5 \<longrightarrow> arg_addr (te_readers_args ex_env) j \<noteq> arg_addr (te_writers_args ex_env) 0"
proof -
  show "length (transactions ex_shared) = 128" "te_child ex_env \<noteq> te_init ex_env"
    by (simp_all add: ex_shared_def ex_env_def)
  show "\<forall>j. 0 \<le> sint j \<longrightarrow> sint j < 5 \<longrightarrow> arg_addr (te_readers_args ex_env) j \<noteq> arg_addr (te_writers_args ex_env) 0"
  proof (intro allI impI)
    fix j :: cint
    assume "0 \<le> sint j" "sint j < 5"
    then have "sint j = sint (0 :: cint) \<or> sint j = sint (1 :: cint) \<or> sint j = sint (2 :: cint) \<or>
        sint j = sint (3 :: cint) \<or> sint j = sint (4 :: cint)" by simp linarith
    then have "j \<in> {0, 1, 2, 3, 4}" using sint_inj [of j] by blast
    then show "arg_addr (te_readers_args ex_env) j \<noteq> arg_addr (te_writers_args ex_env) 0"
      by (auto simp: arg_addr_def ex_env_def)
  qed
qed

theorem test_program_breaks_lists_witness:
  "\<exists>s1 sh1 P1 s sh P. test_main ex_static ex_env ex_zero ex_shared = Inr (InProcess, s1, sh1, P1) \<and>
    (process_step ex_env)\<^sup>*\<^sup>* (InProcess, s1, sh1, P1) (InProcess, s, sh, P) \<and>
    pcb_pid (pcb s (running s)) = 1 \<and> write_index sh = 2 \<and> lh_size (waiting_list s) = 0 \<and> (\<forall>L. \<not> core_ok s L)"
  using test_program_breaks_lists [OF ex_static_ok ex_zeroed ex_program]
  by (elim exE conjE) (intro exI conjI, assumption+)

theorem test_accesses_in_bounds_witness:
  "\<exists>x s sh P. test_main ex_static ex_env ex_zero ex_shared = Inr x \<and> (test_step ex_env)\<^sup>*\<^sup>* x (InProcess, s, sh, P) \<and>
    write_index sh = 2 \<and> 0 \<le> sint (read_index sh) \<and> sint (read_index sh) < 128 \<and> length (transactions sh) = 128"
proof -
  obtain s1 sh1 P1 s sh P where run: "test_main ex_static ex_env ex_zero ex_shared = Inr (InProcess, s1, sh1, P1)"
      "(process_step ex_env)\<^sup>*\<^sup>* (InProcess, s1, sh1, P1) (InProcess, s, sh, P)" "write_index sh = 2"
    using program_breaks [OF ex_static_ok ex_zeroed ex_program] by (elim exE conjE) (rule that)
  note run2 = process_run [OF run(2)]
  from run(1,3) run2 test_accesses_in_bounds [OF run(1) ex_program(1) run2, of NULL] show ?thesis by blast
qed

subsection \<open>A typed run\<close>

text \<open>
  Calls of init that make lists of children, of descriptors and of holders non-empty, for the typing of
  the memory: it opens a new semaphore and spawns a child.
\<close>

lemma call_step_safe:
  assumes "do_call c s = Inr (Trapped (ResumeProcess p), s')" and "safe s (Call c)"
  shows "safe_step (InProcess, s) (InProcess, s')"
  using sys_step.call [OF assms(1)] assms(2) by (intro safe_stepI [of _ "Call c"]) simp_all

lemma typed_first:
  assumes t: "\<forall>l\<in>heads s. \<exists>xs. dlist (links_of s (kind_of l)) (head_of s l) xs \<and> set xs \<subseteq> live s (kind_of l) \<and>
      (\<forall>x\<in>set xs. typed_item s l x)"
    and l: "l \<in> heads s" and c: "core_ok s L" "L l \<noteq> []"
  shows "lh_first (head_of s l) \<in> live s (kind_of l)" and "typed_item s l (lh_first (head_of s l))"
proof -
  from t l obtain xs where xs: "dlist (links_of s (kind_of l)) (head_of s l) xs" "set xs \<subseteq> live s (kind_of l)"
      "\<forall>x\<in>set xs. typed_item s l x" by blast
  have "xs = L l" using dlist_unique [OF xs(1)] core_klist [OF c(1) l] by (simp add: klist_def)
  with c(2) have "xs \<noteq> []" by simp
  then obtain x ys where x: "xs = x # ys" by (cases xs) simp_all
  from dlist_first [OF xs(1) [unfolded x]] x have "lh_first (head_of s l) \<in> set xs" by simp
  with xs(2,3) show "lh_first (head_of s l) \<in> live s (kind_of l)" "typed_item s l (lh_first (head_of s l))" by blast+
qed

lemma ex_typed_run:
  "\<exists>s0 r t L. disastrOS_start ex_static 7 8 ex_zero = Inr (Some (r, s0)) \<and>
    safe_step\<^sup>*\<^sup>* (InProcess, s0) (InProcess, t) \<and> core_ok t L \<and> running t \<in> live t PCB_item \<and>
    L (SemDescriptors (running t)) \<noteq> [] \<and> L (Children (running t)) \<noteq> []"
proof -
  from disastrOS_start_done [OF ex_static_ok ex_zeroed, of 7 8] obtain r s0 where
    s0: "disastrOS_start ex_static 7 8 ex_zero = Inr (Some (r, s0))" "calm s0 (\<lambda>_. [])" "last_pid s0 = 1"
      "live s0 PCB_item = {running s0}" "card (spare s0 PCB_item) = 1023" "\<forall>k. k \<noteq> PCB_item \<longrightarrow> fresh (pool_of s0 k)"
    unfolding calm_def by blast
  have rf: "room s0 k 0" if "k \<noteq> PCB_item" for k using room_fresh s0(6) that by blast
  have "running s0 \<notin> spare s0 PCB_item" using spare_not_live [OF calmD(3) [OF s0(2)]] s0(4) by blast
  moreover have "finite (spare s0 PCB_item)" using s0(5) card.infinite by fastforce
  ultimately have rp: "room s0 PCB_item 1" using s0(4,5) by (simp add: room_def)
  have n: "sem_named s0 (\<lambda>_. []) 5 = NULL" "0 \<le> sint (1 :: cint)" "(0 :: nat) < 1024" by simp_all
  from create_step [OF s0(2) n(1,2) rf rf rf n(3,3)] obtain s1 m d w where
    s1: "do_call (OpenSemaphore 5 (DSOS_CREATE OR DSOS_EXCL) 1) s0 = Inr (Trapped (ResumeProcess (running s1)), s1)"
      "calm s1 (sem_opened s0 (sem_listed (\<lambda>_. []) m) m d w)" "opened_step s0 s1 m d w" by blast
  let ?L1 = "sem_opened s0 (sem_listed (\<lambda>_. []) m) m d w"
  have f1: "running s1 = running s0" "last_pid s1 = last_pid s0" "pool_of s1 PCB_item = pool_of s0 PCB_item"
      "pool_of s1 PCBPtr_item = pool_of s0 PCBPtr_item" using s1(3) unfolding opened_step_def by blast+
  have rm: "room s1 PCB_item 1" "room s1 PCBPtr_item 1" "(1 :: nat) < 1024" "last_pid s1 \<noteq> 0x7FFFFFFF"
    using room_same [OF rp f1(3)] room_mono [OF room_same [OF rf f1(4)]] f1(2) s0(3) by simp_all
  from spawn_step [OF s1(2) rm, of 9 0] obtain t L where
    t: "do_call (Spawn 9 0) s1 = Inr (Trapped (ResumeProcess (running t)), t)" "spawned 1 s1 ?L1 t L" by blast
  have "safe_step (InProcess, s0) (InProcess, s1)"
    by (rule call_step_safe [OF s1(1)]) (simp add: entered_fields ucast_scast word_sle_eq)
  moreover have "safe_step (InProcess, s1) (InProcess, t)"
    by (rule call_step_safe [OF t(1)]) (use rm(4) in \<open>simp add: entered_fields\<close>)
  ultimately have "safe_step\<^sup>*\<^sup>* (InProcess, s0) (InProcess, t)" by (meson rtranclp.rtrancl_into_rtrancl r_into_rtranclp)
  moreover have "L (SemDescriptors (running t)) \<noteq> []"
    using spawnedD(2) [OF t(2)] spawnedD(4) [OF t(2), of "SemDescriptors (running s1)"] f1(1) by (simp add: sem_opened_def)
  moreover have "L (Children (running t)) \<noteq> []" using spawnedD(2,6) [OF t(2)] by force
  ultimately show ?thesis using s0(1) calmD(3,7) [OF spawnedD(1) [OF t(2)]] by blast
qed

theorem runs_keep_types_witness:
  "\<exists>s0 r t d q. disastrOS_start ex_static 7 8 ex_zero = Inr (Some (r, s0)) \<and>
    safe_step\<^sup>*\<^sup>* (InProcess, s0) (InProcess, t) \<and>
    d = lh_first (pcb_sem_descriptors (pcb t (running t))) \<and> d \<in> live t SemDescriptor_item \<and>
    sd_pcb (semdescriptor t d) = running t \<and> sd_semaphore (semdescriptor t d) \<in> live t Semaphore_item \<and>
    q = lh_first (pcb_children (pcb t (running t))) \<and> q \<in> live t PCBPtr_item \<and> pp_pcb (pcbptr t q) \<in> live t PCB_item"
proof -
  obtain s0 r t L where run: "disastrOS_start ex_static 7 8 ex_zero = Inr (Some (r, s0))"
      "safe_step\<^sup>*\<^sup>* (InProcess, s0) (InProcess, t)"
    and L: "core_ok t L" "running t \<in> live t PCB_item" "L (SemDescriptors (running t)) \<noteq> []" "L (Children (running t)) \<noteq> []"
    using ex_typed_run by blast
  have h: "SemDescriptors (running t) \<in> heads t" "Children (running t) \<in> heads t" using L(2) by (simp_all add: heads_def)
  note ty = runs_keep_types [OF ex_static_ok ex_zeroed run, THEN conjunct2, THEN conjunct2, THEN conjunct2, THEN conjunct2]
  from typed_first [OF ty h(1) L(1,3)] typed_first [OF ty h(2) L(1,4)] run show ?thesis
    by (simp del: pool_of.simps) blast
qed

end
