(* ===== verification/Spec2Isabelle.thy ===== *)
theory Spec2Isabelle
  imports Printing Semaphore_Hazard Kernel_Faults Kernel_Report Readers_Writers_Breaks
begin

text \<open>
  disastrOS: an operating system kernel in user space, written in C (\<open>src/src\<close>). Processes are
  functions that run on stacks of their own and enter the kernel through \<open>disastrOS_syscall\<close>; a
  timer signal enters it through \<open>timerHandler\<close>. All objects of the kernel come from static pools
  and are chained in intrusive doubly linked lists.

  \<^bold>\<open>Parts of the program and theories.\<close>

  \<^item> \<open>linked_list.c\<close>: \<open>Linked_List\<close>. Functions on a memory of links (\<open>list_mem\<close>) and a list head.
    \<open>dlist m h xs\<close> says that the head \<open>h\<close> represents the list \<open>xs\<close> of addresses; the locale
    \<open>list_store\<close> states what a client may rely on when several lists share items.
  \<^item> \<open>pool_allocator.c\<close>: \<open>Pool_Allocator\<close>. The pool as a record with \<open>int\<close> fields at 32 bits and the
    chain of free blocks as an array of \<open>int\<close>; a locale for its contract (blocks in use and free
    blocks) is interpreted on it.
  \<^item> The structs, constants and globals (\<open>disastrOS_constants.h\<close>, \<open>disastrOS_pcb.h\<close>, the other
    headers and the globals of \<open>disastrOS.c\<close>): \<open>Kernel_State\<close>. The record \<open>kernel\<close> has one arena
    per struct type (fields and links by address, and the pool) and the globals. \<open>list_loc\<close> names
    the place of a list head. \<open>Kernel_Lists\<close> and \<open>Kernel_Inv\<close> lift the lists and the pools to the
    kernel: \<open>core_ok s L\<close> says that in the state \<open>s\<close> every list head \<open>l\<close> represents the list \<open>L l\<close>
    of blocks in use and that no item is in two lists.
  \<^item> \<open>disastrOS_pcb.c\<close>: \<open>Pcb\<close>; \<open>disastrOS_timer.c\<close>: \<open>Timer\<close>; \<open>disastrOS_schedule.c\<close>,
    \<open>disastrOS_preempt.c\<close>, \<open>disastrOS_sleep.c\<close> and the interrupt of \<open>disastrOS.c\<close>: \<open>Scheduler\<close>.
  \<^item> \<open>disastrOS_fork.c\<close>, \<open>disastrOS_spawn.c\<close>, \<open>disastrOS_wait.c\<close>, \<open>disastrOS_exit.c\<close>,
    \<open>disastrOS_shutdown.c\<close>: \<open>Process_Calls\<close>, with the properties of wait in \<open>Process_Wait\<close> and of
    exit in \<open>Process_Exit\<close>.
  \<^item> \<open>disastrOS_resource.c\<close>, \<open>disastrOS_descriptor.c\<close>: \<open>Resource\<close>; the three calls on resources:
    \<open>Resource_Calls\<close>.
  \<^item> \<open>disastrOS_semaphore.c\<close>, \<open>disastrOS_semdescriptor.c\<close>: \<open>Semaphore\<close>; the four calls on
    semaphores: \<open>Semaphore_Calls\<close>, with the properties of opening and closing in \<open>Semaphore_Open\<close>.
  \<^item> \<open>disastrOS.c\<close>: \<open>Kernel\<close> has the start, the trap and the functions that processes call;
    \<open>Kernel_Trap\<close> the properties of the dispatch; \<open>Semaphore_Hazard\<close> what a wait on a semaphore that
    is not free leads to at the next preemption.
  \<^item> The whole system: \<open>Kernel_Frame\<close> shows what each handler leaves alone; \<open>Kernel_Safe\<close> has the
    invariant of the kernel and its preservation by every handler; \<open>Kernel_Start\<close> the start on
    zeroed memory; \<open>Kernel_Runs\<close> the step relation of the system and its runs; \<open>Kernel_Holders\<close> that the
    items in the lists of resources and semaphores lead to descriptors in use; \<open>Kernel_Types\<close> where
    the pointers of the objects lead in safe runs (a recorded parent or owner may be gone);
    \<open>Kernel_Faults\<close> the faults that remain.
  \<^item> The printing functions of all tables and \<open>disastrOS_printStatus\<close>: \<open>Printing\<close>, as the text they
    write; \<open>Kernel_Report\<close> shows that in the runs of the system the report never follows a null pointer.
  \<^item> \<open>disastrOS_semaphore_test2.c\<close>, the readers and writers program: \<open>Readers_Writers\<close>. A process is a
    \<open>prog\<close>, the tree of what it does next (system calls, accesses to the globals, status reports) for
    every answer; \<open>process_step\<close> is a step of the running process, and \<open>test_step\<close> adds timer interrupts
    and the main context and refines \<open>sys_step\<close>. \<open>Readers_Writers_Run\<close> follows single steps of the program through the theorems
    of the system calls, \<open>Semaphore_Rounds\<close> has the two calls that break the lists, and
    \<open>Readers_Writers_Breaks\<close> the run that gets there.
  \<^item> \<open>Prelude\<close> has the result type and the lemmas all theories share, \<open>Example_State\<close> the small
    system that the witnesses run on.

  \<^bold>\<open>How the code is modelled.\<close> Every function of the code is one definition, named as in the code,
  from a state to a result (\<open>error + state\<close>, with a value where the function returns one). A null or
  wild pointer that is dereferenced, an index out of bounds, a failed assertion and a loop that does
  not end are the errors \<open>NullDeref\<close>, \<open>OutOfBounds\<close>, \<open>AssertFailed\<close> and \<open>Hang\<close>. Loops that follow
  pointers are \<open>partial_function (option)\<close>, so that not ending is the value \<open>None\<close>, which
  \<open>run_loopE\<close> turns into \<open>Hang\<close>; there is no fuel, and every theorem about a result shows that the
  loops end. \<open>int\<close> is \<open>cint\<close> (a 32 bit word read with \<open>sint\<close>), \<open>long\<close> and pointers are 64 bit words;
  arithmetic wraps around. An \<open>int\<close> that is passed as a system call argument is sign extended into
  the register and truncated by the handler. A change of context (\<open>setcontext\<close>, \<open>swapcontext\<close>) ends
  the function, and what is resumed is part of the result (\<open>resume\<close>).

  \<^bold>\<open>What is assumed.\<close> The addresses of the static buffers and the sizes of the structs are the
  parameter \<open>static_mem\<close> of the initialisation functions. Memory of different struct types is
  disjoint, and the memory of the processes (\<open>user_mem\<close>, written to through the pointer passed to
  wait) is disjoint from that of the kernel. The kernel runs without a log file and the compiler
  option \<open>_LIST_DEBUG_\<close> is off. The handlers and the interrupt run to their end: the signal is masked
  in the trap, and a nested interrupt (the mask of the interrupt context is empty) would need one
  that lasts longer than 100 ms.

  \<^bold>\<open>What is shown.\<close> For the lists and the pools: refinement of abstract lists and sets of blocks,
  round trips, termination, bounds, the answers to wrong arguments. For every system call: its
  effect on each branch, errors and exhausted pools included, as a new state with new lists. For the
  scheduler: order of wake-ups and rotation of the queue. For exit and wait: the rendezvous. For the
  dispatch: every call function reaches its handler with its arguments. For the whole: the frame of
  every handler; the invariant \<open>kernel_inv\<close>, kept by all calls but a wait on a semaphore that is not
  free and a creation with a negative count (\<open>safe_call\<close>), and by fork and spawn until the process
  ids run out; its truth after the start and in every reachable state (\<open>sys_step\<close>, \<open>safe_step\<close>);
  and that calls in such states fail no assertion. For the readers and writers program: its accesses
  to the buffer stay in bounds and its processes end, whatever the kernel answers; and the run that
  starts on zeroed memory and is not interrupted (\<open>process_step\<close> alone) breaks the lists of the kernel.

  Outside of safe runs the effect of wait and post is described by the theorems of \<open>Semaphore_Calls\<close>
  with the invariant \<open>wait_ok\<close>: a wait on a busy semaphore queues the caller and lets it run on, so
  the process that runs is in the waiting list, and a preemption then puts it into a second list or
  drops it from the processor queue (\<open>Semaphore_Hazard\<close>); a process that waits and posts twice breaks
  the ready list without any preemption (\<open>Semaphore_Rounds\<close>).

  \<^bold>\<open>Not modelled.\<close> The messages the kernel writes on its way and the log file (nothing depends on them;
  where the arguments of a \<open>printf\<close> follow a pointer that may be null, the fault is in the model;
  the two calls of \<open>disastrOS_printStatus\<close> when nobody is left to run are left out, \<open>Printing\<close> says
  when they would fault); the set-up of signals, interval timer and contexts, which only calls the C library; the
  contents of the machine contexts beyond the entry function of a spawned process; the test
  programs \<open>disastrOS_test.c\<close> and \<open>disastrOS_semaphore_test.c\<close>, which use the kernel in the same way as
  the one that is modelled. In the readers and writers program an access to a global is one step, its
  messages and the unused global \<open>deposit\<close> are left out, and what \<open>va_arg\<close> finds when
  \<open>disastrOS_openSemaphore\<close> is called with two arguments is a parameter (\<open>te_no_count\<close>).
\<close>

end
